(* ===== verification/Prelude.thy ===== *)
theory Prelude
  imports
    Main
    "HOL-Library.Word"
    "HOL-Library.Char_ord"
    "HOL-Library.List_Lexorder"
    "HOL-Library.Product_Lexorder"
    "HOL-Library.Multiset"
    "HOL-Library.Finite_Map"
    "HOL-Library.Sublist"
begin

text \<open>
  Shared vocabulary of the development.

  Rust strings and byte slices are both \<open>char list\<close>: an Isabelle \<open>char\<close> is one byte, and the
  lexicographic order of \<^theory_text>\<open>HOL-Library.List_Lexorder\<close> over
  \<^theory_text>\<open>HOL-Library.Char_ord\<close> is Rust's byte-wise \<open>Ord\<close> on \<open>str\<close>. A \<open>BTreeMap\<close> is an
  \<open>fmap\<close>: finite, extensional, iterated in key order by \<open>sorted_list_of_fmap\<close>. A fallible
  function returns \<open>'e + 'a\<close> with \<open>Inl\<close> the error. The theory holds the small standard-library
  functions the sources call (ASCII case mapping, \<open>trim\<close>, \<open>rsplit_once\<close>, \<open>join\<close>, decimal
  rendering, \<open>iter().position\<close>, \<open>iter_mut().find\<close>) and the generic lemmas about them.
\<close>

section \<open>Types\<close>

type_synonym u8 = "8 word"
type_synonym u32 = "32 word"
type_synonym u64 = "64 word"
type_synonym i64 = "64 word"
type_synonym bytes = "char list"

text \<open>Collections the component proofs pass to the simplifier.\<close>

named_theorems result_simps \<open>unfolding of the error monad\<close>
named_theorems string_simps \<open>unfolding of the string helpers\<close>

section \<open>Results\<close>

definition try_res :: "'e + 'a \<Rightarrow> ('a \<Rightarrow> 'e + 'b) \<Rightarrow> 'e + 'b" where
  "try_res r f = (case r of Inl e \<Rightarrow> Inl e | Inr a \<Rightarrow> f a)"

definition is_ok :: "'e + 'a \<Rightarrow> bool" where
  "is_ok r = (case r of Inl _ \<Rightarrow> False | Inr _ \<Rightarrow> True)"

definition unwrap_or :: "'a \<Rightarrow> 'e + 'a \<Rightarrow> 'a" where
  "unwrap_or d r = (case r of Inl _ \<Rightarrow> d | Inr a \<Rightarrow> a)"

lemma try_res_simps [simp]:
  "try_res (Inl e) f = Inl e"
  "try_res (Inr a) f = f a"
  by (simp_all add: try_res_def)

lemma try_res_Inr_iff [result_simps]:
  "try_res r f = Inr b \<longleftrightarrow> (\<exists>a. r = Inr a \<and> f a = Inr b)"
  by (cases r) simp_all

lemma try_res_assoc: "try_res (try_res r f) g = try_res r (\<lambda>a. try_res (f a) g)"
  by (cases r) simp_all

lemma is_ok_simps [simp]: "is_ok (Inr a)" "\<not> is_ok (Inl e)"
  by (simp_all add: is_ok_def)

lemma is_ok_iff: "is_ok r \<longleftrightarrow> (\<exists>a. r = Inr a)"
  by (cases r) simp_all

lemma unwrap_or_simps [simp]: "unwrap_or d (Inr a) = a" "unwrap_or d (Inl e) = d"
  by (simp_all add: unwrap_or_def)

section \<open>Lists\<close>

text \<open>\<open>iter().position(p)\<close> and \<open>iter_mut().find(p)\<close> followed by a write through the reference.\<close>

fun position :: "('a \<Rightarrow> bool) \<Rightarrow> 'a list \<Rightarrow> nat option" where
  "position p [] = None"
| "position p (x # xs) = (if p x then Some 0 else map_option Suc (position p xs))"

fun update_first :: "('a \<Rightarrow> bool) \<Rightarrow> ('a \<Rightarrow> 'a) \<Rightarrow> 'a list \<Rightarrow> 'a list" where
  "update_first p f [] = []"
| "update_first p f (x # xs) = (if p x then f x # xs else x # update_first p f xs)"

text \<open>\<open>Vec::remove(i)\<close>, for an index in range.\<close>

definition remove_at :: "nat \<Rightarrow> 'a list \<Rightarrow> 'a list" where
  "remove_at i xs = take i xs @ drop (Suc i) xs"

lemma position_None_iff [simp]: "position p xs = None \<longleftrightarrow> (\<forall>x\<in>set xs. \<not> p x)"
  by (induction xs) auto

lemma position_SomeD:
  "position p xs = Some i \<Longrightarrow> i < length xs \<and> p (xs ! i) \<and> (\<forall>j<i. \<not> p (xs ! j))"
proof (induction xs arbitrary: i)
  case (Cons x xs)
  show ?case
  proof (cases "p x")
    case False
    with Cons.prems obtain k where "position p xs = Some k" and i: "i = Suc k"
      by auto
    with Cons.IH [of k] have "k < length xs \<and> p (xs ! k) \<and> (\<forall>j<k. \<not> p (xs ! j))"
      by simp
    with False i show ?thesis
      by (auto simp: less_Suc_eq_0_disj)
  qed (use Cons.prems in auto)
qed simp

lemma set_remove_at_subset: "set (remove_at i xs) \<subseteq> set xs"
  by (auto simp: remove_at_def dest: in_set_takeD in_set_dropD)

lemma length_update_first [simp]: "length (update_first p f xs) = length xs"
  by (induction xs) auto

lemma update_first_none: "(\<And>x. x \<in> set xs \<Longrightarrow> \<not> p x) \<Longrightarrow> update_first p f xs = xs"
  by (induction xs) auto

lemma map_update_first:
  "(\<And>x. p x \<Longrightarrow> g (f x) = g x) \<Longrightarrow> map g (update_first p f xs) = map g xs"
  by (induction xs) auto

lemma set_update_firstD:
  "y \<in> set (update_first p f xs) \<Longrightarrow> y \<in> set xs \<or> (\<exists>x\<in>set xs. p x \<and> y = f x)"
  by (induction xs) (auto split: if_splits)

lemma sort_key_eq_Nil [simp]: "sort_key f xs = [] \<longleftrightarrow> xs = []"
  using length_sort [of f xs] length_0_conv [of "sort_key f xs"] length_0_conv [of xs] by argo

lemma sorted_key_last: "sorted (map f xs) \<Longrightarrow> x \<in> set xs \<Longrightarrow> f x \<le> f (last xs)"
  by (induction xs) (auto split: if_splits)

lemma finite_max_key:
  fixes f :: "'a \<Rightarrow> 'b :: linorder"
  assumes "finite A" "A \<noteq> {}"
  obtains a where "a \<in> A" "\<And>b. b \<in> A \<Longrightarrow> f b \<le> f a"
proof -
  have "Max (f ` A) \<in> f ` A" using assms by (intro Max_in) auto
  then obtain a where "a \<in> A" "f a = Max (f ` A)" by auto
  with assms that show ?thesis by (metis Max_ge finite_imageI imageI)
qed

lemma sort_sort [simp]: "sort (sort xs) = sort (xs :: 'a :: linorder list)"
  by (rule properties_for_sort) simp_all

lemma sort_eq_iff_mset: "sort xs = sort ys \<longleftrightarrow> mset xs = mset (ys :: 'a :: linorder list)"
  by (metis mset_sort properties_for_sort sorted_sort)

section \<open>Ordered maps\<close>

lemma option_eqI: "(\<And>v. x = Some v \<longleftrightarrow> y = Some v) \<Longrightarrow> x = y"
  by (cases x; cases y) auto

lemma in_sorted_list_of_fmap [simp]: "(k, v) \<in> set (sorted_list_of_fmap m) \<longleftrightarrow> fmlookup m k = Some v"
  by (auto simp: sorted_list_of_fmap_def sorted_list_of_fset.rep_eq fmlookup_dom_iff image_iff)

lemma keys_sorted_list_of_fmap: "map fst (sorted_list_of_fmap m) = sorted_list_of_fset (fmdom m)"
  by (simp add: sorted_list_of_fmap_def comp_def)

lemma keys_sorted_distinct [simp]:
  "sorted (map fst (sorted_list_of_fmap m))" "distinct (map fst (sorted_list_of_fmap m))"
  by (simp_all add: keys_sorted_list_of_fmap sorted_list_of_fset.rep_eq)

lemma set_filter_keys:
  "k \<in> set (map fst (filter (\<lambda>kv. p (snd kv)) (sorted_list_of_fmap m))) \<longleftrightarrow> (\<exists>v. fmlookup m k = Some v \<and> p v)"
proof -
  have "k \<in> set (map fst (filter (\<lambda>kv. p (snd kv)) (sorted_list_of_fmap m))) \<longleftrightarrow>
      (\<exists>v. (k, v) \<in> set (sorted_list_of_fmap m) \<and> p v)" by (force simp del: in_sorted_list_of_fmap)
  then show ?thesis by simp
qed

section \<open>ASCII strings\<close>

definition is_ascii_lowercase :: "char \<Rightarrow> bool" where
  "is_ascii_lowercase c \<longleftrightarrow> CHR ''a'' \<le> c \<and> c \<le> CHR ''z''"

definition is_ascii_uppercase :: "char \<Rightarrow> bool" where
  "is_ascii_uppercase c \<longleftrightarrow> CHR ''A'' \<le> c \<and> c \<le> CHR ''Z''"

definition is_ascii_digit :: "char \<Rightarrow> bool" where
  "is_ascii_digit c \<longleftrightarrow> CHR ''0'' \<le> c \<and> c \<le> CHR ''9''"

definition is_ascii_alphanumeric :: "char \<Rightarrow> bool" where
  "is_ascii_alphanumeric c \<longleftrightarrow> is_ascii_lowercase c \<or> is_ascii_uppercase c \<or> is_ascii_digit c"

text \<open>ASCII white space: tab, line feed, vertical tab, form feed, carriage return, space.\<close>

definition is_white :: "char \<Rightarrow> bool" where
  "is_white c \<longleftrightarrow> (let n = (of_char c :: nat) in (9 \<le> n \<and> n \<le> 13) \<or> n = 32)"

definition lower_char :: "char \<Rightarrow> char" where
  "lower_char c = (if is_ascii_uppercase c then char_of (of_char c + (32 :: nat)) else c)"

definition upper_char :: "char \<Rightarrow> char" where
  "upper_char c = (if is_ascii_lowercase c then char_of (of_char c - (32 :: nat)) else c)"

definition to_lower :: "string \<Rightarrow> string" where
  "to_lower s = map lower_char s"

definition to_upper :: "string \<Rightarrow> string" where
  "to_upper s = map upper_char s"

definition trim :: "string \<Rightarrow> string" where
  "trim s = rev (dropWhile is_white (rev (dropWhile is_white s)))"

text \<open>\<open>str::rsplit_once(c)\<close>: the parts before and after the last occurrence.\<close>

definition rsplit_once :: "char \<Rightarrow> string \<Rightarrow> (string \<times> string) option" where
  "rsplit_once c s =
     (if c \<in> set s
      then Some (rev (tl (dropWhile (\<lambda>x. x \<noteq> c) (rev s))), rev (takeWhile (\<lambda>x. x \<noteq> c) (rev s)))
      else None)"

text \<open>\<open>[String]::join(sep)\<close>.\<close>

fun join :: "string \<Rightarrow> string list \<Rightarrow> string" where
  "join sep [] = []"
| "join sep [x] = x"
| "join sep (x # y # zs) = x @ sep @ join sep (y # zs)"

text \<open>Decimal rendering of an unsigned integer (\<open>to_string\<close>).\<close>

fun dec_str :: "nat \<Rightarrow> string" where
  "dec_str n = (if n < 10 then [char_of (48 + n)] else dec_str (n div 10) @ [char_of (48 + n mod 10)])"

declare dec_str.simps [simp del]

subsection \<open>Case mapping and trimming\<close>

lemmas char_class_defs [string_simps] =
  is_ascii_lowercase_def is_ascii_uppercase_def is_ascii_digit_def is_ascii_alphanumeric_def
  less_eq_char_def less_char_def

lemma of_char_lower: "(of_char (lower_char c) :: nat) = (if is_ascii_uppercase c then of_char c + 32 else of_char c)"
  by (auto simp: lower_char_def string_simps)

lemma of_char_upper: "(of_char (upper_char c) :: nat) = (if is_ascii_lowercase c then of_char c - 32 else of_char c)"
proof -
  have "(of_char c - 32 :: nat) < 256"
    by (rule le_less_trans [OF diff_le_self nat_of_char_less_256])
  then show ?thesis by (simp add: upper_char_def)
qed

lemma char_eq_nat: "c = d \<longleftrightarrow> (of_char c :: nat) = of_char d"
  by simp

lemma lower_lower_char [simp]: "lower_char (lower_char c) = lower_char c"
  unfolding char_eq_nat by (simp add: of_char_lower string_simps)

lemma upper_upper_char [simp]: "upper_char (upper_char c) = upper_char c"
  unfolding char_eq_nat by (simp add: of_char_upper string_simps; arith)

lemma upper_lower_char [simp]: "upper_char (lower_char c) = upper_char c"
  unfolding char_eq_nat by (simp add: of_char_upper string_simps of_char_lower)

lemma lower_upper_char [simp]: "lower_char (upper_char c) = lower_char c"
  unfolding char_eq_nat by (simp add: of_char_upper string_simps of_char_lower; arith)

lemma to_lower_simps [simp]:
  "to_lower [] = []" "to_lower (c # s) = lower_char c # to_lower s"
  "to_lower (s @ t) = to_lower s @ to_lower t"
  "length (to_lower s) = length s" "to_lower (to_lower s) = to_lower s"
  by (simp_all add: to_lower_def)

lemma to_upper_simps [simp]:
  "to_upper [] = []" "to_upper (c # s) = upper_char c # to_upper s"
  "to_upper (s @ t) = to_upper s @ to_upper t"
  "length (to_upper s) = length s" "to_upper (to_lower s) = to_upper s"
  "to_lower (to_upper s) = to_lower s" "to_upper (to_upper s) = to_upper s"
  by (simp_all add: to_upper_def to_lower_def)

lemma to_lower_eq_Nil [simp]: "to_lower s = [] \<longleftrightarrow> s = []"
  by (simp add: to_lower_def)

lemma set_to_lower: "set (to_lower s) = lower_char ` set s"
  by (simp add: to_lower_def)

lemma set_to_upper: "set (to_upper s) = upper_char ` set s"
  by (simp add: to_upper_def)

lemma trim_id: "(\<And>c. c \<in> set s \<Longrightarrow> \<not> is_white c) \<Longrightarrow> trim s = s"
proof -
  assume "\<And>c. c \<in> set s \<Longrightarrow> \<not> is_white c"
  then have "dropWhile is_white s = s" "dropWhile is_white (rev s) = rev s"
    by (auto simp: dropWhile_eq_self_iff hd_rev)
  then show ?thesis by (simp add: trim_def)
qed

lemma dropWhile_idem: "dropWhile p (dropWhile p xs) = dropWhile p xs"
  by (induction xs) auto

lemma dropWhile_snoc_keep: "\<not> p x \<Longrightarrow> dropWhile p (xs @ [x]) = dropWhile p xs @ [x]"
  by (induction xs) auto

lemma trim_trim [simp]: "trim (trim s) = trim s"
proof -
  define t where "t = dropWhile is_white s"
  have t: "dropWhile is_white t = t" by (simp add: t_def dropWhile_idem)
  have "dropWhile is_white (rev (dropWhile is_white (rev t))) = rev (dropWhile is_white (rev t))"
  proof (cases t)
    case (Cons c u)
    with t have "\<not> is_white c" by (metis dropWhile_eq_self_iff list.distinct(1) list.sel(1))
    then show ?thesis by (simp add: Cons dropWhile_snoc_keep)
  qed simp
  then show ?thesis by (simp add: trim_def t_def [symmetric] dropWhile_idem)
qed

lemma set_trim_subset: "set (trim s) \<subseteq> set s"
  unfolding trim_def by (auto dest!: set_dropWhileD)

lemma lower_not_white: "is_white (lower_char c) = is_white c"
  by (auto simp: is_white_def Let_def of_char_lower string_simps)

lemma dropWhile_map_lower: "dropWhile is_white (map lower_char s) = map lower_char (dropWhile is_white s)"
  by (induction s) (auto simp: lower_not_white)

lemma trim_to_lower: "trim (to_lower s) = to_lower (trim s)"
  by (simp add: trim_def to_lower_def dropWhile_map_lower rev_map)

subsection \<open>Splitting and joining\<close>

lemma rsplit_once_append: "c \<notin> set b \<Longrightarrow> rsplit_once c (a @ c # b) = Some (a, b)"
proof -
  assume c: "c \<notin> set b"
  then have b: "\<And>x. x \<in> set (rev b) \<Longrightarrow> x \<noteq> c" by auto
  have "takeWhile (\<lambda>x. x \<noteq> c) (rev b @ c # rev a) = rev b"
    by (subst takeWhile_append2 [OF b]) auto
  moreover have "dropWhile (\<lambda>x. x \<noteq> c) (rev b @ c # rev a) = c # rev a"
    by (subst dropWhile_append2 [OF b]) auto
  ultimately show ?thesis by (simp add: rsplit_once_def)
qed

lemma rsplit_once_None [simp]: "rsplit_once c s = None \<longleftrightarrow> c \<notin> set s"
  by (simp add: rsplit_once_def)

lemma rsplit_once_SomeD: "rsplit_once c s = Some (a, b) \<Longrightarrow> s = a @ c # b \<and> c \<notin> set b"
proof -
  assume s: "rsplit_once c s = Some (a, b)"
  then have "c \<in> set s" by (metis not_None_eq rsplit_once_None)
  then obtain u v where uv: "s = u @ c # v" "c \<notin> set v" by (meson split_list_last)
  with rsplit_once_append [of c v u] s show ?thesis by simp
qed

lemma cut_at_sep:
  "c \<notin> set a \<Longrightarrow> c \<notin> set b \<Longrightarrow> a @ c # u = b @ c # v \<longleftrightarrow> a = b \<and> u = v"
proof (induction a arbitrary: b)
  case Nil
  then show ?case by (cases b) auto
next
  case (Cons x a)
  then show ?case by (cases b) auto
qed

lemma cut_at_last_sep:
  assumes "(c :: char) \<notin> set b" "c \<notin> set b'"
  shows "a @ c # b = a' @ c # b' \<longleftrightarrow> a = a' \<and> b = b'"
proof
  assume "a @ c # b = a' @ c # b'"
  then have "rsplit_once c (a @ c # b) = rsplit_once c (a' @ c # b')" by (rule arg_cong)
  then show "a = a' \<and> b = b'" by (simp only: rsplit_once_append assms option.inject prod.inject not_False_eq_True)
qed simp

text \<open>A list of items, each followed by a separator none of them contains.\<close>

lemma terminated_inj:
  assumes "\<And>x. x \<in> set xs \<union> set ys \<Longrightarrow> c \<notin> set x"
    and "concat (map (\<lambda>x. x @ [c]) xs) = concat (map (\<lambda>x. x @ [c]) ys)"
  shows "xs = ys"
  using assms
proof (induction xs arbitrary: ys)
  case Nil
  then show ?case by (cases ys) auto
next
  case (Cons x xs)
  then obtain y zs where ys: "ys = y # zs" by (cases ys) auto
  have "c \<notin> set x" "c \<notin> set y" using Cons.prems(1) ys by auto
  from cut_at_sep [OF this] Cons.prems(2) ys have "x = y"
    "concat (map (\<lambda>x. x @ [c]) xs) = concat (map (\<lambda>x. x @ [c]) zs)" by auto
  with Cons.IH [of zs] Cons.prems(1) ys show ?case by auto
qed

lemma join_Cons: "xs \<noteq> [] \<Longrightarrow> join sep (x # xs) = x @ sep @ join sep xs"
  by (cases xs) auto

lemma set_join: "set (join [c] xs) \<subseteq> insert c (\<Union>(set ` set xs))"
  by (induction "[c]" xs rule: join.induct) auto

lemma join_sep_iff: "(\<And>x. x \<in> set xs \<Longrightarrow> c \<notin> set x) \<Longrightarrow> c \<in> set (join [c] xs) \<longleftrightarrow> 2 \<le> length xs"
  by (induction "[c]" xs rule: join.induct) auto

lemma join_inj:
  assumes "\<And>x. x \<in> set xs \<union> set ys \<Longrightarrow> c \<notin> set x" "xs \<noteq> []" "ys \<noteq> []"
    and "join [c] xs = join [c] ys"
  shows "xs = ys"
  using assms
proof (induction xs arbitrary: ys)
  case (Cons x xs)
  obtain y zs where ys: "ys = y # zs" using Cons.prems(3) by (cases ys) auto
  have cx: "c \<notin> set x" "c \<notin> set y" using Cons.prems(1) ys by auto
  consider "xs = []" "zs = []" | "xs = []" "zs \<noteq> []" | "xs \<noteq> []" "zs = []" | "xs \<noteq> []" "zs \<noteq> []"
    by blast
  then show ?case
  proof cases
    case 4
    then have "x @ c # join [c] xs = y @ c # join [c] zs"
      using Cons.prems(4) ys by (simp add: join_Cons)
    then have "x = y" "join [c] xs = join [c] zs" using cut_at_sep [OF cx] by auto
    with Cons.IH [of zs] Cons.prems(1) 4 ys show ?thesis by simp
  next
    case 2
    then have "x = y @ c # join [c] zs" using Cons.prems(4) ys by (simp add: join_Cons)
    with cx show ?thesis by auto
  next
    case 3
    then have "y = x @ c # join [c] xs" using Cons.prems(4) ys by (simp add: join_Cons)
    with cx show ?thesis by auto
  qed (use Cons.prems(4) ys in auto)
qed simp

text \<open>A list of non-empty items can also be told from the empty list once joined.\<close>

lemma join_Nil_iff: "(\<And>x. x \<in> set xs \<Longrightarrow> x \<noteq> []) \<Longrightarrow> join sep xs = [] \<longleftrightarrow> xs = []"
  by (cases "(sep, xs)" rule: join.cases) auto

lemma join_inj_nonempty:
  assumes "\<And>x. x \<in> set xs \<union> set ys \<Longrightarrow> c \<notin> set x \<and> x \<noteq> []" and "join [c] xs = join [c] ys"
  shows "xs = ys"
proof (cases "xs = [] \<or> ys = []")
  case True
  with assms join_Nil_iff [of xs "[c]"] join_Nil_iff [of ys "[c]"] show ?thesis by auto
next
  case False
  with assms show ?thesis by (intro join_inj [of xs ys c]) auto
qed

subsection \<open>Decimal numbers\<close>

definition dec_val :: "string \<Rightarrow> nat" where
  "dec_val s = foldl (\<lambda>a c. 10 * a + (of_char c - 48)) 0 s"

lemma dec_val_snoc: "dec_val (s @ [c]) = 10 * dec_val s + (of_char c - 48)"
  by (simp add: dec_val_def)

lemma of_digit: "d < 10 \<Longrightarrow> (of_char (char_of (48 + d :: nat)) :: nat) = 48 + d"
  by simp

lemma dec_val_dec_str [simp]: "dec_val (dec_str n) = n"
proof (induction n rule: dec_str.induct)
  case (1 n)
  show ?case
  proof (cases "n < 10")
    case True
    then show ?thesis by (subst dec_str.simps) (simp add: dec_val_def of_digit del: of_char_of)
  next
    case False
    with 1 have "dec_val (dec_str (n div 10)) = n div 10" by simp
    with False show ?thesis
      by (subst dec_str.simps) (simp add: dec_val_snoc of_digit del: of_char_of)
  qed
qed

lemma dec_str_inj [simp]: "dec_str m = dec_str n \<longleftrightarrow> m = n"
  by (metis dec_val_dec_str)

lemma dec_str_digits: "c \<in> set (dec_str n) \<Longrightarrow> is_ascii_digit c"
proof (induction n rule: dec_str.induct)
  case (1 n)
  show ?case
  proof (cases "n < 10")
    case True
    with "1.prems" show ?thesis
      by (subst (asm) dec_str.simps) (auto simp: string_simps of_digit simp del: of_char_of)
  next
    case False
    with 1 show ?thesis
      by (subst (asm) (2) dec_str.simps) (auto simp: string_simps of_digit simp del: of_char_of)
  qed
qed

lemma dec_str_nonempty [simp]: "dec_str n \<noteq> []"
  by (subst dec_str.simps) simp

section \<open>Evaluation on the bits of a character\<close>

lemma char_class_code [code]:
  "is_ascii_uppercase (Char b0 b1 b2 b3 b4 b5 b6 b7) \<longleftrightarrow>
     \<not> b7 \<and> b6 \<and> \<not> b5 \<and> (b0 \<or> b1 \<or> b2 \<or> b3 \<or> b4) \<and> \<not> (b4 \<and> b3 \<and> (b2 \<or> b1 \<and> b0))"
  "is_ascii_lowercase (Char b0 b1 b2 b3 b4 b5 b6 b7) \<longleftrightarrow>
     \<not> b7 \<and> b6 \<and> b5 \<and> (b0 \<or> b1 \<or> b2 \<or> b3 \<or> b4) \<and> \<not> (b4 \<and> b3 \<and> (b2 \<or> b1 \<and> b0))"
  "is_ascii_digit (Char b0 b1 b2 b3 b4 b5 b6 b7) \<longleftrightarrow> \<not> b7 \<and> \<not> b6 \<and> b5 \<and> b4 \<and> \<not> (b3 \<and> (b2 \<or> b1))"
  "is_white (Char b0 b1 b2 b3 b4 b5 b6 b7) \<longleftrightarrow> \<not> b7 \<and> \<not> b6 \<and> \<not> b4 \<and>
     (if b5 then \<not> (b0 \<or> b1 \<or> b2 \<or> b3) else b3 \<and> (b0 \<or> b1 \<or> b2) \<and> \<not> (b2 \<and> b1))"
  by (cases b0; cases b1; cases b2; cases b3; cases b4; cases b5; cases b6; cases b7;
      simp add: string_simps is_white_def Let_def)+

lemma case_map_code [code]:
  "lower_char (Char b0 b1 b2 b3 b4 b5 b6 b7) =
     (if is_ascii_uppercase (Char b0 b1 b2 b3 b4 b5 b6 b7) then Char b0 b1 b2 b3 b4 True b6 b7 else Char b0 b1 b2 b3 b4 b5 b6 b7)"
  "upper_char (Char b0 b1 b2 b3 b4 b5 b6 b7) =
     (if is_ascii_lowercase (Char b0 b1 b2 b3 b4 b5 b6 b7) then Char b0 b1 b2 b3 b4 False b6 b7 else Char b0 b1 b2 b3 b4 b5 b6 b7)"
proof -
  have "lower_char (Char b0 b1 b2 b3 b4 b5 b6 b7) = Char b0 b1 b2 b3 b4 True b6 b7"
    if "is_ascii_uppercase (Char b0 b1 b2 b3 b4 b5 b6 b7)"
    unfolding char_eq_nat of_char_lower using that by (auto simp: char_class_code)
  moreover have "upper_char (Char b0 b1 b2 b3 b4 b5 b6 b7) = Char b0 b1 b2 b3 b4 False b6 b7"
    if "is_ascii_lowercase (Char b0 b1 b2 b3 b4 b5 b6 b7)"
    unfolding char_eq_nat of_char_upper using that by (auto simp: char_class_code)
  ultimately show
    "lower_char (Char b0 b1 b2 b3 b4 b5 b6 b7) =
     (if is_ascii_uppercase (Char b0 b1 b2 b3 b4 b5 b6 b7) then Char b0 b1 b2 b3 b4 True b6 b7 else Char b0 b1 b2 b3 b4 b5 b6 b7)"
    "upper_char (Char b0 b1 b2 b3 b4 b5 b6 b7) =
     (if is_ascii_lowercase (Char b0 b1 b2 b3 b4 b5 b6 b7) then Char b0 b1 b2 b3 b4 False b6 b7 else Char b0 b1 b2 b3 b4 b5 b6 b7)"
    by (simp_all add: lower_char_def upper_char_def)
qed

lemma fst_set_sorted_fmap: "fst ` set (sorted_list_of_fmap m) = fmdom' m"
  by (simp only: set_map [symmetric] keys_sorted_list_of_fmap) (simp add: sorted_list_of_fset.rep_eq fmdom'_alt_def)

end
