(* ===== verification/Mesh_Error.thy ===== *)
theory Mesh_Error
  imports Prelude
begin

text \<open>
  The crate-wide error type of \<open>src/crates/myownmesh-core/src/error.rs\<close>. Each variant keeps its
  name; where the source attaches a human-readable message, the model attaches a constructor of
  its own for that message, so that two different refusals are two different values.
\<close>

datatype identity_reason =
    EmptyDeviceId
  | DeviceIdNotBase32
  | DeviceIdLength nat
  | DeviceIdNotKey
  | SuffixMismatch string
  | EmptyNetworkId
  | NetworkIdTooShort
  | NetworkIdTooLong
  | NetworkIdBadChar char

datatype signing_reason =
    SigningDeviceId identity_reason
  | SignerNotBase32
  | SignerLength nat
  | SignerNotKey
  | SignatureNotBase32
  | SignatureLength nat

datatype protocol_reason =
    SignerCountMismatch nat nat
  | NoSigners
  | FounderNeedsSigner
  | ReopenNeedsOwner
  | KindChangeNoOp
  | GrantOwnerNeedsOwner
  | GrantControllerNeedsAuthority
  | GrantMemberNeedsAuthority
  | RevokeOwnerNeedsOwner
  | RevokeNeedsAuthority
  | EvictOwnerNeedsOwner
  | EvictNeedsAuthority
  | SplitNeedsOneSigner
  | TopologyNoOp
  | TopologyNeedsOwner
  | TopologyClosedOnly
  | UnknownVariantRefused

datatype roster_reason =
    RosterVersionUnsupported u32

datatype network_reason =
    NoRoute string
  | NoForwarder string
  | PeerNotFound string
  | PeerEvicted
  | SignedMember
  | ConnectFailed string

datatype transport_reason =
    OutboxFull string
  | Abandoned string string
  | Expired string
  | SendFailed
  | SessionNotEstablished

datatype custody_reason =
    CodeRequired
  | SecretNotBase32
  | InvalidCode
  | AlreadyEnrolled string

datatype other_reason =
    ProposalNotFound string
  | ProposalDenied
  | AlreadySigned
  | AlreadyDenied
  | OnlyProposerWithdraws
  | OnlyProposerSplits
  | SplitAlreadySpawned
  | SplitOnlyForClose
  | StateVersionUnsupported u32

datatype error =
    EIo
  | ESerde
  | EIdentity identity_reason
  | ERoster roster_reason
  | ESigning signing_reason
  | EProtocol protocol_reason
  | ETransport transport_reason
  | ENetwork network_reason
  | ECustody custody_reason
  | ESignatureInvalid
  | EPeerDenied
  | EOther other_reason

type_synonym 'a result = "error + 'a"

end
