(* ===== verification/Identity.thy ===== *)
theory Identity
  imports Mesh_Error
begin

text \<open>
  Device identities and signatures: \<open>identity.rs\<close> (display tag, device-id and network-id
  normalisation), \<open>signing.rs\<close> (handshake payload, \<open>sign_with\<close>, \<open>verify\<close>, \<open>pubkey_part\<close>) and
  \<open>verification.rs\<close> (out-of-band codes). The crates these call (\<open>data_encoding\<close>, \<open>sha2\<close>,
  \<open>ed25519_dalek\<close>) are the fields of the record \<open>crypto\<close>, an argument of every definition that
  uses them; the lemmas name what they rely on. Strings are byte strings: case mapping and trimming
  are the ASCII ones.
\<close>

section \<open>Primitives outside the repository\<close>

record crypto =
  b32_encode :: "bytes \<Rightarrow> string"
  b32_decode :: "string \<Rightarrow> bytes option"
  sha256 :: "bytes \<Rightarrow> bytes"
  vk_valid :: "bytes \<Rightarrow> bool"
  ed_verify :: "bytes \<Rightarrow> bytes \<Rightarrow> bytes \<Rightarrow> bool"
  ed_public :: "bytes \<Rightarrow> bytes"
  ed_sign :: "bytes \<Rightarrow> bytes \<Rightarrow> bytes"

section \<open>Identity\<close>

text \<open>\<open>Identity\<close>: the signing key (its seed), the encoded public key, the label.\<close>

record identity =
  id_signing_key :: bytes
  id_public_id :: string
  id_label :: string

definition from_signing_key :: "crypto \<Rightarrow> bytes \<Rightarrow> string \<Rightarrow> identity" where
  "from_signing_key c key lbl =
     \<lparr>id_signing_key = key, id_public_id = to_lower (b32_encode c (ed_public c key)), id_label = lbl\<rparr>"

definition set_label :: "identity \<Rightarrow> string \<Rightarrow> identity" where
  "set_label i new_label = i\<lparr>id_label := new_label\<rparr>"

definition hex_digit :: "nat \<Rightarrow> char" where
  "hex_digit n = (if n < 10 then char_of (48 + n) else char_of (55 + n))"

definition hex_byte :: "char \<Rightarrow> string" where
  "hex_byte b = [hex_digit (of_char b div 16), hex_digit (of_char b mod 16)]"

definition display_suffix :: "crypto \<Rightarrow> bytes \<Rightarrow> string" where
  "display_suffix c pubkey_string_bytes =
     take 5 (concat (map hex_byte (take 3 (sha256 c pubkey_string_bytes))))"

definition display_id :: "crypto \<Rightarrow> identity \<Rightarrow> string" where
  "display_id c i = id_public_id i @ ''-'' @ display_suffix c (id_public_id i)"

definition PUBLIC_KEY_LENGTH :: nat where "PUBLIC_KEY_LENGTH = 32"
definition SIGNATURE_LENGTH :: nat where "SIGNATURE_LENGTH = 64"

definition split_suffix :: "string \<Rightarrow> string \<times> string option" where
  "split_suffix trimmed =
     (case rsplit_once (CHR ''-'') trimmed of
        Some (body, sfx) \<Rightarrow> if length sfx = 5 then (body, Some sfx) else (trimmed, None)
      | None \<Rightarrow> (trimmed, None))"

definition normalize_device_id :: "crypto \<Rightarrow> string \<Rightarrow> string result" where
  "normalize_device_id c input =
     (let trimmed = trim input in
      if trimmed = [] then Inl (EIdentity EmptyDeviceId) else
      let (body, supplied_suffix) = split_suffix trimmed;
          canonical = to_lower body in
      (case b32_decode c (to_upper canonical) of
         None \<Rightarrow> Inl (EIdentity DeviceIdNotBase32)
       | Some decoded \<Rightarrow>
           if length decoded \<noteq> PUBLIC_KEY_LENGTH then Inl (EIdentity (DeviceIdLength (length decoded)))
           else if \<not> vk_valid c decoded then Inl (EIdentity DeviceIdNotKey)
           else (case supplied_suffix of
                   None \<Rightarrow> Inr canonical
                 | Some supplied \<Rightarrow>
                     let expected = display_suffix c canonical in
                     if to_lower supplied \<noteq> to_lower expected
                     then Inl (EIdentity (SuffixMismatch expected))
                     else Inr canonical)))"

definition network_char_ok :: "char \<Rightarrow> bool" where
  "network_char_ok ch \<longleftrightarrow> is_ascii_alphanumeric ch \<or> ch = CHR ''-'' \<or> ch = CHR ''_''"

definition normalize_network_id :: "string \<Rightarrow> string result" where
  "normalize_network_id input =
     (let trimmed = to_lower (trim input) in
      if trimmed = [] then Inl (EIdentity EmptyNetworkId)
      else if length trimmed < 3 then Inl (EIdentity NetworkIdTooShort)
      else if length trimmed > 64 then Inl (EIdentity NetworkIdTooLong)
      else (case find (\<lambda>ch. \<not> network_char_ok ch) trimmed of
              Some ch \<Rightarrow> Inl (EIdentity (NetworkIdBadChar ch))
            | None \<Rightarrow> Inr trimmed))"

text \<open>\<open>generate_network_id\<close> and \<open>generate_code\<close>, from the random bytes the OS supplied.\<close>

definition CODE_ALPHABET :: string where
  "CODE_ALPHABET = ''abcdefghijklmnopqrstuvwxyz0123456789''"

definition code_of_bytes :: "bytes \<Rightarrow> string" where
  "code_of_bytes bs = map (\<lambda>b. CODE_ALPHABET ! (of_char b mod length CODE_ALPHABET)) bs"

definition generate_network_id :: "bytes \<Rightarrow> string" where
  "generate_network_id rnd = code_of_bytes rnd"

definition VERIFICATION_CODE_LEN :: nat where "VERIFICATION_CODE_LEN = 6"

definition generate_code :: "bytes \<Rightarrow> string" where
  "generate_code rnd = code_of_bytes rnd"

definition is_well_formed :: "string \<Rightarrow> bool" where
  "is_well_formed code \<longleftrightarrow>
     length code = VERIFICATION_CODE_LEN \<and>
     (\<forall>ch\<in>set code. is_ascii_lowercase ch \<or> is_ascii_digit ch)"

section \<open>Signing\<close>

definition SIGN_DOMAIN_TAG :: string where
  "SIGN_DOMAIN_TAG = ''myownmesh-mesh-auth-v1:''"

definition handshake_payload :: "string \<Rightarrow> string \<Rightarrow> string \<Rightarrow> string \<Rightarrow> bytes" where
  "handshake_payload nonce my_device_id their_device_id channel_binding =
     SIGN_DOMAIN_TAG @ nonce @ ''|'' @ my_device_id @ ''|'' @ their_device_id @ ''|'' @ channel_binding"

definition sign_with :: "crypto \<Rightarrow> bytes \<Rightarrow> bytes \<Rightarrow> string" where
  "sign_with c key message = to_lower (b32_encode c (ed_sign c key message))"

definition verify :: "crypto \<Rightarrow> string \<Rightarrow> bytes \<Rightarrow> string \<Rightarrow> bool result" where
  "verify c device_id message signature_b32 =
     (case normalize_device_id c device_id of
        Inl (EIdentity r) \<Rightarrow> Inl (ESigning (SigningDeviceId r))
      | Inl e \<Rightarrow> Inl e
      | Inr pubkey_part_str \<Rightarrow>
        (case b32_decode c (to_upper pubkey_part_str) of
           None \<Rightarrow> Inl (ESigning SignerNotBase32)
         | Some pubkey_bytes \<Rightarrow>
           if length pubkey_bytes \<noteq> PUBLIC_KEY_LENGTH
           then Inl (ESigning (SignerLength (length pubkey_bytes)))
           else if \<not> vk_valid c pubkey_bytes then Inl (ESigning SignerNotKey)
           else (case b32_decode c (to_upper signature_b32) of
                   None \<Rightarrow> Inl (ESigning SignatureNotBase32)
                 | Some sig_bytes \<Rightarrow>
                   if length sig_bytes \<noteq> SIGNATURE_LENGTH
                   then Inl (ESigning (SignatureLength (length sig_bytes)))
                   else Inr (ed_verify c pubkey_bytes message sig_bytes))))"

definition pubkey_part :: "string \<Rightarrow> string" where
  "pubkey_part device_id =
     (case rsplit_once (CHR ''-'') device_id of
        Some (body, sfx) \<Rightarrow>
          if length sfx = 5 \<and> (\<forall>ch\<in>set sfx. is_ascii_alphanumeric ch) then body else device_id
      | None \<Rightarrow> device_id)"

section \<open>What the lemmas rely on of the external crates\<close>

text \<open>
  \<open>BASE32_NOPAD\<close> decodes only strings over its RFC 4648 alphabet, and the empty string to no bytes;
  SHA-256 digests are 32 bytes.
\<close>

definition is_b32_char :: "char \<Rightarrow> bool" where
  "is_b32_char ch \<longleftrightarrow> is_ascii_uppercase ch \<or> (CHR ''2'' \<le> ch \<and> ch \<le> CHR ''7'')"

definition b32_documented :: "crypto \<Rightarrow> bool" where
  "b32_documented c \<longleftrightarrow>
     b32_decode c [] = Some [] \<and> (\<forall>s b. b32_decode c s = Some b \<longrightarrow> list_all is_b32_char s)"

definition sha256_len :: "crypto \<Rightarrow> bool" where
  "sha256_len c \<longleftrightarrow> (\<forall>m. length (sha256 c m) = 32)"

definition key_bytes_ok :: "crypto \<Rightarrow> string \<Rightarrow> bool" where
  "key_bytes_ok c s \<longleftrightarrow>
     (case b32_decode c s of
        None \<Rightarrow> False
      | Some d \<Rightarrow> length d = PUBLIC_KEY_LENGTH \<and> vk_valid c d)"

section \<open>Display tags\<close>

lemma of_char_of_lt: "n < 256 \<Longrightarrow> (of_char (char_of (n :: nat)) :: nat) = n"
  by simp

lemma hex_digit_alnum: "n < 16 \<Longrightarrow> is_ascii_alphanumeric (hex_digit n)"
  by (auto simp: hex_digit_def string_simps of_char_of_lt simp del: of_char_of)

lemma hex_byte_alnum: "ch \<in> set (hex_byte b) \<Longrightarrow> is_ascii_alphanumeric ch"
proof -
  have "(of_char b :: nat) < 256" by simp
  then have "(of_char b :: nat) div 16 < 16" by linarith
  then show "ch \<in> set (hex_byte b) \<Longrightarrow> is_ascii_alphanumeric ch"
    by (auto simp: hex_byte_def intro: hex_digit_alnum)
qed

lemma display_suffix_alnum: "ch \<in> set (display_suffix c m) \<Longrightarrow> is_ascii_alphanumeric ch"
  by (auto simp: display_suffix_def hex_byte_alnum dest!: in_set_takeD)

lemma length_display_suffix: "sha256_len c \<Longrightarrow> length (display_suffix c m) = 5"
proof -
  assume "sha256_len c"
  then have "length (take 3 (sha256 c m)) = 3" by (simp add: sha256_len_def)
  moreover have "length (concat (map hex_byte xs)) = 2 * length xs" for xs
    by (induction xs) (simp_all add: hex_byte_def)
  ultimately show ?thesis by (simp add: display_suffix_def)
qed

lemma alnum_not_dash: "is_ascii_alphanumeric ch \<Longrightarrow> ch \<noteq> CHR ''-''"
  by (auto simp: string_simps)

lemma alnum_not_white: "is_ascii_alphanumeric ch \<Longrightarrow> \<not> is_white ch"
  by (auto simp: string_simps is_white_def Let_def)

lemma lower_alnum: "is_ascii_alphanumeric (lower_char ch) = is_ascii_alphanumeric ch"
  by (auto simp: string_simps of_char_lower)

lemma upper_alnum: "is_ascii_alphanumeric (upper_char ch) = is_ascii_alphanumeric ch"
  by (auto simp: string_simps of_char_upper)

section \<open>Normal forms of device ids\<close>

text \<open>The shape of a canonical device id: lower-case, alphanumeric, decoding to a valid key.\<close>

definition canonical_id :: "crypto \<Rightarrow> string \<Rightarrow> bool" where
  "canonical_id c x \<longleftrightarrow>
     x \<noteq> [] \<and> to_lower x = x \<and> (\<forall>ch\<in>set x. is_ascii_alphanumeric ch) \<and> key_bytes_ok c (to_upper x)"

lemma b32_char_alnum: "is_b32_char ch \<Longrightarrow> is_ascii_alphanumeric ch"
  by (auto simp: is_b32_char_def string_simps)

lemma split_suffix_body: "split_suffix s = (body, None) \<Longrightarrow> body = s"
  by (auto simp: split_suffix_def split: option.splits if_splits)

lemma split_suffix_dash: "CHR ''-'' \<notin> set s \<Longrightarrow> split_suffix s = (s, None)"
  by (simp add: split_suffix_def rsplit_once_def)

lemma split_suffix_append:
  "length t = 5 \<Longrightarrow> CHR ''-'' \<notin> set t \<Longrightarrow> split_suffix (s @ CHR ''-'' # t) = (s, Some t)"
  by (simp add: split_suffix_def rsplit_once_append)

lemma normalize_device_id_cases:
  assumes "normalize_device_id c d = Inr x"
  obtains body sup where "split_suffix (trim d) = (body, sup)" "x = to_lower body"
    "key_bytes_ok c (to_upper x)"
  using assms
  by (auto simp: normalize_device_id_def key_bytes_ok_def Let_def
      split: prod.splits option.splits if_splits)

lemma normalize_canonical:
  assumes "b32_documented c" "normalize_device_id c d = Inr x"
  shows "canonical_id c x"
proof -
  obtain body sup where x: "x = to_lower body" and ok: "key_bytes_ok c (to_upper x)"
    using normalize_device_id_cases [OF assms(2)] by metis
  then obtain b where b: "b32_decode c (to_upper x) = Some b" "length b = PUBLIC_KEY_LENGTH"
    by (auto simp: key_bytes_ok_def split: option.splits)
  with assms(1) have "list_all is_b32_char (to_upper x)" by (auto simp: b32_documented_def)
  then have alnum: "\<forall>ch\<in>set x. is_ascii_alphanumeric ch"
    using b32_char_alnum upper_alnum by (force simp: list_all_iff set_to_upper)
  have "x \<noteq> []"
    using b assms(1) by (auto simp: b32_documented_def PUBLIC_KEY_LENGTH_def)
  with x ok alnum show ?thesis by (auto simp: canonical_id_def)
qed

lemma canonical_id_no_dash: "canonical_id c x \<Longrightarrow> CHR ''-'' \<notin> set x"
  by (auto simp: canonical_id_def dest: alnum_not_dash)

lemma canonical_id_trim: "canonical_id c x \<Longrightarrow> trim x = x"
  by (rule trim_id) (auto simp: canonical_id_def dest: alnum_not_white)

lemma canonical_id_decode:
  assumes "canonical_id c x"
  obtains d where "b32_decode c (to_upper x) = Some d" "length d = PUBLIC_KEY_LENGTH" "vk_valid c d"
  using assms by (auto simp: canonical_id_def key_bytes_ok_def split: option.splits)

lemma normalize_fixed: "canonical_id c x \<Longrightarrow> normalize_device_id c x = Inr x"
  by (rule canonical_id_decode)
    (auto simp: normalize_device_id_def canonical_id_trim split_suffix_dash canonical_id_no_dash
      canonical_id_def Let_def)

lemma pubkey_part_no_dash: "CHR ''-'' \<notin> set x \<Longrightarrow> pubkey_part x = x"
  by (simp add: pubkey_part_def rsplit_once_def)

lemma pubkey_part_canonical: "canonical_id c x \<Longrightarrow> pubkey_part x = x"
  by (rule pubkey_part_no_dash) (rule canonical_id_no_dash)

lemma display_suffix_no_dash: "CHR ''-'' \<notin> set (display_suffix c m)"
  using display_suffix_alnum alnum_not_dash by blast

lemma pubkey_part_display:
  "sha256_len c \<Longrightarrow> pubkey_part (x @ CHR ''-'' # display_suffix c x) = x"
  by (simp add: pubkey_part_def rsplit_once_append display_suffix_no_dash length_display_suffix
      display_suffix_alnum)

lemma normalize_display_form:
  assumes c: "canonical_id c x" and len: "sha256_len c"
  shows "normalize_device_id c (to_upper (x @ CHR ''-'' # display_suffix c x)) = Inr x"
proof -
  let ?t = "to_upper (display_suffix c x)"
  have up: "upper_char CHR ''-'' = CHR ''-''" by (simp add: upper_char_def string_simps)
  have dash: "CHR ''-'' \<notin> set ?t"
    using display_suffix_alnum upper_alnum alnum_not_dash by (fastforce simp: set_to_upper)
  have nw: "\<And>ch. ch \<in> set (to_upper x @ CHR ''-'' # ?t) \<Longrightarrow> \<not> is_white ch"
    using c display_suffix_alnum upper_alnum alnum_not_white
    by (fastforce simp: set_to_upper canonical_id_def is_white_def Let_def)
  have tr: "trim (to_upper x @ CHR ''-'' # ?t) = to_upper x @ CHR ''-'' # ?t"
    using nw by (rule trim_id)
  have sp: "split_suffix (to_upper x @ CHR ''-'' # ?t) = (to_upper x, Some ?t)"
    by (rule split_suffix_append) (simp_all add: length_display_suffix len dash)
  have low: "to_lower x = x" using c by (simp add: canonical_id_def)
  show ?thesis
    by (rule canonical_id_decode [OF c])
      (simp add: normalize_device_id_def up tr sp low Let_def)
qed

lemma verify_normalized:
  "b32_documented c \<Longrightarrow> normalize_device_id c d = Inr x \<Longrightarrow> verify c d m s = verify c x m s"
  by (simp add: verify_def normalize_fixed normalize_canonical)

lemma verify_Inr_True_decode:
  "verify c d m s = Inr True \<longleftrightarrow>
     (\<exists>x pk sb. normalize_device_id c d = Inr x \<and> b32_decode c (to_upper x) = Some pk \<and>
        length pk = PUBLIC_KEY_LENGTH \<and> vk_valid c pk \<and>
        b32_decode c (to_upper s) = Some sb \<and> length sb = SIGNATURE_LENGTH \<and> ed_verify c pk m sb)"
  by (auto simp: verify_def split: sum.splits option.splits error.splits if_splits)

section \<open>Generated codes and network ids\<close>

lemma code_of_bytes_chars: "ch \<in> set (code_of_bytes bs) \<Longrightarrow> is_ascii_lowercase ch \<or> is_ascii_digit ch"
proof -
  assume ch: "ch \<in> set (code_of_bytes bs)"
  have "0 < length CODE_ALPHABET" by (simp add: CODE_ALPHABET_def)
  then have "CODE_ALPHABET ! (n mod length CODE_ALPHABET) \<in> set CODE_ALPHABET" for n
    by (intro nth_mem mod_less_divisor)
  with ch have "ch \<in> set CODE_ALPHABET" by (auto simp: code_of_bytes_def)
  moreover have "\<forall>ch\<in>set CODE_ALPHABET. is_ascii_lowercase ch \<or> is_ascii_digit ch"
    by (simp add: CODE_ALPHABET_def string_simps)
  ultimately show ?thesis by blast
qed

lemma length_code_of_bytes [simp]: "length (code_of_bytes bs) = length bs"
  by (simp add: code_of_bytes_def)

lemma lower_alnum_lower: "is_ascii_lowercase ch \<or> is_ascii_digit ch \<Longrightarrow> lower_char ch = ch"
  by (auto simp: lower_char_def string_simps)

lemma normalize_network_id_shape:
  assumes "normalize_network_id s = Inr x"
  shows "3 \<le> length x \<and> length x \<le> 64 \<and> to_lower x = x \<and> trim x = x \<and> (\<forall>ch\<in>set x. network_char_ok ch)"
  using assms
  by (auto simp: normalize_network_id_def Let_def find_None_iff trim_to_lower
      split: if_splits option.splits)

lemma normalize_network_id_fixed:
  assumes "3 \<le> length x" "length x \<le> 64" "to_lower x = x" "trim x = x" "\<forall>ch\<in>set x. network_char_ok ch"
  shows "normalize_network_id x = Inr x"
proof -
  have "find (\<lambda>ch. \<not> network_char_ok ch) x = None" using assms(5) by (simp add: find_None_iff)
  moreover have "x \<noteq> []" using assms(1) by auto
  ultimately show ?thesis using assms by (simp add: normalize_network_id_def)
qed

lemma generated_network_id_normal:
  assumes "length rnd = 8"
  shows "normalize_network_id (generate_network_id rnd) = Inr (generate_network_id rnd)"
proof (rule normalize_network_id_fixed)
  let ?x = "generate_network_id rnd"
  have ch: "ch \<in> set ?x \<Longrightarrow> is_ascii_lowercase ch \<or> is_ascii_digit ch" for ch
    unfolding generate_network_id_def by (rule code_of_bytes_chars)
  show "to_lower ?x = ?x"
    unfolding to_lower_def by (rule map_idI) (rule lower_alnum_lower [OF ch])
  show "trim ?x = ?x"
    using ch by (intro trim_id alnum_not_white) (auto simp: is_ascii_alphanumeric_def)
  show "\<forall>ch\<in>set ?x. network_char_ok ch"
    using ch by (auto simp: network_char_ok_def is_ascii_alphanumeric_def)
qed (simp_all add: generate_network_id_def assms)

lemma b32_char_code [code]:
  "is_b32_char (Char b0 b1 b2 b3 b4 b5 b6 b7) \<longleftrightarrow>
     \<not> b7 \<and> (if b6 then \<not> b5 \<and> (b0 \<or> b1 \<or> b2 \<or> b3 \<or> b4) \<and> \<not> (b4 \<and> b3 \<and> (b2 \<or> b1 \<and> b0))
             else b5 \<and> b4 \<and> \<not> b3 \<and> (b2 \<or> b1))"
  by (cases b0; cases b1; cases b2; cases b3; cases b4; cases b5; cases b6; cases b7;
      simp add: is_b32_char_def string_simps)

section \<open>A concrete instance\<close>

text \<open>
  The primitives instantiated by functions that compute. Device ids are single letters and signatures
  two: decoding repeats the letter to the length of a key or of a signature. The examples run on it.
\<close>

definition sample_crypto :: crypto where
  "sample_crypto = \<lparr>b32_encode = (\<lambda>b. if length b = 64 then [hd b, hd b] else take 1 b),
     b32_decode = (\<lambda>s. if list_all is_b32_char s
        then Some (case s of [] \<Rightarrow> [] | [x] \<Rightarrow> replicate 32 x | x # _ \<Rightarrow> replicate 64 x) else None),
     sha256 = (\<lambda>m. replicate 32 (CHR ''A'')), vk_valid = (\<lambda>_. True), ed_verify = (\<lambda>pk m s. hd s = hd pk),
     ed_public = (\<lambda>k. k), ed_sign = (\<lambda>k m. replicate 64 (hd k))\<rparr>"

section \<open>Properties\<close>

text \<open>
  Every accepted spelling of a device id denotes one canonical id. Normalizing is idempotent, the
  upper-cased display form with its checksum suffix normalizes back to it, stripping the suffix of the
  display form gives it, and a signature verifies under the spelling exactly when it verifies under the
  canonical id.
\<close>

theorem device_id_round_trip:
  assumes "b32_documented c" "sha256_len c" "normalize_device_id c d = Inr x"
  shows "normalize_device_id c x = Inr x \<and>
     normalize_device_id c (to_upper (x @ CHR ''-'' # display_suffix c x)) = Inr x \<and>
     pubkey_part (x @ CHR ''-'' # display_suffix c x) = x \<and> verify c d m s = verify c x m s"
proof (intro conjI)
  have x: "canonical_id c x" using assms(1,3) by (rule normalize_canonical)
  show "normalize_device_id c x = Inr x" using x by (rule normalize_fixed)
  show "normalize_device_id c (to_upper (x @ CHR ''-'' # display_suffix c x)) = Inr x"
    using x assms(2) by (rule normalize_display_form)
  show "pubkey_part (x @ CHR ''-'' # display_suffix c x) = x" using assms(2) by (rule pubkey_part_display)
  show "verify c d m s = verify c x m s" using assms(1,3) by (rule verify_normalized)
qed

lemma sample_documented: "b32_documented sample_crypto" "sha256_len sample_crypto"
  by (auto simp: b32_documented_def sha256_len_def sample_crypto_def split: if_splits)

theorem device_id_round_trip_witness:
  "normalize_device_id sample_crypto ('' B-41414 '') = Inr ''b'' \<and>
   normalize_device_id sample_crypto ''b'' = Inr ''b''"
proof
  show n: "normalize_device_id sample_crypto ('' B-41414 '') = Inr ''b''"
    by code_simp
  show "normalize_device_id sample_crypto ''b'' = Inr ''b''"
    by (rule device_id_round_trip [OF sample_documented n, THEN conjunct1])
qed

text \<open>
  A freshly generated network id is already in normal form: joining with it, or with any spelling
  of it in other letter case and with surrounding blanks, reaches the same network.
\<close>

theorem network_id_normal_form:
  assumes "length rnd = 8" "normalize_network_id s = Inr x"
  shows "normalize_network_id (generate_network_id rnd) = Inr (generate_network_id rnd) \<and> normalize_network_id x = Inr x"
  using generated_network_id_normal [OF assms(1)] normalize_network_id_shape [OF assms(2)]
  by (auto intro: normalize_network_id_fixed)

theorem network_id_normal_form_witness:
  "normalize_network_id '' My-Mesh '' = Inr ''my-mesh'' \<and> normalize_network_id ''my-mesh'' = Inr ''my-mesh''"
proof -
  have rnd: "length ''abcdefgh'' = 8" and n: "normalize_network_id '' My-Mesh '' = Inr ''my-mesh''" by code_simp+
  from network_id_normal_form [OF rnd n] n show ?thesis by blast
qed

end
