(* ===== verification/Topology.thy ===== *)
theory Topology
  imports Identity
begin

text \<open>
  Topology selectors: \<open>config.rs\<close> (\<open>TopologyMode\<close>) and \<open>topology/{mod,ring,star,hubs,fullmesh}.rs\<close>.
  A trait object is a value of \<open>topology_impl\<close>; each trait method is one dispatching function. A
  \<open>HashSet<String>\<close> is a \<open>string set\<close>. The locale \<open>shape\<close> states the trait's contract (symmetric
  edges, answers drawn from the input, preferred links are edges), \<open>connected_shape\<close> adds that the
  edges connect the members; both are interpreted on the dispatching functions for every mode.
\<close>

section \<open>Modes\<close>

datatype topology_mode =
    Ring "u32 option"
  | Star string
  | Hubs "string list" "u32 option"
  | FullMesh

definition default_topology_mode :: topology_mode where
  "default_topology_mode = FullMesh"

definition DEFAULT_RING_N_PREFERRED :: u32 where "DEFAULT_RING_N_PREFERRED = 3"
definition DEFAULT_SPOKE_REDUNDANCY :: u32 where "DEFAULT_SPOKE_REDUNDANCY = 2"

definition effective_n_preferred :: "topology_mode \<Rightarrow> u32" where
  "effective_n_preferred m =
     (case m of
        Ring n_preferred \<Rightarrow> (case n_preferred of None \<Rightarrow> DEFAULT_RING_N_PREFERRED | Some n \<Rightarrow> n)
      | _ \<Rightarrow> 0)"

datatype topology_impl =
    RingSelector u32
  | StarSelector string
  | HubsSelector "string list" u32
  | FullMeshSelector

definition from_mode :: "topology_mode \<Rightarrow> topology_impl" where
  "from_mode mode =
     (case mode of
        Ring n_preferred \<Rightarrow>
          RingSelector (case n_preferred of None \<Rightarrow> DEFAULT_RING_N_PREFERRED | Some n \<Rightarrow> n)
      | Star hub \<Rightarrow> StarSelector hub
      | Hubs hubs spoke_redundancy \<Rightarrow>
          HubsSelector hubs
            (max (case spoke_redundancy of None \<Rightarrow> DEFAULT_SPOKE_REDUNDANCY | Some r \<Rightarrow> r) 1)
      | FullMesh \<Rightarrow> FullMeshSelector)"

section \<open>Ring\<close>

text \<open>
  The loop of \<open>select_ring_neighbors\<close> that walks outward from our position. \<open>break\<close> on reaching
  the capacity after the clockwise step is the early return of the grown set.
\<close>

function ring_fill :: "string list \<Rightarrow> nat \<Rightarrow> string \<Rightarrow> nat \<Rightarrow> nat \<Rightarrow> string set \<Rightarrow> string set" where
  "ring_fill ring my_idx self_pubkey n dist preferred =
     (if card preferred < n \<and> dist < length ring then
        let cw = ring ! ((my_idx + dist) mod length ring);
            fresh = cw \<noteq> self_pubkey \<and> cw \<notin> preferred;
            preferred1 = (if fresh then insert cw preferred else preferred)
        in if fresh \<and> n \<le> card preferred1 then preferred1
           else
             let ccw = ring ! ((my_idx + length ring - dist) mod length ring);
                 preferred2 = (if ccw \<noteq> self_pubkey \<and> ccw \<notin> preferred1
                               then insert ccw preferred1 else preferred1)
             in ring_fill ring my_idx self_pubkey n (dist + 1) preferred2
      else preferred)"
  by pat_completeness auto
termination
  by (relation "measure (\<lambda>(ring, _, _, _, dist, _). length ring - dist)") auto

declare ring_fill.simps [simp del]

text \<open>\<open>BTreeSet\<close> of the peers and ourselves, collected in order.\<close>

definition ring_order :: "string \<Rightarrow> string list \<Rightarrow> string list" where
  "ring_order self_pubkey peer_pubkeys = sorted_list_of_set (insert self_pubkey (set peer_pubkeys))"

definition select_ring_neighbors :: "string \<Rightarrow> string list \<Rightarrow> u32 \<Rightarrow> string set" where
  "select_ring_neighbors self_pubkey peer_pubkeys n_preferred =
     (let n = unat n_preferred in
      if peer_pubkeys = [] then {}
      else if length peer_pubkeys \<le> n then set peer_pubkeys
      else
        let ring = ring_order self_pubkey peer_pubkeys in
        (case position (\<lambda>s. s = self_pubkey) ring of
           None \<Rightarrow> {}
         | Some my_idx \<Rightarrow>
           let ring_len = length ring;
               preferred =
                 (if 1 < ring_len
                  then {ring ! ((my_idx + 1) mod ring_len), ring ! ((my_idx + ring_len - 1) mod ring_len)}
                  else {})
           in ring_fill ring my_idx self_pubkey n 2 preferred))"

definition push_missing :: "string \<Rightarrow> string list \<Rightarrow> string \<Rightarrow> string list" where
  "push_missing me v extra = (if extra \<noteq> me \<and> extra \<notin> set v then v @ [extra] else v)"

definition ring_others :: "string \<Rightarrow> string \<Rightarrow> string list \<Rightarrow> string \<Rightarrow> string list" where
  "ring_others a b all_ids me = foldl (push_missing me) (filter (\<lambda>x. x \<noteq> me) all_ids) [a, b]"

definition ring_edge :: "u32 \<Rightarrow> string \<Rightarrow> string \<Rightarrow> string list \<Rightarrow> bool" where
  "ring_edge n_preferred a b all_ids \<longleftrightarrow>
     b \<in> select_ring_neighbors a (ring_others a b all_ids a) n_preferred \<or>
     a \<in> select_ring_neighbors b (ring_others a b all_ids b) n_preferred"

fun common_prefix_len :: "string \<Rightarrow> string \<Rightarrow> nat" where
  "common_prefix_len (x # xs) (y # ys) = (if x = y then Suc (common_prefix_len xs ys) else 0)"
| "common_prefix_len _ _ = 0"

definition ring_distance :: "string \<Rightarrow> string \<Rightarrow> nat" where
  "ring_distance a b =
     (let common = common_prefix_len a b;
          max_len = max (max (length a) (length b)) 1
      in max_len - min common max_len)"

definition ring_best :: "string \<Rightarrow> string \<Rightarrow> (nat \<times> string) option \<Rightarrow> string \<Rightarrow> (nat \<times> string) option" where
  "ring_best self_id dest best c =
     (if pubkey_part c = pubkey_part self_id then best
      else let d = ring_distance (pubkey_part c) (pubkey_part dest) in
           (case best of
              None \<Rightarrow> Some (d, c)
            | Some (bd, _) \<Rightarrow> if d < bd then Some (d, c) else best))"

definition ring_next_hops :: "string \<Rightarrow> string \<Rightarrow> string list \<Rightarrow> string list" where
  "ring_next_hops self_id dest connected =
     (case foldl (ring_best self_id dest) None connected of
        None \<Rightarrow> []
      | Some (_, c) \<Rightarrow> [c])"

section \<open>Star\<close>

definition star_select_preferred :: "string \<Rightarrow> string \<Rightarrow> string list \<Rightarrow> string set" where
  "star_select_preferred hub self_id peer_ids =
     (if pubkey_part self_id = pubkey_part hub then set peer_ids
      else set (filter (\<lambda>p. pubkey_part p = pubkey_part hub) peer_ids))"

definition star_edge :: "string \<Rightarrow> string \<Rightarrow> string \<Rightarrow> bool" where
  "star_edge hub a b \<longleftrightarrow> pubkey_part a = pubkey_part hub \<or> pubkey_part b = pubkey_part hub"

definition star_next_hops :: "string \<Rightarrow> string \<Rightarrow> string list \<Rightarrow> string list" where
  "star_next_hops hub self_id connected =
     (if pubkey_part self_id = pubkey_part hub then []
      else filter (\<lambda>c. pubkey_part c = pubkey_part hub) connected)"

section \<open>Hubs\<close>

definition is_hub :: "string list \<Rightarrow> string \<Rightarrow> bool" where
  "is_hub hubs i \<longleftrightarrow> (\<exists>h\<in>set hubs. pubkey_part h = pubkey_part i)"

text \<open>\<open>u64::from_le_bytes\<close> of the first eight digest bytes.\<close>

definition u64_from_le_bytes :: "bytes \<Rightarrow> u64" where
  "u64_from_le_bytes bs = word_of_nat (foldr (\<lambda>b acc. of_char b + 256 * acc) bs 0)"

definition rendezvous_score :: "crypto \<Rightarrow> string \<Rightarrow> string \<Rightarrow> u64" where
  "rendezvous_score cr spoke hub = u64_from_le_bytes (take 8 (sha256 cr (spoke @ '':'' @ hub)))"

text \<open>
  Highest score first, the hub id breaking ties: a stable sort on the pair of the complemented
  score and the hub.
\<close>

definition hubs_for :: "crypto \<Rightarrow> string list \<Rightarrow> u32 \<Rightarrow> string \<Rightarrow> string list" where
  "hubs_for cr hubs spoke_redundancy spoke =
     (let spoke_key = pubkey_part spoke;
          ranked = map (\<lambda>h. (rendezvous_score cr spoke_key (pubkey_part h), pubkey_part h)) hubs;
          sorted_ranked = sort_key (\<lambda>(score, h). (- 1 - score, h)) ranked
      in map snd (take (unat (max spoke_redundancy 1)) sorted_ranked))"

definition hubs_edge :: "crypto \<Rightarrow> string list \<Rightarrow> u32 \<Rightarrow> string \<Rightarrow> string \<Rightarrow> bool" where
  "hubs_edge cr hubs r a b =
     (case (is_hub hubs a, is_hub hubs b) of
        (True, True) \<Rightarrow> True
      | (False, True) \<Rightarrow> pubkey_part b \<in> set (hubs_for cr hubs r a)
      | (True, False) \<Rightarrow> pubkey_part a \<in> set (hubs_for cr hubs r b)
      | (False, False) \<Rightarrow> False)"

definition hubs_select_preferred :: "crypto \<Rightarrow> string list \<Rightarrow> u32 \<Rightarrow> string \<Rightarrow> string list \<Rightarrow> string set" where
  "hubs_select_preferred cr hubs r self_id peer_ids =
     set (filter (\<lambda>p. hubs_edge cr hubs r self_id p) peer_ids)"

definition hubs_next_hops :: "crypto \<Rightarrow> string list \<Rightarrow> u32 \<Rightarrow> string \<Rightarrow> string \<Rightarrow> string list \<Rightarrow> string list" where
  "hubs_next_hops cr hubs r self_id dest connected =
     (let dest_key = pubkey_part dest;
          dest_hubs = (if is_hub hubs dest_key then [dest_key] else hubs_for cr hubs r dest_key);
          hops = filter (\<lambda>c. pubkey_part c \<in> set dest_hubs) connected
      in if hops = []
         then filter (\<lambda>c. is_hub hubs c \<and> pubkey_part c \<noteq> pubkey_part self_id) connected
         else hops)"

section \<open>The trait\<close>

fun select_preferred :: "crypto \<Rightarrow> topology_impl \<Rightarrow> string \<Rightarrow> string list \<Rightarrow> string set" where
  "select_preferred cr (RingSelector n) self_id peer_ids = select_ring_neighbors self_id peer_ids n"
| "select_preferred cr (StarSelector hub) self_id peer_ids = star_select_preferred hub self_id peer_ids"
| "select_preferred cr (HubsSelector hubs r) self_id peer_ids = hubs_select_preferred cr hubs r self_id peer_ids"
| "select_preferred cr FullMeshSelector self_id peer_ids = set peer_ids"

fun edge :: "crypto \<Rightarrow> topology_impl \<Rightarrow> string \<Rightarrow> string \<Rightarrow> string list \<Rightarrow> bool" where
  "edge cr (RingSelector n) a b all_ids = ring_edge n a b all_ids"
| "edge cr (StarSelector hub) a b all_ids = star_edge hub a b"
| "edge cr (HubsSelector hubs r) a b all_ids = hubs_edge cr hubs r a b"
| "edge cr FullMeshSelector a b all_ids = True"

fun prunes :: "topology_impl \<Rightarrow> bool" where
  "prunes (RingSelector _) = True"
| "prunes (StarSelector _) = True"
| "prunes (HubsSelector _ _) = True"
| "prunes FullMeshSelector = False"

fun forwards :: "topology_impl \<Rightarrow> string \<Rightarrow> string list \<Rightarrow> bool" where
  "forwards (RingSelector _) self_id all_ids = True"
| "forwards (StarSelector hub) self_id all_ids = (pubkey_part self_id = pubkey_part hub)"
| "forwards (HubsSelector hubs _) self_id all_ids = is_hub hubs self_id"
| "forwards FullMeshSelector self_id all_ids = False"

fun next_hops :: "crypto \<Rightarrow> topology_impl \<Rightarrow> string \<Rightarrow> string \<Rightarrow> string list \<Rightarrow> string list" where
  "next_hops cr (RingSelector _) self_id dest connected = ring_next_hops self_id dest connected"
| "next_hops cr (StarSelector hub) self_id dest connected = star_next_hops hub self_id connected"
| "next_hops cr (HubsSelector hubs r) self_id dest connected = hubs_next_hops cr hubs r self_id dest connected"
| "next_hops cr FullMeshSelector self_id dest connected = []"

fun flood_ttl :: "topology_impl \<Rightarrow> u8" where
  "flood_ttl (RingSelector _) = 32"
| "flood_ttl (StarSelector _) = 3"
| "flood_ttl (HubsSelector _ _) = 4"
| "flood_ttl FullMeshSelector = 4"

section \<open>The ring walk\<close>

text \<open>The positions the walk visits, as offsets from our own.\<close>

definition at_offset :: "string list \<Rightarrow> nat \<Rightarrow> nat \<Rightarrow> string" where
  "at_offset ring i k = ring ! ((i + k) mod length ring)"

lemma at_offset_in: "ring \<noteq> [] \<Longrightarrow> at_offset ring i k \<in> set ring"
  by (simp add: at_offset_def)

lemma mod_offset_neq: "0 < k \<Longrightarrow> k < n \<Longrightarrow> i < n \<Longrightarrow> (i + k) mod n \<noteq> (i :: nat)"
  by (cases "i + k < n") (auto simp: mod_if)

lemma at_offset_neq_self:
  assumes "distinct ring" "i < length ring" "0 < k" "k < length ring"
  shows "at_offset ring i k \<noteq> ring ! i"
proof -
  have "(i + k) mod length ring < length ring" using assms(2) by (intro mod_less_divisor) auto
  with assms mod_offset_neq [of k "length ring" i] show ?thesis
    by (auto simp: at_offset_def nth_eq_iff_index_eq)
qed

lemma offsets_cover:
  assumes "i < length ring" "y \<in> set ring" "y \<noteq> ring ! i"
  shows "\<exists>k. 0 < k \<and> k < length ring \<and> at_offset ring i k = y"
proof -
  from assms(2) obtain j where j: "j < length ring" "ring ! j = y"
    by (auto simp: in_set_conv_nth)
  with assms(3) have ji: "j \<noteq> i" by auto
  show ?thesis
  proof (cases "i < j")
    case True
    then have "i + (j - i) = j" by simp
    with j have "at_offset ring i (j - i) = y" by (simp add: at_offset_def)
    moreover have "0 < j - i" "j - i < length ring" using True j by linarith+
    ultimately show ?thesis by blast
  next
    case False
    with ji have lt: "j < i" by simp
    let ?k = "length ring - i + j"
    have "i + ?k = length ring + j" using assms(1) by simp
    then have "(i + ?k) mod length ring = j" using j by simp
    then have "at_offset ring i ?k = y" using j by (simp add: at_offset_def)
    moreover have "0 < ?k" "?k < length ring" using assms(1) lt by linarith+
    ultimately show ?thesis by blast
  qed
qed

lemma ring_fill_bounds:
  assumes "ring \<noteq> []" "finite P" "P \<subseteq> set ring - {self}"
  shows "P \<subseteq> ring_fill ring i self n d P \<and> ring_fill ring i self n d P \<subseteq> set ring - {self} \<and>
    card (ring_fill ring i self n d P) \<le> max n (card P)"
  using assms
proof (induction ring i self n d P rule: ring_fill.induct)
  case (1 ring i self n d P)
  show ?case
  proof (cases "card P < n \<and> d < length ring")
    case False
    then show ?thesis using "1.prems" by (subst (1 2 3) ring_fill.simps) auto
  next
    case True
    define cw where "cw = ring ! ((i + d) mod length ring)"
    define ccw where "ccw = ring ! ((i + length ring - d) mod length ring)"
    define fresh where "fresh \<longleftrightarrow> cw \<noteq> self \<and> cw \<notin> P"
    define P1 where "P1 = (if fresh then insert cw P else P)"
    define P2 where "P2 = (if ccw \<noteq> self \<and> ccw \<notin> P1 then insert ccw P1 else P1)"
    have mem: "cw \<in> set ring" "ccw \<in> set ring"
      using "1.prems"(1) by (simp_all add: cw_def ccw_def)
    have P1: "P \<subseteq> P1" "finite P1" "P1 \<subseteq> set ring - {self}" "card P1 \<le> n"
      using "1.prems" True mem by (auto simp: P1_def fresh_def card_insert_if)
    have unf: "ring_fill ring i self n d P =
        (if fresh \<and> n \<le> card P1 then P1 else ring_fill ring i self n (d + 1) P2)"
      by (subst ring_fill.simps) (simp add: True Let_def cw_def ccw_def fresh_def P1_def P2_def)
    show ?thesis
    proof (cases "fresh \<and> n \<le> card P1")
      case True
      then show ?thesis using unf P1 by auto
    next
      case False
      have lt: "card P1 < n"
        using False True by (cases fresh) (auto simp: P1_def)
      have P2: "P1 \<subseteq> P2" "finite P2" "P2 \<subseteq> set ring - {self}" "card P2 \<le> n"
        using P1 lt mem by (auto simp: P2_def card_insert_if)
      have "P2 \<subseteq> ring_fill ring i self n (d + 1) P2 \<and>
          ring_fill ring i self n (d + 1) P2 \<subseteq> set ring - {self} \<and>
          card (ring_fill ring i self n (d + 1) P2) \<le> max n (card P2)"
        using "1.IH" [OF True cw_def fresh_def P1_def _ ccw_def P2_def] False "1.prems"(1) P2
        by auto
      then show ?thesis using unf False P1 P2 True by auto
    qed
  qed
qed

lemma ring_fill_cover:
  assumes "distinct ring" "i < length ring" "self = ring ! i"
    and "\<forall>k. 0 < k \<and> k < d \<and> k < length ring \<longrightarrow> at_offset ring i k \<in> P" "0 < d"
  shows "n \<le> card (ring_fill ring i self n d P) \<or>
    (\<forall>k. 0 < k \<and> k < length ring \<longrightarrow> at_offset ring i k \<in> ring_fill ring i self n d P)"
  using assms
proof (induction ring i self n d P rule: ring_fill.induct)
  case (1 ring i self n d P)
  show ?case
  proof (cases "card P < n \<and> d < length ring")
    case False
    then show ?thesis using "1.prems" by (subst (1 2) ring_fill.simps) auto
  next
    case True
    define cw where "cw = ring ! ((i + d) mod length ring)"
    define ccw where "ccw = ring ! ((i + length ring - d) mod length ring)"
    define fresh where "fresh \<longleftrightarrow> cw \<noteq> self \<and> cw \<notin> P"
    define P1 where "P1 = (if fresh then insert cw P else P)"
    define P2 where "P2 = (if ccw \<noteq> self \<and> ccw \<notin> P1 then insert ccw P1 else P1)"
    have unf: "ring_fill ring i self n d P =
        (if fresh \<and> n \<le> card P1 then P1 else ring_fill ring i self n (d + 1) P2)"
      by (subst ring_fill.simps) (simp add: True Let_def cw_def ccw_def fresh_def P1_def P2_def)
    have "cw \<noteq> self"
      using at_offset_neq_self "1.prems" True by (auto simp: cw_def at_offset_def)
    then have "cw \<in> P1" by (auto simp: P1_def fresh_def)
    then have cov: "\<forall>k. 0 < k \<and> k < d + 1 \<and> k < length ring \<longrightarrow> at_offset ring i k \<in> P2"
      using "1.prems"(4) by (auto simp: P2_def P1_def less_Suc_eq cw_def at_offset_def)
    show ?thesis
    proof (cases "fresh \<and> n \<le> card P1")
      case True
      then show ?thesis using unf by simp
    next
      case False
      then show ?thesis
        using "1.IH" [OF True cw_def fresh_def P1_def _ ccw_def P2_def] "1.prems" cov unf by simp
    qed
  qed
qed

text \<open>
  One description of the branch above capacity: the sorted ring, our index in it, the two
  immediate neighbours and the walk.
\<close>

lemma ring_order_facts [simp]:
  "set (ring_order self peers) = insert self (set peers)" "distinct (ring_order self peers)"
  "ring_order self peers \<noteq> []"
proof -
  show "set (ring_order self peers) = insert self (set peers)"
    unfolding ring_order_def by (rule set_sorted_list_of_set) simp
  then show "ring_order self peers \<noteq> []" by auto
  show "distinct (ring_order self peers)"
    unfolding ring_order_def by (rule distinct_sorted_list_of_set)
qed

lemma length_ring_order: "length (ring_order self peers) = card (insert self (set peers))"
  by (metis ring_order_facts(1,2) distinct_card)

lemma ring_members:
  obtains i where "position (\<lambda>s. s = self) (ring_order self peers) = Some i"
    "i < length (ring_order self peers)" "ring_order self peers ! i = self"
proof -
  obtain i where i: "position (\<lambda>s. s = self) (ring_order self peers) = Some i"
    by (cases "position (\<lambda>s. s = self) (ring_order self peers)") auto
  with position_SomeD [OF i] that [of i] show thesis by auto
qed

lemma select_ring_above:
  assumes "peers \<noteq> []" "unat n < length peers"
  obtains i where "i < length (ring_order self peers)" "ring_order self peers ! i = self"
    "select_ring_neighbors self peers n = ring_fill (ring_order self peers) i self (unat n) 2
       (if 1 < length (ring_order self peers)
        then {at_offset (ring_order self peers) i 1,
              ring_order self peers ! ((i + length (ring_order self peers) - 1) mod length (ring_order self peers))}
        else {})"
proof -
  obtain i where "position (\<lambda>s. s = self) (ring_order self peers) = Some i"
    "i < length (ring_order self peers)" "ring_order self peers ! i = self"
    by (rule ring_members)
  with that [of i] assms show thesis
    by (simp add: select_ring_neighbors_def at_offset_def Let_def del: One_nat_def)
qed

lemma pred_offset:
  fixes ring :: "string list"
  assumes "distinct ring" "i < length ring" "1 < length ring"
  shows "ring ! ((i + length ring - 1) mod length ring) \<in> set ring - {ring ! i}"
proof -
  have "i + length ring - 1 = i + (length ring - 1)" using assms by simp
  then have "ring ! ((i + length ring - 1) mod length ring) = at_offset ring i (length ring - 1)"
    by (simp only: at_offset_def)
  moreover have "ring \<noteq> []" using assms by auto
  ultimately show ?thesis
    using at_offset_neq_self [of ring i "length ring - 1"] at_offset_in [of ring i "length ring - 1"] assms
    by auto
qed

lemma select_ring_subset:
  "select_ring_neighbors self peers n \<subseteq> set peers \<and>
   (unat n < length peers \<longrightarrow> self \<notin> select_ring_neighbors self peers n)"
proof (cases "peers = [] \<or> length peers \<le> unat n")
  case True
  then show ?thesis by (auto simp: select_ring_neighbors_def Let_def)
next
  case False
  then have "peers \<noteq> []" "unat n < length peers" by auto
  define ring where "ring = ring_order self peers"
  from select_ring_above [OF \<open>peers \<noteq> []\<close> \<open>unat n < length peers\<close>, of self] obtain i where r:
    "i < length ring" "ring ! i = self"
    "select_ring_neighbors self peers n = ring_fill ring i self (unat n) 2
       (if 1 < length ring
        then {at_offset ring i 1, ring ! ((i + length ring - 1) mod length ring)} else {})"
    unfolding ring_def .
  have ring: "ring \<noteq> []" "set ring = insert self (set peers)" "distinct ring"
    by (simp_all add: ring_def)
  show ?thesis
    unfolding r(3)
    using ring_fill_bounds [of ring "if 1 < length ring
        then {at_offset ring i 1, ring ! ((i + length ring - 1) mod length ring)} else {}" self i "unat n" 2]
      pred_offset [OF ring(3) r(1)] at_offset_neq_self [OF ring(3) r(1), of 1] at_offset_in [of ring i 1] r(2) ring
    by auto
qed

text \<open>The clockwise neighbour is preferred in either branch.\<close>

lemma select_ring_successor:
  assumes "self \<notin> set peers" "i < length (ring_order self peers)" "ring_order self peers ! i = self"
    and len: "1 < length (ring_order self peers)"
  shows "at_offset (ring_order self peers) i 1 \<in> select_ring_neighbors self peers n"
proof -
  define ring where "ring = ring_order self peers"
  have ring: "ring \<noteq> []" "set ring = insert self (set peers)" "distinct ring"
    by (simp_all add: ring_def)
  note idx = assms(2,3) [folded ring_def] len [folded ring_def]
  have new: "at_offset ring i 1 \<in> set ring - {self}"
    using at_offset_in [OF ring(1)] at_offset_neq_self [OF ring(3) idx(1), of 1] idx by auto
  show ?thesis
  proof (cases "length peers \<le> unat n")
    case True
    then show ?thesis
      using new ring(2) unfolding ring_def by (auto simp: select_ring_neighbors_def Let_def)
  next
    case False
    then have "peers \<noteq> []" "unat n < length peers" by auto
    from select_ring_above [OF this, of self] obtain j where j:
      "j < length ring" "ring ! j = self"
      "select_ring_neighbors self peers n = ring_fill ring j self (unat n) 2
         (if 1 < length ring
          then {at_offset ring j 1, ring ! ((j + length ring - 1) mod length ring)} else {})"
      unfolding ring_def .
    have "j = i" using ring(3) j(1,2) idx(1,2) nth_eq_iff_index_eq by blast
    with j(3) idx(3) have sel: "select_ring_neighbors self peers n = ring_fill ring i self (unat n) 2
        {at_offset ring i 1, ring ! ((i + length ring - 1) mod length ring)}" by simp
    have "{at_offset ring i 1, ring ! ((i + length ring - 1) mod length ring)} \<subseteq> set ring - {self}"
      using new pred_offset [OF ring(3) idx(1,3)] idx(2) by simp
    from ring_fill_bounds [OF ring(1) _ this, of i "unat n" 2] sel show ?thesis
      unfolding ring_def by simp
  qed
qed

lemma select_ring_card:
  assumes "distinct peers" "self \<notin> set peers" "2 \<le> unat n" "unat n < length peers"
  shows "card (select_ring_neighbors self peers n) = unat n"
proof -
  have "peers \<noteq> []" using assms(4) by auto
  define ring where "ring = ring_order self peers"
  from select_ring_above [OF \<open>peers \<noteq> []\<close> assms(4), of self] obtain i where r:
    "i < length ring" "ring ! i = self"
    "select_ring_neighbors self peers n = ring_fill ring i self (unat n) 2
       (if 1 < length ring
        then {at_offset ring i 1, ring ! ((i + length ring - 1) mod length ring)} else {})"
    unfolding ring_def .
  have set: "set ring = insert self (set peers)" and dist: "distinct ring"
    by (simp_all add: ring_def)
  have "length ring = card (insert self (set peers))" unfolding ring_def by (rule length_ring_order)
  also have "\<dots> = Suc (length peers)" using assms(1,2) by (simp add: distinct_card)
  finally have len: "length ring = Suc (length peers)" .
  define P where "P = {at_offset ring i 1, ring ! ((i + length ring - 1) mod length ring)}"
  define R where "R = ring_fill ring i self (unat n) 2 P"
  have sel: "select_ring_neighbors self peers n = R"
    using r(3) len \<open>peers \<noteq> []\<close> by (simp add: R_def P_def)
  have P: "finite P" "P \<subseteq> set ring - {self}" "card P \<le> 2"
    using pred_offset [OF dist r(1)] at_offset_neq_self [OF dist r(1), of 1] at_offset_in [of ring i 1]
      r(1,2) len \<open>peers \<noteq> []\<close> ring_order_facts(3) [of self peers]
    by (auto simp: P_def card_insert_if ring_def [symmetric])
  have bounds: "R \<subseteq> set ring - {self}" "card R \<le> max (unat n) (card P)"
    using ring_fill_bounds [OF ring_order_facts(3) [of self peers, folded ring_def] P(1,2), of i "unat n" 2]
    unfolding R_def by auto
  have cov: "unat n \<le> card R \<or> (\<forall>k. 0 < k \<and> k < length ring \<longrightarrow> at_offset ring i k \<in> R)"
    unfolding R_def
    by (rule ring_fill_cover) (use r(1,2) dist in \<open>auto simp: P_def less_Suc_eq numeral_2_eq_2\<close>)
  have "unat n \<le> card R"
  proof (rule ccontr)
    assume no: "\<not> unat n \<le> card R"
    with cov have "set ring - {self} \<subseteq> R"
      using offsets_cover [OF r(1)] r(2) by blast
    then have "card (set ring - {self}) \<le> card R"
      using bounds(1) finite_subset by (intro card_mono) auto
    moreover have "card (set ring - {self}) = length peers"
      using set assms(1,2) by (simp add: distinct_card)
    ultimately show False using no assms(4) by simp
  qed
  with bounds(2) P(3) assms(3) show ?thesis unfolding sel by simp
qed

section \<open>The trait's contract\<close>

text \<open>
  What the engine relies on of a selector: the edge relation is symmetric, so that two nodes with
  the same view agree on it; the answers are drawn from the candidates handed in; and a link that
  one side prefers is an edge of the shape, so the prune pass never removes a link in use.
\<close>

locale shape =
  fixes preferred :: "string \<Rightarrow> string list \<Rightarrow> string set"
    and has_edge :: "string \<Rightarrow> string \<Rightarrow> string list \<Rightarrow> bool"
    and hops :: "string \<Rightarrow> string \<Rightarrow> string list \<Rightarrow> string list"
  assumes edge_sym: "has_edge a b members = has_edge b a members"
    and preferred_subset: "preferred me peers \<subseteq> set peers"
    and hops_subset: "set (hops me dest con) \<subseteq> set con"
    and preferred_edge: "p \<in> preferred me peers \<Longrightarrow> me \<notin> set peers \<Longrightarrow> has_edge me p (me # peers)"
begin

lemma preferred_edge_remote:
  "p \<in> preferred me peers \<Longrightarrow> me \<notin> set peers \<Longrightarrow> has_edge p me (me # peers)"
  using preferred_edge edge_sym by metis

lemma non_edge_not_preferred:
  "\<not> has_edge me p (me # peers) \<Longrightarrow> me \<notin> set peers \<Longrightarrow> p \<notin> preferred me peers"
  using preferred_edge by blast

text \<open>The undirected graph of the shape over a list of members.\<close>

definition links :: "string list \<Rightarrow> (string \<times> string) set" where
  "links members = {(a, b). a \<in> set members \<and> b \<in> set members \<and> has_edge a b members}"

lemma links_sym: "(a, b) \<in> (links members)\<^sup>* \<Longrightarrow> (b, a) \<in> (links members)\<^sup>*"
proof -
  have "sym (links members)" by (auto simp: links_def sym_def edge_sym)
  then show "(a, b) \<in> (links members)\<^sup>* \<Longrightarrow> (b, a) \<in> (links members)\<^sup>*"
    using sym_rtrancl by (auto dest: symD)
qed

text \<open>A member linked to all others connects the shape.\<close>

lemma centre_connects:
  assumes "\<And>x. x \<in> set members \<Longrightarrow> (x, h) \<in> (links members)\<^sup>*" "a \<in> set members" "b \<in> set members"
  shows "(a, b) \<in> (links members)\<^sup>*"
  using assms links_sym by (meson rtrancl_trans)

end

lemma ring_others_self:
  "ring_others a b members a = ring_others b a members a"
  "ring_others a b members b = ring_others b a members b"
  by (auto simp: ring_others_def push_missing_def)

lemma ring_edge_sym: "ring_edge n a b members = ring_edge n b a members"
  by (auto simp: ring_edge_def ring_others_self)

lemma ring_others_here:
  "a \<in> set members \<Longrightarrow> b \<in> set members \<Longrightarrow> ring_others a b members me = filter (\<lambda>x. x \<noteq> me) members"
  by (auto simp: ring_others_def push_missing_def)

lemma ring_preferred_edge:
  assumes "p \<in> select_ring_neighbors me peers n" "me \<notin> set peers"
  shows "ring_edge n me p (me # peers)"
proof -
  have "p \<in> set peers" using assms(1) select_ring_subset by blast
  then have "ring_others me p (me # peers) me = peers"
    using assms(2) by (auto simp: ring_others_here filter_id_conv)
  with assms(1) show ?thesis by (simp add: ring_edge_def)
qed

lemma ring_best_step: "ring_best me d best a = Some (k, x) \<Longrightarrow> best = Some (k, x) \<or> x = a"
  by (auto simp: ring_best_def Let_def split: if_splits option.splits)

lemma ring_best_mem:
  "foldl (ring_best me d) best con = Some (k, x) \<Longrightarrow> best = Some (k, x) \<or> x \<in> set con"
proof (induction con arbitrary: best)
  case (Cons a con)
  then show ?case using ring_best_step [of me d best a k x] by fastforce
qed simp

lemma ring_next_hops_subset: "set (ring_next_hops me d con) \<subseteq> set con"
proof (cases "foldl (ring_best me d) None con")
  case (Some kx)
  then show ?thesis
    using ring_best_mem [of me d None con "fst kx" "snd kx"] by (auto simp: ring_next_hops_def)
qed (simp add: ring_next_hops_def)

lemma hubs_edge_sym: "hubs_edge cr hubs r a b = hubs_edge cr hubs r b a"
  by (cases "is_hub hubs a"; cases "is_hub hubs b") (simp_all add: hubs_edge_def)

interpretation topo: shape "select_preferred cr t" "edge cr t" "next_hops cr t" for cr t
proof
  fix a b me dest :: string and members peers con :: "string list" and p
  show "edge cr t a b members = edge cr t b a members"
    by (cases t) (auto simp: ring_edge_sym star_edge_def hubs_edge_sym)
  show "select_preferred cr t me peers \<subseteq> set peers"
    using select_ring_subset by (cases t) (auto simp: star_select_preferred_def hubs_select_preferred_def)
  show "set (next_hops cr t me dest con) \<subseteq> set con"
    using ring_next_hops_subset
    by (cases t) (auto simp: star_next_hops_def hubs_next_hops_def Let_def split: if_splits)
  assume "p \<in> select_preferred cr t me peers" "me \<notin> set peers"
  then show "edge cr t me p (me # peers)"
    by (cases t)
      (auto simp: ring_preferred_edge star_select_preferred_def star_edge_def hubs_select_preferred_def
        split: if_splits)
qed

section \<open>Connectivity\<close>

text \<open>
  When the shape can connect every member: always for a ring and a full mesh; for a star when the
  hub is a member; for a hub tier when there is a hub and every named hub is a member.
\<close>

fun shape_ready :: "topology_impl \<Rightarrow> string list \<Rightarrow> bool" where
  "shape_ready (RingSelector _) members = True"
| "shape_ready (StarSelector hub) members = (\<exists>m\<in>set members. pubkey_part m = pubkey_part hub)"
| "shape_ready (HubsSelector hubs _) members =
     (hubs \<noteq> [] \<and> (\<forall>h\<in>set hubs. \<exists>m\<in>set members. pubkey_part m = pubkey_part h))"
| "shape_ready FullMeshSelector members = True"

locale connected_shape = shape +
  fixes ready :: "string list \<Rightarrow> bool"
  assumes reach_all:
    "ready members \<Longrightarrow> a \<in> set members \<Longrightarrow> b \<in> set members \<Longrightarrow> (a, b) \<in> (links members)\<^sup>*"
begin

text \<open>No member is isolated: with two members, each has a link to another one.\<close>

lemma not_isolated:
  assumes "ready members" "a \<in> set members" "b \<in> set members" "a \<noteq> b"
  shows "\<exists>c\<in>set members. has_edge a c members"
proof -
  have "(a, b) \<in> (links members)\<^sup>*" using assms reach_all by blast
  with assms(4) obtain c where "(a, c) \<in> links members" by (meson converse_rtranclE)
  then show ?thesis by (auto simp: links_def)
qed

end

lemma ring_order_same: "set (me # peers) = set members \<Longrightarrow> ring_order me peers = sorted_list_of_set (set members)"
  by (simp add: ring_order_def)

lemma ring_successor_edge:
  fixes members :: "string list"
  defines "ring \<equiv> sorted_list_of_set (set members)"
  assumes i: "i < length ring" and len: "1 < length ring"
  shows "ring_edge n (ring ! i) (at_offset ring i 1) members"
proof -
  let ?me = "ring ! i" and ?nx = "at_offset ring i 1"
  let ?peers = "filter (\<lambda>x. x \<noteq> ?me) members"
  have set: "set ring = set members" unfolding ring_def by (rule set_sorted_list_of_set) simp
  have "ring \<noteq> []" using i by auto
  then have mem: "?me \<in> set members" "?nx \<in> set members"
    using set i nth_mem at_offset_in [of ring i 1] by auto
  have "ring_order ?me ?peers = sorted_list_of_set (set members)"
    by (rule ring_order_same) (use mem in auto)
  then have ord: "ring_order ?me ?peers = ring" by (simp add: ring_def)
  have "?nx \<in> select_ring_neighbors ?me ?peers n"
    using select_ring_successor [of ?me ?peers i n] ord i len by simp
  then show ?thesis using mem by (simp add: ring_edge_def ring_others_here)
qed

lemma ring_connected:
  assumes "a \<in> set members" "b \<in> set members"
  shows "(a, b) \<in> (topo.links cr (RingSelector n) members)\<^sup>*"
proof -
  define ring where "ring = sorted_list_of_set (set members)"
  have set: "set ring = set members" unfolding ring_def by (rule set_sorted_list_of_set) simp
  have step: "(ring ! i, ring ! Suc i) \<in> topo.links cr (RingSelector n) members" if "Suc i < length ring" for i
  proof -
    have "ring_edge n (ring ! i) (at_offset ring i 1) members"
      unfolding ring_def by (rule ring_successor_edge) (use that in \<open>auto simp: ring_def\<close>)
    then show ?thesis
      using that set nth_mem [of i ring] nth_mem [of "Suc i" ring]
      by (auto simp: topo.links_def at_offset_def)
  qed
  have from0: "i < length ring \<Longrightarrow> (ring ! 0, ring ! i) \<in> (topo.links cr (RingSelector n) members)\<^sup>*" for i
    by (induction i) (auto intro: rtrancl_into_rtrancl [OF _ step])
  have "(x, ring ! 0) \<in> (topo.links cr (RingSelector n) members)\<^sup>*" if "x \<in> set members" for x
    using that from0 topo.links_sym set by (metis in_set_conv_nth)
  from topo.centre_connects [OF this assms] show ?thesis .
qed

lemma star_connected:
  assumes "\<exists>m\<in>set members. pubkey_part m = pubkey_part hub" "a \<in> set members" "b \<in> set members"
  shows "(a, b) \<in> (topo.links cr (StarSelector hub) members)\<^sup>*"
proof -
  from assms(1) obtain m where m: "m \<in> set members" "pubkey_part m = pubkey_part hub" by blast
  have "(x, m) \<in> (topo.links cr (StarSelector hub) members)\<^sup>*" if "x \<in> set members" for x
    using that m by (intro r_into_rtrancl) (auto simp: topo.links_def star_edge_def)
  from topo.centre_connects [OF this assms(2,3)] show ?thesis .
qed

lemma hubs_for_nonempty: "hubs \<noteq> [] \<Longrightarrow> hubs_for cr hubs r spoke \<noteq> []"
proof -
  have "max r 1 \<noteq> 0" by (auto simp: max_def)
  then have "unat (max r 1) \<noteq> 0" by (simp add: unat_eq_zero)
  then show "hubs \<noteq> [] \<Longrightarrow> ?thesis"
    unfolding hubs_for_def Let_def by (simp only: map_is_Nil_conv take_eq_Nil sort_key_eq_Nil) simp
qed

lemma hubs_for_hub: "h \<in> set (hubs_for cr hubs r spoke) \<Longrightarrow> \<exists>k\<in>set hubs. h = pubkey_part k"
  by (auto simp: hubs_for_def Let_def dest!: in_set_takeD)

lemma hubs_connected:
  assumes ne: "hubs \<noteq> []" and here: "\<forall>h\<in>set hubs. \<exists>m\<in>set members. pubkey_part m = pubkey_part h"
    and ab: "a \<in> set members" "b \<in> set members"
  shows "(a, b) \<in> (topo.links cr (HubsSelector hubs r) members)\<^sup>*"
proof -
  let ?L = "topo.links cr (HubsSelector hubs r) members"
  have "hd hubs \<in> set hubs" using ne by simp
  with here obtain m where m: "m \<in> set members" "pubkey_part m = pubkey_part (hd hubs)" by blast
  then have hub_m: "is_hub hubs m" using \<open>hd hubs \<in> set hubs\<close> by (auto simp: is_hub_def)
  have to_m: "(x, m) \<in> ?L" if "x \<in> set members" "is_hub hubs x" for x
    using that m hub_m by (simp add: topo.links_def hubs_edge_def)
  have "(x, m) \<in> ?L\<^sup>*" if x: "x \<in> set members" for x
  proof (cases "is_hub hubs x")
    case False
    obtain h where h: "h \<in> set (hubs_for cr hubs r x)"
      using hubs_for_nonempty [OF ne] by (metis list.set_intros(1) neq_Nil_conv)
    from hubs_for_hub [OF h] here obtain k where k: "k \<in> set members" "pubkey_part k = h" "is_hub hubs k"
      unfolding is_hub_def by metis
    have "(x, k) \<in> ?L" using x k h False by (simp add: topo.links_def hubs_edge_def)
    then show ?thesis using to_m [OF k(1,3)] by (meson rtrancl.simps converse_rtrancl_into_rtrancl)
  qed (use to_m x in auto)
  from topo.centre_connects [OF this ab] show ?thesis .
qed

interpretation topo_connected: connected_shape "select_preferred cr t" "edge cr t" "next_hops cr t" "shape_ready t"
  for cr t
proof
  fix members :: "string list" and a b :: string
  assume "shape_ready t members" "a \<in> set members" "b \<in> set members"
  then show "(a, b) \<in> (topo.links cr t members)\<^sup>*"
  proof (cases t)
    case FullMeshSelector
    then show ?thesis
      using \<open>a \<in> set members\<close> \<open>b \<in> set members\<close> by (intro r_into_rtrancl) (simp add: topo.links_def)
  qed (auto intro: ring_connected star_connected hubs_connected)
qed

section \<open>Properties\<close>

text \<open>
  In every shape the edge relation is symmetric, a preferred peer is one of the peers offered and is
  joined by an edge seen from both sides, and a next hop is one of the connected peers.
\<close>

theorem topology_laws:
  "edge cr t a b members = edge cr t b a members \<and>
   select_preferred cr t me peers \<subseteq> set peers \<and>
   (me \<notin> set peers \<longrightarrow> p \<in> select_preferred cr t me peers \<longrightarrow>
      edge cr t me p (me # peers) \<and> edge cr t p me (me # peers)) \<and>
   set (next_hops cr t me dest con) \<subseteq> set con"
  using topo.edge_sym topo.preferred_subset topo.preferred_edge topo.preferred_edge_remote topo.hops_subset by metis

theorem topology_laws_witness:
  "edge sample_crypto (RingSelector 2) ''a'' ''b'' [''a'', ''c'', ''d'', ''b''] \<and>
   edge sample_crypto (RingSelector 2) ''b'' ''a'' [''a'', ''c'', ''d'', ''b'']"
proof -
  have "''a'' \<notin> set [''c'', ''d'', ''b'']" "''b'' \<in> select_preferred sample_crypto (RingSelector 2) ''a'' [''c'', ''d'', ''b'']"
    by code_simp+
  with topology_laws [of sample_crypto "RingSelector 2" _ _ _ "''a''" "[''c'', ''d'', ''b'']" "''b''"] show ?thesis by blast
qed

text \<open>
  Every shape connects the members: along the edges each member is reachable from each other one. A
  ring and a full mesh always do, a star when its hub is a member, a hub tier when its hubs are.
\<close>

theorem topology_connected:
  assumes "shape_ready t members" "a \<in> set members" "b \<in> set members"
  shows "(a, b) \<in> {(x, y). x \<in> set members \<and> y \<in> set members \<and> edge cr t x y members}\<^sup>*"
  using topo_connected.reach_all [OF assms] by (simp add: topo.links_def)

theorem topology_connected_witness:
  "(''b'', ''d'') \<in> {(x, y). x \<in> set [''a'', ''b'', ''c'', ''d''] \<and> y \<in> set [''a'', ''b'', ''c'', ''d''] \<and>
     edge sample_crypto (HubsSelector [''a'', ''c''] 1) x y [''a'', ''b'', ''c'', ''d'']}\<^sup>*"
proof -
  have "shape_ready (HubsSelector [''a'', ''c''] 1) [''a'', ''b'', ''c'', ''d'']" by code_simp
  then show ?thesis by (rule topology_connected) simp_all
qed

end
