(* ===== verification/Network_State.thy ===== *)
theory Network_State
  imports Topology
begin

text \<open>
  The governance tier of \<open>network_state.rs\<close>: kinds, roles, signed transitions, the canonical signed
  payload, signature and quorum checks, the apply step and the replay of a whole log from genesis.
  A \<open>BTreeMap<String, Role>\<close> is an \<open>fmap\<close>; unix seconds are \<open>u64\<close>. Persistence (\<open>load\<close>, \<open>save\<close>)
  is in \<open>Member_Log\<close> as far as it transforms the state; file I/O is not modelled.
\<close>

section \<open>Kinds, roles, transitions\<close>

datatype network_kind = Open | Closed | Silent

definition is_open_governance :: "network_kind \<Rightarrow> bool" where
  "is_open_governance k \<longleftrightarrow> k = Open \<or> k = Silent"

datatype role = Member | Controller | Owner

definition rank :: "role \<Rightarrow> u8" where
  "rank r = (case r of Member \<Rightarrow> 1 | Controller \<Rightarrow> 2 | Owner \<Rightarrow> 3)"

definition can_grant :: "role \<Rightarrow> role \<Rightarrow> bool" where
  "can_grant granter target = (if granter = Member then False else rank target \<le> rank granter)"

datatype variant =
    KindChange network_kind
  | RoleGrant string role
  | RoleRevoke string
  | Evict string
  | Split string "string list"
  | TopologyChange topology_mode
  | Unknown

record transition =
  tr_at :: u64
  tr_variant :: variant
  tr_signers :: "string list"
  tr_signatures :: "string list"

record proposal =
  pr_id :: string
  pr_created_at :: u64
  pr_proposer :: string
  pr_variant :: variant
  pr_signers :: "string list"
  pr_signatures :: "string list"
  pr_deniers :: "string list"
  pr_split_spawned :: bool

record split_record =
  sr_new_network_id :: string
  sr_spawned_at :: u64
  sr_spawned_by :: string
  sr_members :: "string list"

record network_state =
  ns_version :: u32
  ns_network_id :: string
  ns_kind :: network_kind
  ns_roles :: "(string, role) fmap"
  ns_transitions :: "transition list"
  ns_member_log :: "transition list"
  ns_pending :: "proposal list"
  ns_splits :: "split_record list"
  ns_topology :: "topology_mode option"

definition NETWORK_STATE_VERSION :: u32 where "NETWORK_STATE_VERSION = 2"

definition empty_for :: "string \<Rightarrow> network_state" where
  "empty_for network_id =
     \<lparr>ns_version = NETWORK_STATE_VERSION, ns_network_id = network_id, ns_kind = Open,
      ns_roles = fmempty, ns_transitions = [], ns_member_log = [], ns_pending = [],
      ns_splits = [], ns_topology = None\<rparr>"

definition role_of :: "network_state \<Rightarrow> string \<Rightarrow> role" where
  "role_of st pubkey = (case fmlookup (ns_roles st) pubkey of None \<Rightarrow> Member | Some r \<Rightarrow> r)"

section \<open>Canonical payload\<close>

definition SIGN_DOMAIN_TAG_STATE :: string where
  "SIGN_DOMAIN_TAG_STATE = ''myownmesh-network-state-v1:''"

fun kind_str :: "network_kind \<Rightarrow> string" where
  "kind_str Open = ''open''"
| "kind_str Closed = ''closed''"
| "kind_str Silent = ''silent''"

fun role_str :: "role \<Rightarrow> string" where
  "role_str Member = ''member''"
| "role_str Controller = ''controller''"
| "role_str Owner = ''owner''"

definition opt_str :: "u32 option \<Rightarrow> string" where
  "opt_str n = (case n of None \<Rightarrow> ''none'' | Some k \<Rightarrow> dec_str (unat k))"

fun variant_str :: "variant \<Rightarrow> string" where
  "variant_str (KindChange to) = ''kind_change|to='' @ kind_str to"
| "variant_str (RoleGrant target role) = ''role_grant|target='' @ target @ ''|role='' @ role_str role"
| "variant_str (RoleRevoke target) = ''role_revoke|target='' @ target"
| "variant_str (Evict target) = ''evict|target='' @ target"
| "variant_str (Split new_network_id members) =
     ''split|new_id='' @ new_network_id @ ''|members='' @ join '','' (sort members)"
| "variant_str (TopologyChange FullMesh) = ''topology|full_mesh''"
| "variant_str (TopologyChange (Ring n)) = ''topology|ring|n='' @ opt_str n"
| "variant_str (TopologyChange (Star hub)) = ''topology|star|hub='' @ hub"
| "variant_str (TopologyChange (Hubs hubs r)) =
     ''topology|hubs|hubs='' @ join '','' (sort hubs) @ ''|r='' @ opt_str r"
| "variant_str Unknown = ''unknown''"

definition transition_payload :: "string \<Rightarrow> variant \<Rightarrow> bytes" where
  "transition_payload network_id v = SIGN_DOMAIN_TAG_STATE @ network_id @ ''|'' @ variant_str v"

definition derive_split_network_id :: "crypto \<Rightarrow> string \<Rightarrow> string list \<Rightarrow> string" where
  "derive_split_network_id c parent_id signers =
     to_lower (b32_encode c (sha256 c
       (''myownmesh-split-v1:'' @ parent_id @ ''|'' @ join ''|'' (sort signers))))"

section \<open>Signatures\<close>

definition sign_transition :: "crypto \<Rightarrow> string \<Rightarrow> variant \<Rightarrow> bytes \<Rightarrow> string" where
  "sign_transition c network_id v key = sign_with c key (transition_payload network_id v)"

fun verify_pairs :: "crypto \<Rightarrow> bytes \<Rightarrow> (string \<times> string) list \<Rightarrow> unit result" where
  "verify_pairs c payload [] = Inr ()"
| "verify_pairs c payload ((signer, sig) # rest) =
     try_res (verify c signer payload sig)
       (\<lambda>ok. if ok then verify_pairs c payload rest else Inl ESignatureInvalid)"

definition verify_transition_signatures :: "crypto \<Rightarrow> string \<Rightarrow> transition \<Rightarrow> unit result" where
  "verify_transition_signatures c network_id t =
     (if length (tr_signers t) \<noteq> length (tr_signatures t)
      then Inl (EProtocol (SignerCountMismatch (length (tr_signers t)) (length (tr_signatures t))))
      else if tr_signers t = [] then Inl (EProtocol NoSigners)
      else verify_pairs c (transition_payload network_id (tr_variant t))
             (zip (tr_signers t) (tr_signatures t)))"

section \<open>Quorum\<close>

text \<open>Membership in the sets \<open>owners\<close> and \<open>controllers_and_owners\<close> of the state before.\<close>

definition in_owners :: "network_state \<Rightarrow> string \<Rightarrow> bool" where
  "in_owners st s \<longleftrightarrow> fmlookup (ns_roles st) s = Some Owner"

definition in_authorities :: "network_state \<Rightarrow> string \<Rightarrow> bool" where
  "in_authorities st s \<longleftrightarrow>
     fmlookup (ns_roles st) s = Some Controller \<or> fmlookup (ns_roles st) s = Some Owner"

definition owner_signed :: "network_state \<Rightarrow> transition \<Rightarrow> bool" where
  "owner_signed st t \<longleftrightarrow> (\<exists>s\<in>set (tr_signers t). in_owners st s)"

definition authority_signed :: "network_state \<Rightarrow> transition \<Rightarrow> bool" where
  "authority_signed st t \<longleftrightarrow> (\<exists>s\<in>set (tr_signers t). in_authorities st s)"

definition require_that :: "bool \<Rightarrow> protocol_reason \<Rightarrow> unit result" where
  "require_that ok r = (if ok then Inr () else Inl (EProtocol r))"

definition verify_quorum :: "network_state \<Rightarrow> transition \<Rightarrow> unit result" where
  "verify_quorum st t =
     (case (tr_variant t, ns_kind st) of
        (KindChange Closed, Open) \<Rightarrow> require_that (tr_signers t \<noteq> []) FounderNeedsSigner
      | (KindChange Open, Closed) \<Rightarrow> require_that (owner_signed st t) ReopenNeedsOwner
      | (KindChange _, _) \<Rightarrow> Inl (EProtocol KindChangeNoOp)
      | (RoleGrant _ Owner, Closed) \<Rightarrow> require_that (owner_signed st t) GrantOwnerNeedsOwner
      | (RoleGrant _ Controller, Closed) \<Rightarrow>
          require_that (authority_signed st t) GrantControllerNeedsAuthority
      | (RoleGrant _ Member, Closed) \<Rightarrow>
          require_that (authority_signed st t) GrantMemberNeedsAuthority
      | (RoleGrant _ _, _) \<Rightarrow> Inr ()
      | (RoleRevoke target, Closed) \<Rightarrow>
          (case role_of st target of
             Owner \<Rightarrow> require_that (owner_signed st t) RevokeOwnerNeedsOwner
           | _ \<Rightarrow> require_that (authority_signed st t) RevokeNeedsAuthority)
      | (RoleRevoke _, _) \<Rightarrow> Inr ()
      | (Evict target, Closed) \<Rightarrow>
          (case role_of st target of
             Owner \<Rightarrow> require_that (owner_signed st t) EvictOwnerNeedsOwner
           | _ \<Rightarrow> require_that (authority_signed st t) EvictNeedsAuthority)
      | (Evict _, _) \<Rightarrow> Inr ()
      | (Split _ _, _) \<Rightarrow> require_that (card (set (tr_signers t)) = 1) SplitNeedsOneSigner
      | (TopologyChange to, Closed) \<Rightarrow>
          if ns_topology st = Some to then Inl (EProtocol TopologyNoOp)
          else require_that (owner_signed st t) TopologyNeedsOwner
      | (TopologyChange _, _) \<Rightarrow> Inl (EProtocol TopologyClosedOnly)
      | (Unknown, _) \<Rightarrow> Inl (EProtocol UnknownVariantRefused))"

section \<open>Applying and replaying\<close>

definition apply_variant :: "network_state \<Rightarrow> transition \<Rightarrow> network_state" where
  "apply_variant st t =
     (case tr_variant t of
        KindChange to \<Rightarrow>
          let st1 = st\<lparr>ns_kind := to\<rparr> in
          if to = Closed
          then (case tr_signers t of
                  founder # _ \<Rightarrow> st1\<lparr>ns_roles := fmupd founder Owner (ns_roles st1)\<rparr>
                | [] \<Rightarrow> st1)
          else st1
      | RoleGrant target role \<Rightarrow> st\<lparr>ns_roles := fmupd target role (ns_roles st)\<rparr>
      | RoleRevoke target \<Rightarrow> st\<lparr>ns_roles := fmdrop target (ns_roles st)\<rparr>
      | Evict target \<Rightarrow> st\<lparr>ns_roles := fmdrop target (ns_roles st)\<rparr>
      | Split new_network_id members \<Rightarrow>
          st\<lparr>ns_splits := ns_splits st @
               [\<lparr>sr_new_network_id = new_network_id, sr_spawned_at = tr_at t,
                 sr_spawned_by = (case tr_signers t of s # _ \<Rightarrow> s | [] \<Rightarrow> []),
                 sr_members = members\<rparr>]\<rparr>
      | TopologyChange to \<Rightarrow> st\<lparr>ns_topology := Some to\<rparr>
      | Unknown \<Rightarrow> st)"

definition apply_transition :: "network_state \<Rightarrow> transition \<Rightarrow> network_state" where
  "apply_transition st t =
     (let st1 = apply_variant st t in st1\<lparr>ns_transitions := ns_transitions st1 @ [t]\<rparr>)"

fun verify_log_from :: "crypto \<Rightarrow> string \<Rightarrow> network_state \<Rightarrow> transition list \<Rightarrow> network_state result" where
  "verify_log_from c network_id st [] = Inr st"
| "verify_log_from c network_id st (t # ts) =
     try_res (verify_transition_signatures c network_id t) (\<lambda>_.
     try_res (verify_quorum st t) (\<lambda>_.
     verify_log_from c network_id (apply_transition st t) ts))"

definition verify_log :: "crypto \<Rightarrow> string \<Rightarrow> transition list \<Rightarrow> network_state result" where
  "verify_log c network_id transitions = verify_log_from c network_id (empty_for network_id) transitions"

section \<open>What a payload determines\<close>

text \<open>
  The payload separates its fields with bars and its lists with commas. On identifiers free of
  the separators (device ids and network ids are) it can be read back: the network and the variant
  are determined, up to the order of a split's members and of a hub list.
\<close>

definition field_ok :: "string \<Rightarrow> bool" where
  "field_ok s \<longleftrightarrow> CHR ''|'' \<notin> set s"

definition item_ok :: "string \<Rightarrow> bool" where
  "item_ok s \<longleftrightarrow> s \<noteq> [] \<and> CHR ''|'' \<notin> set s \<and> CHR '','' \<notin> set s"

fun wf_variant :: "variant \<Rightarrow> bool" where
  "wf_variant (RoleGrant target _) = field_ok target"
| "wf_variant (RoleRevoke target) = field_ok target"
| "wf_variant (Evict target) = field_ok target"
| "wf_variant (Split n ms) = (field_ok n \<and> list_all item_ok ms)"
| "wf_variant (TopologyChange (Star hub)) = field_ok hub"
| "wf_variant (TopologyChange (Hubs hubs _)) = list_all item_ok hubs"
| "wf_variant _ = True"

fun canon_variant :: "variant \<Rightarrow> variant" where
  "canon_variant (Split n ms) = Split n (sort ms)"
| "canon_variant (TopologyChange (Hubs hubs r)) = TopologyChange (Hubs (sort hubs) r)"
| "canon_variant v = v"

fun variant_fields :: "variant \<Rightarrow> string list" where
  "variant_fields (KindChange to) = [''kind_change'', ''to='' @ kind_str to]"
| "variant_fields (RoleGrant target role) = [''role_grant'', ''target='' @ target, ''role='' @ role_str role]"
| "variant_fields (RoleRevoke target) = [''role_revoke'', ''target='' @ target]"
| "variant_fields (Evict target) = [''evict'', ''target='' @ target]"
| "variant_fields (Split n ms) = [''split'', ''new_id='' @ n, ''members='' @ join '','' (sort ms)]"
| "variant_fields (TopologyChange FullMesh) = [''topology'', ''full_mesh'']"
| "variant_fields (TopologyChange (Ring n)) = [''topology'', ''ring'', ''n='' @ opt_str n]"
| "variant_fields (TopologyChange (Star hub)) = [''topology'', ''star'', ''hub='' @ hub]"
| "variant_fields (TopologyChange (Hubs hubs r)) =
     [''topology'', ''hubs'', ''hubs='' @ join '','' (sort hubs), ''r='' @ opt_str r]"
| "variant_fields Unknown = [''unknown'']"

lemma variant_str_join: "variant_str v = join ''|'' (variant_fields v)"
  by (cases v rule: variant_str.cases) simp_all

lemma variant_fields_nonempty [simp]: "variant_fields v \<noteq> []"
  by (cases v rule: variant_fields.cases) simp_all

lemma opt_str_chars: "ch \<in> set (opt_str n) \<Longrightarrow> ch \<noteq> CHR ''|''"
proof (cases n)
  case (Some k)
  assume "ch \<in> set (opt_str n)"
  with Some have "is_ascii_digit ch" by (auto simp: opt_str_def dest: dec_str_digits)
  then show ?thesis by (auto simp: string_simps)
qed (auto simp: opt_str_def)

lemma opt_str_inj: "opt_str m = opt_str n \<longleftrightarrow> m = n"
proof -
  have ne: "dec_str k \<noteq> ''none''" for k
  proof
    assume "dec_str k = ''none''"
    then have "is_ascii_digit (CHR ''n'')" using dec_str_digits [of "CHR ''n''" k] by simp
    then show False by (simp add: string_simps)
  qed
  show ?thesis
    by (cases m; cases n) (auto simp: opt_str_def ne ne [symmetric] word_unat_eq_iff)
qed

lemma join_items_no_bar:
  assumes "list_all item_ok xs"
  shows "CHR ''|'' \<notin> set (join '','' (sort xs))"
proof
  assume "CHR ''|'' \<in> set (join '','' (sort xs))"
  with set_join [of "CHR '',''" "sort xs"] obtain x where "x \<in> set xs" "CHR ''|'' \<in> set x" by auto
  with assms show False by (auto simp: list_all_iff item_ok_def)
qed

lemma join_items_inj:
  assumes "list_all item_ok xs" "list_all item_ok ys" "join '','' (sort xs) = join '','' (sort ys)"
  shows "sort xs = sort ys"
  by (rule join_inj_nonempty [OF _ assms(3)]) (use assms(1,2) in \<open>auto simp: list_all_iff item_ok_def\<close>)

lemma kind_str_inj: "kind_str k = kind_str k' \<longleftrightarrow> k = k'"
  by (cases k; cases k') simp_all

lemma role_str_inj: "role_str r = role_str r' \<longleftrightarrow> r = r'"
  by (cases r; cases r') simp_all

lemma variant_fields_no_bar:
  assumes "wf_variant v" "x \<in> set (variant_fields v)"
  shows "CHR ''|'' \<notin> set x"
proof -
  have k: "CHR ''|'' \<notin> set (kind_str k)" for k by (cases k) simp_all
  have r: "CHR ''|'' \<notin> set (role_str r)" for r by (cases r) simp_all
  have o: "CHR ''|'' \<notin> set (opt_str n)" for n using opt_str_chars by blast
  show ?thesis
    using assms
    by (cases v rule: variant_fields.cases) (auto simp: k r o field_ok_def dest: join_items_no_bar)
qed

lemma variant_fields_inj:
  assumes "wf_variant v" "wf_variant w" "variant_fields v = variant_fields w"
  shows "canon_variant v = canon_variant w"
  using assms
  by (cases v rule: variant_fields.cases; cases w rule: variant_fields.cases)
    (auto simp: kind_str_inj role_str_inj opt_str_inj dest: join_items_inj)

lemma variant_str_canon: "variant_str (canon_variant v) = variant_str v"
  by (cases v rule: variant_str.cases) simp_all

lemma transition_payload_join:
  "transition_payload n v = SIGN_DOMAIN_TAG_STATE @ join ''|'' (n # variant_fields v)"
  by (simp only: transition_payload_def variant_str_join join_Cons [OF variant_fields_nonempty])

lemma payload_inj:
  assumes "field_ok n" "field_ok m" "wf_variant v" "wf_variant w"
    and "transition_payload n v = transition_payload m w"
  shows "n = m \<and> canon_variant v = canon_variant w"
proof -
  have "join ''|'' (n # variant_fields v) = join ''|'' (m # variant_fields w)"
    using assms(5) by (simp only: transition_payload_join same_append_eq)
  moreover have "\<And>x. x \<in> set (n # variant_fields v) \<union> set (m # variant_fields w) \<Longrightarrow> CHR ''|'' \<notin> set x"
    using assms(1-2) variant_fields_no_bar [OF assms(3)] variant_fields_no_bar [OF assms(4)]
    unfolding field_ok_def by (metis Un_iff set_ConsD)
  ultimately have eq: "n # variant_fields v = m # variant_fields w"
    using join_inj [of "n # variant_fields v" "m # variant_fields w" "CHR ''|''"] by blast
  then have "variant_fields v = variant_fields w" by (rule list.inject [THEN iffD1, THEN conjunct2])
  then have "canon_variant v = canon_variant w" by (rule variant_fields_inj [OF assms(3,4)])
  with eq show ?thesis by (metis list.inject)
qed

text \<open>The handshake tag and the state tag differ: no byte string is a payload of both kinds.\<close>

lemma payload_domains_disjoint: "transition_payload n v \<noteq> handshake_payload nonce me them binding"
  by (simp add: transition_payload_def handshake_payload_def SIGN_DOMAIN_TAG_STATE_def SIGN_DOMAIN_TAG_def)

section \<open>Signature checks\<close>

lemma verify_pairs_ok_iff:
  "verify_pairs c payload ps = Inr () \<longleftrightarrow> (\<forall>(s, g)\<in>set ps. verify c s payload g = Inr True)"
  by (induction c payload ps rule: verify_pairs.induct) (auto simp: result_simps)

lemma signatures_ok_iff:
  "verify_transition_signatures c n t = Inr () \<longleftrightarrow>
     length (tr_signers t) = length (tr_signatures t) \<and> tr_signers t \<noteq> [] \<and>
     (\<forall>(s, g)\<in>set (zip (tr_signers t) (tr_signatures t)).
        verify c s (transition_payload n (tr_variant t)) g = Inr True)"
  by (simp add: verify_transition_signatures_def verify_pairs_ok_iff)

text \<open>\<open>s\<close> has a verifying signature on \<open>t\<close> in network \<open>n\<close>.\<close>

definition has_signed :: "crypto \<Rightarrow> string \<Rightarrow> transition \<Rightarrow> string \<Rightarrow> bool" where
  "has_signed c n t s \<longleftrightarrow>
     (\<exists>g. (s, g) \<in> set (zip (tr_signers t) (tr_signatures t)) \<and>
          verify c s (transition_payload n (tr_variant t)) g = Inr True)"

lemma signer_has_signed:
  assumes "verify_transition_signatures c n t = Inr ()" "s \<in> set (tr_signers t)"
  shows "has_signed c n t s"
proof -
  from assms have len: "length (tr_signers t) = length (tr_signatures t)"
    and ok: "\<forall>(s, g)\<in>set (zip (tr_signers t) (tr_signatures t)).
        verify c s (transition_payload n (tr_variant t)) g = Inr True"
    by (auto simp: signatures_ok_iff)
  from assms(2) len obtain g where "(s, g) \<in> set (zip (tr_signers t) (tr_signatures t))"
    by (metis in_set_impl_in_set_zip1)
  with ok show ?thesis by (auto simp: has_signed_def)
qed

section \<open>Replay as a step relation\<close>

text \<open>One accepted step of a replay, and the states a log reaches from genesis.\<close>

inductive gov_step :: "crypto \<Rightarrow> string \<Rightarrow> network_state \<Rightarrow> transition \<Rightarrow> network_state \<Rightarrow> bool" for c n where
  accept: "verify_transition_signatures c n t = Inr () \<Longrightarrow> verify_quorum st t = Inr () \<Longrightarrow>
     gov_step c n st t (apply_transition st t)"

inductive log_reaches :: "crypto \<Rightarrow> string \<Rightarrow> transition list \<Rightarrow> network_state \<Rightarrow> bool" for c n where
  genesis: "log_reaches c n [] (empty_for n)"
| extend: "log_reaches c n ts st \<Longrightarrow> gov_step c n st t st' \<Longrightarrow> log_reaches c n (ts @ [t]) st'"

inductive_cases gov_stepE [elim]: "gov_step c n st t st'"
inductive_simps gov_step_iff: "gov_step c n st t st'"
inductive_simps log_reaches_Nil [simp]: "log_reaches c n [] st"
inductive_simps log_reaches_snoc: "log_reaches c n (ts @ [t]) st'"

lemma verify_log_from_append:
  "verify_log_from c n st (xs @ ys) =
     try_res (verify_log_from c n st xs) (\<lambda>st'. verify_log_from c n st' ys)"
  by (induction xs arbitrary: st) (simp_all add: try_res_assoc)

lemma verify_log_append:
  "verify_log c n (xs @ ys) = try_res (verify_log c n xs) (\<lambda>st. verify_log_from c n st ys)"
  by (simp add: verify_log_def verify_log_from_append)

lemma verify_log_snoc:
  "verify_log c n (ts @ [t]) = Inr st' \<longleftrightarrow> (\<exists>st. verify_log c n ts = Inr st \<and> gov_step c n st t st')"
  by (auto simp: verify_log_append result_simps gov_step_iff)

lemma verify_log_Nil [simp]: "verify_log c n [] = Inr (empty_for n)"
  by (simp add: verify_log_def)

lemma verify_log_reaches: "verify_log c n ts = Inr st \<longleftrightarrow> log_reaches c n ts st"
proof (induction ts arbitrary: st rule: rev_induct)
  case Nil
  then show ?case by auto
next
  case (snoc t ts)
  then show ?case by (simp add: verify_log_snoc log_reaches_snoc)
qed

lemma apply_transition_fields [simp]:
  "ns_transitions (apply_transition st t) = ns_transitions st @ [t]"
  "ns_network_id (apply_transition st t) = ns_network_id st"
  "ns_version (apply_transition st t) = ns_version st"
  "ns_member_log (apply_transition st t) = ns_member_log st"
  "ns_pending (apply_transition st t) = ns_pending st"
  by (cases "tr_variant t"; simp add: apply_transition_def apply_variant_def Let_def split: list.split)+

lemma log_reaches_transitions:
  "log_reaches c n ts st \<Longrightarrow> ns_transitions st = ts \<and> ns_network_id st = n \<and> ns_pending st = [] \<and> ns_member_log st = []"
  by (induction rule: log_reaches.induct) (auto simp: empty_for_def gov_step_iff)

section \<open>Authority\<close>

lemmas quorum_defs = verify_quorum_def require_that_def
lemmas apply_defs = apply_transition_def apply_variant_def Let_def

text \<open>What an accepted step may do to a closed network, by what it changes.\<close>

lemma closed_step_roles:
  assumes "ns_kind st = Closed" "verify_quorum st t = Inr ()"
    and "fmlookup (ns_roles (apply_transition st t)) p \<noteq> fmlookup (ns_roles st) p"
  shows "authority_signed st t"
  using assms
  by (cases "tr_variant t")
    (auto simp: quorum_defs apply_defs owner_signed_def authority_signed_def in_owners_def
       in_authorities_def split: if_splits role.splits network_kind.splits)

lemma closed_step_owner_gain:
  assumes "ns_kind st = Closed" "verify_quorum st t = Inr ()"
    and "fmlookup (ns_roles st) p \<noteq> Some Owner"
    and "fmlookup (ns_roles (apply_transition st t)) p = Some Owner"
  shows "owner_signed st t \<and> tr_variant t = RoleGrant p Owner"
  using assms
  by (cases "tr_variant t")
    (auto simp: quorum_defs apply_defs split: if_splits role.splits network_kind.splits)

lemma closed_step_controller_gain:
  assumes "ns_kind st = Closed" "verify_quorum st t = Inr ()"
    and "fmlookup (ns_roles st) p \<noteq> Some Controller"
    and "fmlookup (ns_roles (apply_transition st t)) p = Some Controller"
  shows "authority_signed st t \<and> tr_variant t = RoleGrant p Controller"
  using assms
  by (cases "tr_variant t")
    (auto simp: quorum_defs apply_defs split: if_splits role.splits network_kind.splits)

lemma closed_step_kind_topology:
  assumes "ns_kind st = Closed" "verify_quorum st t = Inr ()"
    and "ns_kind (apply_transition st t) \<noteq> Closed \<or> ns_topology (apply_transition st t) \<noteq> ns_topology st"
  shows "owner_signed st t"
  using assms
  by (cases "tr_variant t")
    (auto simp: quorum_defs apply_defs split: if_splits role.splits network_kind.splits)

lemma closed_step_owner_removed:
  assumes "ns_kind st = Closed" "verify_quorum st t = Inr ()"
    and "fmlookup (ns_roles st) p = Some Owner"
    and "fmlookup (ns_roles (apply_transition st t)) p = None"
  shows "owner_signed st t"
  using assms
  by (cases "tr_variant t")
    (auto simp: quorum_defs apply_defs role_of_def split: if_splits role.splits network_kind.splits)

lemma closed_step_stays:
  assumes "ns_kind st = Closed" "verify_quorum st t = Inr ()" "tr_variant t \<noteq> KindChange Open"
  shows "ns_kind (apply_transition st t) = Closed"
  using assms
  by (cases "tr_variant t")
    (auto simp: quorum_defs apply_defs split: if_splits role.splits network_kind.splits)

subsection \<open>The chain of trust\<close>

text \<open>
  \<open>delegated c n gate ts root p\<close>: \<open>p\<close> is the founder, or holds a grant in \<open>ts\<close> of a role
  \<open>r\<close> that a delegated device signed. With \<open>gate = {Owner}\<close> it is the chain of owners, with
  \<open>gate = {Owner, Controller}\<close> the chain of everyone with authority.
\<close>

inductive delegated :: "crypto \<Rightarrow> string \<Rightarrow> role set \<Rightarrow> transition list \<Rightarrow> string \<Rightarrow> string \<Rightarrow> bool"
  for c n gate ts root where
  root: "delegated c n gate ts root root"
| grant: "delegated c n gate ts root q \<Longrightarrow> t \<in> set ts \<Longrightarrow> has_signed c n t q \<Longrightarrow>
     tr_variant t = RoleGrant p r \<Longrightarrow> r \<in> gate \<Longrightarrow> delegated c n gate ts root p"

lemma delegated_mono:
  "delegated c n gate ts root p \<Longrightarrow> set ts \<subseteq> set us \<Longrightarrow> delegated c n gate us root p"
  by (induction rule: delegated.induct) (auto intro: delegated.intros)

text \<open>A log that closes the network with its first entry and never reopens it.\<close>

definition closed_from_genesis :: "transition list \<Rightarrow> string \<Rightarrow> bool" where
  "closed_from_genesis ts founder \<longleftrightarrow>
     (\<exists>t rest others. ts = t # rest \<and> tr_variant t = KindChange Closed \<and> tr_signers t = founder # others \<and>
        (\<forall>u\<in>set rest. tr_variant u \<noteq> KindChange Open))"

definition chain_inv :: "crypto \<Rightarrow> string \<Rightarrow> transition list \<Rightarrow> string \<Rightarrow> network_state \<Rightarrow> bool" where
  "chain_inv c n ts f st \<longleftrightarrow> ns_kind st = Closed \<and>
     (\<forall>p. fmlookup (ns_roles st) p = Some Owner \<longrightarrow> delegated c n {Owner} ts f p) \<and>
     (\<forall>p. in_authorities st p \<longrightarrow> delegated c n {Owner, Controller} ts f p)"

lemma chain_inv_step:
  assumes inv: "chain_inv c n ts f st" and step: "gov_step c n st t st'" and "tr_variant t \<noteq> KindChange Open"
  shows "chain_inv c n (ts @ [t]) f st'"
proof -
  from step have sig: "verify_transition_signatures c n t = Inr ()" and q: "verify_quorum st t = Inr ()"
    and st': "st' = apply_transition st t" by auto
  from inv have cl: "ns_kind st = Closed" by (simp add: chain_inv_def)
  have keep: "delegated c n g ts f p \<Longrightarrow> delegated c n g (ts @ [t]) f p" for g p
    by (erule delegated_mono) auto
  have o: "delegated c n {Owner} (ts @ [t]) f p" if "fmlookup (ns_roles st') p = Some Owner" for p
  proof (cases "fmlookup (ns_roles st) p = Some Owner")
    case False
    from closed_step_owner_gain [OF cl q False] that st'
    have "owner_signed st t" and v: "tr_variant t = RoleGrant p Owner" by auto
    then obtain s where "s \<in> set (tr_signers t)" "fmlookup (ns_roles st) s = Some Owner"
      by (auto simp: owner_signed_def in_owners_def)
    with inv keep signer_has_signed [OF sig] v show ?thesis
      by (auto simp: chain_inv_def intro: delegated.grant [of _ _ _ _ _ s t])
  qed (use inv keep in \<open>auto simp: chain_inv_def\<close>)
  have a: "delegated c n {Owner, Controller} (ts @ [t]) f p" if "in_authorities st' p" for p
  proof (cases "in_authorities st p")
    case False
    then have no: "fmlookup (ns_roles st) p \<noteq> Some Owner" "fmlookup (ns_roles st) p \<noteq> Some Controller"
      by (auto simp: in_authorities_def)
    from that st' closed_step_owner_gain [OF cl q no(1)] closed_step_controller_gain [OF cl q no(2)]
    obtain r where v: "tr_variant t = RoleGrant p r" "r \<in> {Owner, Controller}" and "authority_signed st t"
      by (auto simp: in_authorities_def owner_signed_def authority_signed_def in_owners_def)
    then obtain s where "s \<in> set (tr_signers t)" "in_authorities st s"
      by (auto simp: authority_signed_def)
    with inv keep signer_has_signed [OF sig] v show ?thesis
      by (auto simp: chain_inv_def intro: delegated.grant [of _ _ _ _ _ s t])
  qed (use inv keep in \<open>auto simp: chain_inv_def\<close>)
  from closed_step_stays [OF cl q assms(3)] o a st' show ?thesis by (simp add: chain_inv_def)
qed

lemma chain_inv_genesis:
  assumes "gov_step c n (empty_for n) t st'" "tr_variant t = KindChange Closed" "tr_signers t = f # others"
  shows "chain_inv c n [t] f st'"
  using assms
  by (auto simp: gov_step_iff chain_inv_def apply_defs empty_for_def in_authorities_def
      intro: delegated.root split: if_splits)

lemma closed_from_genesis_snoc:
  "ts \<noteq> [] \<Longrightarrow> closed_from_genesis (ts @ [t]) f \<longleftrightarrow> closed_from_genesis ts f \<and> tr_variant t \<noteq> KindChange Open"
  by (cases ts) (auto simp: closed_from_genesis_def)

lemma chain_of_trust:
  "log_reaches c n ts st \<Longrightarrow> closed_from_genesis ts f \<Longrightarrow> chain_inv c n ts f st"
proof (induction rule: log_reaches.induct)
  case genesis
  then show ?case by (simp add: closed_from_genesis_def)
next
  case (extend ts st t st')
  show ?case
  proof (cases "ts = []")
    case True
    with extend.hyps(1) have "st = empty_for n" by simp
    with True extend.hyps(2) extend.prems show ?thesis
      by (auto simp: closed_from_genesis_def intro: chain_inv_genesis)
  next
    case False
    with extend closed_from_genesis_snoc chain_inv_step show ?thesis by blast
  qed
qed

text \<open>A closed network that has lost its last owner never gets one again.\<close>

lemma orphaned_stays:
  "verify_log_from c n st us = Inr st' \<Longrightarrow> ns_kind st = Closed \<Longrightarrow> \<forall>q. \<not> in_owners st q \<Longrightarrow>
     ns_kind st' = Closed \<and> (\<forall>q. \<not> in_owners st' q)"
proof (induction us arbitrary: st)
  case (Cons u us)
  then have q: "verify_quorum st u = Inr ()" and rest: "verify_log_from c n (apply_transition st u) us = Inr st'"
    by (auto simp: try_res_Inr_iff)
  have no: "\<not> owner_signed st u" using Cons.prems(3) by (simp add: owner_signed_def)
  have "ns_kind (apply_transition st u) = Closed" using closed_step_kind_topology [OF Cons.prems(2) q] no by blast
  moreover have "\<not> in_owners (apply_transition st u) p" for p
    using closed_step_owner_gain [OF Cons.prems(2) q, of p] Cons.prems(3) no by (auto simp: in_owners_def)
  ultimately show ?case using Cons.IH rest by blast
qed simp

text \<open>An entry this build does not know stops the replay, wherever it stands.\<close>

lemma unknown_refused:
  assumes "log_reaches c n ts st" shows "\<forall>t\<in>set ts. tr_variant t \<noteq> Unknown"
  using assms by (induction rule: log_reaches.induct) (auto simp: gov_step_iff quorum_defs)

section \<open>Properties\<close>



text \<open>Two splits one signature covers: a member named with a comma reads like two members.\<close>

lemma split_payload_collision:
  "transition_payload n (Split k [''a,b'']) = transition_payload n (Split k [''a'', ''b''])"
proof -
  have "sort [''a'', ''b''] = [''a'', ''b''] " "sort [''a,b''] = [''a,b'']" by code_simp+
  then show ?thesis by (simp add: transition_payload_def)
qed

text \<open>
  C5: \<open>verify_log\<close> decides the replay relation: it returns \<open>st\<close> exactly when every entry, in order,
  carries valid signatures and meets the quorum rule in the state before it, and it is compositional:
  a log can be checked in two pieces. No entry of a variant this build does not know is ever accepted.
\<close>

theorem verify_log_decides_replay:
  "(verify_log c n ts = Inr st \<longleftrightarrow> log_reaches c n ts st) \<and>
   verify_log c n (ts @ us) = try_res (verify_log c n ts) (\<lambda>st. verify_log_from c n st us) \<and>
   (verify_log c n ts = Inr st \<longrightarrow> (\<forall>t\<in>set ts. tr_variant t \<noteq> Unknown))"
  using verify_log_reaches verify_log_append unknown_refused by blast

definition sample_entry :: "u64 \<Rightarrow> variant \<Rightarrow> string \<Rightarrow> transition" where
  "sample_entry at v who = \<lparr>tr_at = at, tr_variant = v, tr_signers = [who], tr_signatures = [who @ who]\<rparr>"

text \<open>Device a closes the network, makes b owner; b makes c controller.\<close>

definition sample_log :: "transition list" where
  "sample_log = [sample_entry 1 (KindChange Closed) ''a'',
     sample_entry 2 (RoleGrant ''b'' Owner) ''a'',
     sample_entry 3 (RoleGrant ''c'' Controller) ''b'']"

definition sample_gov :: network_state where
  "sample_gov = (case verify_log sample_crypto ''home'' sample_log of Inr g \<Rightarrow> g | Inl _ \<Rightarrow> empty_for ''home'')"

theorem verify_log_decides_replay_witness:
  "verify_log sample_crypto ''home'' sample_log = Inr sample_gov \<and>
   log_reaches sample_crypto ''home'' sample_log sample_gov \<and> Unknown \<notin> tr_variant ` set sample_log"
proof -
  have "verify_log sample_crypto ''home'' sample_log = Inr sample_gov" by code_simp
  with verify_log_decides_replay [of sample_crypto "''home''" sample_log sample_gov] show ?thesis by force
qed

text \<open>
  C4: On a closed network an accepted entry changes a role only with the signature of a controller or an
  owner of the state before; it makes a new owner, takes an owner out of the role map, as a revocation or an eviction does,
  reopens the network or changes its topology only with the signature of an owner. The one way an owner can lose its role
  without an owner's signature is a grant of a lower role, which leaves the device in the map and needs a controller's
  signature only.
\<close>

theorem closed_network_authority:
  assumes "ns_kind st = Closed" "gov_step c n st t st'"
  shows "(fmlookup (ns_roles st') p \<noteq> fmlookup (ns_roles st) p \<longrightarrow>
            (\<exists>s. in_authorities st s \<and> has_signed c n t s)) \<and>
         ((fmlookup (ns_roles st) p \<noteq> Some Owner \<and> fmlookup (ns_roles st') p = Some Owner \<or>
           fmlookup (ns_roles st) p = Some Owner \<and> fmlookup (ns_roles st') p = None \<or>
           ns_kind st' \<noteq> Closed \<or> ns_topology st' \<noteq> ns_topology st) \<longrightarrow>
            (\<exists>s. in_owners st s \<and> has_signed c n t s)) \<and>
         (fmlookup (ns_roles st) p = Some Owner \<and> fmlookup (ns_roles st') p \<noteq> Some Owner \<and>
           \<not> (\<exists>s. in_owners st s \<and> has_signed c n t s) \<longrightarrow> (\<exists>r. r \<noteq> Owner \<and> tr_variant t = RoleGrant p r))"
proof -
  from assms(2) have q: "verify_quorum st t = Inr ()" and s: "verify_transition_signatures c n t = Inr ()"
    and st': "st' = apply_transition st t" by auto
  have "authority_signed st t \<Longrightarrow> \<exists>s. in_authorities st s \<and> has_signed c n t s"
    and "owner_signed st t \<Longrightarrow> \<exists>s. in_owners st s \<and> has_signed c n t s"
    using signer_has_signed [OF s] by (auto simp: authority_signed_def owner_signed_def)
  moreover have "\<exists>r. r \<noteq> Owner \<and> tr_variant t = RoleGrant p r"
    if "fmlookup (ns_roles st) p = Some Owner" "fmlookup (ns_roles st') p = Some x" "x \<noteq> Owner" for x
    using that unfolding st' by (cases "tr_variant t") (auto simp: apply_defs split: if_splits list.splits)
  ultimately show ?thesis
    unfolding st'
    using closed_step_roles [OF assms(1) q, of p] closed_step_owner_gain [OF assms(1) q, of p]
      closed_step_owner_removed [OF assms(1) q, of p] closed_step_kind_topology [OF assms(1) q]
    by blast
qed

theorem closed_network_authority_witness:
  "\<exists>s. in_owners sample_gov s \<and>
     has_signed sample_crypto ''home'' (sample_entry 4 (Evict ''a'') ''b'') s"
proof -
  let ?t = "sample_entry 4 (Evict ''a'') ''b''"
  have k: "ns_kind sample_gov = Closed" and v: "verify_transition_signatures sample_crypto ''home'' ?t = Inr ()"
    and q: "verify_quorum sample_gov ?t = Inr ()" by code_simp+
  have "fmlookup (ns_roles sample_gov) ''a'' = Some Owner"
    and "fmlookup (ns_roles (apply_transition sample_gov ?t)) ''a'' = None" by code_simp+
  with closed_network_authority [OF k gov_step.accept [OF v q], of "''a''"] show ?thesis by blast
qed

text \<open>
  C40: A lone controller can orphan a closed network. The grant of a lower role is checked at the level of the
  role granted, not of the target's present one, so an entry signed by a controller alone that grants
  \<open>Controller\<close> to the only owner is accepted; afterwards the network has no owner, and no replayable
  continuation of the log ever gives it one or reopens it.
\<close>

theorem controller_can_orphan_network:
  assumes "ns_kind st = Closed" "fmlookup (ns_roles st) s = Some Controller" "\<forall>q. in_owners st q \<longrightarrow> q = p"
    and "tr_variant t = RoleGrant p Controller" "tr_signers t = [s]"
    and "verify_log_from c n (apply_transition st t) us = Inr st'"
  shows "verify_quorum st t = Inr () \<and> ns_kind st' = Closed \<and> (\<forall>q. \<not> in_owners st' q)"
proof -
  have "authority_signed st t" using assms(2,5) by (auto simp: authority_signed_def in_authorities_def)
  then have q: "verify_quorum st t = Inr ()" using assms(1,4) by (simp add: quorum_defs)
  have "ns_kind (apply_transition st t) = Closed" "\<forall>q. \<not> in_owners (apply_transition st t) q"
    using assms(1,3,4) by (auto simp: apply_defs in_owners_def)
  with assms(6) have "ns_kind st' = Closed \<and> (\<forall>q. \<not> in_owners st' q)"
    by (rule orphaned_stays)
  with q show ?thesis by blast
qed

theorem controller_can_orphan_network_witness:
  "let gov = apply_transition sample_gov (sample_entry 4 (RoleGrant ''a'' Member) ''b'');
       t = sample_entry 5 (RoleGrant ''b'' Controller) ''c'' in
   verify_quorum gov t = Inr () \<and> (\<forall>q. \<not> in_owners (apply_transition gov t) q)"
proof -
  define gov where "gov = apply_transition sample_gov (sample_entry 4 (RoleGrant ''a'' Member) ''b'')"
  let ?t = "sample_entry 5 (RoleGrant ''b'' Controller) ''c''"
  have k: "ns_kind gov = Closed" "fmlookup (ns_roles gov) ''c'' = Some Controller" unfolding gov_def by code_simp+
  have "fmpred (\<lambda>q r. r = Owner \<longrightarrow> q = ''b'') (ns_roles gov)" unfolding gov_def by code_simp
  then have o: "\<forall>q. in_owners gov q \<longrightarrow> q = ''b''" by (auto simp: in_owners_def dest: fmpredD)
  from controller_can_orphan_network [OF k o, of ?t sample_crypto "''home''" "[]" "apply_transition gov ?t"]
  show ?thesis by (simp add: sample_entry_def gov_def Let_def)
qed

end
