(* ===== verification/Member_Log.thy ===== *)
theory Member_Log
  imports Network_State
begin

text \<open>
  The member tier of \<open>network_state.rs\<close>: the multi-writer log of member admissions and removals,
  its last-writer-wins verdict, the union merge of two logs, the migration of a legacy single log
  into the two tiers, and the state-transforming part of \<open>load\<close>.

  \<open>member_entry_key\<close> is \<open>serde_json::to_string\<close> of an entry, code of another package: it is the
  argument \<open>key\<close> of the definitions that call it. The code relies on distinct entries having
  distinct keys; where a lemma needs it, it says \<open>inj_on key\<close> of the entries at hand.
  A \<open>BTreeSet<String>\<close> result is a \<open>string set\<close>.
\<close>

section \<open>Last writer wins\<close>

text \<open>
  The generic register: entries that count are replayed in the order of their stamps, each one
  overwriting the value of its target. Entries with equal stamps must agree on the value.
\<close>

locale lww_register =
  fixes counts :: "'e \<Rightarrow> bool"
    and target :: "'e \<Rightarrow> 'd option"
    and verdict :: "'e \<Rightarrow> 'v"
    and stamp :: "'e \<Rightarrow> 'k :: linorder"
    and step :: "('d, 'v) fmap \<Rightarrow> 'e \<Rightarrow> ('d, 'v) fmap"
  assumes step_lookup:
      "fmlookup (step m e) d = (if counts e \<and> target e = Some d then Some (verdict e) else fmlookup m d)"
    and stamp_verdict: "stamp a \<le> stamp b \<Longrightarrow> stamp b \<le> stamp a \<Longrightarrow> verdict a = verdict b"
begin

lemma replay_lookup:
  "fmlookup (foldl step m es) d =
     (case filter (\<lambda>e. counts e \<and> target e = Some d) es of [] \<Rightarrow> fmlookup m d | fs \<Rightarrow> Some (verdict (last fs)))"
  by (induction es arbitrary: m) (auto simp: step_lookup split: list.split)

lemma latest_wins:
  assumes "e \<in> set es" "counts e" "target e = Some d"
    and "\<And>f. f \<in> set es \<Longrightarrow> counts f \<Longrightarrow> target f = Some d \<Longrightarrow> stamp f \<le> stamp e"
  shows "fmlookup (foldl step m (sort_key stamp es)) d = Some (verdict e)"
proof -
  define fs where "fs = filter (\<lambda>e. counts e \<and> target e = Some d) (sort_key stamp es)"
  have e: "e \<in> set fs" using assms by (simp add: fs_def)
  then have ne: "fs \<noteq> []" by auto
  have "sorted (map stamp fs)" by (simp add: fs_def filter_sort)
  with e have "stamp e \<le> stamp (last fs)" by (intro sorted_key_last)
  moreover have "stamp (last fs) \<le> stamp e"
    using assms(4) [of "last fs"] last_in_set [OF ne] by (auto simp: fs_def)
  ultimately have "verdict (last fs) = verdict e" by (intro stamp_verdict)
  with ne show ?thesis by (auto simp: replay_lookup fs_def split: list.split)
qed

lemma untouched:
  assumes "\<And>f. f \<in> set es \<Longrightarrow> counts f \<Longrightarrow> target f \<noteq> Some d"
  shows "fmlookup (foldl step m (sort_key stamp es)) d = fmlookup m d"
  using assms by (auto simp: replay_lookup filter_empty_conv split: list.split)

text \<open>The result depends on the set of counted entries only: neither order nor repetition matters.\<close>

lemma replay_set:
  assumes "{e \<in> set es. counts e} = {e \<in> set fs. counts e}"
  shows "foldl step m (sort_key stamp es) = foldl step m (sort_key stamp fs)"
proof (rule fmap_ext)
  fix d
  define R where "R = {e \<in> set es. counts e \<and> target e = Some d}"
  have R: "R = {e \<in> set fs. counts e \<and> target e = Some d}" using assms by (auto simp: R_def)
  show "fmlookup (foldl step m (sort_key stamp es)) d = fmlookup (foldl step m (sort_key stamp fs)) d"
  proof (cases "R = {}")
    case True
    with R have "\<And>f. f \<in> set es \<Longrightarrow> counts f \<Longrightarrow> target f \<noteq> Some d"
      "\<And>f. f \<in> set fs \<Longrightarrow> counts f \<Longrightarrow> target f \<noteq> Some d" by (auto simp: R_def)
    then show ?thesis by (simp add: untouched)
  next
    case False
    have "finite R" by (simp add: R_def)
    then obtain e where e: "e \<in> R" and mx: "\<And>f. f \<in> R \<Longrightarrow> stamp f \<le> stamp e"
      using False finite_max_key [of R stamp] by blast
    from e mx have "fmlookup (foldl step m (sort_key stamp es)) d = Some (verdict e)"
      by (intro latest_wins) (auto simp: R_def)
    moreover from e mx R have "fmlookup (foldl step m (sort_key stamp fs)) d = Some (verdict e)"
      by (intro latest_wins) auto
    ultimately show ?thesis by simp
  qed
qed

end

section \<open>Verdict and merge\<close>

definition is_member_tier :: "variant \<Rightarrow> role \<Rightarrow> bool" where
  "is_member_tier v target_role =
     (case v of
        RoleGrant _ Member \<Rightarrow> True
      | RoleRevoke _ \<Rightarrow> target_role = Member
      | Evict _ \<Rightarrow> target_role = Member
      | _ \<Rightarrow> False)"

definition is_member_grant :: "transition \<Rightarrow> bool" where
  "is_member_grant t = (case tr_variant t of RoleGrant _ Member \<Rightarrow> True | _ \<Rightarrow> False)"

text \<open>The sort order: timestamp, then tombstones before grants, then the key.\<close>

definition member_order :: "(transition \<Rightarrow> string) \<Rightarrow> transition \<Rightarrow> u64 \<times> bool \<times> string" where
  "member_order key t = (tr_at t, is_member_grant t, key t)"

definition member_step ::
  "crypto \<Rightarrow> network_state \<Rightarrow> string \<Rightarrow> (string, bool) fmap \<Rightarrow> transition \<Rightarrow> (string, bool) fmap" where
  "member_step c gov network_id present t =
     (if \<not> is_ok (verify_transition_signatures c network_id t) then present
      else if \<not> authority_signed gov t then present
      else (case tr_variant t of
              RoleGrant target Member \<Rightarrow> fmupd target True present
            | RoleRevoke target \<Rightarrow> fmupd target False present
            | Evict target \<Rightarrow> fmupd target False present
            | _ \<Rightarrow> present))"

definition member_log_verdict ::
  "crypto \<Rightarrow> (transition \<Rightarrow> string) \<Rightarrow> network_state \<Rightarrow> transition list \<Rightarrow> string \<Rightarrow> (string, bool) fmap" where
  "member_log_verdict c key gov member_log network_id =
     foldl (member_step c gov network_id) fmempty (sort_key (member_order key) member_log)"

definition verify_member_log ::
  "crypto \<Rightarrow> (transition \<Rightarrow> string) \<Rightarrow> network_state \<Rightarrow> transition list \<Rightarrow> string \<Rightarrow> string set" where
  "verify_member_log c key gov member_log network_id =
     set (map fst (filter snd (sorted_list_of_fmap (member_log_verdict c key gov member_log network_id))))"

definition member_log_removed ::
  "crypto \<Rightarrow> (transition \<Rightarrow> string) \<Rightarrow> network_state \<Rightarrow> transition list \<Rightarrow> string \<Rightarrow> string set" where
  "member_log_removed c key gov member_log network_id =
     set (map fst (filter (\<lambda>kv. \<not> snd kv) (sorted_list_of_fmap (member_log_verdict c key gov member_log network_id))))"

definition merge_member_logs ::
  "(transition \<Rightarrow> string) \<Rightarrow> transition list \<Rightarrow> transition list \<Rightarrow> transition list" where
  "merge_member_logs key local_log incoming =
     map snd (sorted_list_of_fmap
       (foldl (\<lambda>by_key t. if fmlookup by_key (key t) = None then fmupd (key t) t by_key else by_key)
          fmempty (local_log @ incoming)))"

section \<open>Migration of a legacy log\<close>

fun replay_role :: "(string, role) fmap \<Rightarrow> transition \<Rightarrow> (string, role) fmap" where
  "replay_role roles t =
     (case tr_variant t of
        RoleGrant target role \<Rightarrow> fmupd target role roles
      | RoleRevoke target \<Rightarrow> fmdrop target roles
      | Evict target \<Rightarrow> fmdrop target roles
      | KindChange Closed \<Rightarrow> (case tr_signers t of founder # _ \<Rightarrow> fmupd founder Owner roles | [] \<Rightarrow> roles)
      | _ \<Rightarrow> roles)"

definition target_role_at :: "(string, role) fmap \<Rightarrow> variant \<Rightarrow> role" where
  "target_role_at roles v =
     (case v of
        RoleRevoke target \<Rightarrow> (case fmlookup roles target of None \<Rightarrow> Member | Some r \<Rightarrow> r)
      | Evict target \<Rightarrow> (case fmlookup roles target of None \<Rightarrow> Member | Some r \<Rightarrow> r)
      | _ \<Rightarrow> Member)"

fun split_tiers :: "(string, role) fmap \<Rightarrow> transition list \<Rightarrow> transition list \<times> transition list" where
  "split_tiers roles [] = ([], [])"
| "split_tiers roles (t # ts) =
     (let member_tier = is_member_tier (tr_variant t) (target_role_at roles (tr_variant t));
          (governance, members) = split_tiers (replay_role roles t) ts
      in if member_tier then (governance, t # members) else (t # governance, members))"

definition split_member_tier :: "network_state \<Rightarrow> network_state" where
  "split_member_tier st =
     (let (governance, members) = split_tiers fmempty (ns_transitions st)
      in st\<lparr>ns_transitions := governance, ns_member_log := members @ ns_member_log st\<rparr>)"

text \<open>
  \<open>load\<close> on what the file holds: \<open>None\<close> when there is no file, \<open>Some None\<close> when it does not parse.
\<close>

definition load_state :: "string \<Rightarrow> network_state option option \<Rightarrow> network_state result" where
  "load_state network_id file =
     (case file of
        None \<Rightarrow> Inr (empty_for network_id)
      | Some None \<Rightarrow> Inr (empty_for network_id)
      | Some (Some st) \<Rightarrow>
          if ns_version st = 1 \<or> ns_version st = NETWORK_STATE_VERSION
          then let st1 = (if ns_version st = 1
                          then (split_member_tier st)\<lparr>ns_version := NETWORK_STATE_VERSION\<rparr> else st)
               in if ns_network_id st1 \<noteq> network_id then Inr (empty_for network_id) else Inr st1
          else Inl (EOther (StateVersionUnsupported (ns_version st))))"

section \<open>Properties of the verdict\<close>

definition entry_counts :: "crypto \<Rightarrow> network_state \<Rightarrow> string \<Rightarrow> transition \<Rightarrow> bool" where
  "entry_counts c gov n t \<longleftrightarrow> verify_transition_signatures c n t = Inr () \<and> authority_signed gov t"

definition entry_target :: "transition \<Rightarrow> string option" where
  "entry_target t = (case tr_variant t of RoleGrant p Member \<Rightarrow> Some p | RoleRevoke p \<Rightarrow> Some p | Evict p \<Rightarrow> Some p | _ \<Rightarrow> None)"

interpretation member_register: lww_register "entry_counts c gov n" entry_target is_member_grant
  "member_order key" "member_step c gov n" for c gov n key
proof
  fix m e d
  show "fmlookup (member_step c gov n m e) d =
      (if entry_counts c gov n e \<and> entry_target e = Some d then Some (is_member_grant e) else fmlookup m d)"
    by (cases "tr_variant e")
      (auto simp: member_step_def entry_counts_def is_ok_iff entry_target_def is_member_grant_def split: role.split)
qed (auto simp: member_order_def less_eq_prod_def split: if_splits)

lemma verdict_members: "d \<in> verify_member_log c key gov l n \<longleftrightarrow> fmlookup (member_log_verdict c key gov l n) d = Some True"
  using set_filter_keys [of d "\<lambda>v. v" "member_log_verdict c key gov l n"] by (simp add: verify_member_log_def ex_bool_eq del: set_map set_filter)

lemma verdict_removed: "d \<in> member_log_removed c key gov l n \<longleftrightarrow> fmlookup (member_log_verdict c key gov l n) d = Some False"
  using set_filter_keys [of d Not "member_log_verdict c key gov l n"] by (simp add: member_log_removed_def ex_bool_eq del: set_map set_filter)

text \<open>
  The verdict on a device, from the set of entries alone: no entry that counts, no verdict; otherwise
  the grant bit of the greatest (timestamp, grant) pair.
\<close>

definition rulings :: "crypto \<Rightarrow> network_state \<Rightarrow> string \<Rightarrow> transition set \<Rightarrow> string \<Rightarrow> (u64 \<times> bool) set" where
  "rulings c gov n E d = {(tr_at t, is_member_grant t) | t. t \<in> E \<and> entry_counts c gov n t \<and> entry_target t = Some d}"

lemma finite_rulings [simp]: "finite E \<Longrightarrow> finite (rulings c gov n E d)"
  by (rule finite_subset [of _ "(\<lambda>t. (tr_at t, is_member_grant t)) ` E"]) (auto simp: rulings_def)

lemma verdict_spec:
  "fmlookup (member_log_verdict c key gov l n) d =
     (if rulings c gov n (set l) d = {} then None else Some (snd (Max (rulings c gov n (set l) d))))"
proof (cases "rulings c gov n (set l) d = {}")
  case True
  then show ?thesis
    unfolding member_log_verdict_def by (subst member_register.untouched) (auto simp: rulings_def)
next
  case False
  define R where "R = {t \<in> set l. entry_counts c gov n t \<and> entry_target t = Some d}"
  have "finite R" "R \<noteq> {}" using False by (auto simp: R_def rulings_def)
  then obtain e where e: "e \<in> R" and mx: "\<And>f. f \<in> R \<Longrightarrow> member_order key f \<le> member_order key e"
    using finite_max_key [of R "member_order key"] by blast
  have v: "fmlookup (member_log_verdict c key gov l n) d = Some (is_member_grant e)"
    unfolding member_log_verdict_def
    by (rule member_register.latest_wins) (use e mx in \<open>auto simp: R_def\<close>)
  have "Max (rulings c gov n (set l) d) = (tr_at e, is_member_grant e)"
  proof (rule Max_eqI)
    fix y assume "y \<in> rulings c gov n (set l) d"
    then obtain f where "f \<in> R" "y = (tr_at f, is_member_grant f)" by (auto simp: rulings_def R_def)
    with mx [of f] show "y \<le> (tr_at e, is_member_grant e)"
      by (auto simp: member_order_def less_eq_prod_def less_prod_def split: if_splits)
  qed (use e in \<open>auto simp: rulings_def R_def\<close>)
  with v False show ?thesis by simp
qed

lemma verdict_set_cong:
  assumes "set l = set m" shows "member_log_verdict c key gov l n = member_log_verdict c key' gov m n"
  by (rule fmap_ext) (simp add: verdict_spec assms)

section \<open>Properties of the merge\<close>

lemma first_by_key_lookup:
  "fmlookup (foldl (\<lambda>m t. if fmlookup m (key t) = None then fmupd (key t) t m else m) m0 ts) k =
     (case fmlookup m0 k of Some v \<Rightarrow> Some v | None \<Rightarrow> find (\<lambda>t. key t = k) ts)"
  by (induction ts arbitrary: m0) (auto split: option.split)

lemma merge_map_lookup:
  assumes "inj_on key (set ts)"
  shows "fmlookup (foldl (\<lambda>m t. if fmlookup m (key t) = None then fmupd (key t) t m else m) fmempty ts) k = Some v
     \<longleftrightarrow> v \<in> set ts \<and> key v = k"
proof -
  have "find (\<lambda>t. key t = k) ts = Some v \<longleftrightarrow> v \<in> set ts \<and> key v = k"
    using assms
  proof (induction ts)
    case (Cons t ts)
    then have "inj_on key (set ts)" by (simp add: inj_on_def)
    with Cons show ?case by (auto simp: inj_on_def)
  qed simp
  then show ?thesis by (simp add: first_by_key_lookup)
qed

lemma merge_cong:
  assumes "inj_on key (set a \<union> set b)" "set a \<union> set b = set a' \<union> set b'"
  shows "merge_member_logs key a b = merge_member_logs key a' b'"
proof -
  have "inj_on key (set (a @ b))" "inj_on key (set (a' @ b'))" using assms by simp_all
  note look = this [THEN merge_map_lookup]
  show ?thesis
    unfolding merge_member_logs_def
    by (rule arg_cong [where f = "\<lambda>m. map snd (sorted_list_of_fmap m)"], rule fmap_ext, rule option_eqI)
      (use look assms(2) in auto)
qed

lemma set_merge:
  assumes "inj_on key (set a \<union> set b)" shows "set (merge_member_logs key a b) = set a \<union> set b"
proof -
  have i: "inj_on key (set (a @ b))" using assms by simp
  have "t \<in> set (merge_member_logs key a b) \<longleftrightarrow> (\<exists>k. (k, t) \<in> set (sorted_list_of_fmap
      (foldl (\<lambda>m t. if fmlookup m (key t) = None then fmupd (key t) t m else m) fmempty (a @ b))))" for t
    unfolding merge_member_logs_def by (force simp del: in_sorted_list_of_fmap)
  then show ?thesis using merge_map_lookup [OF i] by auto
qed

text \<open>Two entries of a merged log never share a key, so the log holds each entry once.\<close>

lemma distinct_merge: "distinct (map key (merge_member_logs key a b))"
proof -
  define m where "m = foldl (\<lambda>m t. if fmlookup m (key t) = None then fmupd (key t) t m else m) fmempty (a @ b)"
  have "key v = k" if "fmlookup m k = Some v" for k v
    using that by (auto simp: m_def first_by_key_lookup find_Some_iff split: option.splits)
  then have "map key (map snd (sorted_list_of_fmap m)) = map fst (sorted_list_of_fmap m)"
    by auto
  then show ?thesis
    unfolding merge_member_logs_def m_def [symmetric] by (simp only: keys_sorted_distinct)
qed

lemma length_merge:
  assumes "inj_on key (set a \<union> set b)"
  shows "length (merge_member_logs key a b) = card (set a \<union> set b)"
  using set_merge [OF assms] distinct_merge [of key a b] by (metis distinct_card distinct_map)

section \<open>Properties of the migration\<close>

lemma apply_roles: "ns_roles (apply_transition st t) = replay_role (ns_roles st) t"
  by (cases "tr_variant t") (auto simp: apply_defs split: network_kind.split list.split)

lemma split_tiers_mset: "split_tiers r ts = (g, m) \<Longrightarrow> mset ts = mset g + mset m"
  by (induction r ts arbitrary: g m rule: split_tiers.induct) (auto simp: Let_def split: prod.splits if_splits)

lemma split_tiers_subseq: "split_tiers r ts = (g, m) \<Longrightarrow> subseq g ts \<and> subseq m ts"
  by (induction r ts arbitrary: g m rule: split_tiers.induct)
    (auto simp: Let_def split: prod.splits if_splits)

text \<open>
  \<open>tier_sim st st'\<close>: the state a governance log reaches carries at least the authority the full log
  reaches. A controller or owner of the full replay holds the same role in the governance replay.
\<close>

definition roles_sim :: "(string, role) fmap \<Rightarrow> (string, role) fmap \<Rightarrow> bool" where
  "roles_sim r r' \<longleftrightarrow> (\<forall>p x. fmlookup r p = Some x \<longrightarrow> x \<noteq> Member \<longrightarrow> fmlookup r' p = Some x)"

definition tier_sim :: "network_state \<Rightarrow> network_state \<Rightarrow> bool" where
  "tier_sim st st' \<longleftrightarrow> ns_kind st' = ns_kind st \<and> ns_topology st' = ns_topology st \<and>
     ns_splits st' = ns_splits st \<and> roles_sim (ns_roles st) (ns_roles st')"

lemma roles_sim_governance:
  "roles_sim r r' \<Longrightarrow> roles_sim (replay_role r t) (replay_role r' t)"
  by (cases "tr_variant t") (auto simp: roles_sim_def split: network_kind.splits list.splits if_splits)

lemma roles_sim_member:
  assumes "roles_sim r r'" "is_member_tier (tr_variant t) (target_role_at r (tr_variant t))"
  shows "roles_sim (replay_role r t) r'"
  using assms
  by (cases "tr_variant t")
    (auto simp: roles_sim_def is_member_tier_def target_role_at_def split: role.splits if_splits option.splits)

lemma roles_sim_target:
  assumes "roles_sim r r'" "\<not> is_member_tier v (target_role_at r v)"
  shows "\<not> is_member_tier v (target_role_at r' v)"
  using assms
  by (cases v) (auto simp: roles_sim_def is_member_tier_def target_role_at_def split: role.splits option.splits)

lemma split_tiers_again:
  "split_tiers r ts = (g, m) \<Longrightarrow> roles_sim r r' \<Longrightarrow> split_tiers r' g = (g, [])"
proof (induction r ts arbitrary: r' g m rule: split_tiers.induct)
  case (2 r t ts)
  obtain g1 m1 where rest: "split_tiers (replay_role r t) ts = (g1, m1)" by (metis prod.exhaust)
  show ?case
  proof (cases "is_member_tier (tr_variant t) (target_role_at r (tr_variant t))")
    case True
    with "2.prems"(1) rest have "g = g1" by (simp add: Let_def del: replay_role.simps)
    with 2 rest True show ?thesis using roles_sim_member by blast
  next
    case False
    with "2.prems"(1) rest have g: "g = t # g1" by (simp add: Let_def del: replay_role.simps)
    from "2.IH" rest roles_sim_governance [OF "2.prems"(2)]
    have "split_tiers (replay_role r' t) g1 = (g1, [])" by blast
    with g roles_sim_target [OF "2.prems"(2) False] show ?thesis by (simp add: Let_def del: replay_role.simps)
  qed
qed simp

text \<open>A governance-tier step accepted by the full replay is accepted by the governance replay.\<close>

lemma tier_sim_signed:
  assumes "tier_sim st st'"
  shows "owner_signed st t \<Longrightarrow> owner_signed st' t" "authority_signed st t \<Longrightarrow> authority_signed st' t"
  using assms
  by (auto simp: tier_sim_def roles_sim_def owner_signed_def authority_signed_def in_owners_def in_authorities_def)

lemma tier_sim_quorum:
  assumes "tier_sim st st'" "verify_quorum st t = Inr ()"
    and "\<not> is_member_tier (tr_variant t) (target_role_at (ns_roles st) (tr_variant t))"
  shows "verify_quorum st' t = Inr ()"
proof -
  have k: "ns_kind st' = ns_kind st" "ns_topology st' = ns_topology st" and r: "roles_sim (ns_roles st) (ns_roles st')"
    using assms(1) by (simp_all add: tier_sim_def)
  have ro: "role_of st' p = role_of st p" if "role_of st p \<noteq> Member" for p
    using r that by (auto simp: roles_sim_def role_of_def split: option.splits)
  show ?thesis
    using assms(2,3) k ro tier_sim_signed [OF assms(1), of t]
    by (cases "tr_variant t")
      (auto simp: quorum_defs is_member_tier_def target_role_at_def role_of_def
         split: if_splits role.splits network_kind.splits option.splits)
qed

lemma tier_sim_refl [simp]: "tier_sim st st"
  by (simp add: tier_sim_def roles_sim_def)

lemma tier_sim_governance_step:
  assumes "tier_sim st st'" shows "tier_sim (apply_transition st t) (apply_transition st' t)"
proof -
  have "ns_kind (apply_transition st' t) = ns_kind (apply_transition st t) \<and>
      ns_topology (apply_transition st' t) = ns_topology (apply_transition st t) \<and>
      ns_splits (apply_transition st' t) = ns_splits (apply_transition st t)"
    using assms by (cases "tr_variant t") (auto simp: tier_sim_def apply_defs split: list.split)
  with assms roles_sim_governance show ?thesis
    by (simp add: tier_sim_def apply_roles del: replay_role.simps)
qed

lemma tier_sim_member_step:
  assumes "tier_sim st st'" "is_member_tier (tr_variant t) (target_role_at (ns_roles st) (tr_variant t))"
  shows "tier_sim (apply_transition st t) st'"
proof -
  have "ns_kind (apply_transition st t) = ns_kind st \<and> ns_topology (apply_transition st t) = ns_topology st \<and>
      ns_splits (apply_transition st t) = ns_splits st"
    using assms(2) by (cases "tr_variant t") (auto simp: apply_defs is_member_tier_def)
  with assms roles_sim_member show ?thesis
    by (simp add: tier_sim_def apply_roles del: replay_role.simps)
qed

lemma split_tiers_verify:
  assumes "verify_log_from c n st ts = Inr fin" "tier_sim st st'" "split_tiers (ns_roles st) ts = (g, m)"
  shows "\<exists>fin'. verify_log_from c n st' g = Inr fin' \<and> tier_sim fin fin'"
  using assms
proof (induction ts arbitrary: st st' g m)
  case (Cons t ts)
  obtain g1 m1 where rest: "split_tiers (ns_roles (apply_transition st t)) ts = (g1, m1)" by (metis prod.exhaust)
  from Cons.prems(1) have ok: "verify_transition_signatures c n t = Inr ()" "verify_quorum st t = Inr ()"
    "verify_log_from c n (apply_transition st t) ts = Inr fin" by (auto simp: result_simps)
  show ?case
  proof (cases "is_member_tier (tr_variant t) (target_role_at (ns_roles st) (tr_variant t))")
    case True
    with Cons.prems(3) rest have "g = g1" by (simp add: Let_def apply_roles del: replay_role.simps)
    with Cons.IH [OF ok(3) tier_sim_member_step [OF Cons.prems(2) True] rest] show ?thesis by simp
  next
    case False
    with Cons.prems(3) rest have g: "g = t # g1" by (simp add: Let_def apply_roles del: replay_role.simps)
    from tier_sim_quorum [OF Cons.prems(2) ok(2) False]
      Cons.IH [OF ok(3) tier_sim_governance_step [OF Cons.prems(2)] rest] ok(1) g
    show ?thesis by simp
  qed
qed auto

lemma split_member_tier_fields:
  assumes "split_tiers fmempty (ns_transitions st) = (g, m)"
  shows "split_member_tier st = st\<lparr>ns_transitions := g, ns_member_log := m @ ns_member_log st\<rparr>"
  by (simp add: split_member_tier_def assms)

lemma split_member_tier_idem: "split_member_tier (split_member_tier st) = split_member_tier st"
proof -
  obtain g m where gm: "split_tiers fmempty (ns_transitions st) = (g, m)" by (metis prod.exhaust)
  have "split_tiers fmempty g = (g, [])"
    by (rule split_tiers_again [OF gm]) (simp add: roles_sim_def)
  with gm show ?thesis by (simp add: split_member_tier_def)
qed

section \<open>Properties\<close>

text \<open>A stand-in for the serialized form an entry is deduplicated by.\<close>

definition sample_key :: "transition \<Rightarrow> string" where
  "sample_key t =
     (case tr_variant t of RoleGrant p _ \<Rightarrow> ''g'' @ p | Evict p \<Rightarrow> ''e'' @ p | RoleRevoke p \<Rightarrow> ''r'' @ p | _ \<Rightarrow> [])"

text \<open>
  C9: The member log is a last-writer-wins register per device. The verdict on a device is fixed by the
  set of entries: none when no authorized entry names it, otherwise the newest one rules, and an admission
  beats a removal with the same timestamp. Two replicas with the same entries, in any order and with
  repetitions, agree on every verdict.
\<close>

theorem member_verdict_converges:
  "fmlookup (member_log_verdict c key gov l n) d =
     (if rulings c gov n (set l) d = {} then None else Some (snd (Max (rulings c gov n (set l) d)))) \<and>
   (set l = set m \<longrightarrow> member_log_verdict c key gov l n = member_log_verdict c key' gov m n)"
  using verdict_spec verdict_set_cong by blast

definition sample_members :: "transition list" where
  "sample_members = [sample_entry 5 (RoleGrant ''d'' Member) ''c'', sample_entry 6 (Evict ''d'') ''b'',
     sample_entry 5 (RoleGrant ''e'' Member) ''d'', sample_entry 7 (RoleGrant ''f'' Member) ''c'']"

theorem member_verdict_converges_witness:
  "member_log_verdict sample_crypto sample_key sample_gov (rev sample_members @ sample_members) ''home'' =
   member_log_verdict sample_crypto sample_key sample_gov sample_members ''home'' \<and>
   verify_member_log sample_crypto sample_key sample_gov sample_members ''home'' = {''f''}"
proof
  show "member_log_verdict sample_crypto sample_key sample_gov (rev sample_members @ sample_members) ''home'' =
      member_log_verdict sample_crypto sample_key sample_gov sample_members ''home''"
    by (rule member_verdict_converges [THEN conjunct2, rule_format]) simp
  show "verify_member_log sample_crypto sample_key sample_gov sample_members ''home'' = {''f''}"
    by code_simp
qed

text \<open>
  Merging member logs is a join of replicas: commutative, associative, idempotent, it holds exactly
  the entries of both sides, once each. Entries are told apart by their serialized form.
\<close>

theorem merge_member_logs_join:
  assumes "inj_on key (set a \<union> set b \<union> set d)"
  shows "merge_member_logs key a b = merge_member_logs key b a \<and>
     merge_member_logs key (merge_member_logs key a b) d = merge_member_logs key a (merge_member_logs key b d) \<and>
     merge_member_logs key (merge_member_logs key a b) b = merge_member_logs key a b \<and>
     set (merge_member_logs key a b) = set a \<union> set b \<and> distinct (merge_member_logs key a b)"
proof (intro conjI)
  have sub: "inj_on key (set a \<union> set b)" "inj_on key (set b \<union> set d)" "inj_on key (set a \<union> set d)"
    using assms by (auto intro: inj_on_subset)
  note m = set_merge [OF sub(1)] set_merge [OF sub(2)]
  show "merge_member_logs key a b = merge_member_logs key b a"
    by (rule merge_cong) (use sub in auto)
  show "merge_member_logs key (merge_member_logs key a b) d = merge_member_logs key a (merge_member_logs key b d)"
    by (rule merge_cong) (use assms m in auto)
  show "merge_member_logs key (merge_member_logs key a b) b = merge_member_logs key a b"
    by (rule merge_cong) (use sub m in auto)
  show "set (merge_member_logs key a b) = set a \<union> set b" by (rule m)
  show "distinct (merge_member_logs key a b)" using distinct_merge [of key a b] by (simp add: distinct_map)
qed

theorem merge_member_logs_join_witness:
  "set (merge_member_logs sample_key sample_members (rev sample_members)) = set sample_members"
proof -
  have "inj_on sample_key (set sample_members \<union> set (rev sample_members) \<union> set [])" by code_simp
  from merge_member_logs_join [OF this]
  have "set (merge_member_logs sample_key sample_members (rev sample_members)) = set sample_members \<union> set (rev sample_members)"
    by blast
  then show ?thesis by (simp only: set_rev Un_absorb)
qed

text \<open>
  Migrating a version 1 state file moves the member entries of the one old log to the member log. No
  entry is lost, the migration is idempotent, and what is left still verifies from genesis to the same
  kind, topology and splits, with every owner and controller of the old log in place.
\<close>

theorem split_member_tier_sound:
  assumes "verify_log c n (ns_transitions st) = Inr g"
  shows "mset (ns_transitions (split_member_tier st)) + mset (ns_member_log (split_member_tier st)) =
       mset (ns_transitions st) + mset (ns_member_log st) \<and>
     split_member_tier (split_member_tier st) = split_member_tier st \<and>
     (\<exists>g'. verify_log c n (ns_transitions (split_member_tier st)) = Inr g' \<and>
        ns_kind g' = ns_kind g \<and> ns_topology g' = ns_topology g \<and> ns_splits g' = ns_splits g \<and>
        (\<forall>p r. fmlookup (ns_roles g) p = Some r \<longrightarrow> r \<noteq> Member \<longrightarrow> fmlookup (ns_roles g') p = Some r))"
proof -
  obtain gl ml where gm: "split_tiers fmempty (ns_transitions st) = (gl, ml)" by (metis prod.exhaust)
  have "split_tiers (ns_roles (empty_for n)) (ns_transitions st) = (gl, ml)" using gm by (simp add: empty_for_def)
  from split_tiers_verify [OF assms [unfolded verify_log_def] tier_sim_refl this]
  obtain g' where "verify_log c n gl = Inr g'" "tier_sim g g'" by (auto simp: verify_log_def)
  moreover have "ns_transitions (split_member_tier st) = gl" "ns_member_log (split_member_tier st) = ml @ ns_member_log st"
    by (simp_all add: split_member_tier_fields [OF gm])
  ultimately show ?thesis
    using split_tiers_mset [OF gm] split_member_tier_idem [of st] by (auto simp: tier_sim_def roles_sim_def)
qed

theorem split_member_tier_sound_witness:
  "\<exists>g'. verify_log sample_crypto ''home'' (ns_transitions (split_member_tier
      ((empty_for ''home'')\<lparr>ns_transitions := sample_log @ [sample_entry 5 (RoleGrant ''d'' Member) ''c'']\<rparr>))) = Inr g' \<and>
    fmlookup (ns_roles g') ''b'' = Some Owner"
proof -
  let ?ts = "sample_log @ [sample_entry 5 (RoleGrant ''d'' Member) ''c'']"
  have "is_ok (verify_log sample_crypto ''home'' ?ts)" by code_simp
  then obtain g where g: "verify_log sample_crypto ''home'' ?ts = Inr g" by (auto simp: is_ok_iff)
  have "(case verify_log sample_crypto ''home'' ?ts of Inr g \<Rightarrow> fmlookup (ns_roles g) ''b'' = Some Owner | Inl _ \<Rightarrow> False)"
    by code_simp
  with g have "fmlookup (ns_roles g) ''b'' = Some Owner" by simp
  with split_member_tier_sound [of sample_crypto "''home''" "(empty_for ''home'')\<lparr>ns_transitions := ?ts\<rparr>" g] g
  show ?thesis by auto
qed

end
