(* ===== verification/Roster.thy ===== *)
theory Roster
  imports Network_State
begin

text \<open>
  The roster of authorized peers, \<open>roster.rs\<close>: rows keyed by the canonical public key, the edits,
  the membership test, the gossip roots and the checks of \<open>load\<close>. \<open>now_unix\<close> is an argument; the
  file reads and writes are not modelled, only what \<open>load\<close> makes of the parsed file.
\<close>

section \<open>Rows and edits\<close>

record authorized_peer =
  ap_device_id :: string
  ap_label :: string
  ap_approved_at :: u64
  ap_role :: role

record roster =
  ro_version :: u32
  ro_network_id :: string
  ro_devices :: "authorized_peer list"

definition ROSTER_VERSION :: u32 where "ROSTER_VERSION = 1"

definition empty_roster_for :: "string \<Rightarrow> roster" where
  "empty_roster_for network_id = \<lparr>ro_version = ROSTER_VERSION, ro_network_id = network_id, ro_devices = []\<rparr>"

definition has_row :: "string \<Rightarrow> authorized_peer \<Rightarrow> bool" where
  "has_row pubkey p \<longleftrightarrow> ap_device_id p = pubkey"

definition add_peer_in :: "u64 \<Rightarrow> roster \<Rightarrow> string \<Rightarrow> string \<Rightarrow> roster" where
  "add_peer_in now r device_id lbl =
     (let pubkey = pubkey_part device_id in
      if list_ex (has_row pubkey) (ro_devices r)
      then r\<lparr>ro_devices := update_first (has_row pubkey) (\<lambda>p. p\<lparr>ap_label := lbl\<rparr>) (ro_devices r)\<rparr>
      else r\<lparr>ro_devices := ro_devices r @
             [\<lparr>ap_device_id = pubkey, ap_label = lbl, ap_approved_at = now, ap_role = Member\<rparr>]\<rparr>)"

definition set_role_in :: "roster \<Rightarrow> string \<Rightarrow> role \<Rightarrow> roster \<times> bool" where
  "set_role_in r device_id role =
     (let pubkey = pubkey_part device_id in
      case find (has_row pubkey) (ro_devices r) of
        Some existing \<Rightarrow>
          if ap_role existing \<noteq> role
          then (r\<lparr>ro_devices := update_first (has_row pubkey) (\<lambda>p. p\<lparr>ap_role := role\<rparr>) (ro_devices r)\<rparr>, True)
          else (r, False)
      | None \<Rightarrow> (r, False))"

definition remove_peer_in :: "roster \<Rightarrow> string \<Rightarrow> roster" where
  "remove_peer_in r device_id =
     (let pubkey = pubkey_part device_id in
      r\<lparr>ro_devices := filter (\<lambda>p. ap_device_id p \<noteq> pubkey) (ro_devices r)\<rparr>)"

definition is_authorized :: "roster \<Rightarrow> string \<Rightarrow> bool" where
  "is_authorized r device_id =
     (let pubkey = pubkey_part device_id in list_ex (\<lambda>p. ap_device_id p = pubkey) (ro_devices r))"

definition last_edit_ts :: "roster \<Rightarrow> u64" where
  "last_edit_ts r = (case map ap_approved_at (ro_devices r) of [] \<Rightarrow> 0 | t # ts \<Rightarrow> fold max ts t)"

section \<open>Roots\<close>

definition ROSTER_MERKLE_V :: string where "ROSTER_MERKLE_V = ''v1''"

definition role_tag :: "role \<Rightarrow> string" where
  "role_tag r = (case r of Member \<Rightarrow> ''member'' | Controller \<Rightarrow> ''controller'' | Owner \<Rightarrow> ''owner'')"

definition leaf_preimage :: "authorized_peer \<Rightarrow> bytes" where
  "leaf_preimage entry = ROSTER_MERKLE_V @ ''|'' @ ap_device_id entry @ ''|'' @ ap_label entry @ ''|'' @
     dec_str (unat (ap_approved_at entry)) @ ''|'' @ role_tag (ap_role entry)"

definition leaf_hash :: "crypto \<Rightarrow> authorized_peer \<Rightarrow> bytes" where
  "leaf_hash c entry = sha256 c (leaf_preimage entry)"

definition merkle_root :: "crypto \<Rightarrow> roster \<Rightarrow> string" where
  "merkle_root c r =
     to_lower (b32_encode c (sha256 c
       (ROSTER_MERKLE_V @ concat (map (leaf_hash c) (sort_key ap_device_id (ro_devices r))))))"

definition membership_preimage :: "roster \<Rightarrow> bytes" where
  "membership_preimage r =
     ROSTER_MERKLE_V @ ''|membership'' @ concat (map (\<lambda>i. i @ ''|'') (sort (map ap_device_id (ro_devices r))))"

definition membership_root :: "crypto \<Rightarrow> roster \<Rightarrow> string" where
  "membership_root c r = to_lower (b32_encode c (sha256 c (membership_preimage r)))"

record roster_summary =
  rs_root :: string
  rs_count :: u32
  rs_last_edit_ts :: u64

definition summary :: "crypto \<Rightarrow> roster \<Rightarrow> roster_summary" where
  "summary c r = \<lparr>rs_root = membership_root c r, rs_count = of_nat (length (ro_devices r)),
     rs_last_edit_ts = last_edit_ts r\<rparr>"

text \<open>\<open>load\<close> on the parsed file: \<open>None\<close> no file, \<open>Some None\<close> unparsable.\<close>

definition load_roster :: "string \<Rightarrow> roster option option \<Rightarrow> roster result" where
  "load_roster current_network_id file =
     (case file of
        None \<Rightarrow> Inr (empty_roster_for current_network_id)
      | Some None \<Rightarrow> Inr (empty_roster_for current_network_id)
      | Some (Some r) \<Rightarrow>
          if ro_version r \<noteq> ROSTER_VERSION then Inl (ERoster (RosterVersionUnsupported (ro_version r)))
          else if ro_network_id r \<noteq> current_network_id then Inr (empty_roster_for current_network_id)
          else Inr r)"

section \<open>Invariant\<close>

text \<open>One row per device, each under a key in canonical position: a key is its own public-key part.\<close>

definition roster_wf :: "roster \<Rightarrow> bool" where
  "roster_wf r \<longleftrightarrow> distinct (map ap_device_id (ro_devices r)) \<and>
     (\<forall>p\<in>set (ro_devices r). pubkey_part (ap_device_id p) = ap_device_id p)"

lemma roster_wf_empty [simp]: "roster_wf (empty_roster_for n)"
  by (simp add: roster_wf_def empty_roster_for_def)

lemma map_id_update_label [simp]:
  "map ap_device_id (update_first q (\<lambda>p. p\<lparr>ap_label := l\<rparr>) ps) = map ap_device_id ps"
  "map ap_device_id (update_first q (\<lambda>p. p\<lparr>ap_role := x\<rparr>) ps) = map ap_device_id ps"
  by (simp_all add: map_update_first)

definition roster_keys :: "roster \<Rightarrow> string list" where
  "roster_keys r = map ap_device_id (ro_devices r)"

lemma roster_wf_keys:
  "roster_wf r \<longleftrightarrow> distinct (roster_keys r) \<and> (\<forall>k\<in>set (roster_keys r). pubkey_part k = k)"
  by (simp add: roster_wf_def roster_keys_def)

lemma is_authorized_keys: "is_authorized r d \<longleftrightarrow> pubkey_part d \<in> set (roster_keys r)"
  by (force simp: is_authorized_def roster_keys_def list_ex_iff)

lemma has_row_keys: "list_ex (has_row k) (ro_devices r) \<longleftrightarrow> k \<in> set (roster_keys r)"
  by (force simp: has_row_def roster_keys_def list_ex_iff)

lemma keys_add [simp]:
  "roster_keys (add_peer_in now r d l) =
     (if pubkey_part d \<in> set (roster_keys r) then roster_keys r else roster_keys r @ [pubkey_part d])"
  using has_row_keys [of "pubkey_part d" r] by (simp add: add_peer_in_def Let_def roster_keys_def)

lemma keys_set_role [simp]: "roster_keys (fst (set_role_in r d x)) = roster_keys r"
  by (simp add: set_role_in_def Let_def roster_keys_def split: option.split)

lemma keys_remove [simp]: "roster_keys (remove_peer_in r d) = filter (\<lambda>k. k \<noteq> pubkey_part d) (roster_keys r)"
  by (simp add: remove_peer_in_def Let_def roster_keys_def filter_map comp_def)

lemma roster_wf_set_role: "roster_wf (fst (set_role_in r d x)) = roster_wf r"
  by (simp add: roster_wf_keys)

lemma roster_wf_remove: "roster_wf r \<Longrightarrow> roster_wf (remove_peer_in r d)"
  by (auto simp: roster_wf_keys)

lemma roster_wf_add:
  "roster_wf r \<Longrightarrow> pubkey_part (pubkey_part d) = pubkey_part d \<Longrightarrow> roster_wf (add_peer_in now r d l)"
  by (auto simp: roster_wf_keys)

section \<open>Rows\<close>

definition row_of :: "roster \<Rightarrow> string \<Rightarrow> authorized_peer option" where
  "row_of r k = find (has_row k) (ro_devices r)"

lemma find_update_first:
  assumes id: "\<And>p. ap_device_id (f p) = ap_device_id p"
  shows "find (has_row j) (update_first (has_row k) f ps) =
     (if j = k then map_option f (find (has_row k) ps) else find (has_row j) ps)"
  unfolding has_row_def [abs_def] by (induction ps) (auto simp: id)

lemma find_append_row: "find q (ps @ [x]) = (case find q ps of Some p \<Rightarrow> Some p | None \<Rightarrow> if q x then Some x else None)"
  by (induction ps) auto

lemma row_of_None_iff: "row_of r k = None \<longleftrightarrow> k \<notin> set (roster_keys r)"
  by (auto simp: row_of_def find_None_iff has_row_def roster_keys_def)

lemma row_of_id: "row_of r k = Some p \<Longrightarrow> ap_device_id p = k"
  by (auto simp: row_of_def find_Some_iff has_row_def)

lemma row_of_add:
  "row_of (add_peer_in now r d l) k =
     (if k = pubkey_part d
      then Some (case row_of r k of
                   Some p \<Rightarrow> p\<lparr>ap_label := l\<rparr>
                 | None \<Rightarrow> \<lparr>ap_device_id = k, ap_label = l, ap_approved_at = now, ap_role = Member\<rparr>)
      else row_of r k)"
proof (cases "row_of r (pubkey_part d)")
  case None
  then have "\<not> list_ex (has_row (pubkey_part d)) (ro_devices r)" by (simp add: row_of_None_iff has_row_keys)
  with None show ?thesis
    by (auto simp: add_peer_in_def Let_def row_of_def find_append_row has_row_def split: option.split)
next
  case (Some p)
  then have "list_ex (has_row (pubkey_part d)) (ro_devices r)"
    using row_of_None_iff [of r "pubkey_part d"] by (simp add: has_row_keys)
  with Some show ?thesis
    by (auto simp: add_peer_in_def Let_def row_of_def find_update_first has_row_def)
qed

lemma row_of_set_role:
  "row_of (fst (set_role_in r d x)) k =
     (if k = pubkey_part d then map_option (\<lambda>p. p\<lparr>ap_role := x\<rparr>) (row_of r k) else row_of r k)"
proof (cases "row_of r (pubkey_part d)")
  case (Some p)
  then show ?thesis
    by (auto simp: set_role_in_def Let_def row_of_def find_update_first has_row_def)
qed (auto simp: set_role_in_def Let_def row_of_def)

lemma set_role_changed_iff:
  "snd (set_role_in r d x) \<longleftrightarrow> (\<exists>p. row_of r (pubkey_part d) = Some p \<and> ap_role p \<noteq> x)"
  by (auto simp: set_role_in_def Let_def row_of_def split: option.split)

lemma find_filter_row: "find (has_row k) (filter (\<lambda>p. ap_device_id p \<noteq> j) ps) = (if k = j then None else find (has_row k) ps)"
  unfolding has_row_def [abs_def] by (induction ps) auto

lemma row_of_remove: "row_of (remove_peer_in r d) k = (if k = pubkey_part d then None else row_of r k)"
  by (simp add: remove_peer_in_def Let_def row_of_def find_filter_row)

section \<open>The authorization interface\<close>

text \<open>
  What the handshake relies on: who is authorized after a sequence of edits. An edit rules on at
  most one key; the last edit that rules on a device's key decides.
\<close>

locale authorization_store =
  fixes key :: "string \<Rightarrow> string"
    and auth :: "'s \<Rightarrow> string \<Rightarrow> bool"
    and edit :: "'s \<Rightarrow> 'op \<Rightarrow> 's"
    and rules_on :: "'op \<Rightarrow> string \<Rightarrow> bool"
    and grants :: "'op \<Rightarrow> bool"
  assumes auth_edit: "auth (edit s op) e \<longleftrightarrow> (if rules_on op (key e) then grants op else auth s e)"
begin

lemma last_edit_decides:
  "auth (foldl edit s ops) e \<longleftrightarrow>
     (let us = filter (\<lambda>op. rules_on op (key e)) ops in if us = [] then auth s e else grants (last us))"
  by (induction ops rule: rev_induct) (simp_all add: auth_edit Let_def)

lemma untouched_device:
  assumes "\<And>op. op \<in> set ops \<Longrightarrow> \<not> rules_on op (key e)"
  shows "auth (foldl edit s ops) e = auth s e"
  using assms by (simp add: last_edit_decides filter_empty_conv)

end

datatype row_edit = AddPeer u64 string string | SetRole string role | RemovePeer string

fun roster_edit :: "roster \<Rightarrow> row_edit \<Rightarrow> roster" where
  "roster_edit r (AddPeer now d l) = add_peer_in now r d l"
| "roster_edit r (SetRole d x) = fst (set_role_in r d x)"
| "roster_edit r (RemovePeer d) = remove_peer_in r d"

fun edit_rules_on :: "row_edit \<Rightarrow> string \<Rightarrow> bool" where
  "edit_rules_on (AddPeer now d l) k \<longleftrightarrow> k = pubkey_part d"
| "edit_rules_on (SetRole d x) k \<longleftrightarrow> False"
| "edit_rules_on (RemovePeer d) k \<longleftrightarrow> k = pubkey_part d"

fun edit_grants :: "row_edit \<Rightarrow> bool" where
  "edit_grants (AddPeer now d l) = True"
| "edit_grants _ = False"

interpretation roster_auth: authorization_store pubkey_part is_authorized roster_edit edit_rules_on edit_grants
proof
  fix s op e
  show "is_authorized (roster_edit s op) e \<longleftrightarrow>
      (if edit_rules_on op (pubkey_part e) then edit_grants op else is_authorized s e)"
    by (cases op) (simp_all add: is_authorized_keys)
qed

section \<open>Roots\<close>

lemma role_tag_chars: "CHR ''|'' \<notin> set (role_tag r)"
  by (cases r) (simp_all add: role_tag_def)

lemma role_tag_inj: "role_tag r = role_tag r' \<longleftrightarrow> r = r'"
  by (cases r; cases r') (simp_all add: role_tag_def)

lemma dec_str_no_bar: "CHR ''|'' \<notin> set (dec_str k)"
  using dec_str_digits [of "CHR ''|''" k] by (auto simp: string_simps)

lemma leaf_preimage_inj:
  assumes "field_ok (ap_device_id p)" "field_ok (ap_device_id q)" "leaf_preimage p = leaf_preimage q"
  shows "p = q"
proof -
  let ?t = "\<lambda>p. dec_str (unat (ap_approved_at p))"
  let ?r = "\<lambda>p. role_tag (ap_role p)"
  have "ap_device_id p @ CHR ''|'' # ap_label p @ CHR ''|'' # ?t p @ CHR ''|'' # ?r p =
        ap_device_id q @ CHR ''|'' # ap_label q @ CHR ''|'' # ?t q @ CHR ''|'' # ?r q"
    using assms(3) by (simp add: leaf_preimage_def)
  with assms(1,2) have d: "ap_device_id p = ap_device_id q"
    and rest: "(ap_label p @ CHR ''|'' # ?t p) @ CHR ''|'' # ?r p = (ap_label q @ CHR ''|'' # ?t q) @ CHR ''|'' # ?r q"
    by (simp_all add: cut_at_sep field_ok_def)
  from rest have r: "ap_role p = ap_role q" and l: "ap_label p @ CHR ''|'' # ?t p = ap_label q @ CHR ''|'' # ?t q"
    by (simp_all only: cut_at_last_sep [OF role_tag_chars role_tag_chars] role_tag_inj)
  from l have "ap_label p = ap_label q" "ap_approved_at p = ap_approved_at q"
    by (simp_all add: cut_at_last_sep [OF dec_str_no_bar dec_str_no_bar] word_unat_eq_iff)
  with d r show ?thesis by (simp add: authorized_peer.equality)
qed

lemma membership_preimage_inj:
  assumes "list_all field_ok (roster_keys r)" "list_all field_ok (roster_keys s)"
    and "membership_preimage r = membership_preimage s"
  shows "mset (roster_keys r) = mset (roster_keys s)"
proof -
  have "sort (roster_keys r) = sort (roster_keys s)"
    by (rule terminated_inj [where c = "CHR ''|''"])
      (use assms in \<open>auto simp: membership_preimage_def roster_keys_def field_ok_def list_all_iff\<close>)
  then show ?thesis by (simp add: sort_eq_iff_mset)
qed

lemma membership_root_mset:
  "mset (roster_keys r) = mset (roster_keys s) \<Longrightarrow> membership_root c r = membership_root c s"
  using sort_eq_iff_mset [of "roster_keys r" "roster_keys s"]
  by (simp add: membership_root_def membership_preimage_def roster_keys_def)

lemma merkle_root_mset:
  assumes "roster_wf r" "mset (ro_devices r) = mset (ro_devices s)"
  shows "merkle_root c r = merkle_root c s"
proof -
  have "inj_on ap_device_id (set (ro_devices r))" using assms(1) by (simp add: roster_wf_def distinct_map)
  then have "sort_key ap_device_id (ro_devices r) = sort_key ap_device_id (ro_devices s)"
    by (intro sort_key_inj_key_eq) (simp_all add: assms(2))
  then show ?thesis by (simp add: merkle_root_def)
qed

section \<open>Properties\<close>

text \<open>
  The roster holds one row per device whatever edits are applied; an edit of a label or of a role never
  changes who is authorized, and the last add or remove of a device, in either spelling of its id, decides.
\<close>

theorem roster_last_edit_decides:
  assumes "distinct (roster_keys r)"
  shows "distinct (roster_keys (foldl roster_edit r ops)) \<and>
     (is_authorized (foldl roster_edit r ops) d \<longleftrightarrow>
        (let us = filter (\<lambda>op. edit_rules_on op (pubkey_part d)) ops
         in if us = [] then is_authorized r d else edit_grants (last us)))"
proof
  have "distinct (roster_keys (roster_edit r op))" if "distinct (roster_keys r)" for r op
    using that by (cases op) simp_all
  then show "distinct (roster_keys (foldl roster_edit r ops))"
    using assms by (induction ops arbitrary: r) simp_all
qed (rule roster_auth.last_edit_decides)

theorem roster_last_edit_decides_witness:
  "\<not> is_authorized (foldl roster_edit (empty_roster_for ''home'')
     [AddPeer 1 ''b'' ''bob'', AddPeer 2 ''c'' [], RemovePeer ''b-41414'', SetRole ''b'' Owner]) ''b''"
proof -
  let ?ops = "[AddPeer 1 ''b'' ''bob'', AddPeer 2 ''c'' [], RemovePeer ''b-41414'', SetRole ''b'' Owner]"
  have "distinct (roster_keys (empty_roster_for ''home''))"
    and "(let us = filter (\<lambda>op. edit_rules_on op (pubkey_part ''b'')) ?ops
         in \<not> (if us = [] then is_authorized (empty_roster_for ''home'') ''b'' else edit_grants (last us)))" by code_simp+
  with roster_last_edit_decides [of "empty_roster_for ''home''" ?ops "''b''"] show ?thesis by (simp only: Let_def) blast
qed

text \<open>
  The membership root gossiped between peers stands for the set of members: it ignores order,
  labels, timestamps and roles, and what is hashed determines the members. The full root covers every
  field of a row.
\<close>

theorem membership_root_stands_for_members:
  assumes "roster_wf r" "roster_wf s" "list_all field_ok (roster_keys r)" "list_all field_ok (roster_keys s)"
  shows "(set (roster_keys r) = set (roster_keys s) \<longrightarrow> membership_root c r = membership_root c s) \<and>
     (membership_preimage r = membership_preimage s \<longrightarrow> set (roster_keys r) = set (roster_keys s)) \<and>
     (p \<in> set (ro_devices r) \<longrightarrow> q \<in> set (ro_devices s) \<longrightarrow> leaf_preimage p = leaf_preimage q \<longrightarrow> p = q)"
proof (intro conjI impI)
  have d: "distinct (roster_keys r)" "distinct (roster_keys s)" using assms(1,2) by (simp_all add: roster_wf_keys)
  show "membership_root c r = membership_root c s" if "set (roster_keys r) = set (roster_keys s)"
    using that d by (intro membership_root_mset) (simp add: set_eq_iff_mset_eq_distinct)
  show "set (roster_keys r) = set (roster_keys s)" if "membership_preimage r = membership_preimage s"
    using membership_preimage_inj [OF assms(3,4) that] by (metis set_mset_mset)
  show "p = q" if "p \<in> set (ro_devices r)" "q \<in> set (ro_devices s)" "leaf_preimage p = leaf_preimage q"
    using that assms(3,4) by (intro leaf_preimage_inj) (auto simp: roster_keys_def list_all_iff)
qed

definition sample_roster :: roster where
  "sample_roster = foldl roster_edit (empty_roster_for ''home'') [AddPeer 1 ''b'' ''bob'', AddPeer 2 ''c'' ''carol'']"

theorem membership_root_stands_for_members_witness:
  "membership_root sample_crypto sample_roster =
   membership_root sample_crypto (foldl roster_edit (empty_roster_for ''home'') [AddPeer 9 ''c'' [], AddPeer 9 ''b'' []])"
proof -
  let ?s = "foldl roster_edit (empty_roster_for ''home'') [AddPeer 9 ''c'' [], AddPeer 9 ''b'' []]"
  have "roster_wf sample_roster" "roster_wf ?s" "list_all field_ok (roster_keys sample_roster)" "list_all field_ok (roster_keys ?s)"
    "set (roster_keys sample_roster) = set (roster_keys ?s)" by code_simp+
  with membership_root_stands_for_members [of sample_roster ?s sample_crypto] show ?thesis by blast
qed

end
