(* ===== verification/Projection.thy ===== *)
theory Projection
  imports Member_Log Roster
begin

text \<open>
  The pure half of \<open>engine/governance.rs\<close>: the role projection re-derived from both signed logs, its
  mirror into the operative roster, the canonical signer order, the member-tier timestamp and the
  fork guard's comparison. \<open>add_peer_in\<close> reads the clock once per new row; one reconcile is given
  one clock value.
\<close>

section \<open>Projection of the signed logs\<close>

definition pk :: "string \<Rightarrow> string" where
  "pk device_id = pubkey_part device_id"

definition stable_open_silent_drift :: "network_kind \<Rightarrow> u32 \<Rightarrow> network_kind \<Rightarrow> u32 \<Rightarrow> bool" where
  "stable_open_silent_drift local_kind local_count remote_kind remote_count \<longleftrightarrow>
     local_count = 0 \<and> remote_count = 0 \<and>
     ((local_kind = Open \<and> remote_kind = Silent) \<or> (local_kind = Silent \<and> remote_kind = Open))"

text \<open>The loop \<open>for m in members { roles.entry(m).or_insert(Role::Member) }\<close>.\<close>

definition seat_members :: "(string, role) fmap \<Rightarrow> string set \<Rightarrow> (string, role) fmap" where
  "seat_members roles members =
     fold (\<lambda>m rs. if fmlookup rs m = None then fmupd m Member rs else rs) (sorted_list_of_set members) roles"

definition project_roles ::
  "crypto \<Rightarrow> (transition \<Rightarrow> string) \<Rightarrow> string \<Rightarrow> transition list \<Rightarrow> transition list \<Rightarrow> (string, role) fmap" where
  "project_roles c key network_id transitions member_log =
     (let gov = unwrap_or (empty_for network_id) (verify_log c network_id transitions) in
      seat_members (ns_roles gov) (verify_member_log c key gov member_log network_id))"

definition verified_projection ::
  "crypto \<Rightarrow> (transition \<Rightarrow> string) \<Rightarrow> string \<Rightarrow> network_state \<Rightarrow> ((string, role) fmap \<times> string set) result" where
  "verified_projection c key network_id governance =
     try_res (verify_log c network_id (ns_transitions governance)) (\<lambda>verified.
       Inr (seat_members (ns_roles verified) (verify_member_log c key verified (ns_member_log governance) network_id),
            member_log_removed c key verified (ns_member_log governance) network_id))"

definition signed_projection_contains ::
  "crypto \<Rightarrow> (transition \<Rightarrow> string) \<Rightarrow> string \<Rightarrow> network_state \<Rightarrow> string \<Rightarrow> bool result" where
  "signed_projection_contains c key network_id governance device_id =
     try_res (verified_projection c key network_id governance)
       (\<lambda>(roles, _). Inr (fmlookup roles (pk device_id) \<noteq> None))"

definition matches_tombstone :: "string set \<Rightarrow> string \<Rightarrow> bool" where
  "matches_tombstone removed device_id \<longleftrightarrow> pk device_id \<in> removed"

section \<open>Mirror into the roster\<close>

record repair =
  rp_added :: "string list"
  rp_removed :: "string list"
  rp_roles_updated :: "string list"
  rp_governance_roles_updated :: bool

definition empty_repair :: repair where
  "empty_repair = \<lparr>rp_added = [], rp_removed = [], rp_roles_updated = [], rp_governance_roles_updated = False\<rparr>"

definition roster_changed :: "repair \<Rightarrow> bool" where
  "roster_changed rp \<longleftrightarrow> rp_added rp \<noteq> [] \<or> rp_removed rp \<noteq> [] \<or> rp_roles_updated rp \<noteq> []"

definition mirror_one :: "u64 \<Rightarrow> roster \<times> repair \<Rightarrow> string \<times> role \<Rightarrow> roster \<times> repair" where
  "mirror_one now = (\<lambda>(roster, rp) (pubkey, role).
     let (roster1, rp1) =
           (if \<not> is_authorized roster pubkey
            then (add_peer_in now roster pubkey [], rp\<lparr>rp_added := rp_added rp @ [pubkey]\<rparr>)
            else (roster, rp));
         (roster2, changed) = set_role_in roster1 pubkey role
     in (roster2, if changed then rp1\<lparr>rp_roles_updated := rp_roles_updated rp1 @ [pubkey]\<rparr> else rp1))"

definition is_dropped :: "string set \<Rightarrow> string \<Rightarrow> authorized_peer \<Rightarrow> bool" where
  "is_dropped removed self_pk e \<longleftrightarrow> ap_device_id e \<noteq> self_pk \<and> ap_device_id e \<in> removed"

definition is_stale :: "(string, role) fmap \<Rightarrow> authorized_peer \<Rightarrow> bool" where
  "is_stale roles e \<longleftrightarrow> fmlookup roles (ap_device_id e) = None \<and> ap_role e \<noteq> Member"

definition mirror_roles_to_roster ::
  "u64 \<Rightarrow> (string, role) fmap \<Rightarrow> roster \<Rightarrow> string set \<Rightarrow> string \<Rightarrow> roster \<times> repair" where
  "mirror_roles_to_roster now roles roster removed self_pubkey =
     (let (roster1, rp1) = foldl (mirror_one now) (roster, empty_repair) (sorted_list_of_fmap roles);
          self_pk = pubkey_part self_pubkey;
          rp2 = rp1\<lparr>rp_removed := rp_removed rp1 @
                  map ap_device_id (filter (is_dropped removed self_pk) (ro_devices roster1))\<rparr>;
          kept = filter (\<lambda>e. ap_device_id e = self_pk \<or> ap_device_id e \<notin> removed) (ro_devices roster1);
          rp3 = rp2\<lparr>rp_roles_updated := rp_roles_updated rp2 @ map ap_device_id (filter (is_stale roles) kept)\<rparr>
      in (roster1\<lparr>ro_devices := map (\<lambda>e. if is_stale roles e then e\<lparr>ap_role := Member\<rparr> else e) kept\<rparr>, rp3))"

definition reconcile_signed_projection ::
  "crypto \<Rightarrow> (transition \<Rightarrow> string) \<Rightarrow> u64 \<Rightarrow> string \<Rightarrow> network_state \<Rightarrow> roster \<Rightarrow> string \<Rightarrow>
     (network_state \<times> roster \<times> repair) result" where
  "reconcile_signed_projection c key now network_id governance roster self_pubkey =
     try_res (verified_projection c key network_id governance) (\<lambda>(roles, removed).
       let governance_roles_updated = (ns_roles governance \<noteq> roles);
           governance1 = (if governance_roles_updated then governance\<lparr>ns_roles := roles\<rparr> else governance);
           (roster1, rp) = mirror_roles_to_roster now roles roster removed self_pubkey
       in Inr (governance1, roster1, rp\<lparr>rp_governance_roles_updated := governance_roles_updated\<rparr>))"

section \<open>Signer order, timestamps, fork guard\<close>

definition canonicalize_signers :: "string \<Rightarrow> string list \<Rightarrow> string list \<Rightarrow> string list \<times> string list" where
  "canonicalize_signers proposer signers signatures =
     (if length signers \<noteq> length signatures then (signers, signatures)
      else let pairs = sort_key (\<lambda>(s, _). (if s = proposer then 0 else 1 :: nat, s)) (zip signers signatures)
           in (map fst pairs, map snd pairs))"

definition member_entry_target :: "transition \<Rightarrow> string option" where
  "member_entry_target t =
     (case tr_variant t of
        RoleGrant target _ \<Rightarrow> Some target
      | RoleRevoke target \<Rightarrow> Some target
      | Evict target \<Rightarrow> Some target
      | _ \<Rightarrow> None)"

definition saturating_add_u64 :: "u64 \<Rightarrow> u64 \<Rightarrow> u64" where
  "saturating_add_u64 a b = (if a \<le> a + b then a + b else - 1)"

definition newest_entry :: "transition list \<Rightarrow> string \<Rightarrow> u64" where
  "newest_entry member_log target =
     (case map tr_at (filter (\<lambda>t. member_entry_target t = Some target) member_log) of
        [] \<Rightarrow> 0
      | a # as \<Rightarrow> fold max as a)"

definition timestamp_target :: "network_state \<Rightarrow> variant \<Rightarrow> string option" where
  "timestamp_target gov v =
     (case v of
        RoleGrant target Member \<Rightarrow> Some target
      | RoleRevoke target \<Rightarrow> if role_of gov target = Member then Some target else None
      | Evict target \<Rightarrow> Some target
      | _ \<Rightarrow> None)"

definition member_tier_timestamp :: "u64 \<Rightarrow> network_state \<Rightarrow> variant \<Rightarrow> u64" where
  "member_tier_timestamp now gov v =
     (case timestamp_target gov v of
        None \<Rightarrow> now
      | Some target \<Rightarrow> max now (saturating_add_u64 (newest_entry (ns_member_log gov) target) 1))"

definition same_signer_set :: "transition \<Rightarrow> transition \<Rightarrow> bool" where
  "same_signer_set a b \<longleftrightarrow>
     length (tr_signers a) = length (tr_signers b) \<and> set (tr_signers a) = set (tr_signers b)"

definition shares_prefix :: "transition list \<Rightarrow> transition list \<Rightarrow> bool" where
  "shares_prefix incoming own =
     list_all (\<lambda>(a, b). tr_variant a = tr_variant b \<and> same_signer_set a b) (zip incoming own)"

section \<open>Properties of the projection\<close>

lemma seat_fold_lookup:
  "fmlookup (fold (\<lambda>m rs. if fmlookup rs m = None then fmupd m Member rs else rs) ms roles) p =
     (case fmlookup roles p of Some r \<Rightarrow> Some r | None \<Rightarrow> if p \<in> set ms then Some Member else None)"
  by (induction ms arbitrary: roles) (auto split: option.split)

lemma seat_members_lookup:
  "finite M \<Longrightarrow> fmlookup (seat_members roles M) p =
     (case fmlookup roles p of Some r \<Rightarrow> Some r | None \<Rightarrow> if p \<in> M then Some Member else None)"
  by (simp add: seat_members_def seat_fold_lookup)

lemma finite_members [simp]: "finite (verify_member_log c key gov l n)" "finite (member_log_removed c key gov l n)"
  by (simp_all add: verify_member_log_def member_log_removed_def)

lemma verified_projection_iff:
  "verified_projection c key n gov = Inr (roles, removed) \<longleftrightarrow>
     (\<exists>v. verify_log c n (ns_transitions gov) = Inr v \<and>
        roles = seat_members (ns_roles v) (verify_member_log c key v (ns_member_log gov) n) \<and>
        removed = member_log_removed c key v (ns_member_log gov) n)"
  by (auto simp: verified_projection_def result_simps)

lemma project_roles_verified:
  "verified_projection c key n gov = Inr (roles, removed) \<Longrightarrow>
     project_roles c key n (ns_transitions gov) (ns_member_log gov) = roles"
  by (auto simp: verified_projection_iff project_roles_def)

text \<open>A device in both parts of the projection owes its role to the governance log.\<close>

lemma projection_overlap:
  assumes "verified_projection c key n gov = Inr (roles, removed)" "p \<in> removed" "fmlookup roles p = Some r"
  shows "\<exists>v. verify_log c n (ns_transitions gov) = Inr v \<and> fmlookup (ns_roles v) p = Some r"
proof -
  from assms(1) obtain v where v: "verify_log c n (ns_transitions gov) = Inr v"
    "roles = seat_members (ns_roles v) (verify_member_log c key v (ns_member_log gov) n)"
    "removed = member_log_removed c key v (ns_member_log gov) n"
    by (auto simp: verified_projection_iff)
  with assms(2) have "p \<notin> verify_member_log c key v (ns_member_log gov) n"
    by (simp add: verdict_members verdict_removed)
  with v assms(3) show ?thesis by (auto simp: seat_members_lookup split: option.splits)
qed

section \<open>Properties of the mirror\<close>

text \<open>Keys of the role map are bare public keys.\<close>

definition keys_bare :: "(string, role) fmap \<Rightarrow> bool" where
  "keys_bare roles \<longleftrightarrow> fmpred (\<lambda>k _. pubkey_part k = k) roles"

text \<open>The row a role bearer ends up with: its old row re-tagged, or a fresh one.\<close>

definition seat_row :: "u64 \<Rightarrow> string \<Rightarrow> role \<Rightarrow> authorized_peer option \<Rightarrow> authorized_peer" where
  "seat_row now k x old =
     (case old of
        Some p \<Rightarrow> p\<lparr>ap_role := x\<rparr>
      | None \<Rightarrow> \<lparr>ap_device_id = k, ap_label = [], ap_approved_at = now, ap_role = x\<rparr>)"

lemma seat_row_id: "(\<And>p. old = Some p \<Longrightarrow> ap_device_id p = k) \<Longrightarrow> ap_device_id (seat_row now k x old) = k"
  by (auto simp: seat_row_def split: option.split)

lemma mirror_one_row:
  assumes "pubkey_part k = k"
  shows "row_of (fst (mirror_one now (r, rp) (k, x))) j =
     (if j = k then Some (seat_row now k x (row_of r k)) else row_of r j)"
proof (cases "row_of r k")
  case None
  then have "\<not> is_authorized r k" by (simp add: is_authorized_keys row_of_None_iff assms)
  with None assms show ?thesis
    by (simp add: mirror_one_def Let_def case_prod_beta row_of_set_role row_of_add seat_row_def)
next
  case (Some p)
  then have "is_authorized r k" using row_of_None_iff [of r k] by (simp add: is_authorized_keys assms)
  with Some assms show ?thesis
    by (simp add: mirror_one_def Let_def case_prod_beta row_of_set_role seat_row_def)
qed

lemma mirror_one_wf: "roster_wf r \<Longrightarrow> pubkey_part k = k \<Longrightarrow> roster_wf (fst (mirror_one now (r, rp) (k, x)))"
  by (simp add: mirror_one_def Let_def case_prod_beta roster_wf_set_role roster_wf_add)

lemma mirror_fold_row:
  assumes "list_all (\<lambda>kv. pubkey_part (fst kv) = fst kv) kvs" "distinct (map fst kvs)"
  shows "row_of (fst (foldl (mirror_one now) (r, rp) kvs)) j =
     (case map_of kvs j of Some x \<Rightarrow> Some (seat_row now j x (row_of r j)) | None \<Rightarrow> row_of r j)"
  using assms
proof (induction kvs arbitrary: r rp)
  case (Cons kv kvs)
  obtain k x where kv: "kv = (k, x)" by (cases kv)
  obtain r1 rp1 where m: "mirror_one now (r, rp) (k, x) = (r1, rp1)" by (metis prod.exhaust)
  have k: "pubkey_part k = k" using Cons.prems(1) kv by auto
  have rest: "list_all (\<lambda>kv. pubkey_part (fst kv) = fst kv) kvs" "distinct (map fst kvs)" "k \<notin> fst ` set kvs"
    using Cons.prems kv by auto
  from rest(3) have none: "map_of kvs k = None" by (simp add: map_of_eq_None_iff)
  from mirror_one_row [OF k, of now r rp x] m
  have r1: "row_of r1 i = (if i = k then Some (seat_row now k x (row_of r k)) else row_of r i)" for i by simp
  have step: "row_of (fst (foldl (mirror_one now) (r, rp) (kv # kvs))) j =
      (case map_of kvs j of Some x \<Rightarrow> Some (seat_row now j x (row_of r1 j)) | None \<Rightarrow> row_of r1 j)"
    using Cons.IH [OF rest(1,2), where r = r1 and rp = rp1] by (simp add: kv m)
  show ?case
  proof (cases "j = k")
    case True
    with none show ?thesis unfolding step by (simp add: kv r1)
  next
    case False
    with r1 [of j] have "row_of r1 j = row_of r j" by simp
    with False show ?thesis unfolding step by (cases "map_of kvs j") (simp_all add: kv)
  qed
qed simp

lemma mirror_fold_wf:
  assumes "list_all (\<lambda>kv. pubkey_part (fst kv) = fst kv) kvs" "roster_wf r"
  shows "roster_wf (fst (foldl (mirror_one now) (r, rp) kvs))"
  using assms
proof (induction kvs arbitrary: r rp)
  case (Cons kv kvs)
  obtain k x where kv: "kv = (k, x)" by (cases kv)
  obtain r1 rp1 where m: "mirror_one now (r, rp) (k, x) = (r1, rp1)" by (metis prod.exhaust)
  have "roster_wf r1" using mirror_one_wf [of r k now rp x] Cons.prems kv m by auto
  with Cons.IH [of r1 rp1] Cons.prems(1) show ?case by (auto simp: kv m)
qed simp

text \<open>The second half of the mirror, on the rows: drop the tombstoned, clear stale tags.\<close>

lemma find_has_row_filter:
  "find (has_row k) (filter q ps) = (case find (has_row k) ps of Some p \<Rightarrow> if q p then Some p else None | None \<Rightarrow> None)"
  if "distinct (map ap_device_id ps)"
  using that
proof (induction ps)
  case (Cons p ps)
  have "ap_device_id q \<noteq> ap_device_id p" if "q \<in> set ps" for q
    using Cons.prems that by (metis distinct.simps(2) image_eqI list.set_map list.simps(9))
  then have "find (has_row (ap_device_id p)) ps = None" by (simp add: find_None_iff has_row_def)
  with Cons show ?case unfolding has_row_def [abs_def] by auto
qed simp

lemma find_has_row_map:
  "(\<And>p. ap_device_id (f p) = ap_device_id p) \<Longrightarrow> find (has_row k) (map f ps) = map_option f (find (has_row k) ps)"
  unfolding has_row_def [abs_def] by (induction ps) auto

lemma map_of_sorted_fmap: "map_of (sorted_list_of_fmap m) k = fmlookup m k"
  by simp

lemma stale_id: "ap_device_id (if is_stale roles e then e\<lparr>ap_role := Member\<rparr> else e) = ap_device_id e"
  by simp

lemma mirror_roster_eq:
  assumes "mirror_roles_to_roster now roles r removed self = (r', rp)"
    and "foldl (mirror_one now) (r, empty_repair) (sorted_list_of_fmap roles) = (r1, rp1)"
  shows "ro_devices r' = map (\<lambda>e. if is_stale roles e then e\<lparr>ap_role := Member\<rparr> else e)
      (filter (\<lambda>e. ap_device_id e = pubkey_part self \<or> ap_device_id e \<notin> removed) (ro_devices r1))"
  using assms by (auto simp: mirror_roles_to_roster_def Let_def)

lemma keys_bare_list:
  "keys_bare roles \<Longrightarrow> list_all (\<lambda>kv. pubkey_part (fst kv) = fst kv) (sorted_list_of_fmap roles)"
  by (simp add: keys_bare_def curry_def)

lemma mirror_rows:
  assumes wf: "roster_wf r" and bare: "keys_bare roles"
    and m: "mirror_roles_to_roster now roles r removed self = (r', rp)"
  shows "row_of r' k =
      (if k \<noteq> pubkey_part self \<and> k \<in> removed then None
       else case fmlookup roles k of
              Some x \<Rightarrow> Some (seat_row now k x (row_of r k))
            | None \<Rightarrow> map_option (\<lambda>p. p\<lparr>ap_role := Member\<rparr>) (row_of r k))"
proof -
  obtain r1 rp1 where f: "foldl (mirror_one now) (r, empty_repair) (sorted_list_of_fmap roles) = (r1, rp1)"
    by (metis prod.exhaust)
  note b = keys_bare_list [OF bare]
  have row1: "row_of r1 k = (case fmlookup roles k of
        Some x \<Rightarrow> Some (seat_row now k x (row_of r k)) | None \<Rightarrow> row_of r k)"
    using mirror_fold_row [OF b, where now = now and r = r and rp = empty_repair and j = k] f by simp
  have dist: "distinct (map ap_device_id (ro_devices r1))"
    using mirror_fold_wf [OF b wf, where now = now and rp = empty_repair] f by (simp add: roster_wf_def)
  let ?clear = "\<lambda>e. if is_stale roles e then e\<lparr>ap_role := Member\<rparr> else e"
  let ?keep = "\<lambda>e. ap_device_id e = pubkey_part self \<or> ap_device_id e \<notin> removed"
  have "row_of r' k = map_option ?clear (find (has_row k) (filter ?keep (ro_devices r1)))"
    unfolding row_of_def mirror_roster_eq [OF m f] by (rule find_has_row_map) simp
  then have r': "row_of r' k = map_option ?clear (case row_of r1 k of
      Some p \<Rightarrow> if ?keep p then Some p else None | None \<Rightarrow> None)"
    by (simp only: find_has_row_filter [OF dist] row_of_def)
  have id: "ap_device_id p = k" if "row_of r k = Some p" for p using that by (rule row_of_id)
  show ?thesis
  proof (cases "fmlookup roles k")
    case None
    with id show ?thesis unfolding r' row1 by (cases "row_of r k") (auto simp: is_stale_def)
  next
    case (Some x)
    have "ap_device_id (seat_row now k x (row_of r k)) = k" by (rule seat_row_id) (rule id)
    with Some show ?thesis unfolding r' row1 by (auto simp: is_stale_def)
  qed
qed

lemma mirror_wf:
  assumes wf: "roster_wf r" and bare: "keys_bare roles"
    and m: "mirror_roles_to_roster now roles r removed self = (r', rp)"
  shows "roster_wf r'"
proof -
  obtain r1 rp1 where f: "foldl (mirror_one now) (r, empty_repair) (sorted_list_of_fmap roles) = (r1, rp1)"
    by (metis prod.exhaust)
  have "roster_wf r1"
    using mirror_fold_wf [OF keys_bare_list [OF bare] wf, where now = now and rp = empty_repair] f by simp
  moreover have "map ap_device_id (ro_devices r') =
      map ap_device_id (filter (\<lambda>e. ap_device_id e = pubkey_part self \<or> ap_device_id e \<notin> removed) (ro_devices r1))"
    unfolding mirror_roster_eq [OF m f] by simp
  ultimately show ?thesis
    by (simp add: roster_wf_keys roster_keys_def distinct_map_filter)
qed

text \<open>A roster that already agrees with the projection is left alone.\<close>

definition settled :: "(string, role) fmap \<Rightarrow> string set \<Rightarrow> string \<Rightarrow> roster \<Rightarrow> bool" where
  "settled roles removed self_pk r \<longleftrightarrow>
     (\<forall>k x. fmlookup roles k = Some x \<longrightarrow> (\<exists>p. row_of r k = Some p \<and> ap_role p = x)) \<and>
     (\<forall>p\<in>set (ro_devices r). \<not> is_dropped removed self_pk p \<and> \<not> is_stale roles p)"

lemma mirror_one_noop:
  assumes "pubkey_part k = k" "row_of r k = Some p" "ap_role p = x"
  shows "mirror_one now (r, rp) (k, x) = (r, rp)"
proof -
  have "is_authorized r k" using assms(1,2) row_of_None_iff [of r k] by (simp add: is_authorized_keys)
  with assms show ?thesis by (simp add: mirror_one_def set_role_in_def row_of_def Let_def)
qed

lemma mirror_fold_noop:
  assumes "list_all (\<lambda>kv. pubkey_part (fst kv) = fst kv) kvs"
    and "\<And>k x. (k, x) \<in> set kvs \<Longrightarrow> \<exists>p. row_of r k = Some p \<and> ap_role p = x"
  shows "foldl (mirror_one now) (r, rp) kvs = (r, rp)"
  using assms
proof (induction kvs)
  case (Cons kv kvs)
  obtain k x where kv: "kv = (k, x)" by (cases kv)
  from Cons.prems(2) [of k x] kv obtain p where "row_of r k = Some p" "ap_role p = x" by auto
  with Cons.prems(1) kv have "mirror_one now (r, rp) kv = (r, rp)" by (simp add: mirror_one_noop)
  with Cons show ?case by simp
qed simp

lemma settled_mirror:
  assumes "keys_bare roles" "settled roles removed (pubkey_part self) r"
  shows "mirror_roles_to_roster now roles r removed self = (r, empty_repair)"
proof -
  have f: "foldl (mirror_one now) (r, empty_repair) (sorted_list_of_fmap roles) = (r, empty_repair)"
    by (rule mirror_fold_noop [OF keys_bare_list [OF assms(1)]]) (use assms(2) in \<open>auto simp: settled_def\<close>)
  have nd: "\<And>p. p \<in> set (ro_devices r) \<Longrightarrow> \<not> is_dropped removed (pubkey_part self) p"
    and ns: "\<And>p. p \<in> set (ro_devices r) \<Longrightarrow> \<not> is_stale roles p"
    using assms(2) by (auto simp: settled_def)
  have "filter (is_dropped removed (pubkey_part self)) (ro_devices r) = []"
    "filter (\<lambda>e. ap_device_id e = pubkey_part self \<or> ap_device_id e \<notin> removed) (ro_devices r) = ro_devices r"
    "filter (is_stale roles) (ro_devices r) = []"
    "map (\<lambda>e. if is_stale roles e then e\<lparr>ap_role := Member\<rparr> else e) (ro_devices r) = ro_devices r"
    using nd ns by (auto simp: filter_empty_conv is_dropped_def intro: filter_True map_idI)
  then show ?thesis
    unfolding mirror_roles_to_roster_def Let_def f prod.case by (simp add: empty_repair_def del: filter_filter)
qed

lemma row_of_iff: "roster_wf r \<Longrightarrow> row_of r k = Some p \<longleftrightarrow> p \<in> set (ro_devices r) \<and> ap_device_id p = k"
proof -
  assume "roster_wf r"
  then have i: "inj_on ap_device_id (set (ro_devices r))" by (simp add: roster_wf_def distinct_map)
  show ?thesis
  proof
    assume "row_of r k = Some p"
    then show "p \<in> set (ro_devices r) \<and> ap_device_id p = k"
      by (auto simp: row_of_def find_Some_iff has_row_def)
  next
    assume p: "p \<in> set (ro_devices r) \<and> ap_device_id p = k"
    then obtain q where q: "row_of r k = Some q"
      using row_of_None_iff [of r k] by (cases "row_of r k") (auto simp: roster_keys_def)
    then have "q \<in> set (ro_devices r)" "ap_device_id q = k"
      by (auto simp: row_of_def find_Some_iff has_row_def)
    with i p have "q = p" by (auto dest: inj_onD)
    with q show "row_of r k = Some p" by simp
  qed
qed

lemma mirror_settles:
  assumes wf: "roster_wf r" and bare: "keys_bare roles"
    and m: "mirror_roles_to_roster now roles r removed self = (r', rp)"
    and no_overlap: "\<And>k. fmlookup roles k \<noteq> None \<Longrightarrow> k \<in> removed \<Longrightarrow> k = pubkey_part self"
  shows "settled roles removed (pubkey_part self) r'"
  unfolding settled_def
proof (intro conjI allI impI ballI)
  fix k x assume "fmlookup roles k = Some x"
  moreover have "ap_role (seat_row now k x (row_of r k)) = x" by (simp add: seat_row_def split: option.split)
  ultimately show "\<exists>p. row_of r' k = Some p \<and> ap_role p = x"
    using mirror_rows [OF wf bare m, of k] no_overlap [of k] by auto
next
  fix p assume "p \<in> set (ro_devices r')"
  then have row: "row_of r' (ap_device_id p) = Some p"
    using mirror_wf [OF wf bare m] by (simp add: row_of_iff)
  note rows = mirror_rows [OF wf bare m, of "ap_device_id p"]
  from row rows show "\<not> is_dropped removed (pubkey_part self) p"
    by (auto simp: is_dropped_def split: if_splits)
  from row rows show "\<not> is_stale roles p"
    by (cases "fmlookup roles (ap_device_id p)") (auto simp: is_stale_def split: if_splits)
qed

text \<open>
  A role bearer that is also tombstoned is added and dropped again by every reconcile: it is never
  authorized, and the roster never settles.
\<close>

lemma mirror_overlap:
  assumes wf: "roster_wf r" and bare: "keys_bare roles"
    and m: "mirror_roles_to_roster now roles r removed self = (r', rp)"
    and k: "fmlookup roles k = Some x" "k \<in> removed" "k \<noteq> pubkey_part self"
  shows "\<not> is_authorized r' k \<and> roster_changed rp"
proof
  have "pubkey_part k = k" using bare k(1) by (auto simp: keys_bare_def fmpred_iff)
  then show "\<not> is_authorized r' k"
    using mirror_rows [OF wf bare m, of k] k by (simp add: is_authorized_keys row_of_None_iff)
  obtain r1 rp1 where f: "foldl (mirror_one now) (r, empty_repair) (sorted_list_of_fmap roles) = (r1, rp1)"
    by (metis prod.exhaust)
  have "row_of r1 k \<noteq> None"
    using mirror_fold_row [OF keys_bare_list [OF bare], where now = now and r = r and rp = empty_repair and j = k] f k(1)
    by simp
  then obtain p where "p \<in> set (ro_devices r1)" "ap_device_id p = k"
    by (auto simp: row_of_None_iff roster_keys_def)
  then have "filter (is_dropped removed (pubkey_part self)) (ro_devices r1) \<noteq> []"
    using k by (auto simp: filter_empty_conv is_dropped_def)
  then show "roster_changed rp"
    using m f by (auto simp: mirror_roles_to_roster_def Let_def roster_changed_def)
qed

section \<open>Properties of signer order and timestamps\<close>

lemma canonicalize_pairs:
  assumes "length ss = length gs" "canonicalize_signers p ss gs = (ss', gs')"
  shows "mset (zip ss' gs') = mset (zip ss gs)" "length ss' = length gs'"
  using assms by (auto simp: canonicalize_signers_def Let_def zip_map_fst_snd)

lemma canonicalize_proposer_first:
  assumes "length ss = length gs" "p \<in> set ss" "canonicalize_signers p ss gs = (ss', gs')"
  shows "\<exists>rest. ss' = p # rest"
proof -
  let ?key = "\<lambda>(s, _ :: string). (if s = p then 0 else 1 :: nat, s)"
  define ps where "ps = sort_key ?key (zip ss gs)"
  have ss': "ss' = map fst ps" using assms by (simp add: canonicalize_signers_def Let_def ps_def)
  from assms(1,2) obtain g where "(p, g) \<in> set ps"
    unfolding ps_def set_sort by (metis in_set_impl_in_set_zip1)
  then obtain q qs where ps: "ps = q # qs" by (cases ps) auto
  have "sorted (map ?key ps)" by (simp add: ps_def)
  with ps \<open>(p, g) \<in> set ps\<close> have "?key q \<le> ?key (p, g)" by auto
  then have "fst q = p" by (cases q) (auto simp: less_eq_prod_def split: if_splits)
  with ss' ps show ?thesis by auto
qed

lemma canonicalize_order_free:
  assumes "length ss = length gs" "length ss' = length gs'" "distinct ss"
    and "mset (zip ss gs) = mset (zip ss' gs')"
  shows "canonicalize_signers p ss gs = canonicalize_signers p ss' gs'"
proof -
  let ?key = "\<lambda>(s, _ :: string). (if s = p then 0 else 1 :: nat, s)"
  have "inj_on ?key (set (zip ss gs))"
    using assms(1,3) by (auto simp: inj_on_def set_zip distinct_conv_nth split: if_splits)
  then have "sort_key ?key (zip ss gs) = sort_key ?key (zip ss' gs')"
    by (intro sort_key_inj_key_eq) (simp_all add: assms(4))
  with assms(1,2) show ?thesis by (simp add: canonicalize_signers_def)
qed

lemma signatures_ok_mset:
  assumes "length (tr_signers t) = length (tr_signatures t)" "length (tr_signers u) = length (tr_signatures u)"
    and "tr_variant t = tr_variant u"
    and "mset (zip (tr_signers t) (tr_signatures t)) = mset (zip (tr_signers u) (tr_signatures u))"
  shows "verify_transition_signatures c n t = Inr () \<longleftrightarrow> verify_transition_signatures c n u = Inr ()"
proof -
  have "set (zip (tr_signers t) (tr_signatures t)) = set (zip (tr_signers u) (tr_signatures u))"
    using assms(4) by (rule mset_eq_setD)
  moreover have "length (tr_signers t) = length (tr_signers u)"
    using arg_cong [OF assms(4), of size] assms(1,2) by simp
  ultimately show ?thesis using assms(1-3) by (auto simp: signatures_ok_iff)
qed

lemma fold_max_ge: "a \<le> fold max as (a :: 'a :: linorder)" "x \<in> set as \<Longrightarrow> x \<le> fold max as a"
proof -
  have "fold max as a = Max (set (a # as))" by (metis Max.set_eq_fold)
  then show "a \<le> fold max as a" "x \<in> set as \<Longrightarrow> x \<le> fold max as a" by simp_all
qed

lemma newest_entry_ge:
  assumes "t \<in> set l" "member_entry_target t = Some d" shows "tr_at t \<le> newest_entry l d"
proof -
  have "tr_at t \<in> set (map tr_at (filter (\<lambda>t. member_entry_target t = Some d) l))" using assms by auto
  then show ?thesis
    using fold_max_ge by (auto simp: newest_entry_def simp del: set_map set_filter split: list.split)
qed

lemma saturating_add_gt: "a < - 1 \<Longrightarrow> a < saturating_add_u64 a 1"
proof -
  assume "a < - 1"
  then have "a < a + 1"
    using inc_less_eq_self_iff_eq [of a] by (auto simp: not_le)
  then show ?thesis by (auto simp: saturating_add_u64_def dest: less_imp_le)
qed

lemma member_tier_timestamp_later:
  assumes "timestamp_target gov v = Some d" "newest_entry (ns_member_log gov) d < - 1"
    and "t \<in> set (ns_member_log gov)" "member_entry_target t = Some d"
  shows "tr_at t < member_tier_timestamp now gov v"
  using newest_entry_ge [OF assms(3,4)] saturating_add_gt [OF assms(2)] assms(1)
  by (auto simp: member_tier_timestamp_def less_max_iff_disj)

section \<open>Properties\<close>


definition sample_state :: network_state where
  "sample_state = sample_gov\<lparr>ns_member_log := sample_members\<rparr>"


text \<open>
  A device the member log tombstones while the governance log still seats it is added to the roster and
  dropped again by every reconcile: it is never authorized and the repair is never empty.
\<close>

theorem reconcile_never_settles_on_overlap:
  assumes "roster_wf r" "keys_bare roles" "fmlookup roles k = Some x" "k \<in> removed" "k \<noteq> pubkey_part self"
  shows "\<not> is_authorized (fst (mirror_roles_to_roster now roles r removed self)) k \<and>
     roster_changed (snd (mirror_roles_to_roster now roles r removed self))"
  using mirror_overlap [OF assms(1,2) _ assms(3,4,5)] by (metis prod.collapse)

theorem reconcile_never_settles_on_overlap_witness:
  "\<not> is_authorized (fst (mirror_roles_to_roster 9 (fmap_of_list [(''c'', Controller)]) sample_roster {''c''} ''a'')) ''c'' \<and>
   roster_changed (snd (mirror_roles_to_roster 9 (fmap_of_list [(''c'', Controller)]) sample_roster {''c''} ''a''))"
proof -
  have "roster_wf sample_roster" "keys_bare (fmap_of_list [(''c'', Controller)])"
    "fmlookup (fmap_of_list [(''c'', Controller)]) ''c'' = Some Controller" "''c'' \<in> {''c''}" "''c'' \<noteq> pubkey_part ''a''"
    by code_simp+
  then show ?thesis by (rule reconcile_never_settles_on_overlap)
qed

text \<open>
  A member-tier entry stamped by \<open>member_tier_timestamp\<close> rules: appended to the log it decides on its
  target, whatever stamps the older entries carry, as long as none is the last representable instant.
\<close>

theorem fresh_member_entry_rules:
  assumes "timestamp_target gov v = Some d" "newest_entry (ns_member_log gov) d < - 1"
    and "tr_variant t = v" "tr_at t = member_tier_timestamp now gov v" "entry_counts c g n t" "entry_target t = Some d"
  shows "fmlookup (member_log_verdict c key g (ns_member_log gov @ [t]) n) d = Some (is_member_grant t)"
proof -
  let ?R = "rulings c g n (set (ns_member_log gov @ [t])) d"
  have "(tr_at t, is_member_grant t) \<in> ?R" using assms(5,6) by (auto simp: rulings_def)
  moreover have "x \<le> (tr_at t, is_member_grant t)" if "x \<in> ?R" for x
  proof -
    from that obtain u where u: "u \<in> set (ns_member_log gov @ [t])" "entry_target u = Some d" "x = (tr_at u, is_member_grant u)"
      by (auto simp: rulings_def)
    show ?thesis
    proof (cases "u = t")
      case False
      with u(1) have "u \<in> set (ns_member_log gov)" by simp
      moreover have "member_entry_target u = Some d"
        using u(2) by (auto simp: entry_target_def member_entry_target_def split: variant.splits role.splits)
      ultimately have "tr_at u < tr_at t" using member_tier_timestamp_later [OF assms(1,2)] assms(4) by simp
      then show ?thesis by (simp add: u(3) less_eq_prod_def)
    qed (simp add: u(3))
  qed
  ultimately have "Max ?R = (tr_at t, is_member_grant t)" by (intro Max_eqI) simp_all
  with \<open>(tr_at t, is_member_grant t) \<in> ?R\<close> show ?thesis by (auto simp: verdict_spec)
qed

theorem fresh_member_entry_rules_witness:
  "fmlookup (member_log_verdict sample_crypto sample_key sample_gov
     (sample_members @ [sample_entry (member_tier_timestamp 2 sample_state (RoleGrant ''d'' Member)) (RoleGrant ''d'' Member) ''c'']) ''home'') ''d'' = Some True"
proof -
  let ?v = "RoleGrant ''d'' Member" and ?gov = sample_state
  let ?t = "sample_entry (member_tier_timestamp 2 ?gov ?v) ?v ''c''"
  have log: "ns_member_log ?gov = sample_members" by (simp add: sample_state_def)
  have a: "timestamp_target ?gov ?v = Some ''d''" "newest_entry (ns_member_log ?gov) ''d'' < - 1"
    "tr_variant ?t = ?v" "tr_at ?t = member_tier_timestamp 2 ?gov ?v" "entry_target ?t = Some ''d''" "is_member_grant ?t" by code_simp+
  have "is_ok (verify_transition_signatures sample_crypto ''home'' ?t) \<and> authority_signed sample_gov ?t" by code_simp
  then have c: "entry_counts sample_crypto sample_gov ''home'' ?t" by (auto simp: entry_counts_def is_ok_iff)
  from fresh_member_entry_rules [OF a(1-4) c a(5), of sample_key] a(6) show ?thesis by (simp add: log)
qed

end
