(* ===== verification/Sdp.thy ===== *)
theory Sdp
  imports Mesh_Error
begin

text \<open>
  What the engine reads out of session descriptions and ICE candidates: the pure functions of
  \<open>transport/webrtc.rs\<close>, \<open>transport/ice.rs\<close> and \<open>transport/diag.rs\<close>. Candidate counters are \<open>u32\<close> and wrap, as in
  a release build.
\<close>

section \<open>Text\<close>

text \<open>\<open>str::lines\<close>: split at line feeds, drop one trailing carriage return of each, no empty last line.\<close>

function split_lines :: "string \<Rightarrow> string list" where
  "split_lines [] = []"
| "split_lines (c # s) = takeWhile (\<lambda>x. x \<noteq> CHR 10) (c # s) # split_lines (tl (dropWhile (\<lambda>x. x \<noteq> CHR 10) (c # s)))"
  by pat_completeness auto
termination
proof (relation "measure length")
  fix c :: char and s :: string
  have "length (dropWhile (\<lambda>x. x \<noteq> CHR 10) (c # s)) \<le> length (c # s)" by (rule length_dropWhile_le)
  then show "(tl (dropWhile (\<lambda>x. x \<noteq> CHR 10) (c # s)), c # s) \<in> measure length"
    by (simp only: in_measure length_tl) (simp del: dropWhile.simps)
qed simp

definition drop_cr :: "string \<Rightarrow> string" where
  "drop_cr l = (if l \<noteq> [] \<and> last l = CHR 13 then butlast l else l)"

definition text_lines :: "string \<Rightarrow> string list" where
  "text_lines s = map drop_cr (split_lines s)"

text \<open>\<open>str::split_once\<close>, \<open>str::strip_prefix\<close> and \<open>str::split\<close> at a class of characters, empty pieces skipped.\<close>

definition split_once :: "char \<Rightarrow> string \<Rightarrow> (string \<times> string) option" where
  "split_once c s =
     (if c \<in> set s then Some (takeWhile (\<lambda>x. x \<noteq> c) s, tl (dropWhile (\<lambda>x. x \<noteq> c) s)) else None)"

definition strip_prefix :: "string \<Rightarrow> string \<Rightarrow> string option" where
  "strip_prefix p s = (if take (length p) s = p then Some (drop (length p) s) else None)"

function tokens :: "(char \<Rightarrow> bool) \<Rightarrow> string \<Rightarrow> string list" where
  "tokens sep s =
     (let r = dropWhile sep s in
      if r = [] then [] else takeWhile (\<lambda>x. \<not> sep x) r # tokens sep (dropWhile (\<lambda>x. \<not> sep x) r))"
  by pat_completeness auto
termination
proof (relation "measure (length \<circ> snd)")
  fix sep :: "char \<Rightarrow> bool" and s r :: string
  assume r: "r = dropWhile sep s" "r \<noteq> []"
  then obtain c cs where "r = c # cs" "\<not> sep c" using hd_dropWhile [of sep s] by (metis list.exhaust_sel)
  moreover have "length r \<le> length s" unfolding r(1) by (rule length_dropWhile_le)
  moreover have "length (dropWhile (\<lambda>x. \<not> sep x) cs) \<le> length cs" by (rule length_dropWhile_le)
  ultimately show "((sep, dropWhile (\<lambda>x. \<not> sep x) r), sep, s) \<in> measure (length \<circ> snd)" by simp
qed simp

declare tokens.simps [simp del]

text \<open>\<open>char::is_ascii_whitespace\<close> has no vertical tab, unlike \<open>char::is_whitespace\<close>.\<close>

definition is_ascii_whitespace :: "char \<Rightarrow> bool" where
  "is_ascii_whitespace c \<longleftrightarrow> is_white c \<and> c \<noteq> CHR 11"

section \<open>Session descriptions\<close>

fun find_map :: "('a \<Rightarrow> 'b option) \<Rightarrow> 'a list \<Rightarrow> 'b option" where
  "find_map f [] = None"
| "find_map f (x # xs) = (case f x of Some y \<Rightarrow> Some y | None \<Rightarrow> find_map f xs)"

definition sdp_fingerprint :: "string \<Rightarrow> string option" where
  "sdp_fingerprint sdp =
     map_option (\<lambda>v. to_lower (trim v)) (find_map (strip_prefix ''a=fingerprint:'') (map trim (text_lines sdp)))"

definition add_ufrag :: "string \<Rightarrow> string list \<Rightarrow> string list" where
  "add_ufrag line out =
     (case split_once (CHR '':'') line of
        None \<Rightarrow> out
      | Some (name, value) \<Rightarrow>
          if to_lower name = ''a=ice-ufrag'' \<and> trim value \<noteq> [] \<and> trim value \<notin> set out then out @ [trim value] else out)"

definition sdp_ice_ufrags :: "string \<Rightarrow> string list" where
  "sdp_ice_ufrags sdp = fold add_ufrag (map trim (text_lines sdp)) []"

section \<open>Candidates\<close>

text \<open>\<open>LocalIceCandidate\<close>.\<close>

record ice_candidate =
  ic_candidate :: string
  ic_sdp_mid :: "string option"
  ic_sdp_mline_index :: "16 word option"
  ic_username_fragment :: "string option"

fun token_after :: "(string \<Rightarrow> bool) \<Rightarrow> string list \<Rightarrow> string option" where
  "token_after p [] = None"
| "token_after p (t # ts) = (if p t then (case ts of [] \<Rightarrow> None | v # _ \<Rightarrow> Some v) else token_after p ts)"

definition candidate_ufrag :: "ice_candidate \<Rightarrow> string option" where
  "candidate_ufrag c =
     (case ic_username_fragment c of
        Some v \<Rightarrow> if trim v \<noteq> [] then Some (trim v)
                  else token_after (\<lambda>t. to_lower t = ''ufrag'') (tokens is_ascii_whitespace (ic_candidate c))
      | None \<Rightarrow> token_after (\<lambda>t. to_lower t = ''ufrag'') (tokens is_ascii_whitespace (ic_candidate c)))"

definition candidate_matches_ufrags :: "string list \<Rightarrow> ice_candidate \<Rightarrow> bool" where
  "candidate_matches_ufrags active_ufrags c \<longleftrightarrow>
     active_ufrags = [] \<or> (case candidate_ufrag c of None \<Rightarrow> True | Some u \<Rightarrow> u \<in> set active_ufrags)"

datatype ice_candidate_kind = HostKind | ServerReflexive | PeerReflexive | RelayKind | UnknownKind

fun classify_tokens :: "string list \<Rightarrow> ice_candidate_kind" where
  "classify_tokens [] = UnknownKind"
| "classify_tokens (t # ts) =
     (if t = ''typ'' then
        (case ts of [] \<Rightarrow> UnknownKind
         | v # _ \<Rightarrow> if v = ''host'' then HostKind else if v = ''srflx'' then ServerReflexive
             else if v = ''prflx'' then PeerReflexive else if v = ''relay'' then RelayKind else UnknownKind)
      else classify_tokens ts)"

definition classify_candidate_sdp :: "string \<Rightarrow> ice_candidate_kind" where
  "classify_candidate_sdp s = classify_tokens (tokens is_white s)"

text \<open>\<open>IceCandidateStats\<close>.\<close>

record ice_stats =
  is_host :: u32
  is_server_reflexive :: u32
  is_peer_reflexive :: u32
  is_relay :: u32
  is_unknown :: u32

definition no_candidates :: ice_stats where
  "no_candidates = \<lparr>is_host = 0, is_server_reflexive = 0, is_peer_reflexive = 0, is_relay = 0, is_unknown = 0\<rparr>"

fun record_kind :: "ice_candidate_kind \<Rightarrow> ice_stats \<Rightarrow> ice_stats" where
  "record_kind HostKind s = s\<lparr>is_host := is_host s + 1\<rparr>"
| "record_kind ServerReflexive s = s\<lparr>is_server_reflexive := is_server_reflexive s + 1\<rparr>"
| "record_kind PeerReflexive s = s\<lparr>is_peer_reflexive := is_peer_reflexive s + 1\<rparr>"
| "record_kind RelayKind s = s\<lparr>is_relay := is_relay s + 1\<rparr>"
| "record_kind UnknownKind s = s\<lparr>is_unknown := is_unknown s + 1\<rparr>"

definition stats_total :: "ice_stats \<Rightarrow> u32" where
  "stats_total s = is_host s + is_server_reflexive s + is_peer_reflexive s + is_relay s + is_unknown s"

lemma stats_total_record: "stats_total (record_kind k s) = stats_total s + 1"
  by (cases k) (simp_all add: stats_total_def)

lemma sdp_parsing_code:
  "sdp_fingerprint ''v=0\<newline>a=fingerprint: SHA-256 AB:CD \<newline>x'' = Some ''sha-256 ab:cd''"
  "sdp_ice_ufrags ''v=0\<newline>a=ice-ufrag:x1\<newline>A=ICE-UFRAG: x2 \<newline>a=ice-ufrag:x1'' = [''x1'', ''x2'']"
  "classify_candidate_sdp ''candidate:1 1 udp 2 10.0.0.1 5000 typ srflx raddr 0.0.0.0'' = ServerReflexive"
  by code_simp+

end
