(* ===== verification/Engine.thy ===== *)
theory Engine
  imports Projection Sdp
begin

text \<open>
  The per-network engine state (\<open>engine/state.rs\<close>, \<open>engine/connection.rs\<close>) as one record, the wire
  messages of \<open>protocol/\<close> and the primitives every handler is written with: \<open>send_to_peer\<close>,
  \<open>broadcast\<close>, the two \<open>save\<close>s, the peer map.

  The driver task runs handlers one at a time, so a handler is a function on the record. What
  the code asks of the outside world comes from the record \<open>env\<close>: the clocks, the crates of
  \<open>crypto\<close>, whether the n-th send or the n-th file write succeeds, whether closing a session
  finishes in time, and the custody gate. What a handler emits is collected in the field \<open>es_fx\<close>: \<open>fx_wire\<close> the
  frames handed to the transport, \<open>fx_events\<close> the events, \<open>fx_tasks\<close> the spawned tasks, \<open>fx_cmds\<close>
  the commands queued, \<open>fx_replies\<close> the resolved waits, \<open>fx_delivered\<close> the channel frames handed to
  subscribers, \<open>fx_disk_gov\<close> and \<open>fx_disk_roster\<close> the files last written, \<open>fx_next_epoch\<close> the process-wide
  session counter. The peer map is a hash map in the code; the
  model visits it in key order. \<open>fx_signals\<close> and \<open>fx_rpc\<close> are what goes to the signaling task and to RPC callers, \<open>fx_calls\<close> counts the calls into the
  transport, \<open>fx_candidates\<close> are the candidates handed to a session, \<open>fx_redials\<close> the requests to the relay driver to redial. Diagnostics, byte
  counters and media lanes are left out.
\<close>

section \<open>Peers\<close>

text \<open>JSON values, as the opaque payload of the channel frames.\<close>

datatype json =
    JNull
  | JBool bool
  | JUInt u64
  | JOtherNumber string
  | JStr string
  | JArr "json list"
  | JObj "(string \<times> json) list"

datatype peer_status =
  Sighted | Handshaking | PendingApproval | Active | Shelved | Reconnecting | Offline | PeerError

text \<open>The instants of a tier are milliseconds of the monotonic clock.\<close>

datatype connection_tier =
    Steady
  | WakeProbe
  | IceWatchdog u64
  | IceRestart u64
  | Rehandshake u32 u64
  | RoomRejoin u32 u64
  | StopStart

record peer_data =
  pd_status :: peer_status
  pd_tier :: connection_tier
  pd_authenticated :: bool
  pd_features :: "string list"
  pd_local_approve_sent :: bool
  pd_remote_approve_seen :: bool
  pd_local_shelved :: bool
  pd_remote_shelved :: bool
  pd_label :: string
  pd_capabilities :: "json option"
  pd_nonce_sent :: "string option"
  pd_nonce_received :: "string option"
  pd_code_sent :: "string option"
  pd_code_received :: "string option"
  pd_last_recv_at :: "u64 option"
  pd_last_ping_sent_at :: "u64 option"
  pd_last_offer_sent_at :: "u64 option"
  pd_pending_offer_id :: "string option"
  pd_last_liveness_probe_at :: "u64 option"
  pd_last_ping_t :: "i64 option"
  pd_rtt_ms :: "u32 option"
  pd_clock_skew_samples :: "i64 list"
  pd_clock_skew_ms :: "i64 option"
  pd_ice_disconnected_since :: "u64 option"
  pd_session_started_at :: "u64 option"
  pd_media_reneg_pending :: bool
  pd_data_channel_open :: bool
  pd_handshake_started_at :: "u64 option"
  pd_hello_attempt :: u32
  pd_ice_failed_count :: u32
  pd_no_turn_diag_emitted :: bool
  pd_remote_description_set :: bool
  pd_pending_remote_candidates :: "ice_candidate list"
  pd_admission_rejected :: u64
  pd_local_gather_candidates :: ice_stats
  pd_local_gather_in_progress :: bool
  pd_local_candidates :: ice_stats
  pd_remote_candidates :: ice_stats

definition default_peer_data :: peer_data where
  "default_peer_data =
     \<lparr>pd_status = Sighted, pd_tier = Steady, pd_authenticated = False, pd_features = [],
      pd_local_approve_sent = False, pd_remote_approve_seen = False,
      pd_local_shelved = False, pd_remote_shelved = False, pd_label = [], pd_capabilities = None,
      pd_nonce_sent = None, pd_nonce_received = None, pd_code_sent = None, pd_code_received = None,
      pd_last_recv_at = None, pd_last_ping_sent_at = None, pd_last_offer_sent_at = None,
      pd_pending_offer_id = None, pd_last_liveness_probe_at = None, pd_last_ping_t = None, pd_rtt_ms = None,
      pd_clock_skew_samples = [], pd_clock_skew_ms = None, pd_ice_disconnected_since = None,
      pd_session_started_at = None, pd_media_reneg_pending = False, pd_data_channel_open = False,
      pd_handshake_started_at = None, pd_hello_attempt = 0, pd_ice_failed_count = 0,
      pd_no_turn_diag_emitted = False, pd_remote_description_set = False, pd_pending_remote_candidates = [],
      pd_admission_rejected = 0, pd_local_gather_candidates = no_candidates, pd_local_gather_in_progress = False,
      pd_local_candidates = no_candidates, pd_remote_candidates = no_candidates\<rparr>"

definition is_admitted :: "peer_data \<Rightarrow> bool" where
  "is_admitted d \<longleftrightarrow> pd_authenticated d \<and> (pd_status d = Active \<or> pd_status d = Shelved)"

text \<open>
  A transport session: the local and the remote session description applied to it. The two DTLS
  fingerprints are read from them.
\<close>

record session =
  ss_local_sdp :: "string option"
  ss_remote_sdp :: "string option"

definition local_fingerprint :: "session \<Rightarrow> string option" where
  "local_fingerprint s = Option.bind (ss_local_sdp s) sdp_fingerprint"

definition remote_fingerprint :: "session \<Rightarrow> string option" where
  "remote_fingerprint s = Option.bind (ss_remote_sdp s) sdp_fingerprint"

definition remote_ice_ufrags :: "session \<Rightarrow> string list" where
  "remote_ice_ufrags s = (case ss_remote_sdp s of None \<Rightarrow> [] | Some sdp \<Rightarrow> sdp_ice_ufrags sdp)"

text \<open>What the agent of a session reports of its ICE connection.\<close>

datatype ice_state =
  IceUnspecified | IceNew | IceChecking | IceConnected | IceCompleted | IceDisconnected | IceStateFailed | IceClosed

record peer_connection =
  pc_data :: peer_data
  pc_session :: "session option"
  pc_epoch :: u64

section \<open>Messages\<close>

record hello_message =
  he_protocol :: u32
  he_device_id :: string
  he_label :: string
  he_nonce :: string
  he_verification_code :: string
  he_capabilities :: "json option"
  he_max_connections :: "u32 option"
  he_features :: "string list"
  he_app_version :: "string option"

record propose_message =
  pm_proposal_id :: string
  pm_variant :: variant
  pm_proposer :: string
  pm_created_at :: u64
  pm_signature :: string

datatype ack_decision = AckSign | AckDeny

record ack_message =
  am_proposal_id :: string
  am_signer :: string
  am_decision :: ack_decision
  am_at :: u64
  am_signature :: string

record split_message =
  sm_parent_proposal_id :: string
  sm_new_network_id :: string
  sm_members :: "string list"
  sm_proposer :: string
  sm_at :: u64
  sm_signature :: string

record state_broadcast =
  sb_kind :: network_kind
  sb_transitions_count :: u32
  sb_member_log_count :: u32
  sb_roster_root :: string

record roster_entry =
  re_device_id :: string
  re_label :: string
  re_approved_at :: u64
  re_role :: role
  re_granted_by :: string

record rpc_request =
  rq_request_id :: string
  rq_method :: string
  rq_payload :: json
  rq_streaming :: bool

record rpc_response =
  rr_request_id :: string
  rr_ok :: "json option"
  rr_error :: "string option"

record rpc_stream_chunk =
  rc_request_id :: string
  rc_seq :: u64
  rc_payload :: json

record rpc_stream_end =
  rn_request_id :: string
  rn_error :: "string option"

definition entry_of_peer :: "authorized_peer \<Rightarrow> roster_entry" where
  "entry_of_peer p = \<lparr>re_device_id = ap_device_id p, re_label = ap_label p,
     re_approved_at = ap_approved_at p, re_role = ap_role p, re_granted_by = []\<rparr>"

datatype mesh_message =
    Hello hello_message
  | AuthResponse string
  | Approve
  | Deny "string option" "transition list" "transition list"
  | Ping i64
  | Pong i64
  | CapabilitiesUpdate json
  | Shelve "string option"
  | Unshelve
  | RpcRequest rpc_request
  | RpcResponse rpc_response
  | RpcStreamChunk rpc_stream_chunk
  | RpcStreamEnd rpc_stream_end
  | NetworkStateFrame state_broadcast
  | NetworkStatePropose propose_message
  | NetworkStateAck ack_message
  | NetworkStateSplit split_message
  | RosterSummary roster_summary
  | RosterRequest bool "string list"
  | RosterEntries "roster_entry list" "transition list" "transition list"
  | Channel string json
  | ChannelSeq u64 u64 string json
  | ChannelAck u64 u64
  | UnknownFrame

section \<open>The engine\<close>

datatype drop_reason =
  Denied | IceFailed | AuthFailed | UserLeft | TopologyPruned | HeartbeatTimeout | TransportError string

datatype mesh_phase = Joining | Alone | Discovering | PhaseActive | Degraded | Stopped

datatype mesh_event =
    EvSighted string
  | EvAuthenticated string string string bool
  | EvApproved string string
  | EvShelved string "string option" bool
  | EvUnshelved string bool
  | EvCapabilitiesChanged string json
  | EvDropped string drop_reason
  | EvPhase mesh_phase mesh_phase

text \<open>Tasks the engine spawns and the commands it queues to itself.\<close>

datatype task =
    HelloRetries string mesh_message
  | HandshakeWatchdog string
  | DropJanitor string
  | CloseFinished string
  | RpcServe string rpc_request bool
  | TransportPump string u64
  | LivenessProbe string u64
  | WakeSweep "(string \<times> u64) list"
  | FanOutOnRelay

datatype command = CmdDropPeer string drop_reason

text \<open>One queued frame of the reliable channel, its per-peer outbox and the receiver's mark.\<close>

record pending =
  pe_seq :: u64
  pe_channel :: string
  pe_payload :: json
  pe_expires_at :: u64
  pe_sent :: bool
  pe_reply :: "nat option"

record outbox =
  ob_stream :: u64
  ob_next_seq :: u64
  ob_entries :: "pending list"

record inbound_mark =
  im_stream :: u64
  im_last_seq :: u64

text \<open>
  The RPC dispatcher of a network: which methods have a handler (\<open>True\<close> a streaming one) and the calls
  in flight. A waiting caller is a number; what it is handed is an \<open>rpc_outcome\<close>.
\<close>

datatype rpc_pending = PendingSingle nat | PendingStream nat

datatype rpc_outcome = RpcDone "string + json" | RpcItem "string + json" | RpcClosed

record rpc_inner =
  rpc_handlers :: "(string, bool) fmap"
  rpc_calls :: "(string, rpc_pending) fmap"

text \<open>Latches of the clock-skew diagnostic and of the UDP socket-pressure circuit.\<close>

record skew_watch =
  sw_over_ticks :: u8
  sw_warned :: bool

record socket_recovery =
  lr_active :: bool
  lr_probe_inflight :: bool
  lr_retry_at :: "u64 option"
  lr_backoff_level :: nat
  lr_last_recovered_at :: "u64 option"

datatype signaling_outbound =
    Announce
  | Leave
  | SendOffer string string string
  | SendAnswer string string string
  | SendCandidate string ice_candidate

record relay_rescue =
  rw_last_attempt_at :: "u64 option"
  rw_unconfirmed_attempts :: nat
  rw_awaiting_peer :: "string option"

record reconnect_intent =
  ri_give_up_at :: u64
  ri_next_retry_at :: u64
  ri_attempt :: nat
  ri_sticky :: bool

text \<open>
  The WebRTC stack behind a session, by the number of the call: whether the n-th call opens a session or
  applies a description, the description an offer or an answer is built with (\<open>None\<close> a failure or a timeout),
  whether text parses as a description, the random id of an offer. \<open>tp_ice\<close> and \<open>tp_awaiting\<close> are what the
  session of an epoch reports; \<open>tp_owners\<close> is the process-wide count of networks under socket pressure when the n-th
  call returns.
\<close>

record transport =
  tp_open :: "nat \<Rightarrow> bool"
  tp_offer :: "nat \<Rightarrow> string option"
  tp_answer :: "nat \<Rightarrow> string option"
  tp_set_remote :: "nat \<Rightarrow> bool"
  tp_parse :: "string \<Rightarrow> bool"
  tp_offer_id :: "nat \<Rightarrow> string"
  tp_ice :: "u64 \<Rightarrow> ice_state"
  tp_awaiting :: "u64 \<Rightarrow> bool"
  tp_owners :: "nat \<Rightarrow> nat"
  tp_probe :: bool

record env =
  en_crypto :: crypto
  en_key :: "transition \<Rightarrow> string"
  en_now :: u64
  en_instant :: u64
  en_wall_ms :: i64
  en_pressure_owners :: nat
  en_send_ok :: "nat \<Rightarrow> bool"
  en_save_ok :: "nat \<Rightarrow> bool"
  en_close_ok :: bool
  en_custody :: "string \<Rightarrow> string option \<Rightarrow> unit result"
  en_transport :: transport

record effects =
  fx_next_epoch :: u64
  fx_attempts :: nat
  fx_saves :: nat
  fx_disk_gov :: network_state
  fx_disk_roster :: roster
  fx_wire :: "(string \<times> mesh_message) list"
  fx_events :: "mesh_event list"
  fx_tasks :: "task list"
  fx_cmds :: "command list"
  fx_signals :: "signaling_outbound list"
  fx_replies :: "(nat \<times> unit result) list"
  fx_delivered :: "(string \<times> string \<times> json) list"
  fx_rpc :: "(nat \<times> rpc_outcome) list"
  fx_calls :: nat
  fx_candidates :: "(string \<times> u64 \<times> ice_candidate) list"
  fx_redials :: nat

record engine =
  es_network_id :: string
  es_identity :: identity
  es_auto_approve :: bool
  es_peers :: "(string, peer_connection) fmap"
  es_gov :: network_state
  es_roster :: roster
  es_topology :: topology_mode
  es_topology_impl :: topology_impl
  es_self_evicted :: bool
  es_sticky :: "string set"
  es_intents :: "(string, reconnect_intent) fmap"
  es_drifts :: "(string \<times> network_kind \<times> network_kind) set"
  es_closing :: "string set"
  es_waiters :: "(string, nat list) fmap"
  es_out :: "(string, outbox) fmap"
  es_in :: "(string, inbound_mark) fmap"
  es_routing_seen :: "(string \<times> u64) list"
  es_subscribers :: "string set"
  es_rpc :: "rpc_inner option"
  es_skew_watch :: skew_watch
  es_socket :: socket_recovery
  es_last_announce :: "u64 option"
  es_deferred :: "(string, bool) fmap"
  es_phase :: mesh_phase
  es_pinned :: "string list"
  es_offline :: bool
  es_relay_reconnect :: bool
  es_relay_connected :: bool
  es_rescue :: relay_rescue
  es_fx :: effects

abbreviation self_id :: "engine \<Rightarrow> string" where
  "self_id st \<equiv> id_public_id (es_identity st)"

section \<open>Primitives\<close>

definition peer_of :: "engine \<Rightarrow> string \<Rightarrow> peer_data option" where
  "peer_of st d = map_option pc_data (fmlookup (es_peers st) d)"

text \<open>\<open>if let Some(peer) = state.peers.get(d) { f(&mut peer.state.write()) }\<close>.\<close>

definition update_peer :: "string \<Rightarrow> (peer_data \<Rightarrow> peer_data) \<Rightarrow> engine \<Rightarrow> engine" where
  "update_peer d f st =
     (case fmlookup (es_peers st) d of
        None \<Rightarrow> st
      | Some p \<Rightarrow> st\<lparr>es_peers := fmupd d (p\<lparr>pc_data := f (pc_data p)\<rparr>) (es_peers st)\<rparr>)"

definition emit :: "mesh_event \<Rightarrow> engine \<Rightarrow> engine" where
  "emit ev st = st\<lparr>es_fx := (es_fx st)\<lparr>fx_events := fx_events (es_fx st) @ [ev]\<rparr>\<rparr>"

definition spawn :: "task \<Rightarrow> engine \<Rightarrow> engine" where
  "spawn t st = st\<lparr>es_fx := (es_fx st)\<lparr>fx_tasks := fx_tasks (es_fx st) @ [t]\<rparr>\<rparr>"

definition queue_cmd :: "command \<Rightarrow> engine \<Rightarrow> engine" where
  "queue_cmd c st = st\<lparr>es_fx := (es_fx st)\<lparr>fx_cmds := fx_cmds (es_fx st) @ [c]\<rparr>\<rparr>"

definition reply :: "nat \<times> unit result \<Rightarrow> engine \<Rightarrow> engine" where
  "reply r st = st\<lparr>es_fx := (es_fx st)\<lparr>fx_replies := fx_replies (es_fx st) @ [r]\<rparr>\<rparr>"

definition transport_send :: "bool \<Rightarrow> string \<Rightarrow> mesh_message \<Rightarrow> effects \<Rightarrow> effects" where
  "transport_send ok device_id msg fx =
     (let fx1 = fx\<lparr>fx_attempts := fx_attempts fx + 1\<rparr>
      in if ok then fx1\<lparr>fx_wire := fx_wire fx1 @ [(device_id, msg)]\<rparr> else fx1)"

definition send_to_peer :: "env \<Rightarrow> string \<Rightarrow> mesh_message \<Rightarrow> engine \<Rightarrow> unit result \<times> engine" where
  "send_to_peer e device_id msg st =
     (case fmlookup (es_peers st) device_id of
        None \<Rightarrow> (Inl (ENetwork (PeerNotFound device_id)), st)
      | Some p \<Rightarrow>
          (case pc_session p of
             None \<Rightarrow> (Inl (ETransport SessionNotEstablished), st)
           | Some _ \<Rightarrow>
               let ok = en_send_ok e (fx_attempts (es_fx st))
               in (if ok then Inr () else Inl (ETransport SendFailed),
                   st\<lparr>es_fx := transport_send ok device_id msg (es_fx st)\<rparr>)))"

definition is_active_peer :: "peer_data \<Rightarrow> bool" where
  "is_active_peer d \<longleftrightarrow> (pd_status d = Active \<or> pd_status d = Shelved) \<and> pd_authenticated d"

definition active_peer_ids :: "engine \<Rightarrow> string list" where
  "active_peer_ids st = map fst (filter (\<lambda>kv. is_active_peer (pc_data (snd kv))) (sorted_list_of_fmap (es_peers st)))"

definition broadcast :: "env \<Rightarrow> mesh_message \<Rightarrow> engine \<Rightarrow> engine" where
  "broadcast e msg st = fold (\<lambda>d s. snd (send_to_peer e d msg s)) (active_peer_ids st) st"

definition save_gov :: "env \<Rightarrow> engine \<Rightarrow> unit result \<times> engine" where
  "save_gov e st =
     (let fx = es_fx st; ok = en_save_ok e (fx_saves fx); fx1 = fx\<lparr>fx_saves := fx_saves fx + 1\<rparr>
      in (if ok then Inr () else Inl EIo,
          st\<lparr>es_fx := if ok then fx1\<lparr>fx_disk_gov := es_gov st\<rparr> else fx1\<rparr>))"

definition save_roster :: "env \<Rightarrow> engine \<Rightarrow> unit result \<times> engine" where
  "save_roster e st =
     (let fx = es_fx st; ok = en_save_ok e (fx_saves fx); fx1 = fx\<lparr>fx_saves := fx_saves fx + 1\<rparr>
      in (if ok then Inr () else Inl EIo,
          st\<lparr>es_fx := if ok then fx1\<lparr>fx_disk_roster := es_roster st\<rparr> else fx1\<rparr>))"

definition is_sticky :: "engine \<Rightarrow> string \<Rightarrow> bool" where
  "is_sticky st d \<longleftrightarrow> d \<in> es_sticky st"

definition is_silent :: "engine \<Rightarrow> bool" where
  "is_silent st \<longleftrightarrow> ns_kind (es_gov st) = Silent"

definition gossip_roster_enabled :: "engine \<Rightarrow> bool" where
  "gossip_roster_enabled st \<longleftrightarrow> \<not> is_silent st"

definition is_rostered :: "engine \<Rightarrow> string \<Rightarrow> bool" where
  "is_rostered st d = is_authorized (es_roster st) d"

section \<open>What the primitives leave alone\<close>

text \<open>
  \<open>sends ws st st'\<close>: \<open>st'\<close> is \<open>st\<close> after some send attempts, of which the frames \<open>ws\<close> went out. Only the
  attempt counter and the wire differ.
\<close>

definition fx_sends :: "(string \<times> mesh_message) list \<Rightarrow> nat \<Rightarrow> effects \<Rightarrow> effects" where
  "fx_sends ws n fx = fx\<lparr>fx_attempts := n, fx_wire := fx_wire fx @ ws\<rparr>"

definition sends :: "(string \<times> mesh_message) list \<Rightarrow> engine \<Rightarrow> engine \<Rightarrow> bool" where
  "sends ws st st' \<longleftrightarrow> (\<exists>n. st' = st\<lparr>es_fx := fx_sends ws n (es_fx st)\<rparr>)"

lemma fx_sends_Nil: "fx_sends [] (fx_attempts fx) fx = fx"
  by (simp add: fx_sends_def)

lemma fx_sends_twice: "fx_sends us k (fx_sends ws n fx) = fx_sends (ws @ us) k fx"
  by (simp add: fx_sends_def)

lemma sends_refl [simp]: "sends [] st st"
  unfolding sends_def by (rule exI [of _ "fx_attempts (es_fx st)"]) (simp add: fx_sends_Nil)

lemma sends_trans: "sends ws st st1 \<Longrightarrow> sends us st1 st2 \<Longrightarrow> sends (ws @ us) st st2"
  unfolding sends_def by (auto simp: fx_sends_twice)

lemma transport_send_fx:
  "transport_send ok d m fx = fx_sends (if ok then [(d, m)] else []) (fx_attempts fx + 1) fx"
  by (simp add: transport_send_def fx_sends_def Let_def)

lemma send_to_peer_sends: "\<exists>ws. sends ws st (snd (send_to_peer e d m st)) \<and> set ws \<subseteq> {(d, m)}"
proof (cases "fmlookup (es_peers st) d")
  case None
  then show ?thesis by (intro exI [of _ "[]"]) (simp add: send_to_peer_def)
next
  case (Some p)
  show ?thesis
  proof (cases "pc_session p")
    case None
    with Some show ?thesis by (intro exI [of _ "[]"]) (simp add: send_to_peer_def)
  next
    case (Some s)
    with \<open>fmlookup (es_peers st) d = Some p\<close>
    have "sends (if en_send_ok e (fx_attempts (es_fx st)) then [(d, m)] else []) st (snd (send_to_peer e d m st))"
      by (auto simp: send_to_peer_def sends_def Let_def transport_send_fx)
    then show ?thesis by (intro exI conjI) (assumption, auto)
  qed
qed

lemma fold_sends:
  assumes "\<And>d s. \<exists>ws. sends ws s (f d s) \<and> set ws \<subseteq> P d"
  shows "\<exists>ws. sends ws st (fold f ds st) \<and> set ws \<subseteq> (\<Union>d\<in>set ds. P d)"
proof (induction ds arbitrary: st)
  case Nil
  then show ?case by (intro exI [of _ "[]"]) simp
next
  case (Cons d ds)
  from assms obtain ws where "sends ws st (f d st)" "set ws \<subseteq> P d" by blast
  moreover from Cons obtain us where "sends us (f d st) (fold f ds (f d st))" "set us \<subseteq> (\<Union>d\<in>set ds. P d)"
    by blast
  ultimately show ?case by (intro exI [of _ "ws @ us"]) (auto intro: sends_trans)
qed

lemma broadcast_sends:
  "\<exists>ws. sends ws st (broadcast e m st) \<and> set ws \<subseteq> set (active_peer_ids st) \<times> {m}"
proof -
  have "\<exists>ws. sends ws st (broadcast e m st) \<and> set ws \<subseteq> (\<Union>d\<in>set (active_peer_ids st). {(d, m)})"
    unfolding broadcast_def by (rule fold_sends) (rule send_to_peer_sends)
  then show ?thesis by auto
qed

text \<open>A step that touches nothing but the effects leaves every other field as it was.\<close>

definition same_core :: "engine \<Rightarrow> engine \<Rightarrow> bool" where
  "same_core st st' \<longleftrightarrow> (\<exists>fx. st' = st\<lparr>es_fx := fx\<rparr>)"

lemma same_core_refl [simp]: "same_core st st"
  unfolding same_core_def by (rule exI [of _ "es_fx st"]) simp

lemma same_core_trans [trans]: "same_core st st1 \<Longrightarrow> same_core st1 st2 \<Longrightarrow> same_core st st2"
  unfolding same_core_def by auto

lemma sends_same_core: "sends ws st st' \<Longrightarrow> same_core st st'"
  unfolding sends_def same_core_def by blast

lemma same_core_primitives [simp]:
  "same_core st (snd (send_to_peer e d m st))" "same_core st (broadcast e m st)"
  "same_core st (emit ev st)" "same_core st (spawn t st)" "same_core st (queue_cmd c st)"
  "same_core st (reply r st)" "same_core st (snd (save_gov e st))" "same_core st (snd (save_roster e st))"
  using send_to_peer_sends [of st e d m] broadcast_sends [of st e m]
  by (auto dest: sends_same_core)
     (auto simp: same_core_def emit_def spawn_def queue_cmd_def reply_def save_gov_def save_roster_def Let_def)

lemma same_core_fields:
  assumes "same_core st st'"
  shows "es_network_id st' = es_network_id st" "es_identity st' = es_identity st"
    "es_auto_approve st' = es_auto_approve st" "es_peers st' = es_peers st" "es_gov st' = es_gov st"
    "es_roster st' = es_roster st" "es_topology st' = es_topology st"
    "es_topology_impl st' = es_topology_impl st" "es_self_evicted st' = es_self_evicted st"
    "es_sticky st' = es_sticky st" "es_intents st' = es_intents st" "es_drifts st' = es_drifts st"
    "es_closing st' = es_closing st" "es_waiters st' = es_waiters st" "es_out st' = es_out st"
    "es_in st' = es_in st" "es_routing_seen st' = es_routing_seen st" "es_subscribers st' = es_subscribers st"
    "es_rpc st' = es_rpc st" "es_skew_watch st' = es_skew_watch st" "es_socket st' = es_socket st"
    "es_last_announce st' = es_last_announce st" "es_deferred st' = es_deferred st" "es_phase st' = es_phase st"
    "es_pinned st' = es_pinned st" "es_offline st' = es_offline st" "es_relay_reconnect st' = es_relay_reconnect st"
    "es_relay_connected st' = es_relay_connected st" "es_rescue st' = es_rescue st"
  using assms unfolding same_core_def by auto

lemmas primitive_fields [simp] =
  same_core_fields [OF same_core_primitives(1)]
  same_core_fields [OF same_core_primitives(2)]
  same_core_fields [OF same_core_primitives(3)]
  same_core_fields [OF same_core_primitives(4)]
  same_core_fields [OF same_core_primitives(5)]
  same_core_fields [OF same_core_primitives(6)]
  same_core_fields [OF same_core_primitives(7)]
  same_core_fields [OF same_core_primitives(8)]

section \<open>A sample engine\<close>

text \<open>Device a in the network of the sample logs, every send and write succeeding.\<close>

definition sample_transport :: transport where
  "sample_transport = \<lparr>tp_open = (\<lambda>_. True), tp_offer = (\<lambda>_. Some ''a=fingerprint:fa''), tp_answer = (\<lambda>_. Some ''a=fingerprint:fa''),
     tp_set_remote = (\<lambda>_. True), tp_parse = (\<lambda>_. True), tp_offer_id = (\<lambda>_. ''id''), tp_ice = (\<lambda>_. IceConnected),
     tp_awaiting = (\<lambda>_. True), tp_owners = (\<lambda>_. 0), tp_probe = True\<rparr>"

definition sample_env :: env where
  "sample_env = \<lparr>en_crypto = sample_crypto, en_key = sample_key, en_now = 100, en_instant = 100, en_wall_ms = 100000, en_pressure_owners = 0,
     en_send_ok = (\<lambda>_. True), en_save_ok = (\<lambda>_. True), en_close_ok = True, en_custody = (\<lambda>_ _. Inr ()),
     en_transport = sample_transport\<rparr>"

definition sample_peer :: "peer_data \<Rightarrow> peer_connection" where
  "sample_peer d = \<lparr>pc_data = d, pc_session = Some \<lparr>ss_local_sdp = Some ''a=fingerprint:fa'', ss_remote_sdp = Some ''a=fingerprint:fb''\<rparr>,
     pc_epoch = 1\<rparr>"

definition sample_engine :: "(string \<times> peer_data) list \<Rightarrow> engine" where
  "sample_engine ps =
     \<lparr>es_network_id = ''home'', es_identity = from_signing_key sample_crypto (replicate 32 (CHR ''A'')) ''alice'',
      es_auto_approve = False, es_peers = fmap_of_list (map (\<lambda>(d, p). (d, sample_peer p)) ps), es_gov = sample_state,
      es_roster = sample_roster, es_topology = FullMesh, es_topology_impl = FullMeshSelector, es_self_evicted = False,
      es_sticky = {}, es_intents = fmempty, es_drifts = {}, es_closing = {}, es_waiters = fmempty, es_out = fmempty,
      es_in = fmempty, es_routing_seen = [], es_subscribers = {''chat''}, es_rpc = None, es_skew_watch = \<lparr>sw_over_ticks = 0, sw_warned = False\<rparr>,
      es_socket = \<lparr>lr_active = False, lr_probe_inflight = False, lr_retry_at = None, lr_backoff_level = 0, lr_last_recovered_at = None\<rparr>,
      es_last_announce = None, es_deferred = fmempty, es_phase = Alone, es_pinned = [], es_offline = False, es_relay_reconnect = True,
      es_relay_connected = True, es_rescue = \<lparr>rw_last_attempt_at = None, rw_unconfirmed_attempts = 0, rw_awaiting_peer = None\<rparr>,
      es_fx = \<lparr>fx_next_epoch = 2, fx_attempts = 0, fx_saves = 0, fx_disk_gov = empty_for ''home'', fx_disk_roster = empty_roster_for ''home'',
         fx_wire = [], fx_events = [], fx_tasks = [], fx_cmds = [], fx_signals = [], fx_replies = [], fx_delivered = [], fx_rpc = [], fx_calls = 0, fx_candidates = [], fx_redials = 0\<rparr>\<rparr>"

definition active_peer :: peer_data where
  "active_peer = default_peer_data\<lparr>pd_status := Active, pd_authenticated := True, pd_local_approve_sent := True,
     pd_remote_approve_seen := True, pd_data_channel_open := True\<rparr>"

lemma sample_engine_parts [simp]:
  "es_network_id (sample_engine ps) = ''home''" "es_gov (sample_engine ps) = sample_state"
  "en_crypto sample_env = sample_crypto" "en_key sample_env = sample_key"
  by (simp_all add: sample_engine_def sample_env_def)

end
