(* ===== verification/Reliable.thy ===== *)
theory Reliable
  imports Engine
begin

text \<open>
  Acknowledged channel delivery, \<open>engine/reliable.rs\<close>: the per-peer outbox, its flush on a live link,
  the receiver's high-water mark, cumulative acks, the rebuild after a lost session, terminal
  failure and the expiry tick. The decisions a handler takes on an outbox or a mark are definitions
  of their own (\<open>outbox_push\<close>, \<open>accept_seq\<close>, \<open>ack_outbox\<close>, \<open>unsent_batch\<close>), used by the handlers and by
  the two-party system of the last section, in which exactly-once delivery is proved.
  A caller's wait is a number; resolving it appends to \<open>fx_replies\<close>.
\<close>

section \<open>Outbox and mark\<close>

definition DEFAULT_TTL_MS :: u64 where "DEFAULT_TTL_MS = 60000"
definition OUTBOX_CAP :: nat where "OUTBOX_CAP = 256"

text \<open>
  \<open>Outbox::new\<close>; the random stream id is made odd. A deadline past the clock range of the model is its
  last instant: \<open>Instant\<close> does not wrap.
\<close>

definition new_outbox :: "u64 \<Rightarrow> outbox" where
  "new_outbox rnd = \<lparr>ob_stream = or rnd 1, ob_next_seq = 0, ob_entries = []\<rparr>"

definition outbox_push :: "u64 \<Rightarrow> string \<Rightarrow> json \<Rightarrow> u64 option \<Rightarrow> nat \<Rightarrow> outbox \<Rightarrow> outbox option" where
  "outbox_push instant channel payload ttl_ms waiter ob =
     (if length (ob_entries ob) \<ge> OUTBOX_CAP then None
      else let seq = ob_next_seq ob + 1;
               ttl = (case ttl_ms of None \<Rightarrow> DEFAULT_TTL_MS | Some t \<Rightarrow> t)
           in Some (ob\<lparr>ob_next_seq := seq,
                 ob_entries := ob_entries ob @
                   [\<lparr>pe_seq = seq, pe_channel = channel, pe_payload = payload,
                     pe_expires_at = saturating_add_u64 instant ttl, pe_sent = False, pe_reply = Some waiter\<rparr>]\<rparr>))"

definition unsent_batch :: "outbox \<Rightarrow> (u64 \<times> string \<times> json) list" where
  "unsent_batch ob =
     map (\<lambda>p. (pe_seq p, pe_channel p, pe_payload p)) (filter (\<lambda>p. \<not> pe_sent p) (ob_entries ob))"

definition mark_sent :: "u64 \<Rightarrow> outbox \<Rightarrow> outbox" where
  "mark_sent seq ob =
     ob\<lparr>ob_entries := update_first (\<lambda>p. pe_seq p = seq) (\<lambda>p. p\<lparr>pe_sent := True\<rparr>) (ob_entries ob)\<rparr>"

definition all_unsent :: "outbox \<Rightarrow> outbox" where
  "all_unsent ob = ob\<lparr>ob_entries := map (\<lambda>p. p\<lparr>pe_sent := False\<rparr>) (ob_entries ob)\<rparr>"

text \<open>The acked prefix of the queue and the waits it settles.\<close>

definition ack_outbox :: "u64 \<Rightarrow> outbox \<Rightarrow> outbox \<times> nat list" where
  "ack_outbox up_to ob =
     (ob\<lparr>ob_entries := dropWhile (\<lambda>p. pe_seq p \<le> up_to) (ob_entries ob)\<rparr>,
      List.map_filter pe_reply (takeWhile (\<lambda>p. pe_seq p \<le> up_to) (ob_entries ob)))"

text \<open>The receiver: adopt a new stream, refuse what is at or below the mark.\<close>

definition accept_seq :: "u64 \<Rightarrow> u64 \<Rightarrow> inbound_mark \<Rightarrow> inbound_mark \<times> bool" where
  "accept_seq stream seq mark =
     (let mark1 = (if im_stream mark \<noteq> stream then \<lparr>im_stream = stream, im_last_seq = 0\<rparr> else mark)
      in if seq \<le> im_last_seq mark1 then (mark1, False) else (mark1\<lparr>im_last_seq := seq\<rparr>, True))"

section \<open>Handlers\<close>

definition RELIABLE_CHANNELS :: string where "RELIABLE_CHANNELS = ''reliable_channels_v1''"

definition peer_supports :: "string list \<Rightarrow> string \<Rightarrow> bool" where
  "peer_supports peer_features feature = list_ex (\<lambda>f. f = feature) peer_features"

definition link_ready :: "engine \<Rightarrow> string \<Rightarrow> bool option" where
  "link_ready st peer =
     (case peer_of st peer of
        None \<Rightarrow> None
      | Some d \<Rightarrow>
          if (pd_status d = Active \<or> pd_status d = Shelved) \<and> pd_data_channel_open d
          then Some (peer_supports (pd_features d) RELIABLE_CHANNELS) else None)"

definition put_outbox :: "string \<Rightarrow> outbox \<Rightarrow> engine \<Rightarrow> engine" where
  "put_outbox peer ob st = st\<lparr>es_out := fmupd peer ob (es_out st)\<rparr>"

definition resolve_sent :: "string \<Rightarrow> u64 \<Rightarrow> outbox \<Rightarrow> engine \<Rightarrow> engine" where
  "resolve_sent peer seq ob st =
     (case position (\<lambda>p. pe_seq p = seq) (ob_entries ob) of
        None \<Rightarrow> st
      | Some pos \<Rightarrow>
          let st1 = put_outbox peer (ob\<lparr>ob_entries := remove_at pos (ob_entries ob)\<rparr>) st
          in (case pe_reply (ob_entries ob ! pos) of None \<Rightarrow> st1 | Some w \<Rightarrow> reply (w, Inr ()) st1))"

fun flush_loop :: "env \<Rightarrow> string \<Rightarrow> bool \<Rightarrow> u64 \<Rightarrow> (u64 \<times> string \<times> json) list \<Rightarrow> engine \<Rightarrow> engine" where
  "flush_loop e peer acked_peer stream [] st = st"
| "flush_loop e peer acked_peer stream ((seq, channel, payload) # rest) st =
     (let msg = (if acked_peer then ChannelSeq stream seq channel payload else Channel channel payload);
          (r, st1) = send_to_peer e peer msg st
      in case r of
           Inl _ \<Rightarrow> st1
         | Inr _ \<Rightarrow>
             (case fmlookup (es_out st1) peer of
                None \<Rightarrow> st1
              | Some ob \<Rightarrow>
                  flush_loop e peer acked_peer stream rest
                    (if acked_peer then put_outbox peer (mark_sent seq ob) st1
                     else resolve_sent peer seq ob st1)))"

definition flush_peer :: "env \<Rightarrow> string \<Rightarrow> engine \<Rightarrow> engine" where
  "flush_peer e peer st =
     (case link_ready st peer of
        None \<Rightarrow> st
      | Some acked_peer \<Rightarrow>
          (case fmlookup (es_out st) peer of
             None \<Rightarrow> st
           | Some ob \<Rightarrow> flush_loop e peer acked_peer (ob_stream ob) (unsent_batch ob) st))"

definition enqueue ::
  "env \<Rightarrow> u64 \<Rightarrow> string \<Rightarrow> string \<Rightarrow> json \<Rightarrow> u64 option \<Rightarrow> nat \<Rightarrow> engine \<Rightarrow> engine" where
  "enqueue e rnd peer channel payload ttl_ms waiter st =
     (let ob = (case fmlookup (es_out st) peer of None \<Rightarrow> new_outbox rnd | Some ob \<Rightarrow> ob)
      in case outbox_push (en_instant e) channel payload ttl_ms waiter ob of
           None \<Rightarrow> reply (waiter, Inl (ETransport (OutboxFull peer))) (put_outbox peer ob st)
         | Some ob' \<Rightarrow> flush_peer e peer (put_outbox peer ob' st))"

definition on_channel_ack :: "string \<Rightarrow> u64 \<Rightarrow> u64 \<Rightarrow> engine \<Rightarrow> engine" where
  "on_channel_ack peer stream up_to st =
     (case fmlookup (es_out st) peer of
        None \<Rightarrow> st
      | Some ob \<Rightarrow>
          if ob_stream ob \<noteq> stream then st
          else let (ob1, done) = ack_outbox up_to ob;
                   st1 = (if ob_entries ob1 = [] then st\<lparr>es_out := fmdrop peer (es_out st)\<rparr>
                          else put_outbox peer ob1 st)
               in fold (\<lambda>w. reply (w, Inr ())) done st1)"

definition mark_unsent :: "string \<Rightarrow> engine \<Rightarrow> engine" where
  "mark_unsent peer st =
     (case fmlookup (es_out st) peer of None \<Rightarrow> st | Some ob \<Rightarrow> put_outbox peer (all_unsent ob) st)"

definition fail_peer :: "string \<Rightarrow> string \<Rightarrow> engine \<Rightarrow> engine" where
  "fail_peer peer reason st =
     (case fmlookup (es_out st) peer of
        None \<Rightarrow> st
      | Some ob \<Rightarrow>
          fold (\<lambda>w. reply (w, Inl (ETransport (Abandoned peer reason))))
            (List.map_filter pe_reply (ob_entries ob)) (st\<lparr>es_out := fmdrop peer (es_out st)\<rparr>))"

text \<open>The tick: expire, keep the non-empty outboxes, then flush those with unsent frames.\<close>

definition expire_outbox :: "u64 \<Rightarrow> outbox \<Rightarrow> outbox \<times> nat list" where
  "expire_outbox now ob =
     (ob\<lparr>ob_entries := filter (\<lambda>p. \<not> pe_expires_at p \<le> now) (ob_entries ob)\<rparr>,
      List.map_filter pe_reply (filter (\<lambda>p. pe_expires_at p \<le> now) (ob_entries ob)))"

definition expire_step ::
  "u64 \<Rightarrow> string \<times> outbox \<Rightarrow> engine \<times> (string \<times> nat) list \<times> string list \<Rightarrow>
     engine \<times> (string \<times> nat) list \<times> string list" where
  "expire_step now = (\<lambda>(peer, ob) (st, expired, candidates).
     let (ob1, ws) = expire_outbox now ob;
         st1 = (if ob_entries ob1 = [] then st\<lparr>es_out := fmdrop peer (es_out st)\<rparr> else put_outbox peer ob1 st)
     in (st1, expired @ map (Pair peer) ws,
         if list_ex (\<lambda>p. \<not> pe_sent p) (ob_entries ob1) then candidates @ [peer] else candidates))"

definition tick :: "env \<Rightarrow> engine \<Rightarrow> engine" where
  "tick e st =
     (let (st1, expired, candidates) =
            fold (expire_step (en_instant e)) (sorted_list_of_fmap (es_out st)) (st, [], []);
          st2 = fold (\<lambda>(peer, w). reply (w, Inl (ETransport (Expired peer)))) expired st1
      in fold (flush_peer e) candidates st2)"

definition pending_total :: "engine \<Rightarrow> nat" where
  "pending_total st = sum_list (map (\<lambda>kv. length (ob_entries (snd kv))) (sorted_list_of_fmap (es_out st)))"

section \<open>The two parties and the channel between them\<close>

text \<open>
  One direction of one pair of peers. Outboxes follow one another: outbox number \<open>lk_epoch\<close> has the
  stream id \<open>sid lk_epoch\<close>; a new one is made after the previous was emptied or abandoned. The data
  channel is first-in-first-out; a session rebuild may cut it anywhere, in both directions. Frames
  are \<open>(epoch, seq, channel, payload)\<close>. \<open>lk_log\<close> is the history of what was queued, \<open>lk_got\<close> of what the
  receiver dispatched, \<open>lk_oks\<close> of the frames whose wait was resolved with success.
\<close>

type_synonym rframe = "nat \<times> u64 \<times> string \<times> json"

record link =
  lk_epoch :: nat
  lk_ob :: outbox
  lk_wire :: "rframe list"
  lk_acks :: "(nat \<times> u64) list"
  lk_mark :: inbound_mark
  lk_log :: "rframe list"
  lk_got :: "rframe list"
  lk_oks :: "(nat \<times> u64) list"

definition fkey :: "rframe \<Rightarrow> nat \<times> u64" where
  "fkey f = (fst f, fst (snd f))"

definition new_link :: "(nat \<Rightarrow> u64) \<Rightarrow> link" where
  "new_link sid =
     \<lparr>lk_epoch = 0, lk_ob = \<lparr>ob_stream = sid 0, ob_next_seq = 0, ob_entries = []\<rparr>, lk_wire = [], lk_acks = [],
      lk_mark = \<lparr>im_stream = 0, im_last_seq = 0\<rparr>, lk_log = [], lk_got = [], lk_oks = []\<rparr>"

text \<open>
  Both ends have the reliable-channels feature. (To a peer without it a send goes out as an ordinary frame and resolves at once.)
\<close>

inductive link_step :: "(nat \<Rightarrow> u64) \<Rightarrow> link \<Rightarrow> link \<Rightarrow> bool" for sid where
  queue: "outbox_push instant ch pl ttl w (lk_ob k) = Some ob \<Longrightarrow> ob_next_seq (lk_ob k) < - 1 \<Longrightarrow>
     link_step sid k (k\<lparr>lk_ob := ob, lk_log := lk_log k @ [(lk_epoch k, ob_next_seq ob, ch, pl)]\<rparr>)"
| transmit: "unsent_batch (lk_ob k) = (seq, ch, pl) # rest \<Longrightarrow>
     link_step sid k (k\<lparr>lk_ob := mark_sent seq (lk_ob k), lk_wire := lk_wire k @ [(lk_epoch k, seq, ch, pl)]\<rparr>)"
| receive: "lk_wire k = (ep, seq, ch, pl) # rest \<Longrightarrow> accept_seq (sid ep) seq (lk_mark k) = (mark, deliver) \<Longrightarrow>
     link_step sid k (k\<lparr>lk_wire := rest, lk_mark := mark, lk_acks := lk_acks k @ [(ep, im_last_seq mark)],
       lk_got := if deliver then lk_got k @ [(ep, seq, ch, pl)] else lk_got k\<rparr>)"
| acked: "lk_acks k = (ep, up_to) # rest \<Longrightarrow> sid ep = ob_stream (lk_ob k) \<Longrightarrow> ack_outbox up_to (lk_ob k) = (ob, ws) \<Longrightarrow>
     link_step sid k (k\<lparr>lk_acks := rest, lk_ob := ob,
       lk_oks := lk_oks k @ map (\<lambda>p. (lk_epoch k, pe_seq p)) (takeWhile (\<lambda>p. pe_seq p \<le> up_to) (ob_entries (lk_ob k)))\<rparr>)"
| stale_ack: "lk_acks k = (ep, up_to) # rest \<Longrightarrow> sid ep \<noteq> ob_stream (lk_ob k) \<Longrightarrow> link_step sid k (k\<lparr>lk_acks := rest\<rparr>)"
| rebuild: "link_step sid k (k\<lparr>lk_wire := take i (lk_wire k), lk_acks := take j (lk_acks k), lk_ob := all_unsent (lk_ob k)\<rparr>)"
| expire: "link_step sid k (k\<lparr>lk_ob := fst (expire_outbox now (lk_ob k))\<rparr>)"
| renew: "link_step sid k (k\<lparr>lk_epoch := lk_epoch k + 1,
       lk_ob := \<lparr>ob_stream = sid (lk_epoch k + 1), ob_next_seq = 0, ob_entries = []\<rparr>\<rparr>)"

inductive link_reach :: "(nat \<Rightarrow> u64) \<Rightarrow> link \<Rightarrow> bool" for sid where
  start: "link_reach sid (new_link sid)"
| step: "link_reach sid k \<Longrightarrow> link_step sid k k' \<Longrightarrow> link_reach sid k'"

subsection \<open>The sender's half of the invariant\<close>

definition entry_frame :: "nat \<Rightarrow> pending \<Rightarrow> rframe" where
  "entry_frame ep p = (ep, pe_seq p, pe_channel p, pe_payload p)"

definition sender_inv :: "(nat \<Rightarrow> u64) \<Rightarrow> link \<Rightarrow> bool" where
  "sender_inv sid k \<longleftrightarrow>
     ob_stream (lk_ob k) = sid (lk_epoch k) \<and>
     sorted_wrt (<) (map pe_seq (ob_entries (lk_ob k))) \<and>
     sorted_wrt (\<lambda>p q. pe_sent q \<longrightarrow> pe_sent p) (ob_entries (lk_ob k)) \<and>
     (\<forall>p\<in>set (ob_entries (lk_ob k)). entry_frame (lk_epoch k) p \<in> set (lk_log k)) \<and>
     sorted_wrt (<) (map fkey (lk_log k)) \<and>
     (\<forall>f\<in>set (lk_log k). fkey f \<le> (lk_epoch k, ob_next_seq (lk_ob k)) \<and> 0 < fst (snd f))"

lemma sender_inv_start: "sender_inv sid (new_link sid)"
  by (simp add: sender_inv_def new_link_def)

lemma sorted_wrt_filter_cong:
  "sorted_wrt P xs \<Longrightarrow> sorted_wrt P (filter q xs)" "sorted_wrt P xs \<Longrightarrow> sorted_wrt P (dropWhile q xs)"
  by (auto simp: sorted_wrt_filter dropWhile_eq_drop sorted_wrt_drop)

lemma unsent_head:
  assumes "unsent_batch ob = (seq, ch, pl) # rest"
  shows "\<exists>p us vs. ob_entries ob = us @ p # vs \<and> (\<forall>q\<in>set us. pe_sent q) \<and> \<not> pe_sent p \<and>
     pe_seq p = seq \<and> pe_channel p = ch \<and> pe_payload p = pl"
proof -
  from assms obtain p ps where "filter (\<lambda>p. \<not> pe_sent p) (ob_entries ob) = p # ps"
    "pe_seq p = seq" "pe_channel p = ch" "pe_payload p = pl"
    by (auto simp: unsent_batch_def map_eq_Cons_conv)
  then show ?thesis by (auto simp: filter_eq_Cons_iff)
qed

lemma update_first_split:
  "(\<And>x. x \<in> set us \<Longrightarrow> \<not> P x) \<Longrightarrow> P p \<Longrightarrow> update_first P f (us @ p # vs) = us @ f p # vs"
  by (induction us) auto

lemma mark_sent_split:
  assumes "ob_entries ob = us @ p # vs" "sorted_wrt (<) (map pe_seq (ob_entries ob))"
  shows "ob_entries (mark_sent (pe_seq p) ob) = us @ p\<lparr>pe_sent := True\<rparr> # vs"
  unfolding mark_sent_def using assms by (auto simp: sorted_wrt_append intro!: update_first_split)

lemma sorted_snoc: "sorted_wrt P (xs @ [x]) \<longleftrightarrow> sorted_wrt P xs \<and> (\<forall>y\<in>set xs. P y x)"
  by (simp add: sorted_wrt_append)

lemma fkey_less_snoc:
  assumes "\<forall>f\<in>set fs. fkey f \<le> (ep, n)" "n < m"
  shows "\<forall>f\<in>set fs. fkey f < (ep, m)"
proof
  fix f assume "f \<in> set fs"
  with assms(1) have "fkey f \<le> (ep, n)" by blast
  also have "(ep, n) < (ep, m)" using assms(2) by (simp add: less_prod_def)
  finally show "fkey f < (ep, m)" .
qed

lemma word_inc: "(n :: u64) < - 1 \<Longrightarrow> n < n + 1"
  using inc_less_eq_self_iff_eq [of n] by (auto simp: not_le)

lemma sender_inv_queue:
  assumes "sender_inv sid k" "outbox_push instant ch pl ttl w (lk_ob k) = Some ob" "ob_next_seq (lk_ob k) < - 1"
  shows "sender_inv sid (k\<lparr>lk_ob := ob, lk_log := lk_log k @ [(lk_epoch k, ob_next_seq ob, ch, pl)]\<rparr>)"
proof -
  let ?n = "ob_next_seq (lk_ob k)"
  from assms(2) obtain x where ob: "ob_stream ob = ob_stream (lk_ob k)" "ob_next_seq ob = ?n + 1"
    "ob_entries ob = ob_entries (lk_ob k) @ [x]"
    and x: "pe_seq x = ?n + 1" "pe_channel x = ch" "pe_payload x = pl" "\<not> pe_sent x"
    by (auto simp: outbox_push_def Let_def split: if_splits)
  have inc: "?n < ?n + 1" using assms(3) by (rule word_inc)
  then have pos: "0 < ?n + 1" by (rule le_less_trans [OF word_zero_le])
  have bound: "\<forall>f\<in>set (lk_log k). fkey f \<le> (lk_epoch k, ?n)" using assms(1) by (auto simp: sender_inv_def)
  note lt = fkey_less_snoc [OF bound inc]
  have seqs: "pe_seq p < ?n + 1" if "p \<in> set (ob_entries (lk_ob k))" for p
  proof -
    from that assms(1) have "entry_frame (lk_epoch k) p \<in> set (lk_log k)" by (simp add: sender_inv_def)
    with lt have "fkey (entry_frame (lk_epoch k) p) < (lk_epoch k, ?n + 1)" by blast
    then show ?thesis by (simp add: fkey_def entry_frame_def less_prod_def)
  qed
  have le: "f \<in> set (lk_log k) \<Longrightarrow> fkey f \<le> (lk_epoch k, ?n + 1)" for f using lt by (auto intro: less_imp_le)
  have new: "entry_frame (lk_epoch k) x = (lk_epoch k, ?n + 1, ch, pl)" "fkey (lk_epoch k, ?n + 1, ch, pl) = (lk_epoch k, ?n + 1)"
    by (simp_all add: entry_frame_def x fkey_def)
  show ?thesis
    using assms(1) lt seqs le pos unfolding sender_inv_def
    by (simp add: ob x sorted_snoc new; blast)
qed

lemma sender_inv_entries:
  assumes "sender_inv sid k" "ob_stream ob = ob_stream (lk_ob k)" "ob_next_seq ob = ob_next_seq (lk_ob k)"
    and "sorted_wrt (<) (map pe_seq (ob_entries ob))"
    and "sorted_wrt (\<lambda>p q. pe_sent q \<longrightarrow> pe_sent p) (ob_entries ob)"
    and "\<And>p. p \<in> set (ob_entries ob) \<Longrightarrow> \<exists>q\<in>set (ob_entries (lk_ob k)). entry_frame 0 p = entry_frame 0 q"
  shows "sender_inv sid (k\<lparr>lk_ob := ob\<rparr>)"
proof -
  have "entry_frame (lk_epoch k) p \<in> set (lk_log k)" if "p \<in> set (ob_entries ob)" for p
  proof -
    from assms(6) [OF that] obtain q where "q \<in> set (ob_entries (lk_ob k))"
      "entry_frame (lk_epoch k) p = entry_frame (lk_epoch k) q" by (auto simp: entry_frame_def)
    with assms(1) show ?thesis by (auto simp: sender_inv_def)
  qed
  with assms(1-5) show ?thesis by (simp add: sender_inv_def)
qed

lemma sender_inv_irrelevant:
  "sender_inv sid (k\<lparr>lk_wire := w\<rparr>) = sender_inv sid k" "sender_inv sid (k\<lparr>lk_acks := a\<rparr>) = sender_inv sid k"
  "sender_inv sid (k\<lparr>lk_mark := m\<rparr>) = sender_inv sid k" "sender_inv sid (k\<lparr>lk_got := g\<rparr>) = sender_inv sid k"
  "sender_inv sid (k\<lparr>lk_oks := os\<rparr>) = sender_inv sid k"
  by (simp_all add: sender_inv_def)

lemma ob_parts_preserved:
  "ob_stream (mark_sent s ob) = ob_stream ob" "ob_next_seq (mark_sent s ob) = ob_next_seq ob"
  "ob_stream (all_unsent ob) = ob_stream ob" "ob_next_seq (all_unsent ob) = ob_next_seq ob"
  "ob_stream (fst (expire_outbox i ob)) = ob_stream ob" "ob_next_seq (fst (expire_outbox i ob)) = ob_next_seq ob"
  "ob_stream (fst (ack_outbox u ob)) = ob_stream ob" "ob_next_seq (fst (ack_outbox u ob)) = ob_next_seq ob"
  by (simp_all add: mark_sent_def all_unsent_def expire_outbox_def ack_outbox_def)

text \<open>The entries of the outbox a step leaves, with the sent flag aside, are entries it had.\<close>

lemma sender_inv_transmit:
  assumes "sender_inv sid k" "unsent_batch (lk_ob k) = (seq, ch, pl) # rest"
  shows "sender_inv sid (k\<lparr>lk_ob := mark_sent seq (lk_ob k)\<rparr>)"
proof -
  from unsent_head [OF assms(2)] obtain p us vs where en: "ob_entries (lk_ob k) = us @ p # vs"
    and us: "\<forall>q\<in>set us. pe_sent q" and p: "pe_seq p = seq" by auto
  have srt: "sorted_wrt (<) (map pe_seq (ob_entries (lk_ob k)))" using assms(1) by (simp add: sender_inv_def)
  from mark_sent_split [OF en srt] p have ob: "ob_entries (mark_sent seq (lk_ob k)) = us @ p\<lparr>pe_sent := True\<rparr> # vs"
    by simp
  show ?thesis
  proof (rule sender_inv_entries [OF assms(1)])
    show "sorted_wrt (<) (map pe_seq (ob_entries (mark_sent seq (lk_ob k))))"
      using srt by (simp add: ob en)
    show "sorted_wrt (\<lambda>p q. pe_sent q \<longrightarrow> pe_sent p) (ob_entries (mark_sent seq (lk_ob k)))"
      using assms(1) us by (auto simp: ob en sender_inv_def sorted_wrt_append)
    show "\<exists>q\<in>set (ob_entries (lk_ob k)). entry_frame 0 x = entry_frame 0 q"
      if "x \<in> set (ob_entries (mark_sent seq (lk_ob k)))" for x
      using that by (auto simp: ob en entry_frame_def)
  qed (simp_all add: ob_parts_preserved)
qed

lemma sender_inv_shrink:
  assumes "sender_inv sid k"
  shows "sender_inv sid (k\<lparr>lk_ob := fst (ack_outbox u (lk_ob k))\<rparr>)"
    and "sender_inv sid (k\<lparr>lk_ob := fst (expire_outbox i (lk_ob k))\<rparr>)"
    and "sender_inv sid (k\<lparr>lk_ob := all_unsent (lk_ob k)\<rparr>)"
proof -
  have s: "sorted_wrt (<) (map pe_seq (ob_entries (lk_ob k)))"
    "sorted_wrt (\<lambda>p q. pe_sent q \<longrightarrow> pe_sent p) (ob_entries (lk_ob k))"
    using assms by (simp_all add: sender_inv_def)
  then have s': "sorted_wrt (\<lambda>p q. pe_seq p < pe_seq q) (ob_entries (lk_ob k))" by (simp add: sorted_wrt_map)
  note sub = sorted_wrt_filter_cong
  show "sender_inv sid (k\<lparr>lk_ob := fst (ack_outbox u (lk_ob k))\<rparr>)"
    by (rule sender_inv_entries [OF assms])
      (use s s' in \<open>auto simp: ob_parts_preserved ack_outbox_def sorted_wrt_map sub dest: set_dropWhileD\<close>)
  show "sender_inv sid (k\<lparr>lk_ob := fst (expire_outbox i (lk_ob k))\<rparr>)"
    by (rule sender_inv_entries [OF assms])
      (use s s' in \<open>auto simp: ob_parts_preserved expire_outbox_def sorted_wrt_map sub\<close>)
  show "sender_inv sid (k\<lparr>lk_ob := all_unsent (lk_ob k)\<rparr>)"
    by (rule sender_inv_entries [OF assms])
      (use s s' in \<open>auto simp: ob_parts_preserved all_unsent_def sorted_wrt_map entry_frame_def comp_def\<close>)
qed

lemma sender_inv_renew:
  assumes "sender_inv sid k"
  shows "sender_inv sid (k\<lparr>lk_epoch := lk_epoch k + 1,
     lk_ob := \<lparr>ob_stream = sid (lk_epoch k + 1), ob_next_seq = 0, ob_entries = []\<rparr>\<rparr>)"
  using assms by (auto simp: sender_inv_def less_eq_prod_def less_prod_def)

lemma sender_inv_step:
  assumes "sender_inv sid k" "link_step sid k k'" shows "sender_inv sid k'"
  using assms(2)
proof cases
  case (queue instant ch pl ttl w ob)
  with sender_inv_queue [OF assms(1) queue(2,3)] show ?thesis by simp
next
  case (transmit seq ch pl rest)
  then show ?thesis using sender_inv_transmit [OF assms(1) transmit(2)] by (simp add: sender_inv_def)
next
  case (acked ep up_to rest ob ws)
  then show ?thesis using sender_inv_shrink(1) [OF assms(1), of up_to] by (simp add: sender_inv_def)
next
  case (rebuild i j)
  then show ?thesis using sender_inv_shrink(3) [OF assms(1)] by (simp add: sender_inv_def)
next
  case (expire now)
  with sender_inv_shrink(2) [OF assms(1)] show ?thesis by simp
next
  case renew
  with sender_inv_renew [OF assms(1)] show ?thesis by simp
qed (use assms(1) in \<open>simp_all add: sender_inv_def\<close>)

subsection \<open>The receiver's half\<close>

definition receiver_inv :: "(nat \<Rightarrow> u64) \<Rightarrow> link \<Rightarrow> bool" where
  "receiver_inv sid k \<longleftrightarrow>
     sorted (map fst (lk_wire k)) \<and> set (lk_wire k) \<subseteq> set (lk_log k) \<and>
     sorted_wrt (<) (map fkey (lk_got k)) \<and> set (lk_got k) \<subseteq> set (lk_log k) \<and>
     (if lk_got k = [] then lk_mark k = \<lparr>im_stream = 0, im_last_seq = 0\<rparr>
      else lk_mark k = \<lparr>im_stream = sid (fst (last (lk_got k))), im_last_seq = fst (snd (last (lk_got k)))\<rparr> \<and>
           (\<forall>f\<in>set (lk_wire k). fst (last (lk_got k)) \<le> fst f))"

text \<open>
  The stream ids of the outboxes made so far: none drawn twice, none the mark's initial 0 (they are
  made odd).
\<close>

definition streams_fresh :: "(nat \<Rightarrow> u64) \<Rightarrow> nat \<Rightarrow> bool" where
  "streams_fresh sid n \<longleftrightarrow> inj_on sid {..n} \<and> (\<forall>i\<le>n. sid i \<noteq> 0)"

lemma streams_fresh_mono: "streams_fresh sid n \<Longrightarrow> m \<le> n \<Longrightarrow> streams_fresh sid m"
  by (auto simp: streams_fresh_def inj_on_def)

lemma streams_freshD:
  "streams_fresh sid n \<Longrightarrow> i \<le> n \<Longrightarrow> sid i \<noteq> 0"
  "streams_fresh sid n \<Longrightarrow> i \<le> n \<Longrightarrow> j \<le> n \<Longrightarrow> sid i = sid j \<longleftrightarrow> i = j"
  by (auto simp: streams_fresh_def inj_on_def)

lemma log_epoch: "sender_inv sid k \<Longrightarrow> f \<in> set (lk_log k) \<Longrightarrow> fst f \<le> lk_epoch k"
  by (auto simp: sender_inv_def fkey_def less_eq_prod_def less_prod_def)

lemma got_epoch:
  "sender_inv sid k \<Longrightarrow> receiver_inv sid k \<Longrightarrow> f \<in> set (lk_got k) \<union> set (lk_wire k) \<Longrightarrow> fst f \<le> lk_epoch k"
  by (rule log_epoch) (auto simp: receiver_inv_def)

lemma receiver_inv_start: "receiver_inv sid (new_link sid)"
  by (simp add: receiver_inv_def new_link_def)

lemma sorted_wrt_last:
  assumes "sorted_wrt (<) (map f xs)" "xs \<noteq> []" "f (last xs) < (f y :: 'b :: order)"
  shows "sorted_wrt (<) (map f (xs @ [y]))"
proof -
  obtain us l where xs: "xs = us @ [l]" using assms(2) by (cases xs rule: rev_cases) auto
  have "f x < f y" if "x \<in> set us" for x
    using assms(1,3) that by (auto simp: xs sorted_snoc intro: less_trans)
  with assms show ?thesis by (auto simp: xs sorted_wrt_append)
qed

text \<open>What the receiver does with a frame: refuse a copy, take anything newer.\<close>

lemma accept_cases:
  assumes fresh: "streams_fresh sid (lk_epoch k)" and "receiver_inv sid k" "lk_wire k = (ep, seq, ch, pl) # rest" "0 < seq"
    and "accept_seq (sid ep) seq (lk_mark k) = (mark, deliver)" and s: "sender_inv sid k"
  shows "(deliver \<and> mark = \<lparr>im_stream = sid ep, im_last_seq = seq\<rparr> \<and>
            (lk_got k \<noteq> [] \<longrightarrow> fkey (last (lk_got k)) < (ep, seq))) \<or>
         (\<not> deliver \<and> mark = lk_mark k \<and> lk_got k \<noteq> [] \<and> fst (last (lk_got k)) = ep \<and> seq \<le> fst (snd (last (lk_got k))))"
proof (cases "lk_got k = []")
  case True
  have "sid ep \<noteq> 0" using streams_freshD(1) [OF fresh] got_epoch [OF s assms(2), of "(ep, seq, ch, pl)"] assms(3) by auto
  with True assms show ?thesis
    by (auto simp: accept_seq_def Let_def receiver_inv_def split: if_splits)
next
  case False
  let ?l = "last (lk_got k)"
  from False assms(2,3) have m: "lk_mark k = \<lparr>im_stream = sid (fst ?l), im_last_seq = fst (snd ?l)\<rparr>"
    and le: "fst ?l \<le> ep" by (auto simp: receiver_inv_def)
  show ?thesis
  proof (cases "fst ?l = ep")
    case True
    with False m assms(5) show ?thesis
      by (auto simp: accept_seq_def Let_def fkey_def less_prod_def split: if_splits)
  next
    case ne: False
    have "fst ?l \<le> lk_epoch k" "ep \<le> lk_epoch k"
      using got_epoch [OF s assms(2), of ?l] got_epoch [OF s assms(2), of "(ep, seq, ch, pl)"] False assms(3) by auto
    with ne have "sid (fst ?l) \<noteq> sid ep" using streams_freshD(2) [OF fresh] by auto
    with ne le False m assms(4,5) show ?thesis
      by (auto simp: accept_seq_def Let_def fkey_def less_prod_def split: if_splits)
  qed
qed

lemma receiver_inv_receive:
  assumes "streams_fresh sid (lk_epoch k)" "sender_inv sid k" "receiver_inv sid k" "lk_wire k = (ep, seq, ch, pl) # rest"
    and "accept_seq (sid ep) seq (lk_mark k) = (mark, deliver)"
  shows "receiver_inv sid (k\<lparr>lk_wire := rest, lk_mark := mark, lk_acks := as,
       lk_got := if deliver then lk_got k @ [(ep, seq, ch, pl)] else lk_got k\<rparr>)"
proof -
  have inlog: "(ep, seq, ch, pl) \<in> set (lk_log k)" using assms(3,4) by (auto simp: receiver_inv_def)
  with assms(2) have pos: "0 < seq" by (auto simp: sender_inv_def)
  from accept_cases [OF assms(1,3,4) pos assms(5,2)] show ?thesis
  proof (elim disjE conjE)
    assume d: deliver and m: "mark = \<lparr>im_stream = sid ep, im_last_seq = seq\<rparr>"
      and lt: "lk_got k \<noteq> [] \<longrightarrow> fkey (last (lk_got k)) < (ep, seq)"
    have "sorted_wrt (<) (map fkey (lk_got k @ [(ep, seq, ch, pl)]))"
    proof (cases "lk_got k = []")
      case False
      with lt assms(3) show ?thesis
        by (intro sorted_wrt_last) (auto simp: receiver_inv_def fkey_def)
    qed simp
    with assms(3,4) d m inlog show ?thesis by (auto simp: receiver_inv_def)
  next
    assume "\<not> deliver" "mark = lk_mark k" "lk_got k \<noteq> []"
    with assms(3,4) show ?thesis by (auto simp: receiver_inv_def)
  qed
qed

lemma receiver_inv_step:
  assumes fresh: "streams_fresh sid (lk_epoch k)" and s: "sender_inv sid k" and r: "receiver_inv sid k" and "link_step sid k k'"
  shows "receiver_inv sid k'"
  using assms(4)
proof cases
  case (queue instant ch pl ttl w ob)
  with r show ?thesis by (auto simp: receiver_inv_def)
next
  case (transmit seq ch pl rest)
  from unsent_head [OF transmit(2)] s have inlog: "(lk_epoch k, seq, ch, pl) \<in> set (lk_log k)"
    by (force simp: sender_inv_def entry_frame_def)
  have le: "fst f \<le> lk_epoch k" if "f \<in> set (lk_log k)" for f
    using s that by (auto simp: sender_inv_def fkey_def less_eq_prod_def less_prod_def)
  have g: "lk_got k \<noteq> [] \<Longrightarrow> fst (last (lk_got k)) \<le> lk_epoch k"
    using le [OF subsetD [OF _ last_in_set [of "lk_got k"]]] r by (simp add: receiver_inv_def)
  have "sorted (map fst (lk_wire k @ [(lk_epoch k, seq, ch, pl)]))"
    using r le by (auto simp: receiver_inv_def sorted_append)
  with transmit(1) r inlog g show ?thesis by (auto simp: receiver_inv_def)
next
  case (receive ep seq ch pl rest mark deliver)
  with receiver_inv_receive [OF fresh s r receive(2,3)] show ?thesis by simp
next
  case (rebuild i j)
  have "set (take n (lk_wire k)) \<subseteq> set (lk_wire k)" "sorted (map fst (take n (lk_wire k)))" for n
    using r by (auto simp: receiver_inv_def take_map [symmetric] sorted_wrt_take dest: in_set_takeD)
  with rebuild r show ?thesis by (fastforce simp: receiver_inv_def)
qed (use r in \<open>auto simp: receiver_inv_def\<close>)

subsection \<open>Nothing is skipped\<close>

text \<open>
  Where the frames of the queue are: a sent one is delivered or on the wire; whatever is queued
  before a frame of the wire is delivered or ahead of it; whatever is queued at or below the mark, or
  below an ack on its way back, is delivered.
\<close>

definition reached :: "link \<Rightarrow> rframe list \<Rightarrow> pending \<Rightarrow> bool" where
  "reached k fs p \<longleftrightarrow> entry_frame (lk_epoch k) p \<in> set (lk_got k) \<union> set fs"

definition entry_ok :: "link \<Rightarrow> pending \<Rightarrow> bool" where
  "entry_ok k p \<longleftrightarrow>
     (pe_sent p \<longrightarrow> reached k (lk_wire k) p) \<and>
     (\<forall>u f v. lk_wire k = u @ f # v \<longrightarrow> fst f = lk_epoch k \<longrightarrow> pe_seq p < fst (snd f) \<longrightarrow> reached k u p) \<and>
     (lk_got k \<noteq> [] \<longrightarrow> fst (last (lk_got k)) = lk_epoch k \<longrightarrow> pe_seq p \<le> fst (snd (last (lk_got k))) \<longrightarrow> reached k [] p) \<and>
     (\<forall>a. (lk_epoch k, a) \<in> set (lk_acks k) \<longrightarrow> pe_seq p \<le> a \<longrightarrow> reached k [] p)"

definition delivery_inv :: "link \<Rightarrow> bool" where
  "delivery_inv k \<longleftrightarrow>
     (\<forall>p\<in>set (ob_entries (lk_ob k)). entry_ok k p) \<and>
     set (lk_acks k) \<subseteq> fkey ` set (lk_got k) \<and> set (lk_oks k) \<subseteq> fkey ` set (lk_got k)"

lemma delivery_inv_start: "delivery_inv (new_link sid)"
  by (simp add: delivery_inv_def new_link_def)

lemma entry_okI:
  assumes "pe_sent p \<Longrightarrow> reached k (lk_wire k) p"
    and "\<And>u f v. lk_wire k = u @ f # v \<Longrightarrow> fst f = lk_epoch k \<Longrightarrow> pe_seq p < fst (snd f) \<Longrightarrow> reached k u p"
    and "lk_got k \<noteq> [] \<Longrightarrow> fst (last (lk_got k)) = lk_epoch k \<Longrightarrow> pe_seq p \<le> fst (snd (last (lk_got k))) \<Longrightarrow> reached k [] p"
    and "\<And>a. (lk_epoch k, a) \<in> set (lk_acks k) \<Longrightarrow> pe_seq p \<le> a \<Longrightarrow> reached k [] p"
  shows "entry_ok k p"
  using assms unfolding entry_ok_def by blast

lemma entry_okD:
  assumes "entry_ok k p"
  shows "pe_sent p \<Longrightarrow> reached k (lk_wire k) p"
    and "lk_wire k = u @ f # v \<Longrightarrow> fst f = lk_epoch k \<Longrightarrow> pe_seq p < fst (snd f) \<Longrightarrow> reached k u p"
    and "lk_got k \<noteq> [] \<Longrightarrow> fst (last (lk_got k)) = lk_epoch k \<Longrightarrow> pe_seq p \<le> fst (snd (last (lk_got k))) \<Longrightarrow> reached k [] p"
    and "(lk_epoch k, a) \<in> set (lk_acks k) \<Longrightarrow> pe_seq p \<le> a \<Longrightarrow> reached k [] p"
  using assms unfolding entry_ok_def by blast+

lemma entry_ok_same:
  assumes "entry_ok k q" "entry_frame 0 p = entry_frame 0 q" "pe_sent p \<longrightarrow> pe_sent q"
  shows "entry_ok k p"
proof -
  have "pe_seq p = pe_seq q" "\<And>fs. reached k fs p = reached k fs q"
    using assms(2) by (auto simp: reached_def entry_frame_def)
  with assms(1,3) show ?thesis unfolding entry_ok_def by simp
qed

lemma entry_ok_ob: "entry_ok (k\<lparr>lk_ob := ob\<rparr>) p = entry_ok k p" "entry_ok (k\<lparr>lk_oks := os\<rparr>) p = entry_ok k p"
  by (simp_all add: entry_ok_def reached_def)

lemma delivery_inv_sub:
  assumes "delivery_inv k"
    and "\<And>p. p \<in> set (ob_entries ob) \<Longrightarrow> \<exists>q\<in>set (ob_entries (lk_ob k)). entry_frame 0 p = entry_frame 0 q \<and> (pe_sent p \<longrightarrow> pe_sent q)"
  shows "delivery_inv (k\<lparr>lk_ob := ob\<rparr>)"
  using assms by (auto simp: delivery_inv_def entry_ok_ob dest: entry_ok_same)

lemma log_keys_inj:
  assumes "sender_inv sid k" "f \<in> set (lk_log k)" "g \<in> set (lk_log k)" "fkey f = fkey g"
  shows "f = g"
proof -
  have "distinct (map fkey (lk_log k))"
    using assms(1) by (simp add: sender_inv_def strict_sorted_iff)
  then have "inj_on fkey (set (lk_log k))" by (simp add: distinct_map)
  with assms show ?thesis by (auto dest: inj_onD)
qed

lemma delivery_inv_receive:
  assumes fresh: "streams_fresh sid (lk_epoch k)" and s: "sender_inv sid k" and r: "receiver_inv sid k" and d: "delivery_inv k"
    and w: "lk_wire k = (ep, seq, ch, pl) # rest"
    and acc: "accept_seq (sid ep) seq (lk_mark k) = (mark, deliver)"
    and k': "lk_epoch k' = lk_epoch k" "lk_ob k' = lk_ob k" "lk_wire k' = rest" "lk_oks k' = lk_oks k"
      "lk_acks k' = lk_acks k @ [(ep, im_last_seq mark)]"
      "lk_got k' = (if deliver then lk_got k @ [(ep, seq, ch, pl)] else lk_got k)"
  shows "delivery_inv k'"
proof -
  let ?f = "(ep, seq, ch, pl)"
  have flog: "?f \<in> set (lk_log k)" using r w by (auto simp: receiver_inv_def)
  with s have pos: "0 < seq" by (auto simp: sender_inv_def)
  note ac = accept_cases [OF fresh r w pos acc s]
  have sub: "set (lk_got k) \<subseteq> set (lk_got k')" using k'(6) by auto
  have top: "lk_got k' \<noteq> []" "fst (last (lk_got k')) = ep" "fst (snd (last (lk_got k'))) = im_last_seq mark"
    using ac r k'(6) by (auto simp: receiver_inv_def)
  have ok: "entry_ok k' p" if p: "p \<in> set (ob_entries (lk_ob k))" for p
  proof -
    let ?p = "entry_frame (lk_epoch k) p"
    have re: "reached k' fs p \<longleftrightarrow> ?p \<in> set (lk_got k') \<or> ?p \<in> set fs"
      "reached k fs p \<longleftrightarrow> ?p \<in> set (lk_got k) \<or> ?p \<in> set fs" for fs
      by (auto simp: reached_def k'(1))
    have e: "entry_ok k p" using d p by (simp add: delivery_inv_def)
    have plog: "?p \<in> set (lk_log k)" using s p by (simp add: sender_inv_def)
    have here: "?p \<in> set (lk_got k')" if "?p = ?f"
    proof (cases deliver)
      case False
      with ac that entry_okD(3) [OF e] sub show ?thesis by (auto simp: re entry_frame_def)
    qed (use k'(6) that in simp)
    have upto: "?p \<in> set (lk_got k')" if "ep = lk_epoch k" "pe_seq p \<le> im_last_seq mark"
    proof (cases "deliver \<and> \<not> pe_seq p < seq")
      case True
      with ac that have "fkey ?p = fkey ?f" by (auto simp: fkey_def entry_frame_def)
      with log_keys_inj [OF s plog flog] here show ?thesis by blast
    next
      case False
      show ?thesis
      proof (cases deliver)
        case True
        with False entry_okD(2) [OF e, of "[]" ?f rest] w that(1) sub show ?thesis by (auto simp: re)
      next
        case False
        then have "fst (last (lk_got k)) = lk_epoch k" "lk_got k \<noteq> []" "pe_seq p \<le> fst (snd (last (lk_got k)))"
          using ac that top k'(6) by auto
        with entry_okD(3) [OF e] sub show ?thesis by (auto simp: re)
      qed
    qed
    show ?thesis
    proof (rule entry_okI)
      assume "pe_sent p"
      with entry_okD(1) [OF e] w sub here show "reached k' (lk_wire k') p" by (auto simp: re k'(3))
    next
      fix u f v assume "lk_wire k' = u @ f # v" "fst f = lk_epoch k'" "pe_seq p < fst (snd f)"
      with entry_okD(2) [OF e, of "?f # u" f v] w sub here k'(1,3) show "reached k' u p" by (auto simp: re)
    next
      assume "fst (last (lk_got k')) = lk_epoch k'" "pe_seq p \<le> fst (snd (last (lk_got k')))"
      with top upto k'(1) show "reached k' [] p" by (simp add: re)
    next
      fix a assume "(lk_epoch k', a) \<in> set (lk_acks k')" "pe_seq p \<le> a"
      with upto entry_okD(4) [OF e, of a] sub k'(1,5) show "reached k' [] p" by (auto simp: re)
    qed
  qed
  have "fkey (last (lk_got k')) = (ep, im_last_seq mark)" using top by (simp add: fkey_def)
  with last_in_set [OF top(1)] have "(ep, im_last_seq mark) \<in> fkey ` set (lk_got k')" by (metis imageI)
  moreover have "fkey ` set (lk_got k) \<subseteq> fkey ` set (lk_got k')" using sub by (rule image_mono)
  ultimately have "set (lk_acks k') \<subseteq> fkey ` set (lk_got k')" "set (lk_oks k') \<subseteq> fkey ` set (lk_got k')"
    using d k'(4,5) by (auto simp: delivery_inv_def simp del: image_subset_iff)
  with ok k'(2) show ?thesis by (simp add: delivery_inv_def)
qed

text \<open>A new entry has the greatest sequence number: nothing on the wire or acknowledged is beyond it.\<close>

lemma delivery_inv_queue:
  assumes s: "sender_inv sid k" and r: "receiver_inv sid k" and d: "delivery_inv k"
    and push: "outbox_push instant ch pl ttl w (lk_ob k) = Some ob" and inc: "ob_next_seq (lk_ob k) < - 1"
  shows "delivery_inv (k\<lparr>lk_ob := ob, lk_log := lg\<rparr>)"
proof -
  let ?n = "ob_next_seq (lk_ob k)"
  from push obtain x where ob: "ob_entries ob = ob_entries (lk_ob k) @ [x]" and x: "pe_seq x = ?n + 1" "\<not> pe_sent x"
    by (auto simp: outbox_push_def Let_def split: if_splits)
  have small: "fst (snd f) < ?n + 1" if "f \<in> set (lk_log k)" "fst f = lk_epoch k" for f
  proof -
    have "fkey f \<le> (lk_epoch k, ?n)" using s that(1) by (simp add: sender_inv_def)
    with that(2) have "fst (snd f) \<le> ?n" by (simp add: fkey_def less_eq_prod_def less_prod_def)
    with word_inc [OF inc] show ?thesis by simp
  qed
  have acks: "a < ?n + 1" if a: "(lk_epoch k, a) \<in> set (lk_acks k)" for a
  proof -
    from a d have "(lk_epoch k, a) \<in> fkey ` set (lk_got k)" by (auto simp: delivery_inv_def)
    then obtain f where "f \<in> set (lk_got k)" "fkey f = (lk_epoch k, a)" by auto
    with r small [of f] show ?thesis by (auto simp: receiver_inv_def fkey_def)
  qed
  have "entry_ok k x"
  proof (rule entry_okI)
    fix u f v assume "lk_wire k = u @ f # v" "fst f = lk_epoch k" "pe_seq x < fst (snd f)"
    with r small [of f] x show "reached k u x" by (auto simp: receiver_inv_def)
  next
    assume g: "lk_got k \<noteq> []" "fst (last (lk_got k)) = lk_epoch k" "pe_seq x \<le> fst (snd (last (lk_got k)))"
    from r g(1) have "last (lk_got k) \<in> set (lk_log k)" by (meson last_in_set receiver_inv_def subsetD)
    with small g x show "reached k [] x" by fastforce
  qed (use x acks in fastforce)+
  moreover have "entry_ok (k\<lparr>lk_ob := ob, lk_log := lg\<rparr>) p = entry_ok k p" for p
    by (simp add: entry_ok_def reached_def)
  ultimately show ?thesis using d by (auto simp: delivery_inv_def ob)
qed

lemma delivery_inv_transmit:
  assumes s: "sender_inv sid k" and d: "delivery_inv k"
    and b: "unsent_batch (lk_ob k) = (seq, ch, pl) # rest"
  shows "delivery_inv (k\<lparr>lk_ob := mark_sent seq (lk_ob k), lk_wire := lk_wire k @ [(lk_epoch k, seq, ch, pl)]\<rparr>)"
    (is "delivery_inv ?k")
proof -
  let ?f = "(lk_epoch k, seq, ch, pl)"
  from unsent_head [OF b] obtain p us vs where en: "ob_entries (lk_ob k) = us @ p # vs"
    and us: "\<forall>q\<in>set us. pe_sent q" and p: "pe_seq p = seq" "pe_channel p = ch" "pe_payload p = pl" by auto
  have srt: "sorted_wrt (<) (map pe_seq (ob_entries (lk_ob k)))" using s by (simp add: sender_inv_def)
  from mark_sent_split [OF en srt] p
  have ob: "ob_entries (mark_sent seq (lk_ob k)) = us @ p\<lparr>pe_sent := True\<rparr> # vs" by simp
  have before: "q \<in> set us" if "q \<in> set (ob_entries (lk_ob k))" "pe_seq q < seq" for q
    using that srt p by (auto simp: en sorted_wrt_append)
  have re: "reached ?k fs q = reached k fs q" for fs q by (simp add: reached_def)
  have ok: "entry_ok ?k q" if q: "entry_ok k q" and m: "q \<in> set (ob_entries (lk_ob k))" for q
  proof (rule entry_okI)
    assume "pe_sent q"
    with entry_okD(1) [OF q] show "reached ?k (lk_wire ?k) q" by (auto simp: re reached_def)
  next
    fix u f v assume w: "lk_wire ?k = u @ f # v" "fst f = lk_epoch ?k" "pe_seq q < fst (snd f)"
    show "reached ?k u q"
    proof (cases v rule: rev_cases)
      case Nil
      with w have "u = lk_wire k" "f = ?f" by auto
      with w(3) before [OF m] us entry_okD(1) [OF q] show ?thesis by (auto simp: re)
    next
      case (snoc v' x)
      with w(1) have "lk_wire k = u @ f # v'" by auto
      moreover from w(2) have "fst f = lk_epoch k" by simp
      ultimately show ?thesis using entry_okD(2) [OF q] w(3) unfolding re by blast
    qed
  next
    assume "lk_got ?k \<noteq> []" "fst (last (lk_got ?k)) = lk_epoch ?k" "pe_seq q \<le> fst (snd (last (lk_got ?k)))"
    with entry_okD(3) [OF q] show "reached ?k [] q" by (simp add: re)
  next
    fix a assume "(lk_epoch ?k, a) \<in> set (lk_acks ?k)" "pe_seq q \<le> a"
    with entry_okD(4) [OF q, of a] show "reached ?k [] q" by (simp add: re)
  qed
  have "entry_ok ?k (p\<lparr>pe_sent := True\<rparr>)"
  proof (rule entry_okI)
    show "reached ?k (lk_wire ?k) (p\<lparr>pe_sent := True\<rparr>)" by (simp add: reached_def entry_frame_def p)
  qed (use entry_okD(2-4) [OF ok, of p] d en in \<open>auto simp: delivery_inv_def reached_def entry_frame_def\<close>)
  with ok d show ?thesis by (auto simp: delivery_inv_def ob en)
qed

lemma entry_ok_acks: "entry_ok k p \<Longrightarrow> set as \<subseteq> set (lk_acks k) \<Longrightarrow> entry_ok (k\<lparr>lk_acks := as\<rparr>) p"
  unfolding entry_ok_def reached_def by auto

lemma entry_ok_prefix:
  assumes q: "entry_ok k p" and w: "lk_wire k = ws @ lost" and unsent: "\<not> pe_sent p"
  shows "entry_ok (k\<lparr>lk_wire := ws\<rparr>) p"
proof (rule entry_okI)
  fix u f v
  assume f: "lk_wire (k\<lparr>lk_wire := ws\<rparr>) = u @ f # v" "fst f = lk_epoch (k\<lparr>lk_wire := ws\<rparr>)" "pe_seq p < fst (snd f)"
  with w have "lk_wire k = u @ f # (v @ lost)" by simp
  with f entry_okD(2) [OF q] have "reached k u p" by simp
  then show "reached (k\<lparr>lk_wire := ws\<rparr>) u p" by (simp add: reached_def)
qed (use unsent entry_okD(3,4) [OF q] in \<open>auto simp: reached_def\<close>)

lemma delivery_inv_cut:
  assumes d: "delivery_inv k"
  shows "delivery_inv (k\<lparr>lk_wire := take i (lk_wire k), lk_acks := take j (lk_acks k), lk_ob := all_unsent (lk_ob k)\<rparr>)"
proof -
  have acks: "set (take j (lk_acks k)) \<subseteq> set (lk_acks k)" by (auto dest: in_set_takeD)
  have "entry_ok (k\<lparr>lk_wire := take i (lk_wire k), lk_acks := take j (lk_acks k)\<rparr>) (p\<lparr>pe_sent := False\<rparr>)"
    if "entry_ok k p" for p
  proof -
    from that have "entry_ok k (p\<lparr>pe_sent := False\<rparr>)" by (rule entry_ok_same) (simp_all add: entry_frame_def)
    then have "entry_ok (k\<lparr>lk_wire := take i (lk_wire k)\<rparr>) (p\<lparr>pe_sent := False\<rparr>)"
      by (rule entry_ok_prefix [of _ _ _ "drop i (lk_wire k)"]) simp_all
    from entry_ok_acks [OF this, of "take j (lk_acks k)"] acks show ?thesis by simp
  qed
  with d acks show ?thesis by (auto simp: delivery_inv_def all_unsent_def entry_ok_ob)
qed

lemma delivery_inv_acked:
  assumes fresh: "streams_fresh sid (lk_epoch k)" and s: "sender_inv sid k" and r: "receiver_inv sid k" and d: "delivery_inv k"
    and a: "lk_acks k = (ep, up_to) # rest" "sid ep = ob_stream (lk_ob k)" "ack_outbox up_to (lk_ob k) = (ob, ws)"
  shows "delivery_inv (k\<lparr>lk_acks := rest, lk_ob := ob,
       lk_oks := lk_oks k @ map (\<lambda>p. (lk_epoch k, pe_seq p)) (takeWhile (\<lambda>p. pe_seq p \<le> up_to) (ob_entries (lk_ob k)))\<rparr>)"
    (is "delivery_inv ?k")
proof -
  obtain f where "f \<in> set (lk_got k)" "fkey f = (ep, up_to)" using d a(1) by (auto simp: delivery_inv_def)
  then have "ep \<le> lk_epoch k" using got_epoch [OF s r, of f] by (auto simp: fkey_def)
  then have "ep = lk_epoch k" using streams_freshD(2) [OF fresh] s a(2) by (auto simp: sender_inv_def)
  have got: "(lk_epoch k, pe_seq p) \<in> fkey ` set (lk_got k)"
    if "p \<in> set (takeWhile (\<lambda>p. pe_seq p \<le> up_to) (ob_entries (lk_ob k)))" for p
  proof -
    from set_takeWhileD [OF that] have "p \<in> set (ob_entries (lk_ob k))" "pe_seq p \<le> up_to" by auto
    with d a(1) \<open>ep = lk_epoch k\<close> have "reached k [] p" by (auto simp: delivery_inv_def intro: entry_okD(4))
    then show ?thesis by (force simp: reached_def entry_frame_def fkey_def)
  qed
  have "entry_ok ?k p" if "entry_ok k p" for p
  proof -
    have "entry_ok (k\<lparr>lk_acks := rest\<rparr>) p" using that by (rule entry_ok_acks) (use a(1) in auto)
    then have "entry_ok (k\<lparr>lk_acks := rest, lk_ob := ob\<rparr>) p" by (simp only: entry_ok_ob)
    then show ?thesis by (simp only: entry_ok_ob)
  qed
  moreover have "set (ob_entries ob) \<subseteq> set (ob_entries (lk_ob k))"
    using a(3) by (auto simp: ack_outbox_def dest: set_dropWhileD)
  ultimately show ?thesis using d got a(1) by (auto simp: delivery_inv_def)
qed

lemma delivery_inv_renew:
  assumes "delivery_inv k"
  shows "delivery_inv (k\<lparr>lk_epoch := ep, lk_ob := \<lparr>ob_stream = s, ob_next_seq = n, ob_entries = []\<rparr>\<rparr>)"
  using assms by (simp add: delivery_inv_def)

lemma delivery_inv_step:
  assumes fresh: "streams_fresh sid (lk_epoch k)" and s: "sender_inv sid k" and r: "receiver_inv sid k" and d: "delivery_inv k"
    and "link_step sid k k'"
  shows "delivery_inv k'"
  using assms(5)
proof cases
  case (queue instant ch pl ttl w ob)
  with delivery_inv_queue [OF s r d queue(2,3)] show ?thesis by simp
next
  case (transmit seq ch pl rest)
  with delivery_inv_transmit [OF s d transmit(2)] show ?thesis by simp
next
  case (receive ep seq ch pl rest mark deliver)
  show ?thesis by (rule delivery_inv_receive [OF fresh s r d receive(2,3)]) (simp_all add: receive(1))
next
  case (acked ep up_to rest ob ws)
  with delivery_inv_acked [OF fresh s r d acked(2-4)] show ?thesis by simp
next
  case (stale_ack ep up_to rest)
  have "entry_ok (k\<lparr>lk_acks := rest\<rparr>) p" if "entry_ok k p" for p
    using that by (rule entry_ok_acks) (use stale_ack(2) in auto)
  with stale_ack d show ?thesis by (auto simp: delivery_inv_def)
next
  case (rebuild i j)
  with delivery_inv_cut [OF d] show ?thesis by simp
next
  case (expire now)
  then show ?thesis using d by (auto simp: expire_outbox_def intro!: delivery_inv_sub)
next
  case renew
  with delivery_inv_renew [OF d] show ?thesis by simp
qed

lemma link_step_epoch: "link_step sid k k' \<Longrightarrow> lk_epoch k \<le> lk_epoch k'"
  by (induction rule: link_step.induct) simp_all

lemma link_inv:
  assumes "link_reach sid k" "streams_fresh sid (lk_epoch k)"
  shows "sender_inv sid k \<and> receiver_inv sid k \<and> delivery_inv k"
  using assms
proof induction
  case start
  show ?case by (simp add: sender_inv_start receiver_inv_start delivery_inv_start)
next
  case (step k k')
  from step.prems link_step_epoch [OF step.hyps(2)] have fresh: "streams_fresh sid (lk_epoch k)"
    by (rule streams_fresh_mono)
  from step.IH [OF fresh] fresh step.hyps(2) show ?case
    using sender_inv_step receiver_inv_step delivery_inv_step by blast
qed

lemma strict_subset_subseq:
  fixes f :: "'a \<Rightarrow> 'b :: order"
  assumes "sorted_wrt (<) (map f xs)" "sorted_wrt (<) (map f ys)" "set xs \<subseteq> set ys"
  shows "subseq xs ys"
  using assms
proof (induction ys arbitrary: xs)
  case (Cons y ys)
  show ?case
  proof (cases xs)
    case xs: (Cons x xs')
    show ?thesis
    proof (cases "x = y")
      case True
      have "set xs' \<subseteq> set ys"
        using Cons.prems(1,3) xs True by (auto dest: subsetD)
      with Cons.IH [of xs'] Cons.prems(1,2) xs True show ?thesis by simp
    next
      case False
      then have "x \<in> set ys" using Cons.prems(3) xs by auto
      with Cons.prems(2) have lt: "f y < f x" by auto
      have "y \<notin> set xs" using Cons.prems(1) xs lt by (auto dest: less_asym)
      then have "set xs \<subseteq> set ys" using Cons.prems(3) by auto
      with Cons.IH [of xs] Cons.prems(1,2) show ?thesis by auto
    qed
  qed simp
qed simp

lemma exactly_once:
  assumes "link_reach sid k" "streams_fresh sid (lk_epoch k)"
  shows "subseq (lk_got k) (lk_log k)" "distinct (lk_log k)" "set (lk_oks k) \<subseteq> fkey ` set (lk_got k)"
proof -
  from link_inv [OF assms] have s: "sender_inv sid k" and r: "receiver_inv sid k" and d: "delivery_inv k" by auto
  show "subseq (lk_got k) (lk_log k)"
    by (rule strict_subset_subseq [of fkey]) (use s r in \<open>auto simp: sender_inv_def receiver_inv_def\<close>)
  show "distinct (lk_log k)" using s by (auto simp: sender_inv_def strict_sorted_iff distinct_map)
  show "set (lk_oks k) \<subseteq> fkey ` set (lk_got k)" using d by (simp add: delivery_inv_def)
qed

section \<open>Properties\<close>


text \<open>
  C12: Reliable channels deliver at most once and in order, across session rebuilds that lose any suffix of
  what is in flight in either direction: what the receiver dispatched is a subsequence of what was queued,
  nothing twice, and a caller is told success only for a frame that was dispatched.
\<close>

theorem reliable_exactly_once:
  assumes "link_reach sid k" "streams_fresh sid (lk_epoch k)"
  shows "subseq (lk_got k) (lk_log k) \<and> distinct (lk_got k) \<and> set (lk_oks k) \<subseteq> fkey ` set (lk_got k)"
  using exactly_once [OF assms] subseq_conv_nths distinct_nthsI by metis

text \<open>Queue one frame, send it, dispatch it, take the ack.\<close>

theorem reliable_exactly_once_witness:
  "\<exists>k. link_reach (\<lambda>n. of_nat (2 * n + 1)) k \<and> lk_got k = [(0, 1, ''chat'', JNull)] \<and> lk_oks k = [(0, 1)] \<and> distinct (lk_got k)"
proof -
  let ?sid = "\<lambda>n. of_nat (2 * n + 1) :: u64"
  let ?f = "(0 :: nat, 1 :: u64, ''chat'', JNull)"
  define p where "p = \<lparr>pe_seq = (1 :: u64), pe_channel = ''chat'', pe_payload = JNull, pe_expires_at = 60000, pe_sent = False, pe_reply = Some 0\<rparr>"
  define k0 where "k0 = new_link ?sid"
  define ob where "ob = \<lparr>ob_stream = (1 :: u64), ob_next_seq = (1 :: u64), ob_entries = [p]\<rparr>"
  define k1 where "k1 = k0\<lparr>lk_ob := ob, lk_log := [?f]\<rparr>"
  define k2 where "k2 = k1\<lparr>lk_ob := mark_sent 1 ob, lk_wire := [?f]\<rparr>"
  define k3 where "k3 = k2\<lparr>lk_wire := [], lk_mark := \<lparr>im_stream = 1, im_last_seq = 1\<rparr>, lk_acks := [(0, 1)], lk_got := [?f]\<rparr>"
  define k4 where "k4 = k3\<lparr>lk_acks := [], lk_ob := ob\<lparr>ob_entries := []\<rparr>, lk_oks := [(0, 1)]\<rparr>"
  have big: "(0 :: u64) < - 1" by code_simp
  have r0: "link_reach ?sid k0" unfolding k0_def by (rule link_reach.start)
  have "link_step ?sid k0 k1"
    using link_step.queue [where k = k0 and sid = ?sid and instant = 0 and ch = "''chat''" and pl = JNull and ttl = None and w = 0 and ob = ob]
    by (simp add: big k0_def k1_def ob_def p_def new_link_def outbox_push_def OUTBOX_CAP_def DEFAULT_TTL_MS_def saturating_add_u64_def)
  moreover have "link_step ?sid k1 k2"
    using link_step.transmit [where k = k1 and sid = ?sid and seq = 1 and ch = "''chat''" and pl = JNull and rest = "[]"]
    by (simp add: k0_def k1_def k2_def ob_def p_def new_link_def unsent_batch_def)
  moreover have "link_step ?sid k2 k3"
    using link_step.receive [where k = k2 and sid = ?sid and ep = 0 and seq = 1 and ch = "''chat''" and pl = JNull and rest = "[]"
        and mark = "\<lparr>im_stream = 1, im_last_seq = 1\<rparr>" and deliver = True]
    by (simp add: k0_def k1_def k2_def k3_def new_link_def accept_seq_def)
  moreover have "link_step ?sid k3 k4"
    using link_step.acked [where k = k3 and sid = ?sid and ep = 0 and up_to = 1 and rest = "[]" and ob = "ob\<lparr>ob_entries := []\<rparr>" and ws = "[0]"]
    by (simp add: k0_def k1_def k2_def k3_def k4_def new_link_def ob_def p_def mark_sent_def ack_outbox_def map_filter_simps)
  ultimately have r4: "link_reach ?sid k4" using r0 by (meson link_reach.step)
  have "streams_fresh ?sid (lk_epoch k4)"
    by (simp add: k4_def k3_def k2_def k1_def k0_def new_link_def streams_fresh_def)
  from reliable_exactly_once [OF r4 this] r4 show ?thesis
    by (intro exI [of _ k4]) (simp add: k4_def k3_def)
qed



subsection \<open>Backpressure\<close>

definition outboxes_bounded :: "engine \<Rightarrow> bool" where
  "outboxes_bounded st \<longleftrightarrow> fmpred (\<lambda>_ ob. length (ob_entries ob) \<le> OUTBOX_CAP) (es_out st)"

lemma bounded_put:
  "outboxes_bounded st \<Longrightarrow> length (ob_entries ob) \<le> OUTBOX_CAP \<Longrightarrow> outboxes_bounded (put_outbox peer ob st)"
  by (auto simp: outboxes_bounded_def put_outbox_def fmpred_iff)

lemma bounded_drop: "outboxes_bounded st \<Longrightarrow> outboxes_bounded (st\<lparr>es_out := fmdrop peer (es_out st)\<rparr>)"
  by (simp add: outboxes_bounded_def fmpred_iff)

lemma bounded_lookup: "outboxes_bounded st \<Longrightarrow> fmlookup (es_out st) peer = Some ob \<Longrightarrow> length (ob_entries ob) \<le> OUTBOX_CAP"
  by (simp add: outboxes_bounded_def fmpred_iff)

lemma bounded_out_cong: "es_out st' = es_out st \<Longrightarrow> outboxes_bounded st' = outboxes_bounded st"
  by (simp add: outboxes_bounded_def)

lemma bounded_primitives [simp]:
  "outboxes_bounded (reply r st) = outboxes_bounded st" "outboxes_bounded (snd (send_to_peer e d m st)) = outboxes_bounded st"
  by (rule bounded_out_cong, simp)+

lemma bounded_replies [simp]: "outboxes_bounded (fold (\<lambda>x. reply (f x)) ws st) = outboxes_bounded st"
  by (induction ws arbitrary: st) simp_all

lemma length_remove_at: "i < length xs \<Longrightarrow> length (remove_at i xs) = length xs - 1"
  by (simp add: remove_at_def)

lemma bounded_flush_loop:
  "outboxes_bounded st \<Longrightarrow> outboxes_bounded (flush_loop e peer b stream batch st)"
proof (induction e peer b stream batch st rule: flush_loop.induct)
  case (2 e peer acked_peer stream seq channel payload rest st)
  obtain r s1 where send: "send_to_peer e peer
      (if acked_peer then ChannelSeq stream seq channel payload else Channel channel payload) st = (r, s1)"
    by (metis prod.exhaust)
  have s1: "outboxes_bounded s1" using "2.prems" send bounded_primitives(2) by (metis snd_conv)
  have "outboxes_bounded (resolve_sent peer seq ob s1)" "outboxes_bounded (put_outbox peer (mark_sent seq ob) s1)"
    if "fmlookup (es_out s1) peer = Some ob" for ob
    using s1 bounded_lookup [OF s1 that]
    by (auto simp: resolve_sent_def Let_def mark_sent_def length_remove_at split: option.split
        intro!: bounded_put dest: position_SomeD)
  with s1 send "2.IH" show ?case by (auto simp: Let_def split: sum.split option.split)
qed simp

lemma bounded_flush: "outboxes_bounded st \<Longrightarrow> outboxes_bounded (flush_peer e peer st)"
  by (simp add: flush_peer_def bounded_flush_loop split: option.split)

text \<open>
  An outbox never holds more than \<open>OUTBOX_CAP\<close> frames. A frame offered to a full one is refused: its
  caller gets the error at once and nothing queued is displaced.
\<close>

theorem outbox_backpressure:
  assumes "outboxes_bounded st"
  shows "outboxes_bounded (enqueue e rnd peer channel payload ttl w st) \<and>
     (\<forall>ob. fmlookup (es_out st) peer = Some ob \<longrightarrow> length (ob_entries ob) = OUTBOX_CAP \<longrightarrow>
        enqueue e rnd peer channel payload ttl w st = reply (w, Inl (ETransport (OutboxFull peer))) st)"
proof (intro conjI allI impI)
  let ?ob = "case fmlookup (es_out st) peer of None \<Rightarrow> new_outbox rnd | Some ob \<Rightarrow> ob"
  have len: "length (ob_entries ?ob) \<le> OUTBOX_CAP"
    using bounded_lookup [OF assms] by (auto simp: new_outbox_def split: option.split)
  show "outboxes_bounded (enqueue e rnd peer channel payload ttl w st)"
    using assms len
    by (auto simp: enqueue_def Let_def outbox_push_def split: option.split intro!: bounded_put bounded_flush)
  fix ob assume ob: "fmlookup (es_out st) peer = Some ob" "length (ob_entries ob) = OUTBOX_CAP"
  then have "fmupd peer ob (es_out st) = es_out st" by (intro fmap_ext) auto
  with ob show "enqueue e rnd peer channel payload ttl w st = reply (w, Inl (ETransport (OutboxFull peer))) st"
    by (simp add: enqueue_def outbox_push_def put_outbox_def)
qed

theorem outbox_backpressure_witness:
  "let ob = \<lparr>ob_stream = 1, ob_next_seq = 256, ob_entries = replicate 256 \<lparr>pe_seq = 1, pe_channel = [], pe_payload = JNull,
         pe_expires_at = 0, pe_sent = True, pe_reply = None\<rparr>\<rparr>;
       st = (sample_engine [])\<lparr>es_out := fmupd ''b'' ob fmempty\<rparr>
   in enqueue sample_env 7 ''b'' ''chat'' JNull None 0 st = reply (0, Inl (ETransport (OutboxFull ''b''))) st"
proof -
  let ?ob = "\<lparr>ob_stream = 1, ob_next_seq = 256, ob_entries = replicate 256 \<lparr>pe_seq = 1, pe_channel = [], pe_payload = JNull,
         pe_expires_at = 0, pe_sent = True, pe_reply = None\<rparr>\<rparr> :: outbox"
  let ?st = "(sample_engine [])\<lparr>es_out := fmupd ''b'' ?ob fmempty\<rparr>"
  have "outboxes_bounded ?st" by (simp add: outboxes_bounded_def OUTBOX_CAP_def fmpred_iff)
  from outbox_backpressure [OF this, of sample_env 7 "''b''" "''chat''" JNull None 0] show ?thesis
    by (simp add: OUTBOX_CAP_def)
qed

end
