(* ===== verification/Ladder.thy ===== *)
theory Ladder
  imports Reliable
begin

text \<open>
  The phase rollup of \<open>engine/phase.rs\<close> and the topology passes of \<open>engine/ladder.rs\<close>: which live links
  are shelved, and which links the shape wants closed or dialled. \<open>ensure_peer_session\<close>, which opens
  a transport, is not modelled: of \<open>shape_connections\<close> the decision is.
\<close>

section \<open>Phase\<close>

definition peer_list :: "engine \<Rightarrow> (string \<times> peer_data) list" where
  "peer_list st = map (\<lambda>(d, p). (d, pc_data p)) (sorted_list_of_fmap (es_peers st))"

definition statuses :: "engine \<Rightarrow> peer_status list" where
  "statuses st = map (\<lambda>(d, p). pd_status p) (peer_list st)"

definition current_phase :: "engine \<Rightarrow> mesh_phase" where
  "current_phase st =
     (let ss = statuses st in
      if ss = [] then Alone else
      let any_active = list_ex (\<lambda>s. s = Active \<or> s = Shelved) ss;
          any_authenticated = list_ex (\<lambda>s. s = PendingApproval) ss;
          any_sighted = list_ex (\<lambda>s. s = Handshaking \<or> s = Sighted) ss;
          any_reconnecting = list_ex (\<lambda>s. s = Reconnecting) ss
      in if any_active then PhaseActive
         else if any_authenticated \<or> any_sighted then Discovering
         else if any_reconnecting then Degraded
         else Alone)"

definition set_phase :: "mesh_phase \<Rightarrow> engine \<Rightarrow> engine" where
  "set_phase next st =
     (if es_phase st = next then st else emit (EvPhase (es_phase st) next) (st\<lparr>es_phase := next\<rparr>))"

definition recompute :: "engine \<Rightarrow> engine" where
  "recompute st = set_phase (current_phase st) st"

section \<open>Shelving\<close>

definition send_shelve_unshelve :: "env \<Rightarrow> string \<Rightarrow> bool \<Rightarrow> engine \<Rightarrow> engine" where
  "send_shelve_unshelve e device_id shelved st =
     (let msg = (if shelved then Shelve (Some ''topology-rebalance'') else Unshelve);
          st1 = snd (send_to_peer e device_id msg st)
      in emit (if shelved then EvShelved device_id (Some ''topology-rebalance'') True else EvUnshelved device_id True) st1)"

definition live_peer_ids :: "engine \<Rightarrow> string list" where
  "live_peer_ids st =
     map fst (filter (\<lambda>(d, p). pd_status p = Active \<or> pd_status p = Shelved) (peer_list st))"

definition shelve_data :: "bool \<Rightarrow> peer_data \<Rightarrow> peer_data" where
  "shelve_data should_be_shelved d =
     (let d1 = d\<lparr>pd_local_shelved := should_be_shelved\<rparr> in
      if should_be_shelved \<and> pd_status d1 = Active then d1\<lparr>pd_status := Shelved\<rparr>
      else if \<not> should_be_shelved \<and> pd_status d1 = Shelved then d1\<lparr>pd_status := Active\<rparr>
      else d1)"

definition shelve_one :: "env \<Rightarrow> string set \<Rightarrow> string \<Rightarrow> engine \<Rightarrow> engine" where
  "shelve_one e preferred peer_id st =
     (let should_be_shelved = (peer_id \<notin> preferred \<and> \<not> is_sticky st peer_id) in
      case peer_of st peer_id of
        None \<Rightarrow> st
      | Some d \<Rightarrow>
          let st1 = update_peer peer_id (shelve_data should_be_shelved) st
          in if pd_local_shelved d \<noteq> should_be_shelved
             then send_shelve_unshelve e peer_id should_be_shelved st1 else st1)"

definition reevaluate_topology :: "env \<Rightarrow> engine \<Rightarrow> engine" where
  "reevaluate_topology e st =
     (if es_self_evicted st then st
      else let active_peers = live_peer_ids st in
           if active_peers = [] then st
           else let preferred = select_preferred (en_crypto e) (es_topology_impl st) (self_id st) active_peers
                in fold (shelve_one e preferred) active_peers st)"

section \<open>Connection shaping\<close>

text \<open>Which connected non-edges \<open>shape_connections\<close> closes and which edges it dials.\<close>

definition wants_prune :: "env \<Rightarrow> engine \<Rightarrow> string list \<Rightarrow> string \<times> peer_connection \<Rightarrow> bool" where
  "wants_prune e st known = (\<lambda>(d, p).
     pc_session p \<noteq> None \<and> \<not> edge (en_crypto e) (es_topology_impl st) (self_id st) d known \<and>
     pd_local_shelved (pc_data p) \<and> pd_remote_shelved (pc_data p) \<and> pd_status (pc_data p) = Shelved \<and>
     \<not> is_sticky st d)"

definition wants_dial :: "env \<Rightarrow> engine \<Rightarrow> string list \<Rightarrow> string \<times> peer_connection \<Rightarrow> bool" where
  "wants_dial e st known = (\<lambda>(d, p).
     pc_session p = None \<and>
     (edge (en_crypto e) (es_topology_impl st) (self_id st) d known \<or> is_sticky st d) \<and> self_id st < d)"

definition shape_plan :: "env \<Rightarrow> engine \<Rightarrow> string list \<times> string list" where
  "shape_plan e st =
     (if \<not> prunes (es_topology_impl st) then ([], [])
      else let entries = sorted_list_of_fmap (es_peers st);
               known = map fst entries @ [self_id st]
           in (map fst (filter (wants_prune e st known) entries),
               map fst (filter (wants_dial e st known) entries)))"

section \<open>What these passes leave alone\<close>

text \<open>
  \<open>link_level st st'\<close>: only link-level parts differ (peers, phase, intents, waiters, outboxes, closing
  set, deferred restarts, announce clock, effects). Identity, governance, roster, topology, pins, marks and flags are as they were.
\<close>

definition link_level :: "engine \<Rightarrow> engine \<Rightarrow> bool" where
  "link_level st st' \<longleftrightarrow>
     es_network_id st' = es_network_id st \<and> es_identity st' = es_identity st \<and>
     es_auto_approve st' = es_auto_approve st \<and> es_gov st' = es_gov st \<and> es_roster st' = es_roster st \<and>
     es_topology st' = es_topology st \<and> es_topology_impl st' = es_topology_impl st \<and>
     es_self_evicted st' = es_self_evicted st \<and> es_sticky st' = es_sticky st \<and>
     es_drifts st' = es_drifts st \<and> es_in st' = es_in st \<and> es_routing_seen st' = es_routing_seen st \<and>
     es_subscribers st' = es_subscribers st \<and> es_rpc st' = es_rpc st \<and> es_skew_watch st' = es_skew_watch st \<and>
     es_socket st' = es_socket st \<and> es_offline st' = es_offline st"

lemma link_level_fields:
  assumes "link_level st st'"
  shows "es_network_id st' = es_network_id st" "es_identity st' = es_identity st"
    "es_auto_approve st' = es_auto_approve st" "es_gov st' = es_gov st" "es_roster st' = es_roster st"
    "es_topology st' = es_topology st" "es_topology_impl st' = es_topology_impl st"
    "es_self_evicted st' = es_self_evicted st" "es_sticky st' = es_sticky st"
    "es_drifts st' = es_drifts st" "es_in st' = es_in st" "es_routing_seen st' = es_routing_seen st"
    "es_subscribers st' = es_subscribers st" "es_rpc st' = es_rpc st" "es_skew_watch st' = es_skew_watch st"
    "es_socket st' = es_socket st" "es_offline st' = es_offline st"
  using assms unfolding link_level_def by blast+

lemma link_level_refl [simp]: "link_level st st"
  by (simp add: link_level_def)

lemma link_level_trans [trans]: "link_level st st1 \<Longrightarrow> link_level st1 st2 \<Longrightarrow> link_level st st2"
  unfolding link_level_def by simp

lemma same_core_link_level: "same_core st st' \<Longrightarrow> link_level st st'"
  by (simp add: link_level_def same_core_fields)

lemma link_level_upd [simp]:
  "link_level st (st1\<lparr>es_peers := ps\<rparr>) = link_level st st1"
  "link_level st (st1\<lparr>es_phase := ph\<rparr>) = link_level st st1"
  "link_level st (st1\<lparr>es_intents := ri\<rparr>) = link_level st st1"
  "link_level st (st1\<lparr>es_waiters := ws\<rparr>) = link_level st st1"
  "link_level st (st1\<lparr>es_out := ob\<rparr>) = link_level st st1"
  "link_level st (st1\<lparr>es_closing := cl\<rparr>) = link_level st st1"
  "link_level st (st1\<lparr>es_deferred := df\<rparr>) = link_level st st1"
  "link_level st (st1\<lparr>es_last_announce := la\<rparr>) = link_level st st1"
  "link_level st (st1\<lparr>es_fx := fx\<rparr>) = link_level st st1"
  by (simp_all add: link_level_def)

lemma link_level_primitives [simp]:
  "link_level st (snd (send_to_peer e d m st1)) = link_level st st1" "link_level st (broadcast e m st1) = link_level st st1"
  "link_level st (emit ev st1) = link_level st st1" "link_level st (spawn t st1) = link_level st st1"
  "link_level st (queue_cmd c st1) = link_level st st1" "link_level st (reply r st1) = link_level st st1"
  "link_level st (snd (save_gov e st1)) = link_level st st1" "link_level st (snd (save_roster e st1)) = link_level st st1"
  "link_level st (update_peer d f st1) = link_level st st1" "link_level st (put_outbox peer ob st1) = link_level st st1"
  by (simp_all add: link_level_def update_peer_def put_outbox_def split: option.split)

lemma link_level_fold:
  "(\<And>x s. x \<in> set xs \<Longrightarrow> link_level st s \<Longrightarrow> link_level st (f x s)) \<Longrightarrow> link_level st s0 \<Longrightarrow> link_level st (fold f xs s0)"
  by (induction xs arbitrary: s0) auto

lemma link_level_reliable [simp]:
  "link_level st s \<Longrightarrow> link_level st (flush_loop e peer b n batch s)"
  "link_level st s \<Longrightarrow> link_level st (flush_peer e peer s)"
  "link_level st s \<Longrightarrow> link_level st (mark_unsent peer s)"
  "link_level st s \<Longrightarrow> link_level st (fail_peer peer why s)"
  "link_level st s \<Longrightarrow> link_level st (on_channel_ack peer stream up_to s)"
proof -
  show loop: "link_level st (flush_loop e peer b n batch s)" if "link_level st s" for s batch b n
    using that
  proof (induction e peer b n batch s rule: flush_loop.induct)
    case (2 e peer acked_peer stream seq channel payload rest s)
    obtain r s1 where send: "send_to_peer e peer
        (if acked_peer then ChannelSeq stream seq channel payload else Channel channel payload) s = (r, s1)"
      by (metis prod.exhaust)
    have s1: "link_level st s1" using "2.prems" link_level_primitives(1) [of st e peer _ s] send by (metis snd_conv)
    have "link_level st (resolve_sent peer seq ob s1)" for ob
      using s1 by (auto simp: resolve_sent_def Let_def split: option.split)
    with s1 send "2.IH" show ?case by (auto simp: Let_def split: sum.split option.split)
  qed simp
  show "link_level st (flush_peer e peer s)" if "link_level st s"
    using that loop by (simp add: flush_peer_def split: option.split)
  show "link_level st (mark_unsent peer s)" if "link_level st s"
    using that by (simp add: mark_unsent_def split: option.split)
  show "link_level st (fail_peer peer why s)" if "link_level st s"
    using that by (auto simp: fail_peer_def intro!: link_level_fold split: option.split)
  show "link_level st (on_channel_ack peer stream up_to s)" if "link_level st s"
    using that by (auto simp: on_channel_ack_def Let_def intro!: link_level_fold split: option.split prod.split)
qed

lemma link_level_ladder [simp]:
  "link_level st s \<Longrightarrow> link_level st (recompute s)"
  "link_level st s \<Longrightarrow> link_level st (send_shelve_unshelve e d b s)"
  "link_level st s \<Longrightarrow> link_level st (shelve_one e pref d s)"
  "link_level st s \<Longrightarrow> link_level st (reevaluate_topology e s)"
proof -
  show "link_level st (recompute s)" if "link_level st s"
    using that by (simp add: recompute_def set_phase_def)
  show shelve: "link_level st (send_shelve_unshelve e d b s)" if "link_level st s" for s d b
    using that by (simp add: send_shelve_unshelve_def Let_def)
  show one: "link_level st (shelve_one e pref d s)" if "link_level st s" for s pref d
    using that shelve by (simp add: shelve_one_def Let_def split: option.split)
  show "link_level st (reevaluate_topology e s)" if "link_level st s"
    using that one by (auto simp: reevaluate_topology_def Let_def intro!: link_level_fold)
qed

section \<open>The shelving pass\<close>

lemma peer_of_update [simp]:
  "peer_of (update_peer d f st) k = (if k = d then map_option f (peer_of st d) else peer_of st k)"
  by (auto simp: peer_of_def update_peer_def split: option.split)

lemma peer_of_cong: "es_peers st = es_peers st' \<Longrightarrow> peer_of st d = peer_of st' d"
  by (simp add: peer_of_def)

lemma peer_of_primitives [simp]:
  "peer_of (snd (send_to_peer e d m st)) k = peer_of st k" "peer_of (broadcast e m st) k = peer_of st k"
  "peer_of (emit ev st) k = peer_of st k" "peer_of (spawn t st) k = peer_of st k"
  "peer_of (reply r st) k = peer_of st k" "peer_of (queue_cmd c st) k = peer_of st k"
  "peer_of (put_outbox p ob st) k = peer_of st k"
  "peer_of (snd (save_gov e st)) k = peer_of st k" "peer_of (snd (save_roster e st)) k = peer_of st k"
  by (rule peer_of_cong; simp add: put_outbox_def)+

lemma peer_of_upd [simp]:
  "peer_of (st\<lparr>es_closing := cl\<rparr>) k = peer_of st k" "peer_of (st\<lparr>es_intents := ri\<rparr>) k = peer_of st k"
  "peer_of (st\<lparr>es_out := ob\<rparr>) k = peer_of st k" "peer_of (st\<lparr>es_waiters := ws\<rparr>) k = peer_of st k"
  "peer_of (st\<lparr>es_phase := ph\<rparr>) k = peer_of st k" "peer_of (st\<lparr>es_roster := ro\<rparr>) k = peer_of st k"
  "peer_of (st\<lparr>es_gov := gv\<rparr>) k = peer_of st k" "peer_of (st\<lparr>es_fx := fx\<rparr>) k = peer_of st k"
  "peer_of (st\<lparr>es_peers := ps\<rparr>) k = map_option pc_data (fmlookup ps k)"
  by (simp_all add: peer_of_def)

lemma peer_of_replies [simp]: "peer_of (fold (\<lambda>w. reply (w, g w)) ws st) k = peer_of st k"
  by (induction ws arbitrary: st) simp_all

lemma peer_of_shelve_one [simp]:
  "peer_of (shelve_one e pref d st) k =
     (if k = d then map_option (shelve_data (d \<notin> pref \<and> d \<notin> es_sticky st)) (peer_of st d) else peer_of st k)"
  by (auto simp: shelve_one_def send_shelve_unshelve_def Let_def is_sticky_def split: option.split)

lemma sticky_shelve_one [simp]: "es_sticky (shelve_one e pref d st) = es_sticky st"
  using link_level_ladder(3) [OF link_level_refl] by (rule link_level_fields)

lemma peer_of_shelve_fold:
  "distinct ds \<Longrightarrow> peer_of (fold (shelve_one e pref) ds st) k =
     (if k \<in> set ds then map_option (shelve_data (k \<notin> pref \<and> k \<notin> es_sticky st)) (peer_of st k) else peer_of st k)"
  by (induction ds arbitrary: st) auto

lemma peer_list_keys: "map fst (peer_list st) = map fst (sorted_list_of_fmap (es_peers st))"
  by (simp add: peer_list_def case_prod_beta comp_def)

lemma in_peer_list: "(d, p) \<in> set (peer_list st) \<longleftrightarrow> peer_of st d = Some p"
proof -
  have "(d, p) \<in> set (peer_list st) \<longleftrightarrow> (\<exists>c. (d, c) \<in> set (sorted_list_of_fmap (es_peers st)) \<and> p = pc_data c)"
    unfolding peer_list_def by (force simp del: in_sorted_list_of_fmap)
  then show ?thesis by (auto simp: peer_of_def)
qed

lemma live_peer_ids_iff:
  "d \<in> set (live_peer_ids st) \<longleftrightarrow> (\<exists>p. peer_of st d = Some p \<and> (pd_status p = Active \<or> pd_status p = Shelved))"
proof -
  have "d \<in> set (live_peer_ids st) \<longleftrightarrow> (\<exists>p. (d, p) \<in> set (peer_list st) \<and> (pd_status p = Active \<or> pd_status p = Shelved))"
    unfolding live_peer_ids_def by (force simp del: in_peer_list)
  then show ?thesis by (simp add: in_peer_list)
qed

lemma distinct_live [simp]: "distinct (live_peer_ids st)"
  unfolding live_peer_ids_def by (rule distinct_map_filter) (simp add: peer_list_keys)

text \<open>The pass on one peer, in full.\<close>

lemma reevaluate_peer:
  "peer_of (reevaluate_topology e st) d =
     (if \<not> es_self_evicted st \<and> d \<in> set (live_peer_ids st)
      then map_option (shelve_data (d \<notin> select_preferred (en_crypto e) (es_topology_impl st) (self_id st) (live_peer_ids st)
             \<and> d \<notin> es_sticky st)) (peer_of st d)
      else peer_of st d)"
  by (simp add: reevaluate_topology_def Let_def peer_of_shelve_fold)

lemma shelve_data_live:
  "pd_status p = Active \<or> pd_status p = Shelved \<Longrightarrow>
     pd_local_shelved (shelve_data b p) = b \<and> pd_status (shelve_data b p) = (if b then Shelved else Active)"
  by (auto simp: shelve_data_def Let_def)

lemma shelve_data_other [simp]:
  "pd_authenticated (shelve_data b p) = pd_authenticated p"
  "pd_local_approve_sent (shelve_data b p) = pd_local_approve_sent p"
  "pd_remote_approve_seen (shelve_data b p) = pd_remote_approve_seen p"
  "pd_remote_shelved (shelve_data b p) = pd_remote_shelved p"
  by (simp_all add: shelve_data_def Let_def)

section \<open>Properties\<close>

text \<open>
  After a topology pass a live link is up exactly when the shape prefers the peer or the peer is
  pinned, and shelved otherwise; links that are not live are untouched. A pinned peer is never shelved.
\<close>

theorem topology_pass_shelves:
  assumes "peer_of st d = Some p" "pd_status p = Active \<or> pd_status p = Shelved" "\<not> es_self_evicted st"
  shows "\<exists>p'. peer_of (reevaluate_topology e st) d = Some p' \<and>
     (let up = (d \<in> select_preferred (en_crypto e) (es_topology_impl st) (self_id st) (live_peer_ids st) \<or> is_sticky st d)
      in pd_status p' = (if up then Active else Shelved) \<and> (pd_local_shelved p' \<longleftrightarrow> \<not> up)) \<and>
     pd_authenticated p' = pd_authenticated p"
proof -
  have "d \<in> set (live_peer_ids st)" using assms(1,2) by (auto simp: live_peer_ids_iff)
  with assms(1,3) have "peer_of (reevaluate_topology e st) d =
      Some (shelve_data (d \<notin> select_preferred (en_crypto e) (es_topology_impl st) (self_id st) (live_peer_ids st) \<and> d \<notin> es_sticky st) p)"
    by (simp add: reevaluate_peer)
  then show ?thesis using shelve_data_live [OF assms(2)] by (auto simp: Let_def is_sticky_def)
qed

theorem topology_pass_shelves_witness:
  "let st = (sample_engine [(''b'', active_peer), (''c'', active_peer)])\<lparr>es_topology_impl := StarSelector ''c''\<rparr>
   in \<exists>p'. peer_of (reevaluate_topology sample_env st) ''b'' = Some p' \<and> pd_status p' = Shelved"
proof -
  let ?st = "(sample_engine [(''b'', active_peer), (''c'', active_peer)])\<lparr>es_topology_impl := StarSelector ''c''\<rparr>"
  have p: "peer_of ?st ''b'' = Some active_peer" "pd_status active_peer = Active \<or> pd_status active_peer = Shelved"
    "\<not> es_self_evicted ?st"
    and no: "\<not> (''b'' \<in> select_preferred (en_crypto sample_env) (es_topology_impl ?st) (self_id ?st) (live_peer_ids ?st) \<or> is_sticky ?st ''b'')"
    by code_simp+
  from topology_pass_shelves [OF p, of sample_env] no show ?thesis by (auto simp: Let_def)
qed

end
