(* ===== verification/Membership.thy ===== *)
theory Membership
  imports Ladder
begin

text \<open>
  The parts of \<open>engine/governance.rs\<close>, \<open>engine/state.rs\<close> and \<open>engine/mod.rs\<close> the handshake and the
  governance handlers share: the eviction verdict, the guarded roster edits, the gossip frames,
  deny-with-proof, reconnect intents and dropping a peer.
\<close>

section \<open>Eviction\<close>

definition log_evicted :: "env \<Rightarrow> engine \<Rightarrow> string \<Rightarrow> bool" where
  "log_evicted e st device_id =
     (let pubkey = pk device_id in
      if is_open_governance (ns_kind (es_gov st)) then False
      else if fmlookup (ns_roles (es_gov st)) pubkey = Some Owner \<or> fmlookup (ns_roles (es_gov st)) pubkey = Some Controller
      then False
      else pubkey \<in> member_log_removed (en_crypto e) (en_key e) (es_gov st) (ns_member_log (es_gov st)) (es_network_id st))"

definition refresh_self_evicted :: "env \<Rightarrow> engine \<Rightarrow> engine" where
  "refresh_self_evicted e st =
     (let verdict = log_evicted e st (self_id st);
          was = es_self_evicted st;
          st1 = st\<lparr>es_self_evicted := verdict\<rparr>
      in if verdict \<and> \<not> was then st1\<lparr>es_intents := fmempty, es_sticky := {}\<rparr> else st1)"

section \<open>Guarded roster edits\<close>

definition approve_roster :: "env \<Rightarrow> string \<Rightarrow> string \<Rightarrow> engine \<Rightarrow> unit result \<times> engine" where
  "approve_roster e device_id lbl st =
     (let gov = es_gov st; pubkey = pubkey_part device_id;
          evicted = (\<not> is_open_governance (ns_kind gov) \<and>
            \<not> (fmlookup (ns_roles gov) pubkey = Some Owner \<or> fmlookup (ns_roles gov) pubkey = Some Controller) \<and>
            pubkey \<in> member_log_removed (en_crypto e) (en_key e) gov (ns_member_log gov) (es_network_id st))
      in if evicted then (Inl (ENetwork PeerEvicted), st)
         else save_roster e (st\<lparr>es_roster := add_peer_in (en_now e) (es_roster st) device_id lbl\<rparr>))"

definition remove_roster :: "env \<Rightarrow> string \<Rightarrow> engine \<Rightarrow> unit result \<times> engine" where
  "remove_roster e device_id st =
     (let governance = es_gov st;
          contained = (if is_open_governance (ns_kind governance) then Inr False
             else signed_projection_contains (en_crypto e) (en_key e) (es_network_id st) governance device_id)
      in case contained of
           Inl err \<Rightarrow> (Inl err, st)
         | Inr True \<Rightarrow> (Inl (ENetwork SignedMember), st)
         | Inr False \<Rightarrow> save_roster e (st\<lparr>es_roster := remove_peer_in (es_roster st) device_id\<rparr>))"

section \<open>Gossip frames\<close>

definition broadcast_roster_summary :: "env \<Rightarrow> engine \<Rightarrow> engine" where
  "broadcast_roster_summary e st =
     (if \<not> gossip_roster_enabled st then st
      else broadcast e (RosterSummary (summary (en_crypto e) (es_roster st))) st)"

definition broadcast_state :: "env \<Rightarrow> engine \<Rightarrow> engine" where
  "broadcast_state e st =
     (let gov = es_gov st in
      broadcast e (NetworkStateFrame
        \<lparr>sb_kind = ns_kind gov, sb_transitions_count = of_nat (length (ns_transitions gov)),
         sb_member_log_count = of_nat (length (ns_member_log gov)),
         sb_roster_root = membership_root (en_crypto e) (es_roster st)\<rparr>) st)"

definition request_roster :: "env \<Rightarrow> string \<Rightarrow> engine \<Rightarrow> engine" where
  "request_roster e peer_id st = snd (send_to_peer e peer_id (RosterRequest True []) st)"

definition maybe_request_roster :: "env \<Rightarrow> string \<Rightarrow> string \<Rightarrow> engine \<Rightarrow> engine" where
  "maybe_request_roster e peer_id their_root st =
     (if membership_root (en_crypto e) (es_roster st) = their_root then st else request_roster e peer_id st)"

definition on_roster_summary :: "env \<Rightarrow> string \<Rightarrow> roster_summary \<Rightarrow> engine \<Rightarrow> engine" where
  "on_roster_summary e peer_id msg st = maybe_request_roster e peer_id (rs_root msg) st"

definition on_roster_request :: "env \<Rightarrow> string \<Rightarrow> engine \<Rightarrow> engine" where
  "on_roster_request e peer_id st =
     (if \<not> gossip_roster_enabled st then st
      else snd (send_to_peer e peer_id
             (RosterEntries (map entry_of_peer (ro_devices (es_roster st)))
                (ns_transitions (es_gov st)) (ns_member_log (es_gov st))) st))"

definition DENY_REASON_EVICTED :: string where "DENY_REASON_EVICTED = ''evicted''"

text \<open>Deny with proof; the delayed drop is a spawned task.\<close>

definition deny_if_evicted :: "env \<Rightarrow> string \<Rightarrow> engine \<Rightarrow> bool \<times> engine" where
  "deny_if_evicted e device_id st =
     (if \<not> log_evicted e st device_id then (False, st)
      else let deny = Deny (Some DENY_REASON_EVICTED) (ns_transitions (es_gov st)) (ns_member_log (es_gov st));
               st1 = snd (send_to_peer e device_id deny st)
           in (True, spawn (DropJanitor device_id) st1))"

section \<open>Dropping a peer\<close>

definition RECONNECTING_GRACE_MS :: u64 where "RECONNECTING_GRACE_MS = 90000"

definition record_reconnect_intent :: "env \<Rightarrow> string \<Rightarrow> bool \<Rightarrow> engine \<Rightarrow> engine" where
  "record_reconnect_intent e device_id sticky st =
     (let now = en_instant e;
          intent = (case fmlookup (es_intents st) device_id of
             Some i \<Rightarrow> i
           | None \<Rightarrow> \<lparr>ri_give_up_at = now + RECONNECTING_GRACE_MS, ri_next_retry_at = now, ri_attempt = 0, ri_sticky = sticky\<rparr>)
      in st\<lparr>es_intents := fmupd device_id (intent\<lparr>ri_sticky := ri_sticky intent \<or> sticky\<rparr>) (es_intents st)\<rparr>)"

definition clear_reconnect_intent :: "string \<Rightarrow> engine \<Rightarrow> engine" where
  "clear_reconnect_intent device_id st = st\<lparr>es_intents := fmdrop device_id (es_intents st)\<rparr>"

definition resolve_connect_waiters :: "string \<Rightarrow> string option \<Rightarrow> engine \<Rightarrow> engine" where
  "resolve_connect_waiters device_id err st =
     (case fmlookup (es_waiters st) device_id of
        None \<Rightarrow> st
      | Some ws \<Rightarrow>
          fold (\<lambda>w. reply (w, case err of None \<Rightarrow> Inr () | Some _ \<Rightarrow> Inl (ENetwork (ConnectFailed device_id)))) ws
            (st\<lparr>es_waiters := fmdrop device_id (es_waiters st)\<rparr>))"

definition is_recoverable :: "drop_reason \<Rightarrow> bool" where
  "is_recoverable reason =
     (case reason of IceFailed \<Rightarrow> True | HeartbeatTimeout \<Rightarrow> True | TransportError _ \<Rightarrow> True | _ \<Rightarrow> False)"

definition reason_str :: "drop_reason \<Rightarrow> string" where
  "reason_str r = (case r of Denied \<Rightarrow> ''Denied'' | IceFailed \<Rightarrow> ''IceFailed'' | AuthFailed \<Rightarrow> ''AuthFailed''
     | UserLeft \<Rightarrow> ''UserLeft'' | TopologyPruned \<Rightarrow> ''TopologyPruned'' | HeartbeatTimeout \<Rightarrow> ''HeartbeatTimeout''
     | TransportError m \<Rightarrow> ''TransportError { message: '' @ [CHR 0x22] @ m @ [CHR 0x22] @ '' }'')"

text \<open>After the entry is gone: retry what may come back, fail what was ended on purpose.\<close>

definition after_drop :: "env \<Rightarrow> string \<Rightarrow> drop_reason \<Rightarrow> engine \<Rightarrow> engine" where
  "after_drop e device_id reason st =
     (let we_offer = self_id st < device_id;
          sticky = is_sticky st device_id;
          recoverable = (\<not> log_evicted e st device_id \<and> is_recoverable reason)
      in if recoverable \<and> (we_offer \<or> sticky)
         then mark_unsent device_id (record_reconnect_intent e device_id sticky st)
         else if recoverable then mark_unsent device_id st
         else resolve_connect_waiters device_id (Some (reason_str reason))
                (fail_peer device_id (reason_str reason) (clear_reconnect_intent device_id st)))"

definition drop_peer_inner :: "env \<Rightarrow> string \<Rightarrow> u64 option \<Rightarrow> drop_reason \<Rightarrow> engine \<Rightarrow> bool \<times> engine" where
  "drop_peer_inner e device_id expected_epoch reason st =
     (if device_id \<in> es_closing st then (False, st)
      else
        case fmlookup (es_peers st) device_id of
          None \<Rightarrow> (False, st)
        | Some p \<Rightarrow>
            if (case expected_epoch of Some epoch \<Rightarrow> pc_epoch p \<noteq> epoch | None \<Rightarrow> False) then (False, st)
            else
              let st1 = st\<lparr>es_closing := insert device_id (es_closing st), es_peers := fmdrop device_id (es_peers st),
                    es_deferred := fmdrop device_id (es_deferred st)\<rparr>;
                  slow_close = (pc_session p \<noteq> None \<and> \<not> en_close_ok e);
                  st2 = (if slow_close then spawn (CloseFinished device_id) st1 else st1);
                  st3 = after_drop e device_id reason (emit (EvDropped device_id reason) st2);
                  st4 = (if slow_close then st3 else st3\<lparr>es_closing := es_closing st3 - {device_id}\<rparr>)
              in (True, reevaluate_topology e (recompute st4)))"

definition drop_peer :: "env \<Rightarrow> string \<Rightarrow> drop_reason \<Rightarrow> engine \<Rightarrow> engine" where
  "drop_peer e device_id reason st = snd (drop_peer_inner e device_id None reason st)"

definition note_sighted_without_dialing :: "string \<Rightarrow> engine \<Rightarrow> engine" where
  "note_sighted_without_dialing device_id st =
     (if fmlookup (es_peers st) device_id \<noteq> None then st
      else let fx = es_fx st;
               placeholder = \<lparr>pc_data = default_peer_data, pc_session = None, pc_epoch = fx_next_epoch fx\<rparr>
           in recompute (emit (EvSighted device_id)
                (st\<lparr>es_peers := fmupd device_id placeholder (es_peers st),
                    es_fx := fx\<lparr>fx_next_epoch := fx_next_epoch fx + 1\<rparr>\<rparr>)))"

section \<open>Frames and guards\<close>

lemma link_level_membership [simp]:
  "link_level st s \<Longrightarrow> link_level st (broadcast_roster_summary e s)"
  "link_level st s \<Longrightarrow> link_level st (broadcast_state e s)"
  "link_level st s \<Longrightarrow> link_level st (request_roster e d s)"
  "link_level st s \<Longrightarrow> link_level st (snd (deny_if_evicted e d s))"
  "link_level st s \<Longrightarrow> link_level st (record_reconnect_intent e d b s)"
  "link_level st s \<Longrightarrow> link_level st (clear_reconnect_intent d s)"
  "link_level st s \<Longrightarrow> link_level st (resolve_connect_waiters d err s)"
  by (auto simp: broadcast_roster_summary_def broadcast_state_def request_roster_def deny_if_evicted_def
      record_reconnect_intent_def clear_reconnect_intent_def resolve_connect_waiters_def Let_def
      intro!: link_level_fold split: option.split)

lemma link_level_drop [simp]:
  "link_level st s \<Longrightarrow> link_level st (after_drop e d r s)"
  "link_level st s \<Longrightarrow> link_level st (drop_peer e d r s)"
  by (auto simp: after_drop_def drop_peer_def drop_peer_inner_def Let_def split: option.split)

lemma log_evicted_cong:
  "es_gov st = es_gov st' \<Longrightarrow> es_network_id st = es_network_id st' \<Longrightarrow> log_evicted e st d = log_evicted e st' d"
  by (simp add: log_evicted_def)

lemma approve_roster_evicted:
  "log_evicted e st d \<Longrightarrow> approve_roster e d l st = (Inl (ENetwork PeerEvicted), st)"
  by (auto simp: approve_roster_def log_evicted_def pk_def Let_def split: if_splits)

lemma approve_roster_admits:
  "\<not> log_evicted e st d \<Longrightarrow>
     es_roster (snd (approve_roster e d l st)) = add_peer_in (en_now e) (es_roster st) d l"
  by (auto simp: approve_roster_def log_evicted_def pk_def Let_def split: if_splits)

lemma remove_roster_signed:
  assumes "\<not> is_open_governance (ns_kind (es_gov st))"
    and "verified_projection (en_crypto e) (en_key e) (es_network_id st) (es_gov st) = Inr (roles, removed)"
    and "fmlookup roles (pubkey_part d) \<noteq> None"
  shows "remove_roster e d st = (Inl (ENetwork SignedMember), st)"
  using assms by (simp add: remove_roster_def Let_def signed_projection_contains_def pk_def)

text \<open>A dropped peer is gone, unless its previous session is still closing.\<close>

lemma peer_of_drop_parts [simp]:
  "peer_of (mark_unsent d s) k = peer_of s k" "peer_of (fail_peer d why s) k = peer_of s k"
  "peer_of (record_reconnect_intent e d b s) k = peer_of s k" "peer_of (clear_reconnect_intent d s) k = peer_of s k"
  "peer_of (resolve_connect_waiters d err s) k = peer_of s k" "peer_of (recompute s) k = peer_of s k"
  by (simp_all add: mark_unsent_def fail_peer_def record_reconnect_intent_def clear_reconnect_intent_def
      resolve_connect_waiters_def recompute_def set_phase_def Let_def split: option.split)

lemma peer_of_after_drop [simp]: "peer_of (after_drop e d r s) k = peer_of s k"
  by (simp add: after_drop_def Let_def)

lemma reevaluate_none: "peer_of st d = None \<Longrightarrow> peer_of (reevaluate_topology e st) d = None"
  by (simp add: reevaluate_peer)

lemma drop_peer_cases:
  obtains "drop_peer e d r st = st" "d \<in> es_closing st \<or> peer_of st d = None"
  | s where "drop_peer e d r st = reevaluate_topology e s" "d \<notin> es_closing st"
      "\<And>k. peer_of s k = (if k = d then None else peer_of st k)"
proof (cases "d \<in> es_closing st \<or> fmlookup (es_peers st) d = None")
  case True
  then show thesis by (intro that(1)) (auto simp: drop_peer_def drop_peer_inner_def peer_of_def)
next
  case False
  then obtain p where p: "fmlookup (es_peers st) d = Some p" and cl: "d \<notin> es_closing st" by auto
  let ?slow = "pc_session p \<noteq> None \<and> \<not> en_close_ok e"
  define s1 where "s1 = st\<lparr>es_closing := insert d (es_closing st), es_peers := fmdrop d (es_peers st), es_deferred := fmdrop d (es_deferred st)\<rparr>"
  define s3 where "s3 = after_drop e d r (emit (EvDropped d r) (if ?slow then spawn (CloseFinished d) s1 else s1))"
  define s4 where "s4 = recompute (if ?slow then s3 else s3\<lparr>es_closing := es_closing s3 - {d}\<rparr>)"
  have "drop_peer e d r st = reevaluate_topology e s4"
    using p cl by (simp add: drop_peer_def drop_peer_inner_def Let_def s4_def s3_def s1_def)
  moreover have "peer_of s4 k = (if k = d then None else peer_of st k)" for k
    by (simp add: s4_def s3_def s1_def) (simp add: peer_of_def)
  ultimately show thesis using cl by (intro that(2))
qed

lemma drop_peer_gone:
  assumes "d \<notin> es_closing st" shows "peer_of (drop_peer e d r st) d = None"
  by (rule drop_peer_cases [of e d r st]) (use assms in \<open>auto intro: reevaluate_none\<close>)

section \<open>Properties\<close>

text \<open>
  The roster edits respect the signed state of a closed network: a device the logs evict cannot be
  approved, and a device the verified projection holds cannot be removed locally; in both cases the state
  is left as it was. On other devices the edit takes effect.
\<close>

theorem roster_edits_respect_logs:
  assumes "\<not> is_open_governance (ns_kind (es_gov st))"
    and "verified_projection (en_crypto e) (en_key e) (es_network_id st) (es_gov st) = Inr (roles, removed)"
  shows "(log_evicted e st d \<longrightarrow> approve_roster e d l st = (Inl (ENetwork PeerEvicted), st)) \<and>
     (\<not> log_evicted e st d \<longrightarrow> es_roster (snd (approve_roster e d l st)) = add_peer_in (en_now e) (es_roster st) d l) \<and>
     (fmlookup roles (pubkey_part d) \<noteq> None \<longrightarrow> remove_roster e d st = (Inl (ENetwork SignedMember), st)) \<and>
     (fmlookup roles (pubkey_part d) = None \<longrightarrow> \<not> is_authorized (es_roster (snd (remove_roster e d st))) d)"
proof (intro conjI impI)
  assume "fmlookup roles (pubkey_part d) = None"
  with assms show "\<not> is_authorized (es_roster (snd (remove_roster e d st))) d"
    by (simp add: remove_roster_def Let_def signed_projection_contains_def pk_def is_authorized_keys)
qed (simp_all add: approve_roster_evicted approve_roster_admits remove_roster_signed [OF assms])

theorem roster_edits_respect_logs_witness:
  "approve_roster sample_env ''d'' [] (sample_engine []) = (Inl (ENetwork PeerEvicted), sample_engine []) \<and>
   remove_roster sample_env ''c'' (sample_engine []) = (Inl (ENetwork SignedMember), sample_engine [])"
proof -
  let ?st = "sample_engine []" and ?e = sample_env
  have k: "\<not> is_open_governance (ns_kind (es_gov ?st))" and ev: "log_evicted ?e ?st ''d''" by code_simp+
  have "case verified_projection (en_crypto ?e) (en_key ?e) (es_network_id ?st) (es_gov ?st) of
      Inr (roles, removed) \<Rightarrow> fmlookup roles (pubkey_part ''c'') \<noteq> None | Inl _ \<Rightarrow> False" by code_simp
  then obtain roles removed where
    v: "verified_projection (en_crypto ?e) (en_key ?e) (es_network_id ?st) (es_gov ?st) = Inr (roles, removed)"
    and c: "fmlookup roles (pubkey_part ''c'') \<noteq> None" by (auto split: sum.splits)
  from roster_edits_respect_logs [OF k v] ev c show ?thesis by blast
qed

text \<open>
  Dropping a peer forgets it, whatever its state and whatever the reason, unless the teardown of an
  earlier session is still running; identity, governance and roster are untouched, and other peers at
  most move between up and shelved.
\<close>

theorem drop_peer_forgets:
  assumes "d \<notin> es_closing st"
  shows "peer_of (drop_peer e d r st) d = None \<and> link_level st (drop_peer e d r st) \<and>
     (k \<noteq> d \<longrightarrow> map_option pd_authenticated (peer_of (drop_peer e d r st) k) = map_option pd_authenticated (peer_of st k))"
proof (intro conjI impI)
  show "peer_of (drop_peer e d r st) d = None" using assms by (rule drop_peer_gone)
  show "link_level st (drop_peer e d r st)" by simp
  show "map_option pd_authenticated (peer_of (drop_peer e d r st) k) = map_option pd_authenticated (peer_of st k)" if "k \<noteq> d"
    by (rule drop_peer_cases [of e d r st])
      (use that in \<open>auto simp: reevaluate_peer option.map_comp comp_def\<close>)
qed

theorem drop_peer_forgets_witness:
  "peer_of (drop_peer sample_env ''b'' HeartbeatTimeout (sample_engine [(''b'', active_peer), (''c'', active_peer)])) ''b'' = None"
proof -
  have "''b'' \<notin> es_closing (sample_engine [(''b'', active_peer), (''c'', active_peer)])" by (simp add: sample_engine_def)
  from drop_peer_forgets [OF this] show ?thesis by blast
qed

end
