(* ===== verification/Handshake.thy ===== *)
theory Handshake
  imports Membership
begin

text \<open>
  The bilateral handshake of \<open>engine/handshake.rs\<close>: hello, signed response bound to the nonce and to
  the DTLS channel, the eviction gate, the two approvals and the step to ACTIVE. Nonces and
  verification codes are random in the code and arguments here; the capability advert of the local
  RPC router is an argument too. \<open>on_deny\<close> needs log adoption and is in \<open>Governance\<close>.
\<close>

section \<open>Hello\<close>

definition PROTOCOL_VERSION :: u32 where "PROTOCOL_VERSION = 1"

definition ADVERTISED_FEATURES :: "string list" where
  "ADVERTISED_FEATURES = [''ring_topology'', ''generic_rpc'', ''typed_channels'', ''capabilities_update'',
     ''network_state_v1'', RELIABLE_CHANNELS]"

definition HANDSHAKE_TIMEOUT_MS :: u64 where "HANDSHAKE_TIMEOUT_MS = 30000"

definition initiate :: "env \<Rightarrow> string \<Rightarrow> string \<Rightarrow> json \<Rightarrow> string option \<Rightarrow> string \<Rightarrow> engine \<Rightarrow> engine" where
  "initiate e nonce code caps app_version device_id st =
     (let hello = Hello \<lparr>he_protocol = PROTOCOL_VERSION, he_device_id = self_id st,
            he_label = id_label (es_identity st), he_nonce = nonce, he_verification_code = code,
            he_capabilities = Some caps, he_max_connections = None,
            he_features = ADVERTISED_FEATURES, he_app_version = app_version\<rparr>;
          st1 = update_peer device_id (\<lambda>d. d\<lparr>pd_status := Handshaking, pd_nonce_sent := Some nonce,
            pd_code_sent := Some code, pd_handshake_started_at := Some (en_instant e), pd_hello_attempt := 1\<rparr>) st;
          st2 = snd (send_to_peer e device_id hello st1)
      in spawn (HandshakeWatchdog device_id) (spawn (HelloRetries device_id hello) st2))"

definition saturating_inc_u32 :: "u32 \<Rightarrow> u32" where
  "saturating_inc_u32 n = (if n = - 1 then n else n + 1)"

text \<open>One tick of the retry task; the flag says whether the task goes on.\<close>

definition hello_retry :: "env \<Rightarrow> string \<Rightarrow> mesh_message \<Rightarrow> engine \<Rightarrow> bool \<times> engine" where
  "hello_retry e device_id hello st =
     (case peer_of st device_id of
        None \<Rightarrow> (False, st)
      | Some d \<Rightarrow>
          if \<not> (pd_status d = Handshaking \<and> \<not> pd_authenticated d) then (False, st)
          else (True, update_peer device_id (\<lambda>d. d\<lparr>pd_hello_attempt := saturating_inc_u32 (pd_hello_attempt d)\<rparr>)
                  (snd (send_to_peer e device_id hello st))))"

definition elapsed_ms :: "env \<Rightarrow> u64 \<Rightarrow> u64" where
  "elapsed_ms e t = (if t \<le> en_instant e then en_instant e - t else 0)"

definition watchdog_fires :: "env \<Rightarrow> string \<Rightarrow> engine \<Rightarrow> engine" where
  "watchdog_fires e device_id st =
     (case peer_of st device_id of
        None \<Rightarrow> st
      | Some d \<Rightarrow>
          if \<not> pd_authenticated d \<and> pd_status d = Handshaking \<and>
             (case pd_handshake_started_at d of None \<Rightarrow> False | Some t \<Rightarrow> HANDSHAKE_TIMEOUT_MS \<le> elapsed_ms e t)
          then drop_peer e device_id HeartbeatTimeout st else st)"

definition session_of :: "engine \<Rightarrow> string \<Rightarrow> session option" where
  "session_of st d = (case fmlookup (es_peers st) d of None \<Rightarrow> None | Some p \<Rightarrow> pc_session p)"

definition on_hello :: "env \<Rightarrow> string \<Rightarrow> hello_message \<Rightarrow> engine \<Rightarrow> engine" where
  "on_hello e device_id hello st =
     (if pubkey_part (he_device_id hello) \<noteq> pubkey_part device_id then drop_peer e device_id AuthFailed st
      else
        let st1 = update_peer device_id (\<lambda>d.
              let d1 = d\<lparr>pd_nonce_received := Some (he_nonce hello),
                    pd_code_received := Some (he_verification_code hello),
                    pd_label := he_label hello, pd_features := he_features hello\<rparr>
              in case he_capabilities hello of None \<Rightarrow> d1 | Some caps \<Rightarrow> d1\<lparr>pd_capabilities := Some caps\<rparr>) st
        in case session_of st1 device_id of
             None \<Rightarrow> drop_peer e device_id AuthFailed st1
           | Some session \<Rightarrow>
               (case local_fingerprint session of
                  None \<Rightarrow> drop_peer e device_id AuthFailed st1
                | Some channel_binding \<Rightarrow>
                    let payload = handshake_payload (he_nonce hello) (self_id st1) (pubkey_part device_id) channel_binding;
                        signature = sign_with (en_crypto e) (id_signing_key (es_identity st1)) payload
                    in snd (send_to_peer e device_id (AuthResponse signature) st1)))"

section \<open>Approval\<close>

definition activate :: "peer_data \<Rightarrow> peer_data" where
  "activate d = d\<lparr>pd_status := Active, pd_tier := Steady, pd_ice_failed_count := 0, pd_no_turn_diag_emitted := False\<rparr>"

definition settle_activation :: "env \<Rightarrow> string \<Rightarrow> engine \<Rightarrow> engine" where
  "settle_activation e device_id st =
     (case peer_of st device_id of
        None \<Rightarrow> st
      | Some d \<Rightarrow>
          let was_active = (pd_status d = Active);
              active = (pd_authenticated d \<and> pd_local_approve_sent d \<and> pd_remote_approve_seen d)
          in if active \<and> \<not> was_active
             then let st1 = update_peer device_id activate st;
                      st2 = snd (approve_roster e device_id (pd_label d) st1);
                      st3 = recompute (emit (EvApproved device_id (pd_label d)) st2);
                      st4 = reevaluate_topology e st3;
                      st5 = clear_reconnect_intent device_id (resolve_connect_waiters device_id None st4);
                      st6 = flush_peer e device_id st5
                  in broadcast_state e (broadcast_roster_summary e st6)
             else st)"

definition on_approve :: "env \<Rightarrow> string \<Rightarrow> engine \<Rightarrow> engine" where
  "on_approve e device_id st =
     settle_activation e device_id (update_peer device_id (\<lambda>d. d\<lparr>pd_remote_approve_seen := True\<rparr>) st)"

text \<open>
  One step: the latch is set and taken back with no other step between. A caller of the handle may run it beside the driver in the
  code, where a frame of the peer can be handled before a failed send has taken the latch back; that interleaving is not modelled.
\<close>

definition send_local_approve :: "env \<Rightarrow> string \<Rightarrow> engine \<Rightarrow> engine" where
  "send_local_approve e device_id st =
     (case peer_of st device_id of
        None \<Rightarrow> st
      | Some d \<Rightarrow>
          if pd_local_approve_sent d then st
          else
            let st1 = update_peer device_id (\<lambda>d. d\<lparr>pd_local_approve_sent := True\<rparr>) st;
                (r, st2) = send_to_peer e device_id Approve st1
            in case r of
                 Inl _ \<Rightarrow> update_peer device_id (\<lambda>d. d\<lparr>pd_local_approve_sent := False\<rparr>) st2
               | Inr _ \<Rightarrow> settle_activation e device_id st2)"

definition auth_payload :: "engine \<Rightarrow> string \<Rightarrow> string \<Rightarrow> string \<Rightarrow> bytes" where
  "auth_payload st device_id my_nonce channel_binding =
     handshake_payload my_nonce (pubkey_part device_id) (self_id st) channel_binding"

definition admit_authenticated :: "env \<Rightarrow> string \<Rightarrow> string \<Rightarrow> string \<Rightarrow> engine \<Rightarrow> engine" where
  "admit_authenticated e device_id peer_label verification_code st =
     (let st1 = update_peer device_id (\<lambda>d. d\<lparr>pd_authenticated := True, pd_status := PendingApproval\<rparr>) st;
          rostered = is_rostered st1 device_id;
          auto = (es_auto_approve st1 \<or> rostered);
          st2 = emit (EvAuthenticated device_id peer_label verification_code rostered) st1
      in if auto then send_local_approve e device_id st2 else st2)"

definition on_auth_response :: "env \<Rightarrow> string \<Rightarrow> string \<Rightarrow> engine \<Rightarrow> engine" where
  "on_auth_response e device_id signature st =
     (case peer_of st device_id of
        None \<Rightarrow> st
      | Some d \<Rightarrow>
        (case pd_nonce_sent d of
           None \<Rightarrow> st
         | Some my_nonce \<Rightarrow>
           (case session_of st device_id of
              None \<Rightarrow> drop_peer e device_id AuthFailed st
            | Some session \<Rightarrow>
              (case remote_fingerprint session of
                 None \<Rightarrow> drop_peer e device_id AuthFailed st
               | Some channel_binding \<Rightarrow>
                 let ok = unwrap_or False
                       (verify (en_crypto e) device_id (auth_payload st device_id my_nonce channel_binding) signature)
                 in if \<not> ok then drop_peer e device_id AuthFailed st
                    else let (denied, st1) = deny_if_evicted e device_id st
                         in if denied then st1
                            else admit_authenticated e device_id (pd_label d)
                                   (case pd_code_received d of None \<Rightarrow> [] | Some c \<Rightarrow> c) st1))))"

section \<open>What a handler does to the other peers\<close>

lemma peer_of_flush_loop [simp]: "peer_of (flush_loop e peer b n batch s) k = peer_of s k"
proof (induction e peer b n batch s rule: flush_loop.induct)
  case (2 e peer acked_peer stream seq channel payload rest s)
  obtain r s1 where send: "send_to_peer e peer
      (if acked_peer then ChannelSeq stream seq channel payload else Channel channel payload) s = (r, s1)"
    by (metis prod.exhaust)
  then have s1: "peer_of s1 k = peer_of s k" by (metis peer_of_primitives(1) snd_conv)
  have "peer_of (resolve_sent peer seq ob s1) k = peer_of s1 k" for ob
    by (simp add: resolve_sent_def Let_def split: option.split)
  with s1 send "2.IH" show ?case by (auto simp: Let_def split: sum.split option.split)
qed simp

lemma peer_of_gossip [simp]:
  "peer_of (flush_peer e d s) k = peer_of s k" "peer_of (broadcast_state e s) k = peer_of s k"
  "peer_of (broadcast_roster_summary e s) k = peer_of s k"
  "peer_of (snd (approve_roster e d l s)) k = peer_of s k"
  "peer_of (snd (deny_if_evicted e d s)) k = peer_of s k"
  by (simp_all add: flush_peer_def broadcast_state_def broadcast_roster_summary_def approve_roster_def
      deny_if_evicted_def Let_def split: option.split)

section \<open>Admission is bilateral\<close>

text \<open>
  A peer on a live link (ACTIVE, or shelved by the topology) has proved its identity, has had our
  approval sent to it, and has sent us its own.
\<close>

definition bilateral :: "peer_data \<Rightarrow> bool" where
  "bilateral d \<longleftrightarrow> (pd_status d = Active \<or> pd_status d = Shelved) \<longrightarrow>
     pd_authenticated d \<and> pd_local_approve_sent d \<and> pd_remote_approve_seen d"

definition admission_inv :: "engine \<Rightarrow> bool" where
  "admission_inv st \<longleftrightarrow> (\<forall>d p. peer_of st d = Some p \<longrightarrow> bilateral p)"

lemma admission_invI: "(\<And>d p. peer_of st d = Some p \<Longrightarrow> bilateral p) \<Longrightarrow> admission_inv st"
  by (simp add: admission_inv_def)

lemma admission_inv_cong: "(\<And>k. peer_of st' k = peer_of st k) \<Longrightarrow> admission_inv st \<Longrightarrow> admission_inv st'"
  by (simp add: admission_inv_def)

lemma admission_inv_update:
  assumes "admission_inv st" "\<And>p. peer_of st d = Some p \<Longrightarrow> bilateral p \<Longrightarrow> bilateral (f p)"
  shows "admission_inv (update_peer d f st)"
  using assms by (auto simp: admission_inv_def split: if_splits)

lemma bilateral_shelve: "bilateral p \<Longrightarrow> bilateral (shelve_data b p)"
  by (auto simp: bilateral_def shelve_data_def Let_def)

lemma admission_inv_reevaluate: "admission_inv st \<Longrightarrow> admission_inv (reevaluate_topology e st)"
  by (auto simp: admission_inv_def reevaluate_peer intro: bilateral_shelve split: if_splits)

lemma admission_inv_drop:
  assumes "admission_inv st" shows "admission_inv (drop_peer e d r st)"
proof (rule drop_peer_cases [of e d r st])
  fix s assume s: "drop_peer e d r st = reevaluate_topology e s"
    "\<And>k. peer_of s k = (if k = d then None else peer_of st k)"
  have "admission_inv s" using assms s(2) by (auto simp: admission_inv_def split: if_splits)
  then show ?thesis unfolding s(1) by (rule admission_inv_reevaluate)
qed (use assms in simp)

lemma admission_inv_settle: "admission_inv st \<Longrightarrow> admission_inv (settle_activation e d st)"
proof -
  assume inv: "admission_inv st"
  show ?thesis
  proof (cases "peer_of st d")
    case (Some p)
    show ?thesis
    proof (cases "(pd_authenticated p \<and> pd_local_approve_sent p \<and> pd_remote_approve_seen p) \<and> pd_status p \<noteq> Active")
      case True
      let ?s2 = "snd (approve_roster e d (pd_label p) (update_peer d activate st))"
      have "admission_inv (update_peer d activate st)"
        using inv True Some by (intro admission_inv_update) (auto simp: bilateral_def activate_def)
      then have "admission_inv (recompute (emit (EvApproved d (pd_label p)) ?s2))"
        by (rule admission_inv_cong [rotated]) simp
      then have "admission_inv (reevaluate_topology e (recompute (emit (EvApproved d (pd_label p)) ?s2)))"
        by (rule admission_inv_reevaluate)
      then show ?thesis
        unfolding settle_activation_def using Some True
        by (auto simp: Let_def intro: admission_inv_cong [rotated])
    qed (use inv Some in \<open>auto simp: settle_activation_def Let_def\<close>)
  qed (use inv in \<open>simp add: settle_activation_def\<close>)
qed

lemma admission_inv_approve: "admission_inv st \<Longrightarrow> admission_inv (on_approve e d st)"
  unfolding on_approve_def
  by (intro admission_inv_settle admission_inv_update) (auto simp: bilateral_def)

lemma admission_inv_send_approve:
  assumes "admission_inv st" shows "admission_inv (send_local_approve e d st)"
proof (cases "peer_of st d")
  case (Some p)
  show ?thesis
  proof (cases "pd_local_approve_sent p")
    case False
    let ?s1 = "update_peer d (\<lambda>d. d\<lparr>pd_local_approve_sent := True\<rparr>) st"
    obtain r s2 where send: "send_to_peer e d Approve ?s1 = (r, s2)" by (metis prod.exhaust)
    then have s2: "peer_of s2 k = peer_of ?s1 k" for k by (metis peer_of_primitives(1) snd_conv)
    have inv1: "admission_inv ?s1" using assms by (intro admission_inv_update) (auto simp: bilateral_def)
    then have inv2: "admission_inv s2" by (rule admission_inv_cong [rotated]) (rule s2)
    have "\<not> (pd_status p = Active \<or> pd_status p = Shelved)"
      using assms Some False by (auto simp: admission_inv_def bilateral_def)
    then have "admission_inv (update_peer d (\<lambda>d. d\<lparr>pd_local_approve_sent := False\<rparr>) s2)"
      using inv2 s2 Some by (intro admission_inv_update) (auto simp: bilateral_def)
    with inv2 Some False send show ?thesis
      by (auto simp: send_local_approve_def Let_def intro: admission_inv_settle split: sum.split)
  qed (use assms Some in \<open>simp add: send_local_approve_def\<close>)
qed (use assms in \<open>simp add: send_local_approve_def\<close>)

lemma admission_inv_admit: "admission_inv st \<Longrightarrow> admission_inv (admit_authenticated e d l c st)"
proof -
  assume "admission_inv st"
  then have "admission_inv (update_peer d (\<lambda>d. d\<lparr>pd_authenticated := True, pd_status := PendingApproval\<rparr>) st)"
    by (rule admission_inv_update) (simp add: bilateral_def)
  then show ?thesis
    unfolding admit_authenticated_def Let_def
    by (auto intro!: admission_inv_send_approve intro: admission_inv_cong [rotated])
qed

lemma admission_inv_auth:
  assumes "admission_inv st" shows "admission_inv (on_auth_response e d sig st)"
proof -
  have "admission_inv (snd (deny_if_evicted e d st))"
    using assms by (rule admission_inv_cong [rotated]) simp
  then have "admission_inv (let (denied, st1) = deny_if_evicted e d st
      in if denied then st1 else admit_authenticated e d l c st1)" for l c
    by (auto simp: case_prod_beta Let_def intro: admission_inv_admit)
  with assms show ?thesis
    by (auto simp: on_auth_response_def intro: admission_inv_drop split: option.split)
qed

lemma admission_inv_initiate: "admission_inv st \<Longrightarrow> admission_inv (initiate e n c caps v d st)"
proof -
  assume inv: "admission_inv st"
  have "admission_inv (update_peer d (\<lambda>x. x\<lparr>pd_status := Handshaking, pd_nonce_sent := Some n,
      pd_code_sent := Some c, pd_handshake_started_at := Some (en_instant e), pd_hello_attempt := 1\<rparr>) st)"
    using inv by (rule admission_inv_update) (simp add: bilateral_def)
  then show ?thesis by (auto simp: initiate_def Let_def intro: admission_inv_cong [rotated])
qed

lemma admission_inv_hello: "admission_inv st \<Longrightarrow> admission_inv (on_hello e d h st)"
proof -
  assume inv: "admission_inv st"
  let ?f = "\<lambda>p. let d1 = p\<lparr>pd_nonce_received := Some (he_nonce h), pd_code_received := Some (he_verification_code h),
      pd_label := he_label h, pd_features := he_features h\<rparr>
      in case he_capabilities h of None \<Rightarrow> d1 | Some caps \<Rightarrow> d1\<lparr>pd_capabilities := Some caps\<rparr>"
  have "admission_inv (update_peer d ?f st)"
    using inv by (rule admission_inv_update) (simp add: bilateral_def Let_def split: option.split)
  then show ?thesis
    using inv
    by (auto simp: on_hello_def Let_def intro: admission_inv_drop admission_inv_cong [rotated] split: option.split)
qed

lemma admission_inv_tasks:
  assumes "admission_inv st"
  shows "admission_inv (snd (hello_retry e d m st))" "admission_inv (watchdog_fires e d st)"
proof -
  have "admission_inv (snd (send_to_peer e d m st))" using assms by (rule admission_inv_cong [rotated]) simp
  then have "admission_inv (update_peer d (\<lambda>d. d\<lparr>pd_hello_attempt := saturating_inc_u32 (pd_hello_attempt d)\<rparr>)
      (snd (send_to_peer e d m st)))"
    by (rule admission_inv_update) (simp add: bilateral_def)
  with assms show "admission_inv (snd (hello_retry e d m st))" by (auto simp: hello_retry_def split: option.split)
  show "admission_inv (watchdog_fires e d st)"
    using assms by (auto simp: watchdog_fires_def intro: admission_inv_drop split: option.split)
qed

text \<open>The handshake events of one engine, each in an environment of its own.\<close>

inductive handshake_step :: "engine \<Rightarrow> engine \<Rightarrow> bool" where
  sighted: "handshake_step st (note_sighted_without_dialing d st)"
| opened: "handshake_step st (initiate e nonce code caps ver d st)"
| retried: "handshake_step st (snd (hello_retry e d m st))"
| watchdog: "handshake_step st (watchdog_fires e d st)"
| hello: "handshake_step st (on_hello e d h st)"
| auth: "handshake_step st (on_auth_response e d sig st)"
| approved: "handshake_step st (on_approve e d st)"
| local_approve: "handshake_step st (send_local_approve e d st)"
| topology: "handshake_step st (reevaluate_topology e st)"
| dropped: "handshake_step st (drop_peer e d r st)"

inductive_cases handshake_stepE: "handshake_step st st'"

lemma admission_inv_sighted: "admission_inv st \<Longrightarrow> admission_inv (note_sighted_without_dialing d st)"
  by (auto simp: note_sighted_without_dialing_def Let_def admission_inv_def bilateral_def default_peer_data_def
      peer_of_def [of st] split: if_splits)

lemma admission_inv_step: "handshake_step st st' \<Longrightarrow> admission_inv st \<Longrightarrow> admission_inv st'"
  by (erule handshake_stepE)
    (simp_all add: admission_inv_sighted admission_inv_initiate admission_inv_tasks admission_inv_hello
       admission_inv_auth admission_inv_approve admission_inv_send_approve admission_inv_reevaluate admission_inv_drop)

section \<open>Authentication\<close>

text \<open>Whose flag a handler may raise: none but \<open>admit_authenticated\<close> raises one, and its own peer's only.\<close>

lemma settle_authenticated:
  "map_option pd_authenticated (peer_of (settle_activation e d st) k) = map_option pd_authenticated (peer_of st k)"
proof (cases "peer_of st d")
  case (Some p)
  have "map_option pd_authenticated (peer_of (reevaluate_topology e s) k) = map_option pd_authenticated (peer_of s k)" for s
    by (simp add: reevaluate_peer option.map_comp comp_def)
  with Some show ?thesis by (auto simp: settle_activation_def Let_def activate_def)
qed (simp add: settle_activation_def)

lemma send_approve_authenticated:
  "map_option pd_authenticated (peer_of (send_local_approve e d st) k) = map_option pd_authenticated (peer_of st k)"
proof (cases "peer_of st d")
  case (Some p)
  let ?s1 = "update_peer d (\<lambda>d. d\<lparr>pd_local_approve_sent := True\<rparr>) st"
  obtain r s2 where send: "send_to_peer e d Approve ?s1 = (r, s2)" by (metis prod.exhaust)
  then have s2: "peer_of s2 k = peer_of ?s1 k" for k by (metis peer_of_primitives(1) snd_conv)
  with Some send show ?thesis
    by (auto simp: send_local_approve_def Let_def settle_authenticated option.map_comp comp_def split: sum.split)
qed (simp add: send_local_approve_def)

lemma drop_authenticated:
  assumes "peer_of (drop_peer e d r st) k = Some p'"
  shows "\<exists>p. peer_of st k = Some p \<and> pd_authenticated p' = pd_authenticated p"
proof (rule drop_peer_cases [of e d r st])
  assume "drop_peer e d r st = st"
  with assms show ?thesis by simp
next
  fix s assume "drop_peer e d r st = reevaluate_topology e s" and s: "\<And>k. peer_of s k = (if k = d then None else peer_of st k)"
  with assms have "peer_of (reevaluate_topology e s) k = Some p'" by simp
  then obtain p where "peer_of s k = Some p" "pd_authenticated p' = pd_authenticated p"
    by (auto simp: reevaluate_peer split: if_splits)
  with s show ?thesis by (auto split: if_splits)
qed

lemma auth_response_sound:
  assumes p: "peer_of st k = Some p" "\<not> pd_authenticated p"
    and p': "peer_of (on_auth_response e d sig st) k = Some p'" "pd_authenticated p'"
  shows "k = d \<and> \<not> log_evicted e st d \<and> (\<exists>nonce ses fp. pd_nonce_sent p = Some nonce \<and> session_of st d = Some ses \<and>
     remote_fingerprint ses = Some fp \<and> verify (en_crypto e) d (auth_payload st d nonce fp) sig = Inr True)"
proof -
  have drop: "\<not> (peer_of (drop_peer e d r st) k = Some p')" for r
    using drop_authenticated [of e d r st k p'] p p'(2) by auto
  have st: "peer_of st k \<noteq> Some p'" using p p'(2) by auto
  from p'(1) drop st obtain q nonce ses fp where q: "peer_of st d = Some q" "pd_nonce_sent q = Some nonce"
    "session_of st d = Some ses" "remote_fingerprint ses = Some fp"
    and ok: "unwrap_or False (verify (en_crypto e) d (auth_payload st d nonce fp) sig)"
    by (auto simp: on_auth_response_def Let_def split: option.splits if_splits)
  have ver: "verify (en_crypto e) d (auth_payload st d nonce fp) sig = Inr True"
    using ok by (cases "verify (en_crypto e) d (auth_payload st d nonce fp) sig") auto
  have res: "on_auth_response e d sig st = (let (denied, st1) = deny_if_evicted e d st
      in if denied then st1 else admit_authenticated e d (pd_label q) (case pd_code_received q of None \<Rightarrow> [] | Some c \<Rightarrow> c) st1)"
    using q ok by (simp add: on_auth_response_def)
  have ev: "\<not> log_evicted e st d"
  proof
    assume "log_evicted e st d"
    then have "peer_of (on_auth_response e d sig st) k = peer_of st k"
      unfolding res by (simp add: deny_if_evicted_def Let_def)
    with p'(1) st show False by simp
  qed
  let ?up = "update_peer d (\<lambda>d. d\<lparr>pd_authenticated := True, pd_status := PendingApproval\<rparr>) st"
  have "map_option pd_authenticated (peer_of (on_auth_response e d sig st) k) = map_option pd_authenticated (peer_of ?up k)"
    unfolding res using ev
    by (simp add: deny_if_evicted_def admit_authenticated_def Let_def send_approve_authenticated)
  with p p' have "k = d" by (auto split: if_splits)
  with p q ver ev show ?thesis by auto
qed

text \<open>
  A second copy of a valid response takes an ACTIVE peer back to pending approval. Our approval is
  recorded as sent, so no frame goes out that would bring it back.
\<close>

lemma auth_response_demotes:
  assumes "peer_of st d = Some p" "pd_local_approve_sent p" "pd_nonce_sent p = Some nonce"
    and "session_of st d = Some ses" "remote_fingerprint ses = Some fp"
    and "verify (en_crypto e) d (auth_payload st d nonce fp) sig = Inr True" "\<not> log_evicted e st d"
  shows "peer_of (on_auth_response e d sig st) d = Some (p\<lparr>pd_authenticated := True, pd_status := PendingApproval\<rparr>)"
    and "fx_wire (es_fx (on_auth_response e d sig st)) = fx_wire (es_fx st)"
proof -
  let ?up = "update_peer d (\<lambda>d. d\<lparr>pd_authenticated := True, pd_status := PendingApproval\<rparr>) st"
  have res: "on_auth_response e d sig st =
      emit (EvAuthenticated d (pd_label p) (case pd_code_received p of None \<Rightarrow> [] | Some c \<Rightarrow> c) (is_rostered ?up d)) ?up"
    using assms by (simp add: on_auth_response_def deny_if_evicted_def admit_authenticated_def Let_def send_local_approve_def)
  show "peer_of (on_auth_response e d sig st) d = Some (p\<lparr>pd_authenticated := True, pd_status := PendingApproval\<rparr>)"
    unfolding res using assms(1) by simp
  show "fx_wire (es_fx (on_auth_response e d sig st)) = fx_wire (es_fx st)"
    unfolding res by (simp add: emit_def update_peer_def split: option.split)
qed

section \<open>Properties\<close>

text \<open>
  C11: A peer becomes authenticated only by a response that verifies, under the peer's own key, over the nonce
  we sent on this session, both device ids and the fingerprint of the channel it arrived on, and only if
  the signed logs do not evict it.
\<close>

theorem authentication_is_bound:
  assumes "peer_of st k = Some p" "\<not> pd_authenticated p"
    and "peer_of (on_auth_response e d sig st) k = Some p'" "pd_authenticated p'"
  shows "k = d \<and> \<not> log_evicted e st d \<and>
     (\<exists>nonce ses fp. pd_nonce_sent p = Some nonce \<and> session_of st d = Some ses \<and> remote_fingerprint ses = Some fp \<and>
        verify (en_crypto e) d (handshake_payload nonce (pubkey_part d) (self_id st) fp) sig = Inr True)"
  using auth_response_sound [OF assms] by (simp add: auth_payload_def)

definition waiting_peer :: peer_data where
  "waiting_peer = default_peer_data\<lparr>pd_status := Handshaking, pd_nonce_sent := Some ''n1''\<rparr>"

theorem authentication_is_bound_witness:
  "\<not> log_evicted sample_env (sample_engine [(''b'', waiting_peer)]) ''b''"
proof -
  let ?st = "sample_engine [(''b'', waiting_peer)]"
  have p: "peer_of ?st ''b'' = Some waiting_peer" "\<not> pd_authenticated waiting_peer"
    and q: "case peer_of (on_auth_response sample_env ''b'' ''bb'' ?st) ''b'' of Some p' \<Rightarrow> pd_authenticated p' | None \<Rightarrow> False"
    by code_simp+
  from q obtain p' where "peer_of (on_auth_response sample_env ''b'' ''bb'' ?st) ''b'' = Some p'" "pd_authenticated p'"
    by (auto split: option.splits)
  from authentication_is_bound [OF p this] show ?thesis by blast
qed

end
