(* ===== verification/Governance.thy ===== *)
theory Governance
  imports Handshake
begin

text \<open>
  The proposal lifecycle and the log exchange of \<open>engine/governance.rs\<close>: propose, sign, deny, withdraw,
  split, ratification, and the adoption of a peer's two signed logs. A handler with an early return is
  written with its result; one the dispatcher ignores returns the state only. \<open>custody::require\<close> is
  \<open>en_custody\<close>; a fresh proposal id is an argument.
\<close>

section \<open>Ratification\<close>

definition candidate_of :: "proposal \<Rightarrow> transition" where
  "candidate_of p =
     (let (signers, signatures) = canonicalize_signers (pr_proposer p) (pr_signers p) (pr_signatures p)
      in \<lparr>tr_at = pr_created_at p, tr_variant = pr_variant p, tr_signers = signers, tr_signatures = signatures\<rparr>)"

definition ratify_member_tier :: "network_state \<Rightarrow> variant \<Rightarrow> bool" where
  "ratify_member_tier gov v =
     (case v of
        RoleGrant _ Member \<Rightarrow> True
      | RoleRevoke target \<Rightarrow> role_of gov target = Member
      | Evict target \<Rightarrow> role_of gov target = Member
      | _ \<Rightarrow> False)"

definition is_evict :: "variant \<Rightarrow> bool" where
  "is_evict v = (case v of Evict _ \<Rightarrow> True | _ \<Rightarrow> False)"

definition push_member_entry :: "env \<Rightarrow> string \<Rightarrow> transition \<Rightarrow> network_state \<Rightarrow> network_state" where
  "push_member_entry e network_id t gov =
     (let log = ns_member_log gov @ [t]
      in gov\<lparr>ns_member_log := log,
             ns_roles := project_roles (en_crypto e) (en_key e) network_id (ns_transitions gov) log\<rparr>)"

definition fold_ratified :: "env \<Rightarrow> string \<Rightarrow> transition \<Rightarrow> network_state \<Rightarrow> network_state" where
  "fold_ratified e network_id t gov =
     (if ratify_member_tier gov (tr_variant t) then push_member_entry e network_id t gov
      else let after = apply_transition gov t
           in if is_evict (tr_variant t) then push_member_entry e network_id t after else after)"

text \<open>The roster, session and topology consequences of a ratified transition.\<close>

definition mirror_ratified :: "env \<Rightarrow> transition \<Rightarrow> engine \<Rightarrow> unit result \<times> engine" where
  "mirror_ratified e t st =
     (case tr_variant t of
        RoleGrant target role \<Rightarrow>
          let roster1 = (if \<not> is_authorized (es_roster st) target
                         then add_peer_in (en_now e) (es_roster st) target [] else es_roster st)
          in save_roster e (st\<lparr>es_roster := fst (set_role_in roster1 target role)\<rparr>)
      | RoleRevoke target \<Rightarrow>
          let (roster1, changed) = set_role_in (es_roster st) target Member
          in if changed then save_roster e (st\<lparr>es_roster := roster1\<rparr>) else (Inr (), st)
      | KindChange Closed \<Rightarrow>
          let self = self_id st;
              roster1 = (if \<not> is_authorized (es_roster st) self
                         then add_peer_in (en_now e) (es_roster st) self (id_label (es_identity st)) else es_roster st)
          in save_roster e (st\<lparr>es_roster := fst (set_role_in roster1 self Owner)\<rparr>)
      | Evict target \<Rightarrow>
          if is_authorized (es_roster st) target
          then (case save_roster e (st\<lparr>es_roster := remove_peer_in (es_roster st) target\<rparr>) of
                  (Inl err, st1) \<Rightarrow> (Inl err, st1)
                | (Inr _, st1) \<Rightarrow> (Inr (), queue_cmd (CmdDropPeer target Denied) st1))
          else (Inr (), st)
      | TopologyChange to \<Rightarrow>
          (Inr (), reevaluate_topology e (st\<lparr>es_topology := to, es_topology_impl := from_mode to\<rparr>))
      | _ \<Rightarrow> (Inr (), st))"

definition with_gov :: "network_state \<Rightarrow> engine \<Rightarrow> engine" where
  "with_gov gov st = st\<lparr>es_gov := gov\<rparr>"

text \<open>Whether a pending proposal passes the signature and quorum checks of \<open>try_ratify\<close>.\<close>

definition ratifiable :: "env \<Rightarrow> engine \<Rightarrow> proposal \<Rightarrow> bool" where
  "ratifiable e st p \<longleftrightarrow>
     is_ok (verify_transition_signatures (en_crypto e) (es_network_id st) (candidate_of p)) \<and>
     is_ok (verify_quorum (es_gov st) (candidate_of p))"

definition try_ratify :: "env \<Rightarrow> string \<Rightarrow> engine \<Rightarrow> unit result \<times> engine" where
  "try_ratify e proposal_id st =
     (let gov = es_gov st in
      case position (\<lambda>p. pr_id p = proposal_id) (ns_pending gov) of
        None \<Rightarrow> (Inr (), st)
      | Some idx \<Rightarrow>
        let p = ns_pending gov ! idx in
        if pr_deniers p \<noteq> []
        then save_gov e (with_gov (gov\<lparr>ns_pending := remove_at idx (ns_pending gov)\<rparr>) st)
        else if \<not> ratifiable e st p then (Inr (), st)
        else
          let t = candidate_of p;
              gov1 = fold_ratified e (es_network_id st) t gov;
              gov2 = gov1\<lparr>ns_pending := filter (\<lambda>p. pr_id p \<noteq> proposal_id) (ns_pending gov1)\<rparr>
          in case save_gov e (with_gov gov2 st) of
               (Inl err, st1) \<Rightarrow> (Inl err, st1)
             | (Inr _, st1) \<Rightarrow>
                 (case mirror_ratified e t st1 of
                    (Inl err, st2) \<Rightarrow> (Inl err, st2)
                  | (Inr _, st2) \<Rightarrow>
                      (Inr (), broadcast_state e (broadcast_roster_summary e (refresh_self_evicted e st2)))))"

section \<open>Local proposals\<close>

definition propose :: "env \<Rightarrow> string \<Rightarrow> variant \<Rightarrow> string option \<Rightarrow> engine \<Rightarrow> string result \<times> engine" where
  "propose e fresh_id v mfa_code st =
     (if (case v of RoleGrant target role \<Rightarrow> fmlookup (ns_roles (es_gov st)) target = Some role | _ \<Rightarrow> False)
      then (Inr [], st)
      else case en_custody e (es_network_id st) mfa_code of
        Inl err \<Rightarrow> (Inl err, st)
      | Inr _ \<Rightarrow>
        let self_pubkey = self_id st;
            signature = sign_transition (en_crypto e) (es_network_id st) v (id_signing_key (es_identity st));
            p = \<lparr>pr_id = fresh_id, pr_created_at = member_tier_timestamp (en_now e) (es_gov st) v,
                 pr_proposer = self_pubkey, pr_variant = v, pr_signers = [self_pubkey],
                 pr_signatures = [signature], pr_deniers = [], pr_split_spawned = False\<rparr>;
            gov = es_gov st
        in case save_gov e (with_gov (gov\<lparr>ns_pending := ns_pending gov @ [p]\<rparr>) st) of
             (Inl err, st1) \<Rightarrow> (Inl err, st1)
           | (Inr _, st1) \<Rightarrow>
               let msg = NetworkStatePropose \<lparr>pm_proposal_id = fresh_id, pm_variant = v, pm_proposer = self_pubkey,
                     pm_created_at = en_now e, pm_signature = signature\<rparr>;
                   st2 = broadcast_state e (broadcast e msg st1)
               in (Inr fresh_id, snd (try_ratify e fresh_id st2)))"

definition sign_proposal :: "env \<Rightarrow> string \<Rightarrow> string option \<Rightarrow> engine \<Rightarrow> unit result \<times> engine" where
  "sign_proposal e proposal_id mfa_code st =
     (let self_pubkey = self_id st; gov = es_gov st in
      case position (\<lambda>p. pr_id p = proposal_id) (ns_pending gov) of
        None \<Rightarrow> (Inl (EOther (ProposalNotFound proposal_id)), st)
      | Some idx \<Rightarrow>
        let p = ns_pending gov ! idx in
        if pr_deniers p \<noteq> [] then (Inl (EOther ProposalDenied), st)
        else if self_pubkey \<in> set (pr_signers p) then (Inl (EOther AlreadySigned), st)
        else case en_custody e (es_network_id st) mfa_code of
          Inl err \<Rightarrow> (Inl err, st)
        | Inr _ \<Rightarrow>
          let signature = sign_transition (en_crypto e) (es_network_id st) (pr_variant p) (id_signing_key (es_identity st));
              p1 = p\<lparr>pr_signers := pr_signers p @ [self_pubkey], pr_signatures := pr_signatures p @ [signature]\<rparr>
          in case save_gov e (with_gov (gov\<lparr>ns_pending := (ns_pending gov)[idx := p1]\<rparr>) st) of
               (Inl err, st1) \<Rightarrow> (Inl err, st1)
             | (Inr _, st1) \<Rightarrow>
                 let msg = NetworkStateAck \<lparr>am_proposal_id = proposal_id, am_signer = self_pubkey,
                       am_decision = AckSign, am_at = en_now e, am_signature = signature\<rparr>
                 in (Inr (), snd (try_ratify e proposal_id (broadcast e msg st1))))"

definition deny_payload :: "string \<Rightarrow> string \<Rightarrow> string \<Rightarrow> bytes" where
  "deny_payload network_id proposal_id signer =
     SIGN_DOMAIN_TAG_STATE @ ''deny|'' @ network_id @ ''|'' @ proposal_id @ ''|'' @ signer"

definition deny_proposal :: "env \<Rightarrow> string \<Rightarrow> engine \<Rightarrow> unit result \<times> engine" where
  "deny_proposal e proposal_id st =
     (let self_pubkey = self_id st; gov = es_gov st in
      case position (\<lambda>p. pr_id p = proposal_id) (ns_pending gov) of
        None \<Rightarrow> (Inl (EOther (ProposalNotFound proposal_id)), st)
      | Some idx \<Rightarrow>
        let p = ns_pending gov ! idx in
        if self_pubkey \<in> set (pr_deniers p) then (Inl (EOther AlreadyDenied), st)
        else
          let sig = sign_with (en_crypto e) (id_signing_key (es_identity st))
                      (deny_payload (es_network_id st) proposal_id self_pubkey);
              p1 = p\<lparr>pr_deniers := pr_deniers p @ [self_pubkey]\<rparr>
          in case save_gov e (with_gov (gov\<lparr>ns_pending := (ns_pending gov)[idx := p1]\<rparr>) st) of
               (Inl err, st1) \<Rightarrow> (Inl err, st1)
             | (Inr _, st1) \<Rightarrow>
                 let msg = NetworkStateAck \<lparr>am_proposal_id = proposal_id, am_signer = self_pubkey,
                       am_decision = AckDeny, am_at = en_now e, am_signature = sig\<rparr>
                 in (Inr (), broadcast_state e (snd (try_ratify e proposal_id (broadcast e msg st1)))))"

definition withdraw_proposal :: "env \<Rightarrow> string \<Rightarrow> engine \<Rightarrow> unit result \<times> engine" where
  "withdraw_proposal e proposal_id st =
     (let gov = es_gov st in
      case position (\<lambda>p. pr_id p = proposal_id) (ns_pending gov) of
        None \<Rightarrow> (Inl (EOther (ProposalNotFound proposal_id)), st)
      | Some idx \<Rightarrow>
        if pr_proposer (ns_pending gov ! idx) \<noteq> self_id st then (Inl (EOther OnlyProposerWithdraws), st)
        else case save_gov e (with_gov (gov\<lparr>ns_pending := remove_at idx (ns_pending gov)\<rparr>) st) of
               (Inl err, st1) \<Rightarrow> (Inl err, st1)
             | (Inr _, st1) \<Rightarrow> (Inr (), broadcast_state e st1))"

definition spawn_split :: "env \<Rightarrow> string \<Rightarrow> engine \<Rightarrow> string result \<times> engine" where
  "spawn_split e proposal_id st =
     (let self_pubkey = self_id st; gov = es_gov st in
      case position (\<lambda>p. pr_id p = proposal_id) (ns_pending gov) of
        None \<Rightarrow> (Inl (EOther (ProposalNotFound proposal_id)), st)
      | Some idx \<Rightarrow>
        let p = ns_pending gov ! idx in
        if pr_proposer p \<noteq> self_pubkey then (Inl (EOther OnlyProposerSplits), st)
        else if pr_split_spawned p then (Inl (EOther SplitAlreadySpawned), st)
        else if pr_variant p \<noteq> KindChange Closed then (Inl (EOther SplitOnlyForClose), st)
        else
          let signers = pr_signers p;
              new_network_id = derive_split_network_id (en_crypto e) (es_network_id st) signers;
              split_variant = Split new_network_id signers;
              sig = sign_transition (en_crypto e) (es_network_id st) split_variant (id_signing_key (es_identity st));
              t = \<lparr>tr_at = en_now e, tr_variant = split_variant, tr_signers = [self_pubkey], tr_signatures = [sig]\<rparr>;
              after = apply_transition gov t;
              gov1 = after\<lparr>ns_pending := (ns_pending after)[idx := (ns_pending after ! idx)\<lparr>pr_split_spawned := True\<rparr>]\<rparr>
          in case save_gov e (with_gov gov1 st) of
               (Inl err, st1) \<Rightarrow> (Inl err, st1)
             | (Inr _, st1) \<Rightarrow>
                 let msg = NetworkStateSplit \<lparr>sm_parent_proposal_id = proposal_id, sm_new_network_id = new_network_id,
                       sm_members = signers, sm_proposer = self_pubkey, sm_at = en_now e, sm_signature = sig\<rparr>
                 in (Inr new_network_id, broadcast_state e (broadcast e msg st1)))"

section \<open>Inbound proposal frames\<close>

definition verified_by :: "env \<Rightarrow> string \<Rightarrow> bytes \<Rightarrow> string \<Rightarrow> bool" where
  "verified_by e signer payload signature = unwrap_or False (verify (en_crypto e) signer payload signature)"

definition on_propose :: "env \<Rightarrow> string \<Rightarrow> propose_message \<Rightarrow> engine \<Rightarrow> engine" where
  "on_propose e peer_id msg st =
     (if pm_proposer msg \<noteq> pk peer_id then st
      else if \<not> verified_by e (pm_proposer msg) (transition_payload (es_network_id st) (pm_variant msg)) (pm_signature msg)
      then st
      else
        let gov = es_gov st;
            known = list_ex (\<lambda>p. pr_id p = pm_proposal_id msg) (ns_pending gov);
            p = \<lparr>pr_id = pm_proposal_id msg, pr_created_at = pm_created_at msg, pr_proposer = pm_proposer msg,
                 pr_variant = pm_variant msg, pr_signers = [pm_proposer msg], pr_signatures = [pm_signature msg],
                 pr_deniers = [], pr_split_spawned = False\<rparr>;
            st1 = (if known then st
                   else snd (save_gov e (with_gov (gov\<lparr>ns_pending := ns_pending gov @ [p]\<rparr>) st)))
        in snd (try_ratify e (pm_proposal_id msg) st1))"

definition fold_ack :: "ack_message \<Rightarrow> proposal \<Rightarrow> proposal" where
  "fold_ack msg p =
     (case am_decision msg of
        AckSign \<Rightarrow>
          if am_signer msg \<in> set (pr_signers p) then p
          else p\<lparr>pr_signers := pr_signers p @ [am_signer msg], pr_signatures := pr_signatures p @ [am_signature msg]\<rparr>
      | AckDeny \<Rightarrow>
          if am_signer msg \<in> set (pr_deniers p) then p
          else p\<lparr>pr_deniers := pr_deniers p @ [am_signer msg]\<rparr>)"

definition ack_payload :: "string \<Rightarrow> variant \<Rightarrow> ack_message \<Rightarrow> bytes" where
  "ack_payload network_id v msg =
     (case am_decision msg of
        AckSign \<Rightarrow> transition_payload network_id v
      | AckDeny \<Rightarrow> deny_payload network_id (am_proposal_id msg) (am_signer msg))"

definition on_ack :: "env \<Rightarrow> string \<Rightarrow> ack_message \<Rightarrow> engine \<Rightarrow> engine" where
  "on_ack e peer_id msg st =
     (if am_signer msg \<noteq> pk peer_id then st
      else
        let gov = es_gov st in
        case position (\<lambda>p. pr_id p = am_proposal_id msg) (ns_pending gov) of
          None \<Rightarrow> st
        | Some idx \<Rightarrow>
            let p = ns_pending gov ! idx in
            if \<not> verified_by e (am_signer msg) (ack_payload (es_network_id st) (pr_variant p) msg) (am_signature msg)
            then st
            else snd (try_ratify e (am_proposal_id msg)
                   (snd (save_gov e (with_gov (gov\<lparr>ns_pending := (ns_pending gov)[idx := fold_ack msg p]\<rparr>) st)))))"

definition on_split :: "env \<Rightarrow> string \<Rightarrow> split_message \<Rightarrow> engine \<Rightarrow> engine" where
  "on_split e peer_id msg st =
     (let split_variant = Split (sm_new_network_id msg) (sm_members msg); gov = es_gov st in
      if sm_proposer msg \<noteq> pk peer_id then st
      else if \<not> verified_by e (sm_proposer msg) (transition_payload (es_network_id st) split_variant) (sm_signature msg)
      then st
      else if list_ex (\<lambda>s. sr_new_network_id s = sm_new_network_id msg) (ns_splits gov) then st
      else
        let t = \<lparr>tr_at = sm_at msg, tr_variant = split_variant, tr_signers = [sm_proposer msg],
                 tr_signatures = [sm_signature msg]\<rparr>;
            after = apply_transition gov t;
            gov1 = after\<lparr>ns_pending := update_first (\<lambda>p. pr_id p = sm_parent_proposal_id msg)
                     (\<lambda>p. p\<lparr>pr_split_spawned := True\<rparr>) (ns_pending after)\<rparr>
        in snd (save_gov e (with_gov gov1 st)))"

section \<open>Log exchange\<close>

definition on_state_broadcast :: "env \<Rightarrow> string \<Rightarrow> state_broadcast \<Rightarrow> engine \<Rightarrow> engine" where
  "on_state_broadcast e peer_id msg st =
     (let gov = es_gov st;
          local_kind = ns_kind gov;
          local_count = (of_nat (length (ns_transitions gov)) :: u32);
          local_member_count = (of_nat (length (ns_member_log gov)) :: u32);
          drifted = (local_kind \<noteq> sb_kind msg \<or> local_count \<noteq> sb_transitions_count msg);
          stable_legacy = stable_open_silent_drift local_kind local_count (sb_kind msg) (sb_transitions_count msg);
          st1 = (if drifted \<and> stable_legacy
                 then st\<lparr>es_drifts := insert (peer_id, local_kind, sb_kind msg) (es_drifts st)\<rparr> else st);
          membership_differs = (membership_root (en_crypto e) (es_roster st) \<noteq> sb_roster_root msg)
      in if membership_differs \<or> local_count < sb_transitions_count msg \<or> local_member_count < sb_member_log_count msg
         then request_roster e peer_id st1 else st1)"

text \<open>Governance half of \<open>adopt_transition_log\<close>: the verified state a peer's longer log rebuilds.\<close>

definition extends_log :: "transition list \<Rightarrow> transition list \<Rightarrow> bool" where
  "extends_log incoming_log local_log \<longleftrightarrow> length local_log < length incoming_log \<and> shares_prefix incoming_log local_log"

definition adopt_governance :: "env \<Rightarrow> string \<Rightarrow> transition list \<Rightarrow> network_state \<Rightarrow> network_state \<times> bool \<times> topology_mode option" where
  "adopt_governance e network_id incoming_gov gov =
     (if extends_log incoming_gov (ns_transitions gov)
      then case verify_log (en_crypto e) network_id incoming_gov of
             Inl _ \<Rightarrow> (gov, False, None)
           | Inr rebuilt \<Rightarrow>
               if length (ns_transitions gov) < length (ns_transitions rebuilt)
               then (gov\<lparr>ns_kind := ns_kind rebuilt, ns_transitions := ns_transitions rebuilt,
                         ns_splits := ns_splits rebuilt, ns_topology := ns_topology rebuilt\<rparr>, True,
                     if ns_topology rebuilt \<noteq> ns_topology gov then ns_topology rebuilt else None)
               else (gov, False, None)
      else (gov, False, None))"

text \<open>Member half: the union merge.\<close>

definition adopt_members :: "env \<Rightarrow> transition list \<Rightarrow> network_state \<Rightarrow> network_state \<times> bool" where
  "adopt_members e incoming_members gov =
     (if incoming_members = [] then (gov, False)
      else let merged = merge_member_logs (en_key e) (ns_member_log gov) incoming_members
           in if length (ns_member_log gov) < length merged then (gov\<lparr>ns_member_log := merged\<rparr>, True)
              else (gov, False))"

text \<open>What follows the adoption: topology, roster mirror, approvals, denials, gossip.\<close>

definition follow_topology :: "env \<Rightarrow> topology_mode option \<Rightarrow> engine \<Rightarrow> engine" where
  "follow_topology e adopted st =
     (case adopted of
        None \<Rightarrow> st
      | Some mode \<Rightarrow> reevaluate_topology e (st\<lparr>es_topology := mode, es_topology_impl := from_mode mode\<rparr>))"

definition mirror_into_roster :: "env \<Rightarrow> (string, role) fmap \<Rightarrow> string set \<Rightarrow> engine \<Rightarrow> bool \<times> engine" where
  "mirror_into_roster e roles removed st =
     (let (roster, rp) = mirror_roles_to_roster (en_now e) roles (es_roster st) removed (self_id st);
          st1 = st\<lparr>es_roster := roster\<rparr>
      in (roster_changed rp, if roster_changed rp then snd (save_roster e st1) else st1))"

definition approve_projected :: "env \<Rightarrow> (string, role) fmap \<Rightarrow> engine \<Rightarrow> engine" where
  "approve_projected e roles st =
     fold (\<lambda>kv. send_local_approve e (fst kv)) (sorted_list_of_fmap roles) st"

definition deny_tombstoned :: "env \<Rightarrow> string set \<Rightarrow> engine \<Rightarrow> engine" where
  "deny_tombstoned e removed st =
     fold (\<lambda>d s. snd (deny_if_evicted e d s))
       (filter (matches_tombstone removed) (map fst (sorted_list_of_fmap (es_peers st)))) st"

definition settle_adoption ::
  "env \<Rightarrow> bool \<Rightarrow> (string, role) fmap \<Rightarrow> string set \<Rightarrow> topology_mode option \<Rightarrow> engine \<Rightarrow> engine" where
  "settle_adoption e changed roles removed adopted st =
     (let (repaired, st1) = mirror_into_roster e roles removed (follow_topology e adopted st);
          st2 = approve_projected e roles st1;
          st3 = (if changed \<or> repaired then deny_tombstoned e removed st2 else st2);
          st4 = refresh_self_evicted e st3;
          st5 = (if changed \<or> repaired then broadcast_roster_summary e st4 else st4)
      in if changed then broadcast_state e st5 else st5)"

definition adopt_transition_log :: "env \<Rightarrow> transition list \<Rightarrow> transition list \<Rightarrow> engine \<Rightarrow> engine" where
  "adopt_transition_log e incoming_gov incoming_members st =
     (let (gov1, gov_changed, adopted) = adopt_governance e (es_network_id st) incoming_gov (es_gov st);
          (gov2, members_changed) = adopt_members e incoming_members gov1;
          changed = (gov_changed \<or> members_changed)
      in case verified_projection (en_crypto e) (en_key e) (es_network_id st) gov2 of
           Inl _ \<Rightarrow> with_gov gov2 st
         | Inr (projected, removed) \<Rightarrow>
             let roles_changed = (ns_roles gov2 \<noteq> projected);
                 st1 = with_gov (gov2\<lparr>ns_roles := projected\<rparr>) st;
                 st2 = (if changed \<or> roles_changed then snd (save_gov e st1) else st1)
             in settle_adoption e changed projected removed adopted st2)"

definition merge_entry :: "env \<Rightarrow> string \<Rightarrow> roster_entry \<Rightarrow> roster \<times> nat \<Rightarrow> roster \<times> nat" where
  "merge_entry e self_pk entry = (\<lambda>(roster, added).
     let pubkey = pubkey_part (re_device_id entry) in
     if pubkey = self_pk then (roster, added)
     else if is_authorized roster pubkey then (roster, added)
     else let roster1 = add_peer_in (en_now e) roster pubkey (re_label entry);
              roster2 = (if re_role entry \<noteq> Member then fst (set_role_in roster1 pubkey (re_role entry)) else roster1)
          in (roster2, added + 1))"

definition on_roster_entries ::
  "env \<Rightarrow> roster_entry list \<Rightarrow> transition list \<Rightarrow> transition list \<Rightarrow> engine \<Rightarrow> engine" where
  "on_roster_entries e entries transitions member_log st =
     (let st1 = (if is_open_governance (ns_kind (es_gov st))
                 then let (roster, added) = fold (merge_entry e (self_id st)) entries (es_roster st, 0)
                      in if 0 < added then broadcast_roster_summary e (snd (save_roster e (st\<lparr>es_roster := roster\<rparr>)))
                         else st\<lparr>es_roster := roster\<rparr>
                 else st)
      in adopt_transition_log e transitions member_log st1)"

definition adopt_deny_proof :: "env \<Rightarrow> transition list \<Rightarrow> transition list \<Rightarrow> engine \<Rightarrow> engine" where
  "adopt_deny_proof e transitions member_log st =
     refresh_self_evicted e (adopt_transition_log e transitions member_log st)"

definition on_deny :: "env \<Rightarrow> string \<Rightarrow> transition list \<Rightarrow> transition list \<Rightarrow> engine \<Rightarrow> engine" where
  "on_deny e device_id transitions member_log st =
     drop_peer e device_id Denied
       (if transitions \<noteq> [] \<or> member_log \<noteq> [] then adopt_deny_proof e transitions member_log st else st)"

end
