(* ===== verification/Gov_Safety.thy ===== *)
theory Gov_Safety
  imports Governance
begin

text \<open>
  What the governance handlers keep true of the live state: its log replays from genesis to the
  kind, topology, splits and governing roles the engine acts on.
\<close>

section \<open>The replayed state and the live one\<close>

definition governs :: "network_state \<Rightarrow> string \<Rightarrow> role option" where
  "governs st p = (case fmlookup (ns_roles st) p of Some r \<Rightarrow> (if r = Member then None else Some r) | None \<Rightarrow> None)"

text \<open>A locally configured \<open>Silent\<close> network replays as \<open>Open\<close>: the kind is not on the log.\<close>

definition replay_kind :: "network_kind \<Rightarrow> network_kind" where
  "replay_kind k = (if k = Silent then Open else k)"

definition replays :: "network_state \<Rightarrow> network_state \<Rightarrow> bool" where
  "replays g gov \<longleftrightarrow> ns_kind g = replay_kind (ns_kind gov) \<and> ns_topology g = ns_topology gov \<and>
     ns_splits g = ns_splits gov \<and> governs g = governs gov"

definition gov_sound :: "crypto \<Rightarrow> string \<Rightarrow> network_state \<Rightarrow> bool" where
  "gov_sound c n gov \<longleftrightarrow> (\<exists>g. log_reaches c n (ns_transitions gov) g \<and> replays g gov)"

lemma governs_simps:
  "in_owners st s \<longleftrightarrow> governs st s = Some Owner"
  "in_authorities st s \<longleftrightarrow> governs st s \<noteq> None"
  "role_of st s = (case governs st s of None \<Rightarrow> Member | Some r \<Rightarrow> r)"
  by (auto simp: in_owners_def in_authorities_def governs_def role_of_def split: option.split role.splits)
    (metis role.exhaust)+

lemma governs_upd:
  "governs (st\<lparr>ns_roles := fmupd q r roles\<rparr>) p =
     (if p = q then if r = Member then None else Some r else governs (st\<lparr>ns_roles := roles\<rparr>) p)"
  "governs (st\<lparr>ns_roles := fmdrop q roles\<rparr>) p = (if p = q then None else governs (st\<lparr>ns_roles := roles\<rparr>) p)"
  by (simp_all add: governs_def)

lemma governs_fields [simp]:
  "governs (st\<lparr>ns_kind := k\<rparr>) = governs st" "governs (st\<lparr>ns_transitions := ts\<rparr>) = governs st"
  "governs (st\<lparr>ns_splits := ss\<rparr>) = governs st" "governs (st\<lparr>ns_topology := tp\<rparr>) = governs st"
  "governs (st\<lparr>ns_pending := ps\<rparr>) = governs st" "governs (st\<lparr>ns_member_log := ml\<rparr>) = governs st"
  by (simp_all add: governs_def fun_eq_iff)

lemma replays_quorum:
  assumes r: "replays g gov" and q: "verify_quorum gov t = Inr ()"
  shows "verify_quorum g t = Inr ()"
proof -
  have o: "owner_signed g t = owner_signed gov t" "authority_signed g t = authority_signed gov t"
    using r by (simp_all add: replays_def owner_signed_def authority_signed_def governs_simps)
  have ro: "role_of g s = role_of gov s" for s
    using r by (simp add: replays_def governs_simps)
  show ?thesis
    using q r o ro
    by (cases "tr_variant t"; cases "ns_kind gov")
      (auto simp: quorum_defs replays_def replay_kind_def split: if_splits role.splits network_kind.splits)
qed

lemma replays_apply:
  assumes r: "replays g gov" and q: "verify_quorum gov t = Inr ()"
  shows "replays (apply_transition g t) (apply_transition gov t)"
proof -
  from r have "governs g p = governs gov p" for p by (simp add: replays_def)
  then have gs: "governs (apply_transition g t) p = governs (apply_transition gov t) p" for p
    by (cases "tr_variant t") (auto simp: apply_defs governs_def split: list.split)
  show ?thesis
    using q r gs
    by (cases "tr_variant t"; cases "ns_kind gov")
      (auto simp: quorum_defs apply_defs replays_def replay_kind_def fun_eq_iff split: if_splits role.splits network_kind.splits list.split)
qed

lemma gov_sound_apply:
  assumes "gov_sound c n gov" "verify_transition_signatures c n t = Inr ()" "verify_quorum gov t = Inr ()"
  shows "gov_sound c n (apply_transition gov t)"
proof -
  from assms(1) obtain g where g: "log_reaches c n (ns_transitions gov) g" "replays g gov" by (auto simp: gov_sound_def)
  have "gov_step c n g t (apply_transition g t)"
    using assms(2) replays_quorum [OF g(2) assms(3)] by (rule gov_step.accept)
  with g(1) have "log_reaches c n (ns_transitions gov @ [t]) (apply_transition g t)" by (rule log_reaches.extend)
  with replays_apply [OF g(2) assms(3)] show ?thesis by (auto simp: gov_sound_def)
qed

text \<open>Rebuilding the roles from the two logs keeps the governing ones.\<close>

lemma governs_seat:
  "finite M \<Longrightarrow> governs (gov\<lparr>ns_roles := seat_members (ns_roles g) M\<rparr>) = governs g"
  by (auto simp: governs_def fun_eq_iff seat_members_lookup split: option.split)

lemma gov_sound_reproject:
  assumes "gov_sound c n gov" "ns_transitions gov' = ns_transitions gov" "ns_kind gov' = ns_kind gov"
    "ns_topology gov' = ns_topology gov" "ns_splits gov' = ns_splits gov"
    "ns_roles gov' = project_roles c key n (ns_transitions gov) log"
  shows "gov_sound c n gov'"
proof -
  from assms(1) obtain g where g: "log_reaches c n (ns_transitions gov) g" "replays g gov" by (auto simp: gov_sound_def)
  then have "verify_log c n (ns_transitions gov) = Inr g" by (simp add: verify_log_reaches)
  then have "ns_roles gov' = seat_members (ns_roles g) (verify_member_log c key g log n)"
    using assms(6) by (simp add: project_roles_def)
  then have "governs gov' = governs g"
    by (auto simp: governs_def fun_eq_iff seat_members_lookup split: option.split)
  with g assms(2-5) show ?thesis by (auto simp: gov_sound_def replays_def)
qed

lemma gov_sound_pending [simp]: "gov_sound c n (gov\<lparr>ns_pending := ps\<rparr>) = gov_sound c n gov"
  by (simp add: gov_sound_def replays_def)

lemma gov_sound_push: "gov_sound (en_crypto e) n gov \<Longrightarrow> gov_sound (en_crypto e) n (push_member_entry e n t gov)"
  unfolding push_member_entry_def Let_def by (erule gov_sound_reproject [where key = "en_key e"]) simp_all

lemma gov_sound_fold:
  assumes "gov_sound (en_crypto e) n gov" "verify_transition_signatures (en_crypto e) n t = Inr ()" "verify_quorum gov t = Inr ()"
  shows "gov_sound (en_crypto e) n (fold_ratified e n t gov)"
  using assms by (auto simp: fold_ratified_def Let_def intro: gov_sound_push gov_sound_apply)

section \<open>What leaves the signed state alone\<close>

definition same_gov :: "engine \<Rightarrow> engine \<Rightarrow> bool" where
  "same_gov st st' \<longleftrightarrow> es_gov st' = es_gov st \<and> es_network_id st' = es_network_id st \<and> es_identity st' = es_identity st"

lemma same_gov_refl [simp]: "same_gov st st"
  by (simp add: same_gov_def)

lemma same_gov_link_level: "same_gov st s \<Longrightarrow> link_level s s' \<Longrightarrow> same_gov st s'"
  by (simp add: same_gov_def link_level_fields)

lemma same_gov_upd [simp]:
  "same_gov st (s\<lparr>es_roster := r\<rparr>) = same_gov st s" "same_gov st (s\<lparr>es_topology := tm\<rparr>) = same_gov st s"
  "same_gov st (s\<lparr>es_topology_impl := ti\<rparr>) = same_gov st s" "same_gov st (s\<lparr>es_self_evicted := b\<rparr>) = same_gov st s"
  "same_gov st (s\<lparr>es_intents := ri\<rparr>) = same_gov st s" "same_gov st (s\<lparr>es_sticky := sk\<rparr>) = same_gov st s"
  "same_gov st (s\<lparr>es_drifts := dr\<rparr>) = same_gov st s"
  by (simp_all add: same_gov_def)

lemma same_gov_primitives [simp]:
  "same_gov st (snd (save_gov e s)) = same_gov st s" "same_gov st (snd (save_roster e s)) = same_gov st s"
  "same_gov st (broadcast e m s) = same_gov st s" "same_gov st (queue_cmd c s) = same_gov st s"
  "same_gov st (emit ev s) = same_gov st s" "same_gov st (snd (send_to_peer e d m s)) = same_gov st s"
  by (simp_all add: same_gov_def)

lemma same_gov_membership [simp]:
  "same_gov st s \<Longrightarrow> same_gov st (reevaluate_topology e s)"
  "same_gov st s \<Longrightarrow> same_gov st (recompute s)"
  "same_gov st s \<Longrightarrow> same_gov st (update_peer d f s)"
  "same_gov st s \<Longrightarrow> same_gov st (flush_peer e d s)"
  "same_gov st s \<Longrightarrow> same_gov st (clear_reconnect_intent d s)"
  "same_gov st s \<Longrightarrow> same_gov st (resolve_connect_waiters d err s)"
  "same_gov st s \<Longrightarrow> same_gov st (broadcast_roster_summary e s)"
  "same_gov st s \<Longrightarrow> same_gov st (broadcast_state e s)"
  "same_gov st s \<Longrightarrow> same_gov st (request_roster e d s)"
  "same_gov st s \<Longrightarrow> same_gov st (snd (deny_if_evicted e d s))"
  "same_gov st s \<Longrightarrow> same_gov st (drop_peer e d r s)"
  by (erule same_gov_link_level, simp)+

lemma same_gov_roster [simp]:
  "same_gov st s \<Longrightarrow> same_gov st (snd (approve_roster e d l s))"
  "same_gov st s \<Longrightarrow> same_gov st (refresh_self_evicted e s)"
  by (simp_all add: approve_roster_def refresh_self_evicted_def Let_def)

lemma same_gov_settle [simp]: "same_gov st s \<Longrightarrow> same_gov st (settle_activation e d s)"
  by (simp add: settle_activation_def Let_def split: option.split)

lemma same_gov_send_approve [simp]: "same_gov st s \<Longrightarrow> same_gov st (send_local_approve e d s)"
proof (cases "peer_of s d")
  case (Some p)
  assume "same_gov st s"
  obtain r s2 where s2: "send_to_peer e d Approve (update_peer d (\<lambda>d. d\<lparr>pd_local_approve_sent := True\<rparr>) s) = (r, s2)"
    by (metis prod.exhaust)
  then have "same_gov st s2"
    using \<open>same_gov st s\<close> same_gov_primitives(6) same_gov_membership(3) by (metis snd_conv)
  with Some s2 \<open>same_gov st s\<close> show ?thesis by (simp add: send_local_approve_def Let_def split: sum.split)
qed (simp add: send_local_approve_def)

lemma same_gov_fold:
  "(\<And>x s. same_gov st s \<Longrightarrow> same_gov st (f x s)) \<Longrightarrow> same_gov st s \<Longrightarrow> same_gov st (fold f xs s)"
  by (induction xs arbitrary: s) auto

lemma same_gov_adoption_parts [simp]:
  "same_gov st s \<Longrightarrow> same_gov st (follow_topology e adopted s)"
  "same_gov st s \<Longrightarrow> same_gov st (snd (mirror_into_roster e roles removed s))"
  "same_gov st s \<Longrightarrow> same_gov st (approve_projected e roles s)"
  "same_gov st s \<Longrightarrow> same_gov st (deny_tombstoned e removed s)"
  by (auto simp: follow_topology_def mirror_into_roster_def approve_projected_def deny_tombstoned_def Let_def
      split: option.split prod.split intro!: same_gov_fold)

lemma same_gov_settle_adoption [simp]:
  "same_gov st s \<Longrightarrow> same_gov st (settle_adoption e changed roles removed adopted s)"
proof -
  assume "same_gov st s"
  obtain b s1 where m: "mirror_into_roster e roles removed (follow_topology e adopted s) = (b, s1)" by (metis prod.exhaust)
  with \<open>same_gov st s\<close> have "same_gov st s1"
    using same_gov_adoption_parts(1,2) by (metis snd_conv)
  with m show ?thesis by (simp add: settle_adoption_def Let_def)
qed

lemma save_same_gov:
  "save_gov e s = (r, s') \<Longrightarrow> same_gov st s' = same_gov st s"
  "save_roster e s = (r, s') \<Longrightarrow> same_gov st s' = same_gov st s"
  by (metis same_gov_primitives(1,2) snd_conv)+

lemma same_gov_mirror_ratified [simp]: "same_gov st s \<Longrightarrow> same_gov st (snd (mirror_ratified e t s))"
  by (cases "tr_variant t")
    (auto simp: mirror_ratified_def Let_def save_same_gov split: prod.split sum.split network_kind.split)

section \<open>Every handler keeps the log sound\<close>

abbreviation engine_sound :: "env \<Rightarrow> engine \<Rightarrow> bool" where
  "engine_sound e st \<equiv> gov_sound (en_crypto e) (es_network_id st) (es_gov st)"

lemma engine_sound_same: "same_gov st s \<Longrightarrow> engine_sound e s = engine_sound e st"
  by (simp add: same_gov_def)

lemma same_gov_with_gov: "same_gov (with_gov g s) s' \<Longrightarrow> es_gov s' = g \<and> es_network_id s' = es_network_id s"
  by (simp add: same_gov_def with_gov_def)

text \<open>\<open>with_gov g st\<close>, then steps that leave the signed state alone.\<close>

lemma engine_sound_with:
  assumes "same_gov (with_gov g st) s'" "gov_sound (en_crypto e) (es_network_id st) g"
  shows "engine_sound e s'"
  using same_gov_with_gov [OF assms(1)] assms(2) by simp

text \<open>The three outcomes of \<open>try_ratify\<close>: nothing happens, a denied proposal is dropped, or it is ratified.\<close>

definition ratified_gov :: "env \<Rightarrow> string \<Rightarrow> string \<Rightarrow> proposal \<Rightarrow> network_state \<Rightarrow> network_state" where
  "ratified_gov e n i p gov =
     (let g = fold_ratified e n (candidate_of p) gov in g\<lparr>ns_pending := filter (\<lambda>p. pr_id p \<noteq> i) (ns_pending g)\<rparr>)"

lemma try_ratify_cases:
  obtains "snd (try_ratify e i st) = st"
  | idx where "position (\<lambda>p. pr_id p = i) (ns_pending (es_gov st)) = Some idx"
      "pr_deniers (ns_pending (es_gov st) ! idx) \<noteq> []"
      "snd (try_ratify e i st) =
         snd (save_gov e (with_gov ((es_gov st)\<lparr>ns_pending := remove_at idx (ns_pending (es_gov st))\<rparr>) st))"
  | idx p where "position (\<lambda>p. pr_id p = i) (ns_pending (es_gov st)) = Some idx"
      "p = ns_pending (es_gov st) ! idx" "pr_deniers p = []" "ratifiable e st p"
      "same_gov (with_gov (ratified_gov e (es_network_id st) i p (es_gov st)) st) (snd (try_ratify e i st))"
proof (cases "position (\<lambda>p. pr_id p = i) (ns_pending (es_gov st))")
  case None
  then show thesis by (intro that(1)) (simp add: try_ratify_def del: position_None_iff)
next
  case (Some idx)
  define p where "p = ns_pending (es_gov st) ! idx"
  consider "pr_deniers p \<noteq> []" | "pr_deniers p = []" "\<not> ratifiable e st p" | "pr_deniers p = []" "ratifiable e st p"
    by blast
  then show thesis
  proof cases
    case 1
    with Some show thesis by (intro that(2) [of idx]) (simp_all add: try_ratify_def Let_def p_def)
  next
    case 2
    with Some show thesis by (intro that(1)) (simp add: try_ratify_def Let_def p_def)
  next
    case 3
    define g where "g = ratified_gov e (es_network_id st) i p (es_gov st)"
    obtain r1 s1 where s1: "save_gov e (with_gov g st) = (r1, s1)" by (metis prod.exhaust)
    obtain r2 s2 where s2: "mirror_ratified e (candidate_of p) s1 = (r2, s2)" by (metis prod.exhaust)
    from s1 have l1: "same_gov (with_gov g st) s1" by (simp add: save_same_gov)
    with s2 have l2: "same_gov (with_gov g st) s2" using same_gov_mirror_ratified by (metis snd_conv)
    have "same_gov (with_gov g st) (snd (try_ratify e i st))"
      using Some 3 s1 s2 l1 l2
      by (auto simp: try_ratify_def Let_def p_def [symmetric] g_def [unfolded Let_def ratified_gov_def, symmetric]
          split: sum.split)
    with Some 3 show thesis by (intro that(3) [of idx p]) (simp_all add: p_def g_def)
  qed
qed

lemma gov_sound_ratified:
  assumes "engine_sound e st" "ratifiable e st p"
  shows "gov_sound (en_crypto e) (es_network_id st) (ratified_gov e (es_network_id st) i p (es_gov st))"
  using assms gov_sound_fold [OF assms(1)] by (auto simp: ratified_gov_def Let_def ratifiable_def is_ok_iff)

lemma engine_sound_save [simp]: "engine_sound e (snd (save_gov e' st)) = engine_sound e st"
  by simp

lemma engine_sound_pending [simp]:
  "engine_sound e (with_gov ((es_gov st)\<lparr>ns_pending := ps\<rparr>) st) = engine_sound e st"
  by (simp add: with_gov_def)

lemma engine_sound_ratify:
  assumes "engine_sound e st" shows "engine_sound e (snd (try_ratify e i st))"
  by (rule try_ratify_cases [of e i st])
    (use assms in \<open>auto intro: engine_sound_with [OF _ gov_sound_ratified [OF assms]] simp del: primitive_fields\<close>)

lemma same_gov_fields:
  assumes "same_gov st s" shows "es_gov s = es_gov st" "es_network_id s = es_network_id st" "es_identity s = es_identity st"
  using assms by (simp_all add: same_gov_def)

lemmas gossip_fields [simp] =
  same_gov_fields [OF same_gov_membership(7) [OF same_gov_refl]]
  same_gov_fields [OF same_gov_membership(8) [OF same_gov_refl]]
  same_gov_fields [OF same_gov_membership(9) [OF same_gov_refl]]
  same_gov_fields [OF same_gov_membership(11) [OF same_gov_refl]]
  same_gov_fields [OF same_gov_roster(2) [OF same_gov_refl]]
  same_gov_fields [OF same_gov_settle_adoption [OF same_gov_refl]]

lemma save_gov_sound: "save_gov e' s = (r, s1) \<Longrightarrow> engine_sound e s1 = engine_sound e s"
  by (metis same_gov_fields(1,2) same_gov_primitives(1) same_gov_refl snd_conv)

lemma engine_sound_propose:
  assumes "engine_sound e st" shows "engine_sound e (snd (propose e i v mfa st))"
  using assms by (auto simp: propose_def Let_def save_gov_sound intro!: engine_sound_ratify split: sum.split prod.split)

lemma engine_sound_sign:
  assumes "engine_sound e st" shows "engine_sound e (snd (sign_proposal e i mfa st))"
  using assms by (auto simp: sign_proposal_def Let_def save_gov_sound intro!: engine_sound_ratify split: option.split sum.split prod.split)

lemma engine_sound_deny:
  assumes "engine_sound e st" shows "engine_sound e (snd (deny_proposal e i st))"
  using assms by (auto simp: deny_proposal_def Let_def save_gov_sound intro!: engine_sound_ratify split: option.split sum.split prod.split)

lemma engine_sound_withdraw:
  assumes "engine_sound e st" shows "engine_sound e (snd (withdraw_proposal e i st))"
  using assms by (auto simp: withdraw_proposal_def Let_def save_gov_sound split: option.split sum.split prod.split)

text \<open>Our own signatures verify under our own id: what ed25519 promises of a key pair.\<close>

definition own_signatures :: "crypto \<Rightarrow> identity \<Rightarrow> bool" where
  "own_signatures c me \<longleftrightarrow> (\<forall>m. verify c (id_public_id me) m (sign_with c (id_signing_key me) m) = Inr True)"

lemma gov_sound_split:
  assumes "gov_sound c n gov" "verify c s (transition_payload n (Split new members)) g = Inr True"
  shows "gov_sound c n (apply_transition gov \<lparr>tr_at = at, tr_variant = Split new members, tr_signers = [s], tr_signatures = [g]\<rparr>)"
  by (rule gov_sound_apply [OF assms(1)]) (simp_all add: signatures_ok_iff assms(2) quorum_defs)

lemma engine_sound_spawn_split:
  assumes "engine_sound e st" "own_signatures (en_crypto e) (es_identity st)"
  shows "engine_sound e (snd (spawn_split e i st))"
  using assms
  by (auto simp: spawn_split_def Let_def save_gov_sound with_gov_def sign_transition_def own_signatures_def
      intro!: gov_sound_split split: option.split sum.split prod.split)

lemma engine_sound_on_propose:
  assumes "engine_sound e st" shows "engine_sound e (on_propose e d m st)"
  using assms by (auto simp: on_propose_def Let_def intro!: engine_sound_ratify)

lemma engine_sound_on_ack:
  assumes "engine_sound e st" shows "engine_sound e (on_ack e d m st)"
  using assms by (auto simp: on_ack_def Let_def intro!: engine_sound_ratify split: option.split)

lemma engine_sound_on_split:
  assumes "engine_sound e st" shows "engine_sound e (on_split e d m st)"
  using assms
  by (auto simp: on_split_def Let_def with_gov_def verified_by_def unwrap_or_def
      intro!: gov_sound_split split: sum.splits)

section \<open>Adopting a peer's logs\<close>

lemma reaches_not_silent: "log_reaches c n ts g \<Longrightarrow> ns_kind g \<noteq> Silent"
proof (induction rule: log_reaches.induct)
  case (extend ts st t st')
  then show ?case
    by (cases "tr_variant t"; cases "ns_kind st")
      (auto simp: gov_step_iff quorum_defs apply_defs split: if_splits network_kind.splits list.splits)
qed (simp add: empty_for_def)

text \<open>Sound but for the roles, which the projection rebuilds.\<close>

definition log_sound :: "crypto \<Rightarrow> string \<Rightarrow> network_state \<Rightarrow> bool" where
  "log_sound c n gov \<longleftrightarrow> (\<exists>g. log_reaches c n (ns_transitions gov) g \<and> ns_kind g = replay_kind (ns_kind gov) \<and>
     ns_topology g = ns_topology gov \<and> ns_splits g = ns_splits gov)"

lemma gov_sound_log_sound: "gov_sound c n gov \<Longrightarrow> log_sound c n gov"
  by (auto simp: gov_sound_def log_sound_def replays_def)

lemma log_sound_member_log [simp]: "log_sound c n (gov\<lparr>ns_member_log := ml\<rparr>) = log_sound c n gov"
  by (simp add: log_sound_def)

lemma log_sound_adopt:
  assumes "log_sound (en_crypto e) n gov" shows "log_sound (en_crypto e) n (fst (adopt_governance e n incoming_log gov))"
proof (cases "verify_log (en_crypto e) n incoming_log")
  case (Inr g)
  then have r: "log_reaches (en_crypto e) n incoming_log g" by (simp add: verify_log_reaches)
  then have "ns_transitions g = incoming_log" by (simp add: log_reaches_transitions)
  with r Inr assms show ?thesis
    by (auto simp: adopt_governance_def log_sound_def replay_kind_def dest: reaches_not_silent)
qed (use assms in \<open>simp add: adopt_governance_def\<close>)

lemma log_sound_adopt_members:
  "log_sound c n (fst (adopt_members e ml gov)) = log_sound c n gov"
  by (simp add: adopt_members_def Let_def)

lemma log_sound_projected:
  assumes "log_sound c n gov" "verified_projection c key n gov = Inr (roles, removed)"
  shows "gov_sound c n (gov\<lparr>ns_roles := roles\<rparr>)"
proof -
  from assms(1) obtain g where g: "log_reaches c n (ns_transitions gov) g" "ns_kind g = replay_kind (ns_kind gov)"
    "ns_topology g = ns_topology gov" "ns_splits g = ns_splits gov" by (auto simp: log_sound_def)
  then have v: "verify_log c n (ns_transitions gov) = Inr g" by (simp add: verify_log_reaches)
  with assms(2) have "roles = seat_members (ns_roles g) (verify_member_log c key g (ns_member_log gov) n)"
    by (simp add: verified_projection_iff)
  then have "governs (gov\<lparr>ns_roles := roles\<rparr>) = governs g" by (simp add: governs_seat)
  with g show ?thesis by (auto simp: gov_sound_def replays_def)
qed

lemma log_sound_projection:
  assumes "log_sound c n gov" obtains roles removed where "verified_projection c key n gov = Inr (roles, removed)"
  using assms by (auto simp: log_sound_def verify_log_reaches [symmetric] verified_projection_iff)

text \<open>The state the adoption leaves: both halves, then the projection.\<close>

definition adopted_logs :: "env \<Rightarrow> string \<Rightarrow> transition list \<Rightarrow> transition list \<Rightarrow> network_state \<Rightarrow> network_state" where
  "adopted_logs e n ts ml gov = fst (adopt_members e ml (fst (adopt_governance e n ts gov)))"

lemma adopt_outcome:
  assumes "log_sound (en_crypto e) (es_network_id st) (es_gov st)"
  obtains roles removed changed adopted b where
    "verified_projection (en_crypto e) (en_key e) (es_network_id st) (adopted_logs e (es_network_id st) ts ml (es_gov st)) = Inr (roles, removed)"
    "adopt_transition_log e ts ml st = settle_adoption e changed roles removed adopted
       (let s = with_gov ((adopted_logs e (es_network_id st) ts ml (es_gov st))\<lparr>ns_roles := roles\<rparr>) st
        in if b then snd (save_gov e s) else s)"
proof -
  obtain g1 c1 ad where a: "adopt_governance e (es_network_id st) ts (es_gov st) = (g1, c1, ad)" by (metis prod.exhaust)
  obtain g2 c2 where m: "adopt_members e ml g1 = (g2, c2)" by (metis prod.exhaust)
  have g2: "adopted_logs e (es_network_id st) ts ml (es_gov st) = g2" using a m by (simp add: adopted_logs_def)
  have "log_sound (en_crypto e) (es_network_id st) g2"
    using log_sound_adopt [OF assms, of ts] log_sound_adopt_members [of "en_crypto e" "es_network_id st" e ml g1] a m by simp
  then obtain roles removed where v: "verified_projection (en_crypto e) (en_key e) (es_network_id st) g2 = Inr (roles, removed)"
    by (rule log_sound_projection)
  show thesis
    by (rule that [of roles removed "c1 \<or> c2" ad "(c1 \<or> c2) \<or> ns_roles g2 \<noteq> roles"])
      (use a m v g2 in \<open>simp_all add: adopt_transition_log_def Let_def\<close>)
qed

lemma adopt_gov:
  assumes "log_sound (en_crypto e) (es_network_id st) (es_gov st)"
  obtains roles removed where
    "verified_projection (en_crypto e) (en_key e) (es_network_id st) (adopted_logs e (es_network_id st) ts ml (es_gov st)) = Inr (roles, removed)"
    "es_gov (adopt_transition_log e ts ml st) = (adopted_logs e (es_network_id st) ts ml (es_gov st))\<lparr>ns_roles := roles\<rparr>"
    "es_network_id (adopt_transition_log e ts ml st) = es_network_id st"
  by (rule adopt_outcome [OF assms, of ts ml]) (auto simp: with_gov_def Let_def intro!: that)

lemma engine_sound_adopt:
  assumes "engine_sound e st" shows "engine_sound e (adopt_transition_log e ts ml st)"
proof -
  have l: "log_sound (en_crypto e) (es_network_id st) (es_gov st)" using assms by (rule gov_sound_log_sound)
  have "log_sound (en_crypto e) (es_network_id st) (adopted_logs e (es_network_id st) ts ml (es_gov st))"
    using log_sound_adopt [OF l] by (simp add: adopted_logs_def log_sound_adopt_members)
  then show ?thesis by (rule_tac adopt_gov [OF l, of ts ml]) (simp add: log_sound_projected)
qed

lemma engine_sound_entries:
  assumes "engine_sound e st" shows "engine_sound e (on_roster_entries e entries ts ml st)"
  unfolding on_roster_entries_def Let_def
  by (rule engine_sound_adopt) (use assms in \<open>simp split: prod.split\<close>)

lemma engine_sound_on_deny:
  assumes "engine_sound e st" shows "engine_sound e (on_deny e d ts ml st)"
  using assms by (simp add: on_deny_def adopt_deny_proof_def engine_sound_adopt)

section \<open>Who enters the roster\<close>

abbreviation roster_ids :: "engine \<Rightarrow> string set" where
  "roster_ids st \<equiv> set (roster_keys (es_roster st))"

lemma link_level_ids: "link_level s s' \<Longrightarrow> roster_ids s' = roster_ids s"
  by (simp add: link_level_fields)

lemma ids_approve: "roster_ids (snd (approve_roster e d l s)) \<subseteq> insert (pubkey_part d) (roster_ids s)"
  by (auto simp: approve_roster_def Let_def)

lemma ids_settle: "roster_ids (settle_activation e d s) \<subseteq> insert (pubkey_part d) (roster_ids s)"
proof (cases "peer_of s d")
  case (Some p)
  define s1 where "s1 = update_peer d activate s"
  have s1: "roster_ids s1 = roster_ids s" unfolding s1_def by (rule link_level_ids) simp
  have "link_level (snd (approve_roster e d (pd_label p) s1)) (settle_activation e d s) \<or> settle_activation e d s = s"
    using Some by (simp add: settle_activation_def Let_def s1_def)
  then show ?thesis
    using link_level_ids ids_approve [of e d "pd_label p" s1] s1 by auto
qed (auto simp: settle_activation_def)

lemma ids_send_approve: "roster_ids (send_local_approve e d s) \<subseteq> insert (pubkey_part d) (roster_ids s)"
proof (cases "peer_of s d")
  case (Some p)
  let ?s1 = "update_peer d (\<lambda>d. d\<lparr>pd_local_approve_sent := True\<rparr>) s"
  obtain r s2 where s2: "send_to_peer e d Approve ?s1 = (r, s2)" by (metis prod.exhaust)
  have "link_level s (snd (send_to_peer e d Approve ?s1))" by simp
  with s2 have l: "link_level s s2" by simp
  then have "link_level s (update_peer d f s2)" for f by simp
  with l link_level_ids ids_settle [of e d s2] Some s2 show ?thesis
    by (auto simp: send_local_approve_def Let_def split: sum.split if_splits)
qed (auto simp: send_local_approve_def)

lemma ids_approve_projected: "roster_ids (approve_projected e roles s) \<subseteq> roster_ids s \<union> pubkey_part ` fmdom' roles"
proof -
  have "roster_ids (fold (\<lambda>kv. send_local_approve e (fst kv)) kvs s) \<subseteq> roster_ids s \<union> pubkey_part ` fst ` set kvs"
    for kvs :: "(string \<times> role) list"
  proof (induction kvs arbitrary: s)
    case (Cons kv kvs)
    then show ?case using ids_send_approve [of e "fst kv" s] by fastforce
  qed simp
  then show ?thesis unfolding approve_projected_def by (metis fst_set_sorted_fmap)
qed

lemma keys_mirror_fold:
  "set (roster_keys (fst (foldl (mirror_one now) (r, rp) kvs))) \<subseteq> set (roster_keys r) \<union> pubkey_part ` fst ` set kvs"
proof (induction kvs arbitrary: r rp)
  case (Cons kv kvs)
  obtain k x where kv: "kv = (k, x)" by (cases kv)
  obtain r1 rp1 where m: "mirror_one now (r, rp) (k, x) = (r1, rp1)" by (metis prod.exhaust)
  then have "set (roster_keys r1) \<subseteq> insert (pubkey_part k) (set (roster_keys r))"
    by (auto simp: mirror_one_def Let_def case_prod_beta split: if_splits)
  with Cons.IH [of r1 rp1] m kv show ?case by auto
qed simp

lemma keys_mirror:
  "set (roster_keys (fst (mirror_roles_to_roster now roles r removed self))) \<subseteq> set (roster_keys r) \<union> pubkey_part ` fmdom' roles"
proof -
  obtain r1 rp1 where f: "foldl (mirror_one now) (r, empty_repair) (sorted_list_of_fmap roles) = (r1, rp1)"
    by (metis prod.exhaust)
  have "set (roster_keys (fst (mirror_roles_to_roster now roles r removed self))) \<subseteq> set (roster_keys r1)"
    using f by (force simp: mirror_roles_to_roster_def Let_def roster_keys_def)
  then show ?thesis
    using keys_mirror_fold [of now r empty_repair "sorted_list_of_fmap roles"] f by (simp add: fst_set_sorted_fmap)
qed

lemma ids_gossip:
  "roster_ids (broadcast_roster_summary e s) = roster_ids s" "roster_ids (broadcast_state e s) = roster_ids s"
  "roster_ids (deny_tombstoned e removed s) = roster_ids s" "roster_ids (refresh_self_evicted e s) = roster_ids s"
proof -
  have "link_level s (deny_tombstoned e removed s)"
    by (auto simp: deny_tombstoned_def intro!: link_level_fold)
  then show "roster_ids (deny_tombstoned e removed s) = roster_ids s" by (rule link_level_ids)
  show "roster_ids (refresh_self_evicted e s) = roster_ids s" by (simp add: refresh_self_evicted_def Let_def)
qed (rule link_level_ids, simp)+

lemma ids_follow: "roster_ids (follow_topology e adopted s) = roster_ids s"
proof (cases adopted)
  case (Some m)
  have "roster_ids (reevaluate_topology e x) = roster_ids x" for x by (rule link_level_ids) simp
  with Some show ?thesis by (simp add: follow_topology_def)
qed (simp add: follow_topology_def)

lemma ids_mirror_into:
  "roster_ids (snd (mirror_into_roster e roles removed s)) \<subseteq> roster_ids s \<union> pubkey_part ` fmdom' roles"
  using keys_mirror [of "en_now e" roles "es_roster s" removed "self_id s"]
  by (simp add: mirror_into_roster_def Let_def case_prod_beta)

lemma ids_settle_adoption:
  "roster_ids (settle_adoption e changed roles removed adopted s) \<subseteq> roster_ids s \<union> pubkey_part ` fmdom' roles"
proof -
  let ?s0 = "follow_topology e adopted s"
  obtain b s1 where m: "mirror_into_roster e roles removed ?s0 = (b, s1)" by (metis prod.exhaust)
  have "roster_ids s1 \<subseteq> roster_ids s \<union> pubkey_part ` fmdom' roles"
    using ids_mirror_into [of e roles removed ?s0] m by (simp add: ids_follow)
  moreover have "roster_ids (settle_adoption e changed roles removed adopted s) = roster_ids (approve_projected e roles s1)"
    using m by (simp add: settle_adoption_def Let_def ids_gossip)
  ultimately show ?thesis using ids_approve_projected [of e roles s1] by blast
qed

lemma ids_adopt:
  assumes "log_sound (en_crypto e) (es_network_id st) (es_gov st)"
  shows "roster_ids (adopt_transition_log e ts ml st) \<subseteq>
     roster_ids st \<union> pubkey_part ` fmdom' (ns_roles (es_gov (adopt_transition_log e ts ml st)))"
proof (rule adopt_outcome [OF assms, of ts ml])
  fix roles removed changed adopted b
  let ?g = "(adopted_logs e (es_network_id st) ts ml (es_gov st))\<lparr>ns_roles := roles\<rparr>"
  let ?s = "let s = with_gov ?g st in if b then snd (save_gov e s) else s"
  assume a: "adopt_transition_log e ts ml st = settle_adoption e changed roles removed adopted ?s"
  have "roster_ids ?s = roster_ids st" "es_gov ?s = ?g" by (simp_all add: Let_def with_gov_def)
  then show ?thesis using ids_settle_adoption [of e changed roles removed adopted ?s] a by simp
qed

text \<open>
  C8: On a closed network nobody enters the roster on a peer's word. Whatever unsigned entries a peer sends,
  every device on the roster afterwards was on it before or has a role in the verified signed logs.
\<close>

theorem closed_roster_only_grows_by_signature:
  assumes "gov_sound (en_crypto e) (es_network_id st) (es_gov st)" "ns_kind (es_gov st) = Closed"
  shows "let st' = on_roster_entries e entries ts ml st in
     \<exists>g. verify_log (en_crypto e) (es_network_id st) (ns_transitions (es_gov st')) = Inr g \<and>
       set (roster_keys (es_roster st')) \<subseteq> set (roster_keys (es_roster st)) \<union>
         pubkey_part ` (fmdom' (ns_roles g) \<union>
           verify_member_log (en_crypto e) (en_key e) g (ns_member_log (es_gov st')) (es_network_id st))"
proof -
  have r: "on_roster_entries e entries ts ml st = adopt_transition_log e ts ml st"
    using assms(2) by (simp add: on_roster_entries_def is_open_governance_def)
  have l: "log_sound (en_crypto e) (es_network_id st) (es_gov st)" using assms(1) by (rule gov_sound_log_sound)
  obtain roles removed where
    v: "verified_projection (en_crypto e) (en_key e) (es_network_id st) (adopted_logs e (es_network_id st) ts ml (es_gov st)) = Inr (roles, removed)"
    and g: "es_gov (adopt_transition_log e ts ml st) = (adopted_logs e (es_network_id st) ts ml (es_gov st))\<lparr>ns_roles := roles\<rparr>"
    by (rule adopt_gov [OF l, of ts ml])
  have "fmdom' (seat_members rs M) = fmdom' rs \<union> M" if "finite M" for rs M
    using that by (auto simp: fmlookup_dom'_iff seat_members_lookup split: option.splits if_splits)
  with v ids_adopt [OF l, of ts ml] show ?thesis
    by (auto simp: Let_def r g verified_projection_iff)
qed

lemma sample_sound: "gov_sound sample_crypto ''home'' sample_state" "ns_kind sample_state = Closed"
proof -
  have v: "verify_log sample_crypto ''home'' sample_log = Inr sample_gov" by code_simp
  then have r: "log_reaches sample_crypto ''home'' sample_log sample_gov" by (simp add: verify_log_reaches)
  then have "ns_transitions sample_gov = sample_log" by (simp add: log_reaches_transitions)
  with r show "gov_sound sample_crypto ''home'' sample_state"
    using reaches_not_silent [OF r]
    by (auto simp: gov_sound_def replays_def sample_state_def replay_kind_def)
  show "ns_kind sample_state = Closed" by code_simp
qed


theorem closed_roster_only_grows_by_signature_witness:
  "let st' = on_roster_entries sample_env [\<lparr>re_device_id = ''z'', re_label = [], re_approved_at = 0, re_role = Owner, re_granted_by = []\<rparr>]
      [] sample_members (sample_engine []) in
     \<exists>g. verify_log sample_crypto ''home'' (ns_transitions (es_gov st')) = Inr g \<and>
       set (roster_keys (es_roster st')) \<subseteq> set (roster_keys (es_roster (sample_engine []))) \<union>
         pubkey_part ` (fmdom' (ns_roles g) \<union> verify_member_log sample_crypto sample_key g (ns_member_log (es_gov st')) ''home'')"
  using closed_roster_only_grows_by_signature [of sample_env "sample_engine []"] sample_sound by simp

text \<open>
  C6: A proposal changes the signed logs only when no one has denied it, every collected signature
  verifies and the signers meet the quorum rule of the current state; then the one transition it stands
  for is appended to the governance log, to the member log, or (eviction of a role bearer) to both.
  A denied proposal never takes effect.
\<close>

theorem ratification_needs_quorum:
  "let gov = es_gov st; gov' = es_gov (snd (try_ratify e i st)) in
   (ns_transitions gov' = ns_transitions gov \<and> ns_member_log gov' = ns_member_log gov \<and> ns_roles gov' = ns_roles gov \<and>
    ns_kind gov' = ns_kind gov \<and> ns_topology gov' = ns_topology gov) \<or>
   (\<exists>p\<in>set (ns_pending gov). let t = candidate_of p in
      pr_id p = i \<and> pr_deniers p = [] \<and> verify_transition_signatures (en_crypto e) (es_network_id st) t = Inr () \<and>
      verify_quorum gov t = Inr () \<and>
      (ns_transitions gov', ns_member_log gov') \<in>
        {(ns_transitions gov @ [t], ns_member_log gov), (ns_transitions gov, ns_member_log gov @ [t]),
         (ns_transitions gov @ [t], ns_member_log gov @ [t])})"
proof (rule try_ratify_cases [of e i st])
  fix idx p
  assume pos: "position (\<lambda>p. pr_id p = i) (ns_pending (es_gov st)) = Some idx" and p: "p = ns_pending (es_gov st) ! idx"
    and d: "pr_deniers p = []" and r: "ratifiable e st p"
    and g: "same_gov (with_gov (ratified_gov e (es_network_id st) i p (es_gov st)) st) (snd (try_ratify e i st))"
  have "p \<in> set (ns_pending (es_gov st))" "pr_id p = i" using position_SomeD [OF pos] p by auto
  with same_gov_with_gov [OF g] d r show ?thesis
    by (force simp: Let_def ratified_gov_def fold_ratified_def push_member_entry_def ratifiable_def is_ok_iff)
qed (simp_all add: with_gov_def)

text \<open>
  Ratification is deterministic across nodes: two nodes that hold the same proposal with the same
  signatures, received in any order, append the identical transition. The proposer comes first in it, so
  both name the same founder when the network closes.
\<close>

theorem candidate_order_free:
  assumes "pr_proposer q = pr_proposer p" "pr_variant q = pr_variant p" "pr_created_at q = pr_created_at p"
    and "length (pr_signers p) = length (pr_signatures p)" "length (pr_signers q) = length (pr_signatures q)"
    and "distinct (pr_signers p)" "mset (zip (pr_signers p) (pr_signatures p)) = mset (zip (pr_signers q) (pr_signatures q))"
    and "pr_proposer p \<in> set (pr_signers p)"
  shows "candidate_of q = candidate_of p \<and> (\<exists>rest. tr_signers (candidate_of p) = pr_proposer p # rest)"
proof -
  obtain ss gs where c: "canonicalize_signers (pr_proposer p) (pr_signers p) (pr_signatures p) = (ss, gs)"
    by (metis prod.exhaust)
  have "canonicalize_signers (pr_proposer p) (pr_signers q) (pr_signatures q) = (ss, gs)"
    unfolding c [symmetric] by (rule canonicalize_order_free [symmetric]) (use assms in auto)
  moreover have "\<exists>rest. ss = pr_proposer p # rest"
    by (rule canonicalize_proposer_first [OF assms(4,8) c])
  ultimately show ?thesis using c assms(1-3) by (simp add: candidate_of_def)
qed

theorem candidate_order_free_witness:
  "let p = \<lparr>pr_id = ''1'', pr_created_at = 4, pr_proposer = ''c'', pr_variant = KindChange Closed, pr_signers = [''c'', ''b'', ''a''],
         pr_signatures = [''cc'', ''bb'', ''aa''], pr_deniers = [], pr_split_spawned = False\<rparr>;
       q = p\<lparr>pr_signers := [''a'', ''c'', ''b''], pr_signatures := [''aa'', ''cc'', ''bb'']\<rparr>
   in candidate_of q = candidate_of p \<and> (\<exists>rest. tr_signers (candidate_of p) = ''c'' # rest)"
proof -
  let ?p = "\<lparr>pr_id = ''1'', pr_created_at = 4, pr_proposer = ''c'', pr_variant = KindChange Closed, pr_signers = [''c'', ''b'', ''a''],
         pr_signatures = [''cc'', ''bb'', ''aa''], pr_deniers = [], pr_split_spawned = False\<rparr>"
  let ?q = "?p\<lparr>pr_signers := [''a'', ''c'', ''b''], pr_signatures := [''aa'', ''cc'', ''bb'']\<rparr>"
  from candidate_order_free [of ?q ?p] show ?thesis by (simp add: Let_def add_mset_commute)
qed

text \<open>
  C7: Adopting a peer's logs never rewrites history. The governance log afterwards is the old one, or a
  longer one that verifies from genesis and repeats the old entries (same variants, same signers); the member
  log loses no entry; pending proposals stay.
\<close>

theorem adoption_only_extends:
  assumes "gov_sound (en_crypto e) (es_network_id st) (es_gov st)"
    and "inj_on (en_key e) (set (ns_member_log (es_gov st)) \<union> set ml)"
  shows "let gov = es_gov st; gov' = es_gov (adopt_transition_log e ts ml st) in
     (ns_transitions gov' = ns_transitions gov \<or>
      ns_transitions gov' = ts \<and> length (ns_transitions gov) < length ts \<and> shares_prefix ts (ns_transitions gov) \<and>
      is_ok (verify_log (en_crypto e) (es_network_id st) ts)) \<and>
     set (ns_member_log gov) \<subseteq> set (ns_member_log gov') \<and> ns_pending gov' = ns_pending gov"
proof -
  have l: "log_sound (en_crypto e) (es_network_id st) (es_gov st)" using assms(1) by (rule gov_sound_log_sound)
  obtain roles removed where
    g: "es_gov (adopt_transition_log e ts ml st) = (adopted_logs e (es_network_id st) ts ml (es_gov st))\<lparr>ns_roles := roles\<rparr>"
    by (rule adopt_gov [OF l, of ts ml])
  define g1 where "g1 = fst (adopt_governance e (es_network_id st) ts (es_gov st))"
  have "ns_member_log g1 = ns_member_log (es_gov st)" "ns_pending g1 = ns_pending (es_gov st)"
    and t: "ns_transitions g1 = ns_transitions (es_gov st) \<or>
      ns_transitions g1 = ts \<and> length (ns_transitions (es_gov st)) < length ts \<and> shares_prefix ts (ns_transitions (es_gov st)) \<and>
      is_ok (verify_log (en_crypto e) (es_network_id st) ts)"
    using log_reaches_transitions [of "en_crypto e" "es_network_id st" ts]
    by (auto simp: g1_def adopt_governance_def extends_log_def is_ok_iff verify_log_reaches split: sum.split)
  moreover have "set (ns_member_log g1) \<subseteq> set (ns_member_log (fst (adopt_members e ml g1)))"
    "ns_transitions (fst (adopt_members e ml g1)) = ns_transitions g1" "ns_pending (fst (adopt_members e ml g1)) = ns_pending g1"
    using set_merge [of "en_key e" "ns_member_log g1" ml] assms(2) calculation(1)
    by (auto simp: adopt_members_def Let_def)
  ultimately show ?thesis by (auto simp: g adopted_logs_def g1_def [symmetric] Let_def)
qed


theorem adoption_only_extends_witness:
  "let gov' = es_gov (adopt_transition_log sample_env (sample_log @ [sample_entry 4 (RoleRevoke ''c'') ''b'']) [] (sample_engine [])) in
     (ns_transitions gov' = ns_transitions sample_state \<or>
      ns_transitions gov' = sample_log @ [sample_entry 4 (RoleRevoke ''c'') ''b'']) \<and>
     set sample_members \<subseteq> set (ns_member_log gov')"
proof -
  have "inj_on sample_key (set (ns_member_log (es_gov (sample_engine []))) \<union> set [])" by code_simp
  with adoption_only_extends [of sample_env "sample_engine []" "[]" "sample_log @ [sample_entry 4 (RoleRevoke ''c'') ''b'']"] sample_sound
  show ?thesis by (auto simp: Let_def sample_state_def)
qed

end
