(* ===== verification/Routing.thy ===== *)
theory Routing
  imports Membership
begin

text \<open>
  Frames of the application channels: \<open>engine/routing.rs\<close>, the channel handlers of \<open>engine/mod.rs\<close>,
  \<open>on_channel_seq\<close> of \<open>engine/reliable.rs\<close> and the forwarding policy of \<open>services/relay.rs\<close>.

  A routed frame is a relay envelope whose payload is a wrapper object. \<open>parse_envelope\<close> is what serde's
  derived reader makes of \<open>RelayEnvelope\<close> (an object with two defaulted strings and a payload, or the same
  three values as an array), \<open>envelope_json\<close> what its writer produces. JSON objects have distinct keys.
  Random frame ids are an argument.
\<close>

section \<open>Envelopes\<close>

definition RELAY_CHANNEL :: string where "RELAY_CHANNEL = ''__mesh_relay__/v1''"

record relay_envelope =
  ev_dst :: string
  ev_src :: string
  ev_payload :: json

record wrapper =
  wr_channel :: string
  wr_body :: json
  wr_ttl :: u8
  wr_id :: u64

fun as_object :: "json \<Rightarrow> (string \<times> json) list option" where
  "as_object (JObj kvs) = Some kvs"
| "as_object _ = None"

fun as_str :: "json \<Rightarrow> string option" where
  "as_str (JStr s) = Some s"
| "as_str _ = None"

fun as_u64 :: "json \<Rightarrow> u64 option" where
  "as_u64 (JUInt n) = Some n"
| "as_u64 _ = None"

definition string_field :: "(string \<times> json) list \<Rightarrow> string \<Rightarrow> string option" where
  "string_field kvs k = (case map_of kvs k of None \<Rightarrow> Some [] | Some v \<Rightarrow> as_str v)"

fun parse_envelope :: "json \<Rightarrow> relay_envelope option" where
  "parse_envelope (JObj kvs) =
     (case (string_field kvs ''dst'', string_field kvs ''src'', map_of kvs ''payload'') of
        (Some dst, Some src, Some payload) \<Rightarrow> Some \<lparr>ev_dst = dst, ev_src = src, ev_payload = payload\<rparr>
      | _ \<Rightarrow> None)"
| "parse_envelope (JArr [JStr dst, JStr src, payload]) =
     Some \<lparr>ev_dst = dst, ev_src = src, ev_payload = payload\<rparr>"
| "parse_envelope _ = None"

definition envelope_json :: "relay_envelope \<Rightarrow> json" where
  "envelope_json env = JObj [(''dst'', JStr (ev_dst env)), (''src'', JStr (ev_src env)), (''payload'', ev_payload env)]"

definition parse_wrapper :: "json \<Rightarrow> wrapper option" where
  "parse_wrapper payload =
     (case as_object payload of
        None \<Rightarrow> None
      | Some obj \<Rightarrow>
        (case map_of obj ''__channel'' of
           None \<Rightarrow> None
         | Some c \<Rightarrow>
           (case as_str c of
              None \<Rightarrow> None
            | Some channel \<Rightarrow>
                if channel = RELAY_CHANNEL then None
                else Some \<lparr>wr_channel = channel,
                       wr_body = (case map_of obj ''__body'' of None \<Rightarrow> JNull | Some b \<Rightarrow> b),
                       wr_ttl = ucast (case Option.bind (map_of obj ''__ttl'') as_u64 of None \<Rightarrow> 0 | Some n \<Rightarrow> n),
                       wr_id = (case Option.bind (map_of obj ''__id'') as_u64 of None \<Rightarrow> 0 | Some n \<Rightarrow> n)\<rparr>)))"

definition wrap :: "string \<Rightarrow> json \<Rightarrow> u8 \<Rightarrow> u64 \<Rightarrow> json" where
  "wrap channel body ttl i =
     JObj [(''__channel'', JStr channel), (''__body'', body), (''__ttl'', JUInt (ucast ttl)), (''__id'', JUInt i)]"

definition fresh_frame_id :: "u64 \<Rightarrow> u64" where
  "fresh_frame_id rnd = or rnd 1"

section \<open>The dedup ring\<close>

definition ROUTING_SEEN_CAPACITY :: nat where "ROUTING_SEEN_CAPACITY = 2048"

definition first_sighting :: "string \<Rightarrow> u64 \<Rightarrow> engine \<Rightarrow> bool \<times> engine" where
  "first_sighting origin i st =
     (if i = 0 then (True, st)
      else let seen = es_routing_seen st in
        if list_ex (\<lambda>(o', i'). i' = i \<and> o' = origin) seen then (False, st)
        else let kept = (if ROUTING_SEEN_CAPACITY \<le> length seen then tl seen else seen)
             in (True, st\<lparr>es_routing_seen := kept @ [(origin, i)]\<rparr>))"

definition connected_ids :: "engine \<Rightarrow> string list" where
  "connected_ids st =
     map fst (filter (\<lambda>(d, p). (pd_status p = Active \<or> pd_status p = Shelved) \<and> pd_data_channel_open p) (peer_list st))"

section \<open>Receiving\<close>

definition dispatch_channel_frame :: "string \<Rightarrow> string \<Rightarrow> json \<Rightarrow> engine \<Rightarrow> engine" where
  "dispatch_channel_frame channel from payload st =
     (if channel \<in> es_subscribers st
      then st\<lparr>es_fx := (es_fx st)\<lparr>fx_delivered := fx_delivered (es_fx st) @ [(channel, from, payload)]\<rparr>\<rparr>
      else st)"

definition send_envelope :: "env \<Rightarrow> string \<Rightarrow> json \<Rightarrow> engine \<Rightarrow> unit result \<times> engine" where
  "send_envelope e peer envelope st = send_to_peer e peer (Channel RELAY_CHANNEL envelope) st"

text \<open>The first hop that accepts wins; the arrival edge is skipped.\<close>

fun try_hops :: "env \<Rightarrow> string \<Rightarrow> json \<Rightarrow> string list \<Rightarrow> engine \<Rightarrow> engine" where
  "try_hops e from envelope [] st = st"
| "try_hops e from envelope (hop # hops) st =
     (if hop = from then try_hops e from envelope hops st
      else case send_envelope e hop envelope st of
             (Inr _, st1) \<Rightarrow> st1
           | (Inl _, st1) \<Rightarrow> try_hops e from envelope hops st1)"

text \<open>Onward duty: forwarders only, while the hop budget lasts.\<close>

definition forward_onward :: "env \<Rightarrow> string \<Rightarrow> string \<Rightarrow> string \<Rightarrow> wrapper \<Rightarrow> engine \<Rightarrow> engine" where
  "forward_onward e from origin dst w st =
     (let me = self_id st; connected = connected_ids st; topo = es_topology_impl st in
      if \<not> forwards topo me connected \<or> wr_ttl w = 0 then st
      else
        let onward = envelope_json \<lparr>ev_dst = dst, ev_src = origin,
              ev_payload = wrap (wr_channel w) (wr_body w) (wr_ttl w - 1) (wr_id w)\<rparr>
        in if dst = []
           then fold (\<lambda>peer s. snd (send_envelope e peer onward s))
                  (filter (\<lambda>peer. peer \<noteq> from \<and> peer \<noteq> origin) connected) st
           else try_hops e from onward
                  (if dst \<in> set connected then [dst] else next_hops (en_crypto e) topo me dst connected) st)"

text \<open>
  \<open>on_relay_frame\<close> hands the unwrapped body to \<open>on_channel_frame\<close>; the wrapper's channel is never the relay
  channel, so that call is a plain dispatch (\<open>on_relay_frame_delivers\<close> below).
\<close>

definition relay_accepts :: "engine \<Rightarrow> string \<Rightarrow> string \<Rightarrow> bool" where
  "relay_accepts st from origin \<longleftrightarrow> origin = from \<or> forwards (es_topology_impl st) from (connected_ids st)"

definition relay_handle :: "env \<Rightarrow> string \<Rightarrow> string \<Rightarrow> string \<Rightarrow> wrapper \<Rightarrow> engine \<Rightarrow> engine" where
  "relay_handle e from origin dst w st =
     (let for_me = (dst = [] \<or> dst = self_id st);
          st1 = (if for_me then dispatch_channel_frame (wr_channel w) origin (wr_body w) st else st)
      in if dst \<noteq> [] \<and> dst = self_id st then st1 else forward_onward e from origin dst w st1)"

text \<open>Reading a routed frame: its origin, destination and wrapper.\<close>

definition routed :: "string \<Rightarrow> json \<Rightarrow> (string \<times> string \<times> wrapper) option" where
  "routed from payload =
     (case parse_envelope payload of
        None \<Rightarrow> None
      | Some env \<Rightarrow>
        (case parse_wrapper (ev_payload env) of
           None \<Rightarrow> None
         | Some w \<Rightarrow> Some (if ev_src env = [] then from else ev_src env, ev_dst env, w)))"

definition on_relay_frame :: "env \<Rightarrow> string \<Rightarrow> json \<Rightarrow> engine \<Rightarrow> bool \<times> engine" where
  "on_relay_frame e from payload st =
     (case routed from payload of
        None \<Rightarrow> (False, st)
      | Some (origin, dst, w) \<Rightarrow>
        if \<not> relay_accepts st from origin then (True, st)
        else
          let (fresh, st1) = first_sighting origin (wr_id w) st in
          if \<not> fresh then (True, st1) else (True, relay_handle e from origin dst w st1))"

definition on_channel_frame :: "env \<Rightarrow> string \<Rightarrow> string \<Rightarrow> json \<Rightarrow> engine \<Rightarrow> engine" where
  "on_channel_frame e device_id channel payload st =
     (if channel = RELAY_CHANNEL
      then let (consumed, st1) = on_relay_frame e device_id payload st
           in if consumed then st1 else dispatch_channel_frame channel device_id payload st1
      else dispatch_channel_frame channel device_id payload st)"

definition on_channel_seq :: "env \<Rightarrow> string \<Rightarrow> u64 \<Rightarrow> u64 \<Rightarrow> string \<Rightarrow> json \<Rightarrow> engine \<Rightarrow> engine" where
  "on_channel_seq e peer stream seq channel payload st =
     (let mark0 = (case fmlookup (es_in st) peer of None \<Rightarrow> \<lparr>im_stream = 0, im_last_seq = 0\<rparr> | Some m \<Rightarrow> m);
          (mark, deliver) = accept_seq stream seq mark0;
          st1 = st\<lparr>es_in := fmupd peer mark (es_in st)\<rparr>;
          st2 = (if deliver then on_channel_frame e peer channel payload st1 else st1);
          up_to = (case fmlookup (es_in st2) peer of None \<Rightarrow> seq | Some m \<Rightarrow> im_last_seq m)
      in snd (send_to_peer e peer (ChannelAck stream up_to) st2))"

section \<open>Sending\<close>

fun route_loop :: "env \<Rightarrow> string \<Rightarrow> json \<Rightarrow> error option \<Rightarrow> string list \<Rightarrow> engine \<Rightarrow> unit result \<times> engine" where
  "route_loop e dest envelope last_err [] st =
     (Inl (case last_err of None \<Rightarrow> ENetwork (NoForwarder dest) | Some err \<Rightarrow> err), st)"
| "route_loop e dest envelope last_err (hop # hops) st =
     (case send_envelope e hop envelope st of
        (Inr _, st1) \<Rightarrow> (Inr (), st1)
      | (Inl err, st1) \<Rightarrow> route_loop e dest envelope (Some err) hops st1)"

definition send_routed :: "env \<Rightarrow> u64 \<Rightarrow> string \<Rightarrow> string \<Rightarrow> json \<Rightarrow> engine \<Rightarrow> unit result \<times> engine" where
  "send_routed e rnd dest channel payload st =
     (let me = self_id st; topo = es_topology_impl st;
          hops = next_hops (en_crypto e) topo me dest (connected_ids st); ttl = flood_ttl topo in
      if hops = [] then (Inl (ENetwork (NoRoute dest)), st)
      else let i = fresh_frame_id rnd;
               st1 = snd (first_sighting me i st);
               env = envelope_json \<lparr>ev_dst = dest, ev_src = me, ev_payload = wrap channel payload ttl i\<rparr>
           in route_loop e dest env None hops st1)"

text \<open>One frame to each target in turn; how many accepted it.\<close>

definition fan_out :: "env \<Rightarrow> mesh_message \<Rightarrow> string list \<Rightarrow> engine \<Rightarrow> nat \<times> engine" where
  "fan_out e msg peers st =
     fold (\<lambda>peer (n, s). case send_to_peer e peer msg s of (r, s1) \<Rightarrow> (if is_ok r then n + 1 else n, s1)) peers (0, st)"

definition broadcast_flood :: "env \<Rightarrow> u64 \<Rightarrow> string \<Rightarrow> json \<Rightarrow> engine \<Rightarrow> nat \<times> engine" where
  "broadcast_flood e rnd channel payload st =
     (let me = self_id st; ttl = flood_ttl (es_topology_impl st); i = fresh_frame_id rnd;
          st1 = snd (first_sighting me i st);
          env = envelope_json \<lparr>ev_dst = [], ev_src = me, ev_payload = wrap channel payload ttl i\<rparr>;
          targets = map fst (filter (\<lambda>(d, p). pd_status p = Active \<and> \<not> pd_local_shelved p \<and> \<not> pd_remote_shelved p \<and>
            pd_data_channel_open p) (peer_list st1))
      in fan_out e (Channel RELAY_CHANNEL env) targets st1)"

definition send_channel_frame :: "env \<Rightarrow> u64 \<Rightarrow> string \<Rightarrow> string \<Rightarrow> json \<Rightarrow> engine \<Rightarrow> unit result \<times> engine" where
  "send_channel_frame e rnd peer channel payload st =
     (let (direct, st1) = send_to_peer e peer (Channel channel payload) st in
      if \<not> prunes (es_topology_impl st) then (direct, st1)
      else case direct of
             Inr _ \<Rightarrow> (Inr (), st1)
           | Inl _ \<Rightarrow> send_routed e rnd peer channel payload st1)"

definition broadcast_channel_frame :: "env \<Rightarrow> u64 \<Rightarrow> string \<Rightarrow> json \<Rightarrow> engine \<Rightarrow> nat \<times> engine" where
  "broadcast_channel_frame e rnd channel payload st =
     (if prunes (es_topology_impl st) then broadcast_flood e rnd channel payload st
      else fan_out e (Channel channel payload)
             (map fst (filter (\<lambda>(d, p). pd_status p = Active \<and> \<not> pd_local_shelved p \<and> \<not> pd_remote_shelved p)
               (peer_list st))) st)"

section \<open>The relay service\<close>

definition relay_targets :: "string \<Rightarrow> string \<Rightarrow> string list \<Rightarrow> string list \<Rightarrow> u32 \<Rightarrow> string list" where
  "relay_targets from dst rostered reachable max_fanout =
     (if from \<notin> set rostered then []
      else if dst \<noteq> []
      then (if dst \<noteq> from \<and> dst \<in> set rostered \<and> dst \<in> set reachable then [dst] else [])
      else let out = filter (\<lambda>i. i \<noteq> from \<and> i \<in> set rostered) reachable
           in if 0 < max_fanout \<and> unat max_fanout < length out then take (unat max_fanout) out else out)"

definition is_reachable_status :: "peer_status \<Rightarrow> bool" where
  "is_reachable_status s \<longleftrightarrow> s = Active \<or> s = Shelved"

text \<open>One frame of the forwarding loop: targets, restamped envelope, best-effort sends.\<close>

definition relay_frame :: "env \<Rightarrow> (string \<Rightarrow> u64) \<Rightarrow> u32 \<Rightarrow> string \<Rightarrow> relay_envelope \<Rightarrow> engine \<Rightarrow> engine" where
  "relay_frame e rnd max_fanout from env st =
     (let rostered = map ap_device_id (ro_devices (es_roster st));
          reachable = map fst (filter (\<lambda>(d, p). is_reachable_status (pd_status p)) (peer_list st));
          out = envelope_json \<lparr>ev_dst = [], ev_src = from, ev_payload = ev_payload env\<rparr>
      in fold (\<lambda>target s. snd (send_channel_frame e (rnd target) target RELAY_CHANNEL out s))
           (relay_targets from (ev_dst env) rostered reachable max_fanout) st)"

section \<open>What the channel handlers leave alone\<close>

text \<open>\<open>chan_level st st'\<close>: at most the dedup ring, the inbound marks and the effects differ.\<close>

definition chan_level :: "engine \<Rightarrow> engine \<Rightarrow> bool" where
  "chan_level st st' \<longleftrightarrow>
     es_network_id st' = es_network_id st \<and> es_identity st' = es_identity st \<and>
     es_auto_approve st' = es_auto_approve st \<and> es_peers st' = es_peers st \<and> es_gov st' = es_gov st \<and>
     es_roster st' = es_roster st \<and> es_topology st' = es_topology st \<and> es_topology_impl st' = es_topology_impl st \<and>
     es_self_evicted st' = es_self_evicted st \<and> es_sticky st' = es_sticky st \<and> es_intents st' = es_intents st \<and>
     es_drifts st' = es_drifts st \<and> es_closing st' = es_closing st \<and> es_waiters st' = es_waiters st \<and>
     es_out st' = es_out st \<and> es_subscribers st' = es_subscribers st \<and> es_rpc st' = es_rpc st \<and>
     es_skew_watch st' = es_skew_watch st \<and> es_socket st' = es_socket st \<and>
     es_last_announce st' = es_last_announce st \<and> es_deferred st' = es_deferred st \<and> es_phase st' = es_phase st"

lemma chan_level_refl [simp]: "chan_level st st"
  by (simp add: chan_level_def)

lemma chan_level_trans [trans]: "chan_level st st1 \<Longrightarrow> chan_level st1 st2 \<Longrightarrow> chan_level st st2"
  unfolding chan_level_def by simp

lemma same_core_chan_level: "same_core st st' \<Longrightarrow> chan_level st st'"
  by (simp add: chan_level_def same_core_fields)

lemma chan_level_upd [simp]:
  "chan_level st (st1\<lparr>es_routing_seen := seen\<rparr>) = chan_level st st1" "chan_level st (st1\<lparr>es_in := marks\<rparr>) = chan_level st st1"
  "chan_level st (st1\<lparr>es_fx := fx\<rparr>) = chan_level st st1"
  by (simp_all add: chan_level_def)

lemma chan_level_fields:
  assumes "chan_level st st'"
  shows "es_network_id st' = es_network_id st" "es_identity st' = es_identity st" "es_gov st' = es_gov st"
    "es_roster st' = es_roster st" "es_topology_impl st' = es_topology_impl st" "es_subscribers st' = es_subscribers st"
    "peer_of st' = peer_of st" "connected_ids st' = connected_ids st"
  using assms unfolding chan_level_def by (auto simp: peer_of_def fun_eq_iff peer_list_def connected_ids_def)

lemma dispatch_level [simp]: "same_core st (dispatch_channel_frame c d p st)"
  unfolding dispatch_channel_frame_def same_core_def by (auto intro: exI [of _ "es_fx st"])

lemma first_sighting_level [simp]: "chan_level st (snd (first_sighting o' i st))"
  by (simp add: first_sighting_def Let_def)

lemma try_hops_sends:
  "\<exists>ws. sends ws st (try_hops e from m hops st) \<and> set ws \<subseteq> (set hops - {from}) \<times> {Channel RELAY_CHANNEL m}"
proof (induction hops arbitrary: st)
  case (Cons hop hops)
  obtain r st1 where send: "send_envelope e hop m st = (r, st1)" by (metis prod.exhaust)
  from send_to_peer_sends [of st e hop "Channel RELAY_CHANNEL m"] send
  obtain ws where ws: "sends ws st st1" "set ws \<subseteq> {(hop, Channel RELAY_CHANNEL m)}"
    by (auto simp: send_envelope_def)
  from Cons [of st1] obtain us where us: "sends us st1 (try_hops e from m hops st1)"
    "set us \<subseteq> (set hops - {from}) \<times> {Channel RELAY_CHANNEL m}" by blast
  from Cons [of st] obtain vs where vs: "sends vs st (try_hops e from m hops st)"
    "set vs \<subseteq> (set hops - {from}) \<times> {Channel RELAY_CHANNEL m}" by blast
  show ?case
  proof (cases "hop = from")
    case True
    with vs show ?thesis by (intro exI [of _ vs]) auto
  next
    case False
    show ?thesis
    proof (cases r)
      case (Inl a)
      with False send ws us show ?thesis by (intro exI [of _ "ws @ us"]) (auto intro: sends_trans)
    next
      case (Inr a)
      with False send ws show ?thesis by (intro exI [of _ ws]) auto
    qed
  qed
qed (auto intro: exI [of _ "[]"])

text \<open>What a forwarder sends on: the same frame with one hop less, to connected peers other than the sender.\<close>

definition onward_frame :: "string \<Rightarrow> string \<Rightarrow> wrapper \<Rightarrow> mesh_message" where
  "onward_frame origin dst w = Channel RELAY_CHANNEL (envelope_json \<lparr>ev_dst = dst, ev_src = origin,
     ev_payload = wrap (wr_channel w) (wr_body w) (wr_ttl w - 1) (wr_id w)\<rparr>)"

lemma forward_onward_sends:
  "\<exists>ws. sends ws st (forward_onward e from origin dst w st) \<and>
     set ws \<subseteq> (set (connected_ids st) - {from}) \<times> {onward_frame origin dst w} \<and>
     (dst = [] \<longrightarrow> origin \<notin> fst ` set ws) \<and>
     (ws \<noteq> [] \<longrightarrow> forwards (es_topology_impl st) (self_id st) (connected_ids st) \<and> 0 < wr_ttl w)"
proof (cases "forwards (es_topology_impl st) (self_id st) (connected_ids st) \<and> 0 < wr_ttl w")
  case False
  then have "forward_onward e from origin dst w st = st"
    by (auto simp: forward_onward_def Let_def word_gt_0)
  then show ?thesis by (intro exI [of _ "[]"]) simp
next
  case True
  let ?m = "onward_frame origin dst w"
  show ?thesis
  proof (cases "dst = []")
    case bc: True
    let ?ps = "filter (\<lambda>peer. peer \<noteq> from \<and> peer \<noteq> origin) (connected_ids st)"
    have "\<exists>ws. sends ws st (fold (\<lambda>p s. snd (send_to_peer e p ?m s)) ?ps st) \<and> set ws \<subseteq> (\<Union>d\<in>set ?ps. {(d, ?m)})"
      by (rule fold_sends) (rule send_to_peer_sends)
    moreover have "forward_onward e from origin dst w st = fold (\<lambda>p s. snd (send_to_peer e p ?m s)) ?ps st"
      using True bc by (auto simp: forward_onward_def Let_def onward_frame_def send_envelope_def)
    ultimately show ?thesis using True by (elim exE) (rule exI, auto)
  next
    case False
    let ?hops = "if dst \<in> set (connected_ids st) then [dst]
      else next_hops (en_crypto e) (es_topology_impl st) (self_id st) dst (connected_ids st)"
    have eq: "forward_onward e from origin dst w st = try_hops e from (envelope_json \<lparr>ev_dst = dst, ev_src = origin,
        ev_payload = wrap (wr_channel w) (wr_body w) (wr_ttl w - 1) (wr_id w)\<rparr>) ?hops st"
      using True False by (auto simp: forward_onward_def Let_def)
    have "set ?hops \<subseteq> set (connected_ids st)" using topo.hops_subset by auto
    with try_hops_sends [of st e "from" _ ?hops] True False show ?thesis
      unfolding eq onward_frame_def by fast
  qed
qed

lemma sends_chan_level: "sends ws st st' \<Longrightarrow> chan_level st st'"
  by (rule same_core_chan_level [OF sends_same_core])

lemma forward_level [simp]: "chan_level st (forward_onward e f o' d w st)"
  using forward_onward_sends [of st e f o' d w] sends_chan_level by blast

lemma relay_handle_level [simp]: "chan_level st (relay_handle e f o' d w st)"
  unfolding relay_handle_def Let_def
  by (simp add: same_core_chan_level chan_level_trans [OF same_core_chan_level [OF dispatch_level] forward_level])

lemma sighting_stale: "fst (first_sighting o' i st) \<or> first_sighting o' i st = (False, st)"
  by (simp add: first_sighting_def Let_def)

lemma relay_cases:
  obtains (ignored) b where "on_relay_frame e f p st = (b, st)"
    "routed f p = None \<or> (\<exists>origin dst w. routed f p = Some (origin, dst, w) \<and>
       (relay_accepts st f origin \<longrightarrow> \<not> fst (first_sighting origin (wr_id w) st)))"
  | (handled) origin dst w st1 where "routed f p = Some (origin, dst, w)" "relay_accepts st f origin"
      "first_sighting origin (wr_id w) st = (True, st1)"
      "on_relay_frame e f p st = (True, relay_handle e f origin dst w st1)"
proof (cases "routed f p")
  case None
  then show thesis by (intro ignored [of False]) (simp_all add: on_relay_frame_def)
next
  case (Some r)
  obtain origin dst w where r: "r = (origin, dst, w)" by (metis prod.exhaust)
  obtain fresh st1 where fs: "first_sighting origin (wr_id w) st = (fresh, st1)" by (metis prod.exhaust)
  show thesis
  proof (cases "relay_accepts st f origin \<and> fresh")
    case True
    with Some r fs handled show thesis by (simp add: on_relay_frame_def)
  next
    case False
    with fs sighting_stale [of origin "wr_id w" st] have "relay_accepts st f origin \<Longrightarrow> st1 = st" by auto
    with False Some r fs have "on_relay_frame e f p st = (True, st)" by (auto simp: on_relay_frame_def)
    with False Some r fs ignored show thesis by auto
  qed
qed

lemma on_relay_frame_level [simp]: "chan_level st (snd (on_relay_frame e f p st))"
proof (cases rule: relay_cases [of e f p st, case_names ignored handled])
  case (handled origin dst w st1)
  have "chan_level st st1" using first_sighting_level [of st origin "wr_id w"] handled(3) by (metis snd_conv)
  with handled(4) chan_level_trans show ?thesis by (metis relay_handle_level snd_conv)
qed simp

lemma on_channel_frame_level [simp]: "chan_level st (on_channel_frame e d c p st)"
  unfolding on_channel_frame_def
  by (auto split: prod.split intro: same_core_chan_level)
    (metis chan_level_trans dispatch_level on_relay_frame_level same_core_chan_level snd_conv)+

lemma on_channel_seq_level [simp]: "chan_level st (on_channel_seq e d n q c p st)"
proof -
  obtain mark deliver where a: "accept_seq n q (case fmlookup (es_in st) d of None \<Rightarrow> \<lparr>im_stream = 0, im_last_seq = 0\<rparr> | Some m \<Rightarrow> m) = (mark, deliver)"
    by (metis prod.exhaust)
  let ?s1 = "st\<lparr>es_in := fmupd d mark (es_in st)\<rparr>"
  let ?s2 = "if deliver then on_channel_frame e d c p ?s1 else ?s1"
  have "chan_level ?s1 ?s2" by simp
  then have "chan_level st ?s2" using chan_level_trans [of st ?s1 ?s2] by simp
  moreover have "chan_level s (snd (send_to_peer e d m s))" for s m by (rule same_core_chan_level) simp
  ultimately show ?thesis unfolding on_channel_seq_def Let_def a prod.case by (rule chan_level_trans)
qed

text \<open>The recursion of the code ends after one step: what the relay unwraps is dispatched directly.\<close>

lemma parse_wrapper_channel: "parse_wrapper p = Some w \<Longrightarrow> wr_channel w \<noteq> RELAY_CHANNEL"
  by (auto simp: parse_wrapper_def split: option.splits if_splits)

lemma on_relay_frame_delivers:
  "parse_wrapper p = Some w \<Longrightarrow>
     on_channel_frame e origin (wr_channel w) (wr_body w) st = dispatch_channel_frame (wr_channel w) origin (wr_body w) st"
  by (simp add: on_channel_frame_def parse_wrapper_channel)

section \<open>Wire format\<close>

lemma parse_envelope_json: "parse_envelope (envelope_json env) = Some env"
  by (simp add: envelope_json_def string_field_def)

lemma ucast_up_down: "ucast (ucast (n :: u8) :: u64) = n"
  by (rule bit_word_eqI) (simp add: bit_ucast_iff)

lemma parse_wrapper_wrap:
  "channel \<noteq> RELAY_CHANNEL \<Longrightarrow>
     parse_wrapper (wrap channel body ttl i) = Some \<lparr>wr_channel = channel, wr_body = body, wr_ttl = ttl, wr_id = i\<rparr>"
  by (simp add: parse_wrapper_def wrap_def ucast_up_down)

section \<open>Dedup\<close>

definition ring_ok :: "engine \<Rightarrow> bool" where
  "ring_ok st \<longleftrightarrow> length (es_routing_seen st) \<le> ROUTING_SEEN_CAPACITY \<and> distinct (es_routing_seen st)"

lemma tl_mem: "x \<in> set (tl xs) \<Longrightarrow> x \<in> set xs"
  by (cases xs) auto

lemma first_sighting_ring: "ring_ok st \<Longrightarrow> ring_ok (snd (first_sighting o' i st))"
  by (auto simp: ring_ok_def first_sighting_def Let_def list_ex_iff distinct_tl ROUTING_SEEN_CAPACITY_def dest: tl_mem)

text \<open>\<open>recent n x ring\<close>: \<open>x\<close> is in the ring with at most \<open>n\<close> younger entries.\<close>

definition recent :: "nat \<Rightarrow> 'a \<Rightarrow> 'a list \<Rightarrow> bool" where
  "recent n x ring \<longleftrightarrow> (\<exists>ys zs. ring = ys @ x # zs \<and> length zs \<le> n)"

lemma recent_mem: "recent n x ring \<Longrightarrow> x \<in> set ring"
  by (auto simp: recent_def)

lemma recent_push:
  assumes "recent n x ring" "Suc n < cap"
  shows "recent (Suc n) x ((if cap \<le> length ring then tl ring else ring) @ [y])"
proof -
  from assms(1) obtain ys zs where r: "ring = ys @ x # zs" "length zs \<le> n" by (auto simp: recent_def)
  with assms(2) have "cap \<le> length ring \<Longrightarrow> ys \<noteq> []" by auto
  then have "\<exists>ys'. (if cap \<le> length ring then tl ring else ring) = ys' @ x # zs" using r by (auto simp: tl_append2)
  then obtain ys' where "(if cap \<le> length ring then tl ring else ring) @ [y] = ys' @ x # (zs @ [y])" by auto
  with r(2) show ?thesis unfolding recent_def by force
qed

lemma recent_sighting:
  "recent n x (es_routing_seen st) \<Longrightarrow> Suc n < ROUTING_SEEN_CAPACITY \<Longrightarrow>
     recent (Suc n) x (es_routing_seen (snd (first_sighting o' i st)))"
  unfolding first_sighting_def Let_def
  by (auto simp: recent_push intro: recent_push [where cap = ROUTING_SEEN_CAPACITY, simplified])
    (auto simp: recent_def intro: le_SucI)

lemma first_sighting_records: "i \<noteq> 0 \<Longrightarrow> first_sighting o' i st = (True, st1) \<Longrightarrow> recent 0 (o', i) (es_routing_seen st1)"
  by (auto simp: first_sighting_def recent_def Let_def split: if_splits)

lemma first_sighting_seen: "(o', i) \<in> set (es_routing_seen st) \<Longrightarrow> i \<noteq> 0 \<Longrightarrow> first_sighting o' i st = (False, st)"
  by (auto simp: first_sighting_def list_ex_iff Let_def)

text \<open>A relay frame touches the ring by at most one sighting.\<close>

lemma forward_seen [simp]: "es_routing_seen (forward_onward e f o' d w st) = es_routing_seen st"
  using forward_onward_sends [of st e f o' d w] by (auto dest!: sends_same_core simp: same_core_fields)

lemma dispatch_seen [simp]: "es_routing_seen (dispatch_channel_frame c d p st) = es_routing_seen st"
  by (simp add: same_core_fields [OF dispatch_level])

lemma relay_handle_seen [simp]: "es_routing_seen (relay_handle e f o' d w st) = es_routing_seen st"
  by (simp add: relay_handle_def Let_def)

lemma relay_ring:
  "es_routing_seen (snd (on_relay_frame e f p st)) = es_routing_seen st \<or>
   (\<exists>o' i. es_routing_seen (snd (on_relay_frame e f p st)) = es_routing_seen (snd (first_sighting o' i st)))"
  by (rule relay_cases [of e f p st]) (auto, metis snd_conv)

lemma relay_keeps_recent:
  assumes "recent n x (es_routing_seen st)" "Suc n < ROUTING_SEEN_CAPACITY"
  shows "recent (Suc n) x (es_routing_seen (snd (on_relay_frame e f p st)))"
proof -
  have "recent (Suc n) x (es_routing_seen st)" using assms(1) by (auto simp: recent_def intro: le_SucI)
  with relay_ring [of e f p st] recent_sighting [OF assms] show ?thesis by auto
qed

definition relay_all :: "(env \<times> string \<times> json) list \<Rightarrow> engine \<Rightarrow> engine" where
  "relay_all frames st = fold (\<lambda>(e, f, p) s. snd (on_relay_frame e f p s)) frames st"

lemma relay_all_recent:
  "recent n x (es_routing_seen st) \<Longrightarrow> n + length frames < ROUTING_SEEN_CAPACITY \<Longrightarrow>
     recent (n + length frames) x (es_routing_seen (relay_all frames st))"
proof (induction frames arbitrary: n st)
  case (Cons a frames)
  obtain e f p where a: "a = (e, f, p)" by (metis prod.exhaust)
  from Cons.prems have "recent (Suc n) x (es_routing_seen (snd (on_relay_frame e f p st)))"
    by (intro relay_keeps_recent) auto
  from Cons.IH [OF this] Cons.prems(2) show ?case by (simp add: relay_all_def a)
qed (simp add: relay_all_def)

lemma relay_records:
  assumes "routed f p = Some (origin, dst, w)" "relay_accepts st f origin" "wr_id w \<noteq> 0"
    "(origin, wr_id w) \<notin> set (es_routing_seen st)"
  shows "recent 0 (origin, wr_id w) (es_routing_seen (snd (on_relay_frame e f p st)))"
proof -
  obtain st1 where "first_sighting origin (wr_id w) st = (True, st1)"
    using assms(3,4) by (cases "first_sighting origin (wr_id w) st") (auto simp: first_sighting_def list_ex_iff Let_def split: if_splits)
  with assms(1-3) show ?thesis by (simp add: on_relay_frame_def first_sighting_records)
qed

lemma relay_known:
  assumes "routed f p = Some (origin, dst, w)" "wr_id w \<noteq> 0" "(origin, wr_id w) \<in> set (es_routing_seen st)"
  shows "on_relay_frame e f p st = (True, st)"
  using assms by (simp add: on_relay_frame_def first_sighting_seen)

text \<open>What handling an accepted frame emits.\<close>

lemma relay_handle_effects:
  "\<exists>ds ws. fx_delivered (es_fx (relay_handle e f origin dst w st)) = fx_delivered (es_fx st) @ ds \<and>
     set ds \<subseteq> {(wr_channel w, origin, wr_body w)} \<and> length ds \<le> 1 \<and> (ds \<noteq> [] \<longrightarrow> dst = [] \<or> dst = self_id st) \<and>
     fx_wire (es_fx (relay_handle e f origin dst w st)) = fx_wire (es_fx st) @ ws \<and>
     set ws \<subseteq> (set (connected_ids st) - {f}) \<times> {onward_frame origin dst w} \<and>
     (ws \<noteq> [] \<longrightarrow> forwards (es_topology_impl st) (self_id st) (connected_ids st) \<and> 0 < wr_ttl w)"
proof -
  define me where "me = (dst = [] \<or> dst = self_id st)"
  define st1 where "st1 = (if me then dispatch_channel_frame (wr_channel w) origin (wr_body w) st else st)"
  define ds where "ds = (if me \<and> wr_channel w \<in> es_subscribers st then [(wr_channel w, origin, wr_body w)] else [])"
  have l: "chan_level st st1" by (simp add: st1_def same_core_chan_level)
  have d: "fx_delivered (es_fx st1) = fx_delivered (es_fx st) @ ds" and wr: "fx_wire (es_fx st1) = fx_wire (es_fx st)"
    by (auto simp: st1_def dispatch_channel_frame_def ds_def)
  from forward_onward_sends [of st1 e f origin dst w] obtain ws where ws: "sends ws st1 (forward_onward e f origin dst w st1)"
    "set ws \<subseteq> (set (connected_ids st) - {f}) \<times> {onward_frame origin dst w}"
    "ws \<noteq> [] \<longrightarrow> forwards (es_topology_impl st) (self_id st) (connected_ids st) \<and> 0 < wr_ttl w"
    unfolding chan_level_fields [OF l] by blast
  define us where "us = (if dst \<noteq> [] \<and> dst = self_id st then [] else ws)"
  have res: "relay_handle e f origin dst w st =
      (if dst \<noteq> [] \<and> dst = self_id st then st1 else forward_onward e f origin dst w st1)"
    by (simp add: relay_handle_def Let_def st1_def me_def)
  have "fx_delivered (es_fx (relay_handle e f origin dst w st)) = fx_delivered (es_fx st) @ ds"
    "fx_wire (es_fx (relay_handle e f origin dst w st)) = fx_wire (es_fx st) @ us"
    using ws(1) d wr by (auto simp: res us_def sends_def fx_sends_def)
  with ws(2,3) show ?thesis by (intro exI [of _ ds] exI [of _ us]) (simp add: ds_def us_def me_def)
qed

section \<open>Properties\<close>

text \<open>
  Routed frames survive the wire: an envelope reads back as written, and the wrapper inside it gives
  back channel, body, hop budget and id, provided the channel is not the relay channel itself, which a
  reader refuses.
\<close>

theorem routed_frame_round_trip:
  "parse_envelope (envelope_json env) = Some env \<and>
   parse_wrapper (wrap channel body ttl i) =
     (if channel = RELAY_CHANNEL then None
      else Some \<lparr>wr_channel = channel, wr_body = body, wr_ttl = ttl, wr_id = i\<rparr>)"
  using parse_envelope_json parse_wrapper_wrap [of channel body ttl i]
  by (simp add: parse_wrapper_def wrap_def)

text \<open>
  No routed frame is handled twice: once a node has accepted a frame with an id, another copy of it, by
  whatever path and carrier, changes nothing and sends nothing, as long as fewer than
  \<open>ROUTING_SEEN_CAPACITY\<close> relay frames were handled in between.
\<close>

theorem routed_frame_handled_once:
  assumes "routed f p = Some (origin, dst, w)" "relay_accepts st f origin" "wr_id w \<noteq> 0"
    and "(origin, wr_id w) \<notin> set (es_routing_seen st)" "length frames < ROUTING_SEEN_CAPACITY"
    and "routed f' p' = Some (origin, dst', w')" "wr_id w' = wr_id w"
  shows "let st' = relay_all frames (snd (on_relay_frame e f p st)) in on_relay_frame e' f' p' st' = (True, st')"
proof -
  let ?st = "relay_all frames (snd (on_relay_frame e f p st))"
  from relay_records [OF assms(1-4), of e]
  have "recent 0 (origin, wr_id w) (es_routing_seen (snd (on_relay_frame e f p st)))" .
  with assms(5) have "recent (length frames) (origin, wr_id w) (es_routing_seen ?st)"
    using relay_all_recent [of 0 _ _ frames] by simp
  then have "(origin, wr_id w') \<in> set (es_routing_seen ?st)" using assms(7) by (simp add: recent_mem)
  from relay_known [OF assms(6) _ this] assms(3,7) show ?thesis by (simp add: Let_def)
qed

definition sample_relayed :: json where
  "sample_relayed = envelope_json \<lparr>ev_dst = [], ev_src = ''b'', ev_payload = wrap ''chat'' (JStr ''hi'') 2 7\<rparr>"

lemma sample_routed:
  "routed f sample_relayed = Some (''b'', [], \<lparr>wr_channel = ''chat'', wr_body = JStr ''hi'', wr_ttl = 2, wr_id = 7\<rparr>)"
  by (simp add: routed_def sample_relayed_def parse_envelope_json parse_wrapper_wrap RELAY_CHANNEL_def)

theorem routed_frame_handled_once_witness:
  "let st' = relay_all [] (snd (on_relay_frame sample_env ''b'' sample_relayed (sample_engine [])))
   in on_relay_frame sample_env ''c'' sample_relayed st' = (True, st')"
  by (rule routed_frame_handled_once [OF sample_routed _ _ _ _ sample_routed])
    (simp_all add: relay_accepts_def sample_engine_def ROUTING_SEEN_CAPACITY_def)

lemma routed_frame_effects:
  assumes "routed f p = Some (origin, dst, w)"
  shows "\<exists>ds ws. let st' = snd (on_relay_frame e f p st) in
     fx_delivered (es_fx st') = fx_delivered (es_fx st) @ ds \<and> fx_wire (es_fx st') = fx_wire (es_fx st) @ ws \<and>
     set ds \<subseteq> {(wr_channel w, origin, wr_body w)} \<and> length ds \<le> 1 \<and>
     set ws \<subseteq> (set (connected_ids st) - {f}) \<times> {onward_frame origin dst w} \<and>
     (ds \<noteq> [] \<or> ws \<noteq> [] \<longrightarrow> origin = f \<or> forwards (es_topology_impl st) f (connected_ids st)) \<and>
     (ds \<noteq> [] \<longrightarrow> dst = [] \<or> dst = self_id st) \<and>
     (ws \<noteq> [] \<longrightarrow> forwards (es_topology_impl st) (self_id st) (connected_ids st) \<and> unat (wr_ttl w - 1) < unat (wr_ttl w))"
proof (cases rule: relay_cases [of e f p st, case_names ignored handled])
  case (ignored b)
  then show ?thesis by (intro exI [of _ "[]"]) (simp add: Let_def)
next
  case (handled origin' dst' w' st1)
  with assms have eqs: "origin' = origin" "dst' = dst" "w' = w" by auto
  have st1: "chan_level st st1" using first_sighting_level [of st origin "wr_id w"] handled(3) unfolding eqs by (metis snd_conv)
  have fx1: "es_fx st1 = es_fx st" using handled(3) by (auto simp: first_sighting_def Let_def split: if_splits)
  from relay_handle_effects [of e f origin dst w st1] obtain ds ws where
    ds: "fx_delivered (es_fx (relay_handle e f origin dst w st1)) = fx_delivered (es_fx st1) @ ds"
      "set ds \<subseteq> {(wr_channel w, origin, wr_body w)}" "length ds \<le> 1" "ds \<noteq> [] \<longrightarrow> dst = [] \<or> dst = self_id st1"
    and ws: "fx_wire (es_fx (relay_handle e f origin dst w st1)) = fx_wire (es_fx st1) @ ws"
      "set ws \<subseteq> (set (connected_ids st1) - {f}) \<times> {onward_frame origin dst w}"
      "ws \<noteq> [] \<longrightarrow> forwards (es_topology_impl st1) (self_id st1) (connected_ids st1) \<and> 0 < wr_ttl w"
    by blast
  have "0 < wr_ttl w \<Longrightarrow> unat (wr_ttl w - 1) < unat (wr_ttl w)"
    by (simp add: unat_minus_one word_gt_0 unat_gt_0)
  with ds ws handled(2,4) show ?thesis
    unfolding Let_def eqs handled(4) snd_conv chan_level_fields [OF st1] fx1
    by (intro exI [of _ ds] exI [of _ ws]) (simp add: relay_accepts_def eqs)
qed

text \<open>
  C35: What a node does with a routed frame. For each copy it hands at most one frame to the application, under the origin
  the envelope names, and only if that origin is the carrier itself or the topology makes the carrier a
  forwarder. What it sends on goes to connected peers other than the carrier, only if the topology makes
  the node itself a forwarder, and carries the same origin, destination, channel, body and id with a hop
  budget one smaller, so that no frame is forwarded more often than its budget. And once a node has
  accepted a frame with an id other than 0, another copy of it, by whatever path and carrier, is neither delivered nor
  forwarded, as long as fewer than \<open>ROUTING_SEEN_CAPACITY\<close> relay frames were handled in between. (A frame with id 0 is never remembered.)
\<close>

theorem routed_frame_trust:
  assumes "routed f p = Some (origin, dst, w)"
  shows "(\<exists>ds ws. let st' = snd (on_relay_frame e f p st) in
     fx_delivered (es_fx st') = fx_delivered (es_fx st) @ ds \<and> fx_wire (es_fx st') = fx_wire (es_fx st) @ ws \<and>
     set ds \<subseteq> {(wr_channel w, origin, wr_body w)} \<and> length ds \<le> 1 \<and>
     set ws \<subseteq> (set (connected_ids st) - {f}) \<times> {onward_frame origin dst w} \<and>
     (ds \<noteq> [] \<or> ws \<noteq> [] \<longrightarrow> origin = f \<or> forwards (es_topology_impl st) f (connected_ids st)) \<and>
     (ds \<noteq> [] \<longrightarrow> dst = [] \<or> dst = self_id st) \<and>
     (ws \<noteq> [] \<longrightarrow> forwards (es_topology_impl st) (self_id st) (connected_ids st) \<and> unat (wr_ttl w - 1) < unat (wr_ttl w))) \<and>
     (relay_accepts st f origin \<and> wr_id w \<noteq> 0 \<and> (origin, wr_id w) \<notin> set (es_routing_seen st) \<and> length frames < ROUTING_SEEN_CAPACITY \<and>
        routed f' p' = Some (origin, dst', w') \<and> wr_id w' = wr_id w \<longrightarrow>
      (let st' = relay_all frames (snd (on_relay_frame e f p st)) in on_relay_frame e' f' p' st' = (True, st')))"
  using routed_frame_effects [OF assms] routed_frame_handled_once [OF assms] by blast

theorem routed_frame_trust_witness:
  "(\<exists>ds ws. fx_delivered (es_fx (snd (on_relay_frame sample_env ''b'' sample_relayed (sample_engine [(''b'', active_peer)])))) = ds \<and>
     fx_wire (es_fx (snd (on_relay_frame sample_env ''b'' sample_relayed (sample_engine [(''b'', active_peer)])))) = ws \<and>
     set ds \<subseteq> {(''chat'', ''b'', JStr ''hi'')} \<and> length ds \<le> 1) \<and>
   (let st' = snd (on_relay_frame sample_env ''b'' sample_relayed (sample_engine [(''b'', active_peer)]))
    in on_relay_frame sample_env ''c'' sample_relayed st' = (True, st'))"
proof -
  let ?st = "sample_engine [(''b'', active_peer)]" and ?w = "\<lparr>wr_channel = ''chat'', wr_body = JStr ''hi'', wr_ttl = 2, wr_id = 7\<rparr>"
  have "relay_accepts ?st ''b'' ''b''" "es_routing_seen ?st = []" "fx_delivered (es_fx ?st) = []" "fx_wire (es_fx ?st) = []"
    by (simp_all add: sample_engine_def relay_accepts_def)
  with routed_frame_trust [OF sample_routed [of "''b''"], where e = sample_env and st = ?st and frames = "[]" and f' = "''c''" and
      p' = sample_relayed and dst' = "[]" and w' = ?w and e' = sample_env] sample_routed [of "''c''"]
  show ?thesis by (auto simp: Let_def relay_all_def ROUTING_SEEN_CAPACITY_def)
qed

end
