(* ===== verification/Recovery.thy ===== *)
theory Recovery
  imports Membership
begin

text \<open>
  The pacing machines of \<open>engine/state.rs\<close>: reconnect intents and their backoff, the UDP socket-pressure
  circuit with its process-wide owner count, the relay rescue, and \<open>maybe_reactive_announce\<close> of
  \<open>engine/mod.rs\<close>. Instants are milliseconds of the monotonic clock.
\<close>

section \<open>Clock and counters\<close>

text \<open>\<open>Instant::saturating_duration_since\<close> and \<open>usize::saturating_add(1)\<close>.\<close>

definition duration_since :: "u64 \<Rightarrow> u64 \<Rightarrow> u64" where
  "duration_since now t = (if t \<le> now then now - t else 0)"

definition saturating_inc_usize :: "nat \<Rightarrow> nat" where
  "saturating_inc_usize n = (if n < 2 ^ 64 - 1 then n + 1 else n)"

text \<open>\<open>schedule.get(k).or_else(|| schedule.last()).unwrap_or(d)\<close>.\<close>

definition step_at :: "u64 list \<Rightarrow> u64 \<Rightarrow> nat \<Rightarrow> u64" where
  "step_at schedule d k = (if k < length schedule then schedule ! k else if schedule = [] then d else last schedule)"

definition RECONNECT_RETRY_BACKOFF_MS :: "u64 list" where "RECONNECT_RETRY_BACKOFF_MS = [2000, 4000, 8000, 15000]"
definition RELAY_RESCUE_RETRY_BACKOFF_MS :: "u64 list" where
  "RELAY_RESCUE_RETRY_BACKOFF_MS = [60000, 120000, 240000, 300000]"
definition LOCAL_SOCKET_PROBE_INITIAL_DELAY_MS :: u64 where "LOCAL_SOCKET_PROBE_INITIAL_DELAY_MS = 5000"
definition LOCAL_SOCKET_PROBE_BACKOFF_MS :: "u64 list" where
  "LOCAL_SOCKET_PROBE_BACKOFF_MS = [15000, 30000, 60000, 120000]"
definition LOCAL_SOCKET_RECOVERY_MEMORY_MS :: u64 where "LOCAL_SOCKET_RECOVERY_MEMORY_MS = 120000"
definition REACTIVE_ANNOUNCE_MIN_INTERVAL_MS :: u64 where "REACTIVE_ANNOUNCE_MIN_INTERVAL_MS = 1000"

section \<open>Reconnect intents\<close>

definition advance_backoff :: "u64 \<Rightarrow> reconnect_intent \<Rightarrow> reconnect_intent" where
  "advance_backoff now i =
     i\<lparr>ri_attempt := saturating_inc_usize (ri_attempt i),
       ri_next_retry_at := now + step_at RECONNECT_RETRY_BACKOFF_MS 15000 (ri_attempt i)\<rparr>"

definition has_reconnect_intent :: "engine \<Rightarrow> string \<Rightarrow> bool" where
  "has_reconnect_intent st d \<longleftrightarrow> fmlookup (es_intents st) d \<noteq> None"

text \<open>\<open>map.retain(|_, i| i.sticky || now < i.give_up_at)\<close>.\<close>

definition retain_intents :: "u64 \<Rightarrow> (string, reconnect_intent) fmap \<Rightarrow> (string, reconnect_intent) fmap" where
  "retain_intents now m =
     fmfilter (\<lambda>d. case fmlookup m d of None \<Rightarrow> False | Some i \<Rightarrow> ri_sticky i \<or> now < ri_give_up_at i) m"

definition is_due :: "u64 \<Rightarrow> string set \<Rightarrow> string \<Rightarrow> reconnect_intent \<Rightarrow> bool" where
  "is_due now closing d i \<longleftrightarrow>
     d \<notin> closing \<and> \<not> now < ri_next_retry_at i \<and>
     \<not> (ri_sticky i \<and> length RECONNECT_RETRY_BACKOFF_MS + 2 \<le> ri_attempt i)"

text \<open>The loop over the retained intents: those that \<open>p\<close> picks are reported and back off.\<close>

definition offer_intents :: "env \<Rightarrow> (string \<Rightarrow> reconnect_intent \<Rightarrow> bool) \<Rightarrow> engine \<Rightarrow> string list \<times> engine" where
  "offer_intents e p st =
     (let kept = retain_intents (en_instant e) (es_intents st)
      in (map fst (filter (\<lambda>(d, i). p d i) (sorted_list_of_fmap kept)),
          st\<lparr>es_intents := fmmap_keys (\<lambda>d i. if p d i then advance_backoff (en_instant e) i else i) kept\<rparr>))"

definition due_reconnect_intents :: "env \<Rightarrow> engine \<Rightarrow> string list \<times> engine" where
  "due_reconnect_intents e st = offer_intents e (is_due (en_instant e) (es_closing st)) st"

definition flush_reconnect_intents :: "env \<Rightarrow> engine \<Rightarrow> string list \<times> engine" where
  "flush_reconnect_intents e st = offer_intents e (\<lambda>d i. d \<notin> es_closing st) st"

section \<open>Socket pressure\<close>

definition arm :: "u64 \<Rightarrow> socket_recovery \<Rightarrow> bool \<times> socket_recovery" where
  "arm now w =
     (if lr_active w then (False, w)
      else
        let rapid_reentry = (case lr_last_recovered_at w of None \<Rightarrow> False
              | Some at \<Rightarrow> duration_since now at < LOCAL_SOCKET_RECOVERY_MEMORY_MS);
            level = (if rapid_reentry then max (saturating_inc_usize (lr_backoff_level w)) 1 else 0);
            delay_ms = (if rapid_reentry
              then LOCAL_SOCKET_PROBE_BACKOFF_MS ! (min (level - 1) (length LOCAL_SOCKET_PROBE_BACKOFF_MS - 1))
              else LOCAL_SOCKET_PROBE_INITIAL_DELAY_MS)
        in (True, w\<lparr>lr_active := True, lr_probe_inflight := False, lr_retry_at := Some (now + delay_ms),
                    lr_backoff_level := level\<rparr>))"

definition take_probe_permit :: "u64 \<Rightarrow> socket_recovery \<Rightarrow> bool \<times> socket_recovery" where
  "take_probe_permit now w =
     (if \<not> lr_active w \<or> lr_probe_inflight w then (False, w)
      else if (case lr_retry_at w of None \<Rightarrow> False | Some at \<Rightarrow> now < at) then (False, w)
      else (True, w\<lparr>lr_probe_inflight := True\<rparr>))"

definition finish_probe :: "u64 \<Rightarrow> bool \<Rightarrow> socket_recovery \<Rightarrow> bool \<times> socket_recovery" where
  "finish_probe now success w =
     (if \<not> lr_active w \<or> \<not> lr_probe_inflight w then (False, w)
      else
        let w1 = w\<lparr>lr_probe_inflight := False\<rparr> in
        if success then (True, w1\<lparr>lr_active := False, lr_retry_at := None, lr_last_recovered_at := Some now\<rparr>)
        else
          let delay_ms = LOCAL_SOCKET_PROBE_BACKOFF_MS !
                (min (lr_backoff_level w1) (length LOCAL_SOCKET_PROBE_BACKOFF_MS - 1))
          in (False, w1\<lparr>lr_backoff_level := saturating_inc_usize (lr_backoff_level w1),
                        lr_retry_at := Some (now + delay_ms)\<rparr>))"

text \<open>\<open>fetch_update(|owners| owners.checked_sub(1))\<close>: at zero the count stays.\<close>

definition release_local_socket_pressure_owner :: "nat \<Rightarrow> nat" where
  "release_local_socket_pressure_owner owners = (if owners = 0 then 0 else owners - 1)"

definition local_socket_recovery_active :: "env \<Rightarrow> engine \<Rightarrow> bool" where
  "local_socket_recovery_active e st \<longleftrightarrow> lr_active (es_socket st) \<or> 0 < en_pressure_owners e"

text \<open>The operations of one network, with the process-wide count passed along.\<close>

definition note_local_socket_pressure :: "env \<Rightarrow> engine \<Rightarrow> nat \<Rightarrow> bool \<times> engine \<times> nat" where
  "note_local_socket_pressure e st owners =
     (let (first_for_network, w) = arm (en_instant e) (es_socket st)
      in (first_for_network, st\<lparr>es_socket := w\<rparr>, if first_for_network then owners + 1 else owners))"

definition take_local_socket_probe_permit :: "env \<Rightarrow> engine \<Rightarrow> bool \<times> engine" where
  "take_local_socket_probe_permit e st =
     (let (permit, w) = take_probe_permit (en_instant e) (es_socket st) in (permit, st\<lparr>es_socket := w\<rparr>))"

definition finish_local_socket_probe :: "env \<Rightarrow> bool \<Rightarrow> engine \<Rightarrow> nat \<Rightarrow> bool \<times> engine \<times> nat" where
  "finish_local_socket_probe e success st owners =
     (let (recovered, w) = finish_probe (en_instant e) success (es_socket st)
      in (recovered, st\<lparr>es_socket := w\<rparr>, if recovered then release_local_socket_pressure_owner owners else owners))"

text \<open>\<open>impl Drop for NetworkState\<close>.\<close>

definition drop_network :: "engine \<Rightarrow> nat \<Rightarrow> nat" where
  "drop_network st owners = (if lr_active (es_socket st) then release_local_socket_pressure_owner owners else owners)"

definition defer_ice_restart :: "string \<Rightarrow> bool \<Rightarrow> engine \<Rightarrow> engine" where
  "defer_ice_restart d force st =
     st\<lparr>es_deferred := fmupd d (case fmlookup (es_deferred st) d of None \<Rightarrow> force | Some queued \<Rightarrow> queued \<or> force)
          (es_deferred st)\<rparr>"

definition take_deferred_ice_restarts :: "engine \<Rightarrow> (string \<times> bool) list \<times> engine" where
  "take_deferred_ice_restarts st = (sorted_list_of_fmap (es_deferred st), st\<lparr>es_deferred := fmempty\<rparr>)"

definition clear_deferred_ice_restart :: "string \<Rightarrow> engine \<Rightarrow> engine" where
  "clear_deferred_ice_restart d st = st\<lparr>es_deferred := fmdrop d (es_deferred st)\<rparr>"

section \<open>Relay rescue\<close>

definition take_permit :: "string \<Rightarrow> u64 \<Rightarrow> relay_rescue \<Rightarrow> nat option \<times> relay_rescue" where
  "take_permit peer now w =
     (if (case rw_last_attempt_at w of None \<Rightarrow> False
          | Some t \<Rightarrow> duration_since now t < step_at RELAY_RESCUE_RETRY_BACKOFF_MS 300000 (rw_unconfirmed_attempts w - 1))
      then (None, w)
      else let n = saturating_inc_usize (rw_unconfirmed_attempts w)
           in (Some n, w\<lparr>rw_last_attempt_at := Some now, rw_unconfirmed_attempts := n, rw_awaiting_peer := Some peer\<rparr>))"

definition note_remote_candidate :: "string \<Rightarrow> relay_rescue \<Rightarrow> relay_rescue" where
  "note_remote_candidate peer w =
     (if rw_awaiting_peer w \<noteq> Some peer then w
      else w\<lparr>rw_last_attempt_at := None, rw_unconfirmed_attempts := 0, rw_awaiting_peer := None\<rparr>)"

section \<open>Announcing\<close>

definition maybe_reactive_announce :: "env \<Rightarrow> engine \<Rightarrow> bool \<times> engine" where
  "maybe_reactive_announce e st =
     (if local_socket_recovery_active e st then (False, st)
      else
        let now = en_instant e;
            due = (case es_last_announce st of None \<Rightarrow> True
              | Some prev \<Rightarrow> REACTIVE_ANNOUNCE_MIN_INTERVAL_MS \<le> duration_since now prev)
        in if due
           then (True, st\<lparr>es_last_announce := Some now,
                   es_fx := (es_fx st)\<lparr>fx_signals := fx_signals (es_fx st) @ [Announce]\<rparr>\<rparr>)
           else (False, st))"

section \<open>Backoff of one intent\<close>

lemma backoff_step: "2000 \<le> unat (step_at RECONNECT_RETRY_BACKOFF_MS 15000 k) \<and> unat (step_at RECONNECT_RETRY_BACKOFF_MS 15000 k) \<le> 15000"
  by (simp add: step_at_def RECONNECT_RETRY_BACKOFF_MS_def nth_Cons split: nat.split)

lemma retained: "fmlookup (retain_intents now m) d = Some i \<longleftrightarrow> fmlookup m d = Some i \<and> (ri_sticky i \<or> now < ri_give_up_at i)"
  by (auto simp: retain_intents_def split: option.splits)

lemma retained_None: "fmlookup (retain_intents now m) d = None \<longleftrightarrow>
    (\<forall>i. fmlookup m d = Some i \<longrightarrow> \<not> ri_sticky i \<and> \<not> now < ri_give_up_at i)"
  using retained [of now m d] by (cases "fmlookup (retain_intents now m) d") auto

lemma offered: "d \<in> set (fst (offer_intents e p st)) \<longleftrightarrow>
    (\<exists>i. fmlookup (es_intents st) d = Some i \<and> (ri_sticky i \<or> en_instant e < ri_give_up_at i) \<and> p d i)"
proof -
  have "d \<in> set (fst (offer_intents e p st)) \<longleftrightarrow>
      (\<exists>i. fmlookup (retain_intents (en_instant e) (es_intents st)) d = Some i \<and> p d i)"
    by (force simp: offer_intents_def Let_def in_sorted_list_of_fmap)
  then show ?thesis by (auto simp: retained)
qed

lemma offer_lookup: "fmlookup (es_intents (snd (offer_intents e p st))) d =
    map_option (\<lambda>i. if p d i then advance_backoff (en_instant e) i else i)
      (fmlookup (retain_intents (en_instant e) (es_intents st)) d)"
  by (simp add: offer_intents_def Let_def)

text \<open>
  What happens to the intent for one peer: ticks of the state watch, flushes of all intents after a network change, and further drops of
  the peer while the intent is held. \<open>offers_to\<close> counts the ticks and flushes that re-offer to it, \<open>flushes\<close> the flushes.
\<close>

datatype intent_event = WatchTick env | Flush env | LostAgain env bool

fun event_env :: "intent_event \<Rightarrow> env" where
  "event_env (WatchTick e) = e"
| "event_env (Flush e) = e"
| "event_env (LostAgain e _) = e"

fun offers_to :: "string \<Rightarrow> intent_event list \<Rightarrow> engine \<Rightarrow> nat" where
  "offers_to d [] st = 0"
| "offers_to d (WatchTick e # evs) st =
     of_bool (d \<in> set (fst (due_reconnect_intents e st))) + offers_to d evs (snd (due_reconnect_intents e st))"
| "offers_to d (Flush e # evs) st =
     of_bool (d \<in> set (fst (flush_reconnect_intents e st))) + offers_to d evs (snd (flush_reconnect_intents e st))"
| "offers_to d (LostAgain e sticky # evs) st = offers_to d evs (record_reconnect_intent e d sticky st)"

definition flushes :: "intent_event list \<Rightarrow> nat" where
  "flushes evs = length (filter (\<lambda>ev. \<exists>e. ev = Flush e) evs)"

lemma flushes_simps [simp]:
  "flushes [] = 0" "flushes (Flush e # evs) = Suc (flushes evs)" "flushes (WatchTick e # evs) = flushes evs"
  "flushes (LostAgain e b # evs) = flushes evs"
  by (simp_all add: flushes_def)

text \<open>The clock the events run on, which starts at \<open>t\<close> and never goes back.\<close>

fun clocked :: "u64 \<Rightarrow> intent_event list \<Rightarrow> bool" where
  "clocked t [] = True"
| "clocked t (ev # evs) \<longleftrightarrow> t \<le> en_instant (event_env ev) \<and> clocked (en_instant (event_env ev)) evs"

lemma tick_cases:
  assumes "fmlookup (es_intents st) d = Some i"
  obtains "d \<notin> set (fst (due_reconnect_intents e st))" "fmlookup (es_intents (snd (due_reconnect_intents e st))) d = Some i"
  | "d \<notin> set (fst (due_reconnect_intents e st))" "fmlookup (es_intents (snd (due_reconnect_intents e st))) d = None"
      "\<not> ri_sticky i" "\<not> en_instant e < ri_give_up_at i"
  | "is_due (en_instant e) (es_closing st) d i"
      "fmlookup (es_intents (snd (due_reconnect_intents e st))) d = Some (advance_backoff (en_instant e) i)"
proof (cases "ri_sticky i \<or> en_instant e < ri_give_up_at i")
  case True
  with assms have r: "fmlookup (retain_intents (en_instant e) (es_intents st)) d = Some i" by (simp add: retained)
  show thesis
    by (cases "is_due (en_instant e) (es_closing st) d i")
      (use that assms r in \<open>auto simp: due_reconnect_intents_def offered offer_lookup\<close>)
next
  case False
  with assms have r: "fmlookup (retain_intents (en_instant e) (es_intents st)) d = None" by (simp add: retained_None)
  with False assms show thesis by (intro that(2)) (auto simp: due_reconnect_intents_def offered offer_lookup)
qed

lemma flush_cases:
  assumes "fmlookup (es_intents st) d = Some i" "ri_sticky i \<or> en_instant e < ri_give_up_at i"
  obtains "fmlookup (es_intents (snd (flush_reconnect_intents e st))) d = Some i"
  | "fmlookup (es_intents (snd (flush_reconnect_intents e st))) d = Some (advance_backoff (en_instant e) i)"
proof -
  from assms have "fmlookup (retain_intents (en_instant e) (es_intents st)) d = Some i" by (simp add: retained)
  then show thesis by (cases "d \<in> es_closing st") (use that in \<open>simp_all add: flush_reconnect_intents_def offer_lookup\<close>)
qed

lemma lost_again: "fmlookup (es_intents st) d = Some i \<Longrightarrow>
    fmlookup (es_intents (record_reconnect_intent e d sticky st)) d = Some (i\<lparr>ri_sticky := ri_sticky i \<or> sticky\<rparr>)"
  by (simp add: record_reconnect_intent_def Let_def)

lemma advance_backoff_parts [simp]:
  "ri_sticky (advance_backoff now i) = ri_sticky i" "ri_give_up_at (advance_backoff now i) = ri_give_up_at i"
  "ri_attempt (advance_backoff now i) = saturating_inc_usize (ri_attempt i)"
  by (simp_all add: advance_backoff_def)

lemma no_intent_no_offer:
  "fmlookup (es_intents st) d = None \<Longrightarrow>
     d \<notin> set (fst (due_reconnect_intents e st)) \<and> fmlookup (es_intents (snd (due_reconnect_intents e st))) d = None"
  by (auto simp: due_reconnect_intents_def offered offer_lookup retained_None)

lemma sticky_offers:
  "fmlookup (es_intents st) d = Some i \<Longrightarrow> ri_sticky i \<Longrightarrow> offers_to d evs st \<le> 6 - ri_attempt i + flushes evs"
proof (induction d evs st arbitrary: i rule: offers_to.induct)
  case (2 d e evs st)
  show ?case
  proof (rule tick_cases [OF 2(2), of e])
    assume due: "is_due (en_instant e) (es_closing st) d i"
      and l: "fmlookup (es_intents (snd (due_reconnect_intents e st))) d = Some (advance_backoff (en_instant e) i)"
    from due 2(3) have "ri_attempt i < 6" by (simp add: is_due_def RECONNECT_RETRY_BACKOFF_MS_def)
    then have "saturating_inc_usize (ri_attempt i) = ri_attempt i + 1" by (simp add: saturating_inc_usize_def)
    with 2(1) [OF l] 2(3) \<open>ri_attempt i < 6\<close> show ?thesis by (simp add: of_bool_def) linarith
  qed (use 2 in auto)
next
  case (3 d e evs st)
  have grows: "ri_attempt i \<le> saturating_inc_usize (ri_attempt i) \<or> 6 \<le> saturating_inc_usize (ri_attempt i)" by (auto simp: saturating_inc_usize_def)
  have "offers_to d evs (snd (flush_reconnect_intents e st)) \<le> 6 - ri_attempt i + flushes evs"
  proof (rule flush_cases [OF 3(2), of e])
    assume "fmlookup (es_intents (snd (flush_reconnect_intents e st))) d = Some (advance_backoff (en_instant e) i)"
    from 3(1) [OF this] 3(3) grows show ?thesis by simp linarith
  qed (use 3 in auto)
  then show ?case by (simp add: of_bool_def)
next
  case (4 d e sticky evs st)
  from 4(1) [OF lost_again [OF 4(2)]] 4(3) show ?case by simp
qed simp

text \<open>How many offers a schedule allows within \<open>left\<close> milliseconds.\<close>

function offers_left :: "nat \<Rightarrow> nat \<Rightarrow> nat" where
  "offers_left k left = (if left = 0 then 0
     else 1 + offers_left (saturating_inc_usize k) (left - unat (step_at RECONNECT_RETRY_BACKOFF_MS 15000 k)))"
  by auto
termination
proof (relation "measure snd")
  fix k left :: nat
  assume "left \<noteq> 0"
  with backoff_step [of k] show "((saturating_inc_usize k, left - unat (step_at RECONNECT_RETRY_BACKOFF_MS 15000 k)), (k, left)) \<in> measure snd"
    by (simp add: diff_less)
qed simp

declare offers_left.simps [simp del]

lemma offers_left_mono: "l \<le> l' \<Longrightarrow> offers_left k l \<le> offers_left k l'"
proof (induction k l' arbitrary: l rule: offers_left.induct)
  case (1 k l')
  show ?case
  proof (cases "l = 0")
    case False
    with 1(2) have "l' \<noteq> 0" by simp
    from 1(1) [OF this, of "l - unat (step_at RECONNECT_RETRY_BACKOFF_MS 15000 k)"] 1(2) False \<open>l' \<noteq> 0\<close>
    show ?thesis by (subst (1 2) offers_left.simps) simp
  qed (simp add: offers_left.simps)
qed

lemma backoff_grows:
  "unat (step_at RECONNECT_RETRY_BACKOFF_MS 15000 k) \<le> unat (step_at RECONNECT_RETRY_BACKOFF_MS 15000 (saturating_inc_usize k))"
  by (simp add: step_at_def RECONNECT_RETRY_BACKOFF_MS_def nth_Cons saturating_inc_usize_def split: nat.split)

lemma offers_left_later: "offers_left (saturating_inc_usize k) l \<le> offers_left k l"
proof (induction k l rule: offers_left.induct)
  case (1 k l)
  let ?s = "\<lambda>k. unat (step_at RECONNECT_RETRY_BACKOFF_MS 15000 k)" and ?k = "saturating_inc_usize k"
  show ?case
  proof (cases "l = 0")
    case False
    have "offers_left (saturating_inc_usize ?k) (l - ?s ?k) \<le> offers_left (saturating_inc_usize ?k) (l - ?s k)"
      using backoff_grows [of k] by (intro offers_left_mono) simp
    also have "\<dots> \<le> offers_left ?k (l - ?s k)" by (rule 1 [OF False])
    finally show ?thesis using False by (subst (1 2) offers_left.simps) simp
  qed (simp add: offers_left.simps)
qed

text \<open>
  While the window of an intent is open and its next retry is at most one step of its schedule away, a flush may not move that retry closer.
\<close>

lemma window_offers:
  assumes "fmlookup (es_intents st) d = Some i" "\<not> ri_sticky i" "clocked t evs"
    and "unat (ri_next_retry_at i) \<le> unat t + unat (step_at RECONNECT_RETRY_BACKOFF_MS 15000 (ri_attempt i))"
    and "\<forall>ev \<in> set evs. en_instant (event_env ev) < ri_give_up_at i \<and> (\<forall>e. ev \<noteq> LostAgain e True)"
    and "unat (ri_give_up_at i) + 15000 < 2 ^ 64"
  shows "offers_to d evs st \<le> offers_left (ri_attempt i) (unat (ri_give_up_at i) - unat (ri_next_retry_at i)) + flushes evs"
  using assms
proof (induction d evs st arbitrary: i t rule: offers_to.induct)
  case (2 d e evs st)
  let ?now = "en_instant e" and ?step = "step_at RECONNECT_RETRY_BACKOFF_MS 15000 (ri_attempt i)"
  have lt: "unat ?now < unat (ri_give_up_at i)" using 2(6) by (simp add: word_less_nat_alt)
  have nxt: "unat (ri_next_retry_at (advance_backoff ?now i)) = unat ?now + unat ?step"
    using 2(7) lt backoff_step [of "ri_attempt i"] by (simp add: advance_backoff_def unat_word_ariths)
  show ?case
  proof (rule tick_cases [OF 2(2), of e])
    assume due: "is_due ?now (es_closing st) d i"
      and l: "fmlookup (es_intents (snd (due_reconnect_intents e st))) d = Some (advance_backoff ?now i)"
    from due have ge: "unat (ri_next_retry_at i) \<le> unat ?now" by (simp add: is_due_def word_less_nat_alt)
    let ?left = "unat (ri_give_up_at i) - unat (ri_next_retry_at i)"
    from 2(1) [OF l, of ?now] 2(3-) backoff_grows [of "ri_attempt i"]
    have "offers_to d evs (snd (due_reconnect_intents e st)) \<le>
        offers_left (saturating_inc_usize (ri_attempt i)) (unat (ri_give_up_at i) - (unat ?now + unat ?step)) + flushes evs"
      by (simp add: nxt)
    also have "\<dots> \<le> offers_left (saturating_inc_usize (ri_attempt i)) (?left - unat ?step) + flushes evs"
      using ge by (intro add_right_mono offers_left_mono) simp
    finally show ?thesis using lt ge by (subst offers_left.simps) (simp add: of_bool_def)
  next
    assume "fmlookup (es_intents (snd (due_reconnect_intents e st))) d = Some i" "d \<notin> set (fst (due_reconnect_intents e st))"
    with 2(1) [OF _ 2(3), of ?now] 2(4-) show ?thesis by (simp add: word_le_nat_alt)
  qed (use 2 in auto)
next
  case (3 d e evs st)
  let ?now = "en_instant e" and ?step = "step_at RECONNECT_RETRY_BACKOFF_MS 15000 (ri_attempt i)"
  have lt: "unat ?now < unat (ri_give_up_at i)" and now: "unat t \<le> unat ?now" using 3(4,6) by (simp_all add: word_less_nat_alt word_le_nat_alt)
  have nxt: "unat (ri_next_retry_at (advance_backoff ?now i)) = unat ?now + unat ?step"
    using 3(7) lt backoff_step [of "ri_attempt i"] by (simp add: advance_backoff_def unat_word_ariths)
  let ?left = "unat (ri_give_up_at i) - unat (ri_next_retry_at i)"
  have "offers_to d evs (snd (flush_reconnect_intents e st)) \<le> offers_left (ri_attempt i) ?left + flushes evs"
  proof (rule flush_cases [OF 3(2), of e])
    assume "fmlookup (es_intents (snd (flush_reconnect_intents e st))) d = Some (advance_backoff ?now i)"
    from 3(1) [OF this, of ?now] 3(3-) backoff_grows [of "ri_attempt i"]
    have "offers_to d evs (snd (flush_reconnect_intents e st)) \<le>
        offers_left (saturating_inc_usize (ri_attempt i)) (unat (ri_give_up_at i) - (unat ?now + unat ?step)) + flushes evs"
      by (simp add: nxt)
    also have "\<dots> \<le> offers_left (saturating_inc_usize (ri_attempt i)) ?left + flushes evs"
      using now 3(5) by (intro add_right_mono offers_left_mono) simp
    finally show ?thesis using offers_left_later [of "ri_attempt i" ?left] by simp
  next
    assume "fmlookup (es_intents (snd (flush_reconnect_intents e st))) d = Some i"
    with 3(1) [OF _ 3(3), of ?now] 3(4-) now show ?thesis by simp
  qed (use 3(6) in simp)
  then show ?case by (simp add: of_bool_def)
next
  case (4 d e sticky evs st)
  then have "sticky = False" by simp
  with 4(1) [OF lost_again [OF 4(2)], of "en_instant e"] 4(3-) show ?case by (simp add: word_le_nat_alt)
qed simp

lemma offers_left_grace: "offers_left 0 90000 = 9"
  by (simp add: offers_left.simps step_at_def RECONNECT_RETRY_BACKOFF_MS_def saturating_inc_usize_def)

section \<open>The shared circuit\<close>

text \<open>
  All networks of a process with the owner count. Networks join with a fresh circuit, note pressure, take and
  finish probes, do anything else that leaves the circuit alone, and leave.
\<close>

record pressure_process =
  pp_nets :: "(nat, engine) fmap"
  pp_owners :: nat

inductive pressure_step :: "pressure_process \<Rightarrow> pressure_process \<Rightarrow> bool" where
  join: "fmlookup (pp_nets p) n = None \<Longrightarrow> \<not> lr_active (es_socket st) \<Longrightarrow> \<not> lr_probe_inflight (es_socket st) \<Longrightarrow>
     pressure_step p (p\<lparr>pp_nets := fmupd n st (pp_nets p)\<rparr>)"
| pressure: "fmlookup (pp_nets p) n = Some st \<Longrightarrow> note_local_socket_pressure e st (pp_owners p) = (b, st', k) \<Longrightarrow>
     pressure_step p \<lparr>pp_nets = fmupd n st' (pp_nets p), pp_owners = k\<rparr>"
| permit: "fmlookup (pp_nets p) n = Some st \<Longrightarrow> take_local_socket_probe_permit e st = (b, st') \<Longrightarrow>
     pressure_step p (p\<lparr>pp_nets := fmupd n st' (pp_nets p)\<rparr>)"
| probed: "fmlookup (pp_nets p) n = Some st \<Longrightarrow> finish_local_socket_probe e ok st (pp_owners p) = (b, st', k) \<Longrightarrow>
     pressure_step p \<lparr>pp_nets = fmupd n st' (pp_nets p), pp_owners = k\<rparr>"
| other: "fmlookup (pp_nets p) n = Some st \<Longrightarrow> es_socket st' = es_socket st \<Longrightarrow>
     pressure_step p (p\<lparr>pp_nets := fmupd n st' (pp_nets p)\<rparr>)"
| leave: "fmlookup (pp_nets p) n = Some st \<Longrightarrow>
     pressure_step p \<lparr>pp_nets = fmdrop n (pp_nets p), pp_owners = drop_network st (pp_owners p)\<rparr>"

definition pressure_reachable :: "pressure_process \<Rightarrow> bool" where
  "pressure_reachable p \<longleftrightarrow> pressure_step\<^sup>*\<^sup>* \<lparr>pp_nets = fmempty, pp_owners = 0\<rparr> p"

definition pressured :: "(nat, engine) fmap \<Rightarrow> nat set" where
  "pressured nets = {n. \<exists>st. fmlookup nets n = Some st \<and> lr_active (es_socket st)}"

definition circuit_ok :: "socket_recovery \<Rightarrow> bool" where
  "circuit_ok w \<longleftrightarrow> (lr_probe_inflight w \<longrightarrow> lr_active w) \<and> (lr_active w \<longrightarrow> lr_retry_at w \<noteq> None)"

definition process_ok :: "pressure_process \<Rightarrow> bool" where
  "process_ok p \<longleftrightarrow> pp_owners p = card (pressured (pp_nets p)) \<and> fmpred (\<lambda>n st. circuit_ok (es_socket st)) (pp_nets p)"

lemma pressured_update [simp]:
  "pressured (fmupd n st nets) = (if lr_active (es_socket st) then insert n (pressured nets) else pressured nets - {n})"
  "pressured (fmdrop n nets) = pressured nets - {n}" "pressured fmempty = {}"
  by (auto simp: pressured_def)

lemma finite_pressured [simp]: "finite (pressured nets)"
  by (rule finite_subset [of _ "fmdom' nets"]) (auto simp: pressured_def fmdom'I)

lemma pressured_member: "fmlookup nets n = Some st \<Longrightarrow> n \<in> pressured nets \<longleftrightarrow> lr_active (es_socket st)"
  by (auto simp: pressured_def)

text \<open>One circuit: arming reports exactly the edge to active, a probe exactly the edge back.\<close>

lemma arm_edge: "arm now w = (b, w') \<Longrightarrow> b = (\<not> lr_active w) \<and> lr_active w' \<and> (circuit_ok w \<longrightarrow> circuit_ok w')"
  by (auto simp: arm_def circuit_ok_def Let_def split: if_splits)

lemma permit_edge: "take_probe_permit now w = (b, w') \<Longrightarrow> lr_active w' = lr_active w \<and> (circuit_ok w \<longrightarrow> circuit_ok w')"
  by (auto simp: take_probe_permit_def circuit_ok_def split: if_splits)

lemma probe_edge: "finish_probe now ok w = (b, w') \<Longrightarrow>
    b = (lr_active w \<and> \<not> lr_active w') \<and> (lr_active w' \<longrightarrow> lr_active w) \<and> (circuit_ok w \<longrightarrow> circuit_ok w')"
  by (auto simp: finish_probe_def circuit_ok_def Let_def split: if_splits)

lemma process_ok_step: "pressure_step p p' \<Longrightarrow> process_ok p \<Longrightarrow> process_ok p'"
proof (induction rule: pressure_step.induct)
  case (join p n st)
  then have "n \<notin> pressured (pp_nets p)" by (auto simp: pressured_def)
  with join show ?case by (auto simp: process_ok_def circuit_ok_def)
next
  case (pressure p n st e b st' k)
  obtain b1 w where a: "arm (en_instant e) (es_socket st) = (b1, w)" by (metis prod.exhaust)
  with pressure(2) have "st' = st\<lparr>es_socket := w\<rparr>" "k = (if b1 then pp_owners p + 1 else pp_owners p)"
    by (auto simp: note_local_socket_pressure_def)
  with arm_edge [OF a] pressure(1,3) show ?case
    by (auto simp: process_ok_def pressured_member insert_absorb card_insert_if dest: fmpredD)
next
  case (permit p n st e b st')
  obtain b1 w where a: "take_probe_permit (en_instant e) (es_socket st) = (b1, w)" by (metis prod.exhaust)
  with permit(2) have "st' = st\<lparr>es_socket := w\<rparr>" by (auto simp: take_local_socket_probe_permit_def)
  with permit_edge [OF a] permit(1,3) show ?case
    by (auto simp: process_ok_def pressured_member insert_absorb dest: fmpredD)
next
  case (probed p n st e ok b st' k)
  obtain b1 w where a: "finish_probe (en_instant e) ok (es_socket st) = (b1, w)" by (metis prod.exhaust)
  with probed(2) have "st' = st\<lparr>es_socket := w\<rparr>" "k = (if b1 then release_local_socket_pressure_owner (pp_owners p) else pp_owners p)"
    by (auto simp: finish_local_socket_probe_def)
  with probe_edge [OF a] pressured_member [OF probed(1)] probed(1,3) show ?case
    by (auto simp: process_ok_def insert_absorb release_local_socket_pressure_owner_def card_gt_0_iff dest: fmpredD)
next
  case (other p n st st')
  then have "circuit_ok (es_socket st')" by (auto simp: process_ok_def dest: fmpredD)
  with other show ?case by (auto simp: process_ok_def pressured_member insert_absorb)
next
  case (leave p n st)
  then show ?case
    by (auto simp: process_ok_def pressured_member drop_network_def release_local_socket_pressure_owner_def)
qed

lemma process_ok_reachable: "pressure_reachable p \<Longrightarrow> process_ok p"
  unfolding pressure_reachable_def
  by (induction rule: rtranclp_induct) (auto intro: process_ok_step, simp add: process_ok_def)

section \<open>Announce pacing\<close>

text \<open>A run of reactive triggers, each at the instant of its environment; how many announces went out.\<close>

fun announces :: "env list \<Rightarrow> engine \<Rightarrow> nat" where
  "announces [] st = 0"
| "announces (e # es) st = of_bool (fst (maybe_reactive_announce e st)) + announces es (snd (maybe_reactive_announce e st))"

lemma announce_due:
  assumes "fst (maybe_reactive_announce e st)" "es_last_announce st = Some t" "t \<le> en_instant e"
  shows "unat t + 1000 \<le> unat (en_instant e)"
proof -
  from assms have "1000 \<le> en_instant e - t"
    by (simp add: maybe_reactive_announce_def duration_since_def REACTIVE_ANNOUNCE_MIN_INTERVAL_MS_def Let_def split: if_splits)
  then have "1000 \<le> unat (en_instant e - t)" by (simp add: word_le_nat_alt)
  with assms(3) show ?thesis by (simp add: unat_sub word_le_nat_alt)
qed

lemma announce_result:
  "fst (maybe_reactive_announce e st) \<Longrightarrow> es_last_announce (snd (maybe_reactive_announce e st)) = Some (en_instant e)"
  "\<not> fst (maybe_reactive_announce e st) \<Longrightarrow> maybe_reactive_announce e st = (False, st)"
  by (simp_all add: maybe_reactive_announce_def Let_def split: if_splits)

lemma announce_cases:
  obtains "maybe_reactive_announce e st = (False, st)"
  | "fst (maybe_reactive_announce e st)" "es_last_announce (snd (maybe_reactive_announce e st)) = Some (en_instant e)"
      "\<And>t. es_last_announce st = Some t \<Longrightarrow> t \<le> en_instant e \<Longrightarrow> unat t + 1000 \<le> unat (en_instant e)"
  using announce_result announce_due by blast

lemma announces_after:
  "sorted (map en_instant es) \<Longrightarrow> es_last_announce st = Some t \<Longrightarrow> \<forall>e \<in> set es. t \<le> en_instant e \<and> en_instant e \<le> u \<Longrightarrow>
     1000 * announces es st \<le> unat u - unat t"
proof (induction es arbitrary: st t)
  case (Cons e es)
  show ?case
  proof (rule announce_cases [of e st])
    assume a: "fst (maybe_reactive_announce e st)" "es_last_announce (snd (maybe_reactive_announce e st)) = Some (en_instant e)"
      "\<And>t. es_last_announce st = Some t \<Longrightarrow> t \<le> en_instant e \<Longrightarrow> unat t + 1000 \<le> unat (en_instant e)"
    from Cons.IH [OF _ a(2)] Cons.prems
    have "1000 * announces es (snd (maybe_reactive_announce e st)) \<le> unat u - unat (en_instant e)" by simp
    moreover have "unat t + 1000 \<le> unat (en_instant e)" "unat (en_instant e) \<le> unat u"
      using a(3) Cons.prems by (auto simp: word_le_nat_alt)
    ultimately show ?thesis using a(1) by simp
  qed (use Cons in simp)
qed simp

lemma announces_bound:
  "sorted (map en_instant es) \<Longrightarrow> \<forall>e \<in> set es. t \<le> en_instant e \<and> en_instant e \<le> u \<Longrightarrow>
     announces es st \<le> 1 + (unat u - unat t) div 1000"
proof (induction es arbitrary: st)
  case (Cons e es)
  show ?case
  proof (rule announce_cases [of e st])
    assume a: "fst (maybe_reactive_announce e st)" "es_last_announce (snd (maybe_reactive_announce e st)) = Some (en_instant e)"
    from announces_after [OF _ a(2), of es u] Cons.prems
    have "1000 * announces es (snd (maybe_reactive_announce e st)) \<le> unat u - unat (en_instant e)" by simp
    also have "\<dots> \<le> unat u - unat t" using Cons.prems by (simp add: word_le_nat_alt diff_le_mono2)
    finally have "announces es (snd (maybe_reactive_announce e st)) \<le> (unat u - unat t) div 1000" by (simp add: less_eq_div_iff_mult_less_eq mult.commute)
    with a(1) show ?thesis by simp
  qed (use Cons in simp)
qed simp

section \<open>Properties\<close>

text \<open>
  C36: The socket-pressure circuit is exact across the networks of a process. Whatever the order in which
  networks join, report pressure, probe and leave, the owner count is the number of networks under pressure,
  so a network is paused exactly while some network is; and a network that is not already probing gets its probe once its
  retry instant is reached, whose success takes it off the count.
\<close>

theorem pressure_circuit_shared:
  assumes "pressure_reachable p" "fmlookup (pp_nets p) n = Some st" "en_pressure_owners e = pp_owners p"
  shows "pp_owners p = card (pressured (pp_nets p)) \<and>
     (local_socket_recovery_active e st \<longleftrightarrow> pressured (pp_nets p) \<noteq> {}) \<and>
     (lr_active (es_socket st) \<and> \<not> lr_probe_inflight (es_socket st) \<longrightarrow>
       (\<exists>t. lr_retry_at (es_socket st) = Some t \<and>
         (t \<le> en_instant e \<longrightarrow> (\<exists>st1 st2. take_local_socket_probe_permit e st = (True, st1) \<and>
           finish_local_socket_probe e True st1 (pp_owners p) = (True, st2, pp_owners p - 1) \<and> \<not> lr_active (es_socket st2)))))"
proof -
  from process_ok_reachable [OF assms(1)] have ok: "pp_owners p = card (pressured (pp_nets p))" "circuit_ok (es_socket st)"
    using assms(2) by (auto simp: process_ok_def dest: fmpredD)
  have "local_socket_recovery_active e st \<longleftrightarrow> pressured (pp_nets p) \<noteq> {}"
    using assms(3) ok(1) pressured_member [OF assms(2)] by (auto simp: local_socket_recovery_active_def card_gt_0_iff)
  moreover have "\<exists>t. lr_retry_at (es_socket st) = Some t \<and>
         (t \<le> en_instant e \<longrightarrow> (\<exists>st1 st2. take_local_socket_probe_permit e st = (True, st1) \<and>
           finish_local_socket_probe e True st1 (pp_owners p) = (True, st2, pp_owners p - 1) \<and> \<not> lr_active (es_socket st2)))"
    if "lr_active (es_socket st)" "\<not> lr_probe_inflight (es_socket st)"
    using that ok(2) unfolding circuit_ok_def
    by (auto simp: take_local_socket_probe_permit_def finish_local_socket_probe_def take_probe_permit_def finish_probe_def
        release_local_socket_pressure_owner_def Let_def not_less)
  ultimately show ?thesis using ok(1) by blast
qed

theorem pressure_circuit_shared_witness:
  "local_socket_recovery_active (sample_env\<lparr>en_pressure_owners := 1\<rparr>) (sample_engine [])"
proof -
  let ?st = "sample_engine []" and ?p0 = "\<lparr>pp_nets = fmempty, pp_owners = 0\<rparr>"
  let ?p1 = "?p0\<lparr>pp_nets := fmupd 0 ?st (pp_nets ?p0)\<rparr>"
  let ?p2 = "?p1\<lparr>pp_nets := fmupd 1 ?st (pp_nets ?p1)\<rparr>"
  obtain b st' k where n: "note_local_socket_pressure sample_env ?st (pp_owners ?p2) = (b, st', k)" by (metis prod.exhaust)
  then have k: "k = 1" "lr_active (es_socket st')"
    by (auto simp: note_local_socket_pressure_def arm_def sample_engine_def Let_def)
  let ?p3 = "\<lparr>pp_nets = fmupd 1 st' (pp_nets ?p2), pp_owners = k\<rparr>"
  have s1: "pressure_step ?p0 ?p1" by (rule join) (simp_all add: sample_engine_def)
  have s2: "pressure_step ?p1 ?p2" by (rule join) (simp_all add: sample_engine_def)
  have s3: "pressure_step ?p2 ?p3" by (rule pressure [OF _ n]) simp
  have "pressure_reachable ?p3"
    unfolding pressure_reachable_def using s1 s2 s3 by (meson rtranclp.rtrancl_into_rtrancl rtranclp.rtrancl_refl)
  from pressure_circuit_shared [OF this, of 0 ?st "sample_env\<lparr>en_pressure_owners := 1\<rparr>"] k show ?thesis by simp
qed

text \<open>
  Reactive announces are rate limited: a burst of triggers between the instants \<open>t\<close> and \<open>u\<close>, whatever
  set them off, sends at most one announce per second and one more, and none while the socket circuit is open.
\<close>

theorem announce_rate_limited:
  assumes "sorted (map en_instant es)" "\<forall>e \<in> set es. t \<le> en_instant e \<and> en_instant e \<le> u"
  shows "announces es st \<le> 1 + (unat u - unat t) div 1000 \<and>
     (local_socket_recovery_active e st \<longrightarrow> maybe_reactive_announce e st = (False, st))"
  using announces_bound [OF assms] by (simp add: maybe_reactive_announce_def)

theorem announce_rate_limited_witness:
  "announces [sample_env, sample_env, sample_env\<lparr>en_instant := 1050\<rparr>] (sample_engine []) \<le> 1"
  using announce_rate_limited [of "[sample_env, sample_env, sample_env\<lparr>en_instant := 1050\<rparr>]" 100 1050 "sample_engine []"]
  by (simp add: sample_env_def)



end
