(* ===== verification/Heartbeat.thy ===== *)
theory Heartbeat
  imports Recovery
begin

text \<open>
  \<open>engine/heartbeat.rs\<close>: the keepalive tick, ping and pong, the per-peer clock-skew window and the latched
  skew warning. The warning itself is a log line; the model returns the verdict it is made from. Wall-clock
  values are signed 64-bit words, as in the code; their sums wrap, as in a release build.
\<close>

section \<open>Median\<close>

definition i64_abs :: "i64 \<Rightarrow> i64" where
  "i64_abs w = (if w <s 0 then - w else w)"

definition median :: "i64 list \<Rightarrow> i64 option" where
  "median samples =
     (if samples = [] then None
      else let sorted = sort_key sint samples; n = length sorted in
           if n mod 2 = 1 then Some (sorted ! (n div 2))
           else let a = sorted ! (n div 2 - 1); b = sorted ! (n div 2)
                in Some (if i64_abs a \<le>s i64_abs b then a else b))"

section \<open>The skew watch\<close>

definition SKEW_WINDOW :: nat where "SKEW_WINDOW = 5"
definition SKEW_WARN_MS :: i64 where "SKEW_WARN_MS = 10000"
definition SKEW_CLEAR_MS :: i64 where "SKEW_CLEAR_MS = 5000"
definition SKEW_WARN_TICKS :: u8 where "SKEW_WARN_TICKS = 3"

datatype skew_verdict = SkewWarn i64 nat | SkewClear i64

definition saturating_inc_u8 :: "u8 \<Rightarrow> u8" where
  "saturating_inc_u8 n = (if n = - 1 then n else n + 1)"

definition observe :: "i64 option \<Rightarrow> nat \<Rightarrow> skew_watch \<Rightarrow> skew_verdict option \<times> skew_watch" where
  "observe estimate peers w =
     (case estimate of
        None \<Rightarrow> (None, w\<lparr>sw_over_ticks := 0\<rparr>)
      | Some skew_ms \<Rightarrow>
          if SKEW_WARN_MS \<le>s i64_abs skew_ms
          then let w1 = w\<lparr>sw_over_ticks := saturating_inc_u8 (sw_over_ticks w)\<rparr>
               in if SKEW_WARN_TICKS \<le> sw_over_ticks w1 \<and> \<not> sw_warned w1
                  then (Some (SkewWarn skew_ms peers), w1\<lparr>sw_warned := True\<rparr>) else (None, w1)
          else let w1 = w\<lparr>sw_over_ticks := 0\<rparr>
               in if sw_warned w1 \<and> i64_abs skew_ms \<le>s SKEW_CLEAR_MS
                  then (Some (SkewClear skew_ms), w1\<lparr>sw_warned := False\<rparr>) else (None, w1))"

definition live_skews :: "engine \<Rightarrow> i64 list" where
  "live_skews st =
     List.map_filter (\<lambda>(d, p). pd_clock_skew_ms p)
       (filter (\<lambda>(d, p). pd_status p = Active \<or> pd_status p = Shelved) (peer_list st))"

definition watch_clock_skew :: "engine \<Rightarrow> skew_verdict option \<times> engine" where
  "watch_clock_skew st =
     (let skews = live_skews st;
          (verdict, w) = observe (median skews) (length skews) (es_skew_watch st)
      in (verdict, st\<lparr>es_skew_watch := w\<rparr>))"

section \<open>Ping and pong\<close>

definition send_ping :: "env \<Rightarrow> string \<Rightarrow> engine \<Rightarrow> engine" where
  "send_ping e device_id st =
     (let t = en_wall_ms e;
          st1 = update_peer device_id (\<lambda>d. d\<lparr>pd_last_ping_sent_at := Some (en_instant e), pd_last_ping_t := Some t\<rparr>) st
      in snd (send_to_peer e device_id (Ping t) st1))"

definition skew_sample :: "i64 \<Rightarrow> i64 \<Rightarrow> peer_data \<Rightarrow> i64" where
  "skew_sample t now d =
     (let half_rtt = ucast (case pd_rtt_ms d of None \<Rightarrow> 0 | Some r \<Rightarrow> r) div 2 in t + half_rtt - now)"

definition push_sample :: "i64 \<Rightarrow> peer_data \<Rightarrow> peer_data" where
  "push_sample s d =
     (let samples = pd_clock_skew_samples d @ [s];
          kept = (if SKEW_WINDOW < length samples then tl samples else samples)
      in d\<lparr>pd_clock_skew_samples := kept, pd_clock_skew_ms := median kept\<rparr>)"

definition on_ping :: "env \<Rightarrow> string \<Rightarrow> i64 \<Rightarrow> engine \<Rightarrow> engine" where
  "on_ping e device_id t st =
     (let st1 = (if 0 <s t then update_peer device_id (\<lambda>d. push_sample (skew_sample t (en_wall_ms e) d) d) st else st)
      in snd (send_to_peer e device_id (Pong t) st1))"

definition on_pong :: "env \<Rightarrow> string \<Rightarrow> i64 \<Rightarrow> engine \<Rightarrow> engine" where
  "on_pong e device_id t st =
     update_peer device_id
       (\<lambda>d. if pd_last_ping_t d = Some t
            then d\<lparr>pd_rtt_ms := Some (ucast (if en_wall_ms e - t <s 0 then 0 else en_wall_ms e - t))\<rparr> else d) st"

section \<open>The tick\<close>

definition HEARTBEAT_TIMEOUT_MS :: u64 where "HEARTBEAT_TIMEOUT_MS = 30000"
definition WAKE_DETECTION_THRESHOLD_MS :: u64 where "WAKE_DETECTION_THRESHOLD_MS = 30000 * 2"

definition peer_epoch_matches :: "engine \<Rightarrow> string \<Rightarrow> u64 \<Rightarrow> bool" where
  "peer_epoch_matches st d epoch = (case fmlookup (es_peers st) d of None \<Rightarrow> False | Some p \<Rightarrow> pc_epoch p = epoch)"

definition drop_peer_if_epoch :: "env \<Rightarrow> string \<Rightarrow> u64 \<Rightarrow> drop_reason \<Rightarrow> engine \<Rightarrow> bool \<times> engine" where
  "drop_peer_if_epoch e d epoch reason st = drop_peer_inner e d (Some epoch) reason st"

definition is_silent_peer :: "env \<Rightarrow> peer_data \<Rightarrow> bool" where
  "is_silent_peer e d \<longleftrightarrow>
     (pd_status d = Active \<or> pd_status d = Shelved) \<and>
     (case pd_last_recv_at d of None \<Rightarrow> False
      | Some t \<Rightarrow> HEARTBEAT_TIMEOUT_MS + WAKE_DETECTION_THRESHOLD_MS < duration_since (en_instant e) t)"

definition stale_peers :: "env \<Rightarrow> engine \<Rightarrow> (string \<times> u64) list" where
  "stale_peers e st =
     map (\<lambda>(d, p). (d, pc_epoch p)) (filter (\<lambda>(d, p). is_silent_peer e (pc_data p)) (sorted_list_of_fmap (es_peers st)))"

definition drop_stale :: "env \<Rightarrow> string \<times> u64 \<Rightarrow> bool \<times> engine \<Rightarrow> bool \<times> engine" where
  "drop_stale e = (\<lambda>(peer_id, epoch) (any_dropped, st).
     if \<not> peer_epoch_matches st peer_id epoch then (any_dropped, st)
     else let (dropped, st1) = drop_peer_if_epoch e peer_id epoch HeartbeatTimeout st in (any_dropped \<or> dropped, st1))"

definition heartbeat_tick :: "env \<Rightarrow> engine \<Rightarrow> engine" where
  "heartbeat_tick e st =
     (let st1 = fold (send_ping e) (live_peer_ids st) st;
          st2 = snd (watch_clock_skew st1);
          (any_dropped, st3) = fold (drop_stale e) (stale_peers e st2) (False, st2)
      in if any_dropped then snd (maybe_reactive_announce e st3) else st3)"

section \<open>The median is conservative\<close>

lemma sint_i64_abs: "- (2 ^ 63) < sint w \<Longrightarrow> sint (i64_abs w) = \<bar>sint (w :: i64)\<bar>"
  by (auto simp: i64_abs_def word_sless_alt sint_word_ariths signed_take_bit_int_eq_self_iff)

lemma count_index_set:
  assumes "\<And>i. i \<in> I \<Longrightarrow> i < length xs \<and> P (xs ! i)" "finite I"
  shows "card I \<le> length (filter P xs)"
  using assms by (auto simp: length_filter_conv_card intro!: card_mono)

text \<open>The index of a sorted list the median is taken at.\<close>

definition median_at :: "int list \<Rightarrow> nat \<Rightarrow> bool" where
  "median_at xs i \<longleftrightarrow>
     length xs mod 2 = 1 \<and> i = length xs div 2 \<or>
     length xs mod 2 = 0 \<and> (let a = xs ! (length xs div 2 - 1); b = xs ! (length xs div 2) in
       i = (if \<bar>a\<bar> \<le> \<bar>b\<bar> then length xs div 2 - 1 else length xs div 2))"

text \<open>A median of magnitude \<open>c\<close> or more has a strict majority of samples of that magnitude behind it.\<close>

lemma sorted_majority:
  fixes xs :: "int list"
  assumes "sorted xs" "0 \<le> c" "i < length xs" "c \<le> \<bar>xs ! i\<bar>"
    and "median_at xs i"
  shows "length xs < 2 * length (filter (\<lambda>x. c \<le> \<bar>x\<bar>) xs)"
proof -
  let ?n = "length xs" and ?P = "\<lambda>x. c \<le> \<bar>x\<bar>"
  have up: "?P (xs ! j)" if "0 \<le> xs ! k" "?P (xs ! k)" "k \<le> j" "j < ?n" for j k
    using sorted_nth_mono [OF assms(1) that(3,4)] that(1,2) by linarith
  have down: "?P (xs ! j)" if "xs ! k \<le> 0" "?P (xs ! k)" "j \<le> k" "k < ?n" for j k
    using sorted_nth_mono [OF assms(1) that(3,4)] that(1,2) by linarith
  from assms(5) show ?thesis unfolding median_at_def
  proof
    assume o: "?n mod 2 = 1 \<and> i = ?n div 2"
    show ?thesis
    proof (cases "0 \<le> xs ! i")
      case True
      have "card {i..<?n} \<le> length (filter ?P xs)" by (rule count_index_set) (use up [OF True assms(4)] in auto)
      moreover have "?n = 2 * (?n div 2) + 1" using o by presburger
      ultimately show ?thesis using o by simp
    next
      case False
      have "card {0..i} \<le> length (filter ?P xs)" by (rule count_index_set) (use False down [OF _ assms(4)] assms(3) in auto)
      with o show ?thesis by simp
    qed
  next
    define h where "h = ?n div 2"
    define a b where "a = xs ! (h - 1)" and "b = xs ! h"
    assume o: "?n mod 2 = 0 \<and> (let a = xs ! (?n div 2 - 1); b = xs ! (?n div 2) in
        i = (if \<bar>a\<bar> \<le> \<bar>b\<bar> then ?n div 2 - 1 else ?n div 2))"
    then have n: "?n = 2 * h" and i: "i = (if \<bar>a\<bar> \<le> \<bar>b\<bar> then h - 1 else h)"
      by (auto simp: h_def a_def b_def Let_def)
    with assms(3) have h: "0 < h" "h < ?n" by auto
    have P: "?P a" "?P b" using assms(4) i by (auto simp: a_def b_def split: if_splits)
    have ab: "a \<le> b" unfolding a_def b_def using h by (intro sorted_nth_mono [OF assms(1)]) auto
    consider "0 \<le> a" | "b \<le> 0" | "a < 0" "0 < b" by linarith
    then have "\<exists>I. finite I \<and> h < card I \<and> (\<forall>j\<in>I. j < ?n \<and> ?P (xs ! j))"
    proof cases
      case 1
      then show ?thesis using up [of "h - 1"] P(1) h n by (intro exI [of _ "{h - 1..<?n}"]) (auto simp: a_def)
    next
      case 2
      then show ?thesis using down [of h] P(2) h n by (intro exI [of _ "{0..h}"]) (auto simp: b_def)
    next
      case 3
      have "?P (xs ! j)" if "j < ?n" for j
        using that up [of h j] down [of "h - 1" j] P 3 h by (cases "h \<le> j") (auto simp: a_def b_def)
      then show ?thesis using h n by (intro exI [of _ "{0..<?n}"]) auto
    qed
    then obtain I where I: "finite I" "h < card I" "\<forall>j\<in>I. j < ?n \<and> ?P (xs ! j)" by blast
    then have "card I \<le> length (filter ?P xs)" by (intro count_index_set) auto
    with I n show ?thesis by simp
  qed
qed

lemma median_index:
  assumes "median samples = Some m" "\<forall>s \<in> set samples. - (2 ^ 63) < sint s"
  defines "xs \<equiv> map sint (sort_key sint samples)"
  shows "\<exists>i < length xs. sint m = xs ! i \<and> median_at xs i"
proof -
  let ?s = "sort_key sint samples" and ?n = "length samples"
  from assms(1) have ne: "samples \<noteq> []" by (auto simp: median_def)
  then have n: "0 < ?n" by simp
  have ab: "sint (i64_abs (?s ! j)) = \<bar>sint (?s ! j)\<bar>" if "j < ?n" for j
  proof (rule sint_i64_abs)
    from that have "?s ! j \<in> set ?s" by (intro nth_mem) simp
    with assms(2) show "- (2 ^ 63) < sint (?s ! j)" by simp
  qed
  show ?thesis
  proof (cases "?n mod 2 = 1")
    case True
    with assms(1) ne n show ?thesis
      by (intro exI [of _ "?n div 2"]) (auto simp: median_def xs_def median_at_def Let_def)
  next
    case False
    then have e: "?n mod 2 = 0" "?n div 2 < ?n" "?n div 2 - 1 < ?n" using n by presburger+
    let ?a = "?s ! (?n div 2 - 1)" and ?b = "?s ! (?n div 2)"
    from assms(1) False ne have "m = (if i64_abs ?a \<le>s i64_abs ?b then ?a else ?b)" by (auto simp: median_def Let_def split: if_splits)
    then have "m = (if \<bar>sint ?a\<bar> \<le> \<bar>sint ?b\<bar> then ?a else ?b)" using ab e(2,3) by (simp add: word_sle_eq)
    then show ?thesis using e
      by (intro exI [of _ "if \<bar>sint ?a\<bar> \<le> \<bar>sint ?b\<bar> then ?n div 2 - 1 else ?n div 2"]) (simp add: xs_def median_at_def Let_def)
  qed
qed

lemma filter_sort_key: "length (filter P (sort_key f xs)) = length (filter P xs)"
  by (metis mset_filter mset_sort size_mset)

lemma median_majority:
  assumes "median samples = Some m" "\<forall>s \<in> set samples. - (2 ^ 63) < sint s" "0 \<le> c" "c \<le> \<bar>sint m\<bar>"
  shows "length samples < 2 * length (filter (\<lambda>s. c \<le> \<bar>sint s\<bar>) samples)"
proof -
  let ?xs = "map sint (sort_key sint samples)"
  from median_index [OF assms(1,2)] obtain i where i: "i < length ?xs" "sint m = ?xs ! i" "median_at ?xs i" by blast
  have "sorted ?xs" "c \<le> \<bar>?xs ! i\<bar>" using assms(4) i(2) by simp_all
  from sorted_majority [OF this(1) assms(3) i(1) this(2) i(3)]
  have "length ?xs < 2 * length (filter (\<lambda>x. c \<le> \<bar>x\<bar>) ?xs)" .
  then show ?thesis by (simp add: filter_map comp_def filter_sort_key)
qed

lemma median_member: "median samples = Some m \<Longrightarrow> m \<in> set samples"
proof -
  assume m: "median samples = Some m"
  then have n: "0 < length samples" by (auto simp: median_def)
  have "sort_key sint samples ! j \<in> set samples" if "j < length samples" for j
    using that nth_mem [of j "sort_key sint samples"] by simp
  moreover have "length samples div 2 < length samples" "length samples div 2 - 1 < length samples" using n by linarith+
  ultimately show ?thesis using m by (auto simp del: One_nat_def simp: median_def Let_def split: if_splits)
qed

section \<open>Samples\<close>

text \<open>
  \<open>window_ok\<close>: the sample window is bounded, its estimate is the median, and no sample is the one value
  whose absolute value does not fit.
\<close>

definition window_ok :: "peer_data \<Rightarrow> bool" where
  "window_ok d \<longleftrightarrow> length (pd_clock_skew_samples d) \<le> SKEW_WINDOW \<and>
     (\<forall>s \<in> set (pd_clock_skew_samples d). - (2 ^ 63) < sint s) \<and> pd_clock_skew_ms d = median (pd_clock_skew_samples d)"

lemma half_rtt: "sint (ucast (r :: u32) div 2 :: i64) = uint r div 2"
proof -
  have u: "uint (ucast r :: i64) = uint r" by (simp add: uint_up_ucast is_up)
  have "uint (ucast r div 2 :: i64) = uint r div 2" by (simp add: uint_div u)
  moreover have "uint r < 2 ^ 32" using uint_lt2p [of r] by simp
  moreover have "0 \<le> uint r div 2" "uint r div 2 \<le> uint r" using uint_ge_0 [of r] by linarith+
  ultimately show ?thesis by (simp only: sint_uint) (simp add: signed_take_bit_int_eq_self_iff)
qed

lemma skew_sample_exact:
  assumes "0 <s t" "uint (case pd_rtt_ms d of None \<Rightarrow> 0 | Some r \<Rightarrow> r) div 2 \<le> sint now"
  shows "sint (skew_sample t now d) = sint t + uint (case pd_rtt_ms d of None \<Rightarrow> 0 | Some r \<Rightarrow> r) div 2 - sint now"
    "- (2 ^ 63) < sint (skew_sample t now d)"
proof -
  let ?r = "case pd_rtt_ms d of None \<Rightarrow> 0 | Some r \<Rightarrow> r"
  let ?h = "uint ?r div 2"
  have "skew_sample t now d = word_of_int (sint t) + word_of_int (sint (ucast ?r div 2 :: i64)) - word_of_int (sint now)"
    by (simp add: skew_sample_def Let_def)
  also have "\<dots> = word_of_int (sint t + ?h - sint now)" by (simp only: half_rtt flip: of_int_add of_int_diff)
  finally have st: "sint (skew_sample t now d) = signed_take_bit 63 (sint t + ?h - sint now)"
    by (simp only:) (simp del: of_int_add of_int_diff add: signed_of_int)
  obtain h where h: "h = ?h" "0 \<le> h" by (simp add: pos_imp_zdiv_nonneg_iff)
  have range: "- (2 ^ 63) < sint t + ?h - sint now" "sint t + ?h - sint now < 2 ^ 63"
    using assms h(2) sint_less [of t] sint_less [of now] unfolding h(1) [symmetric] by (simp_all add: word_sless_alt)
  then show "sint (skew_sample t now d) = sint t + ?h - sint now" unfolding st by (intro signed_take_bit_int_eq_self) simp_all
  with range(1) show "- (2 ^ 63) < sint (skew_sample t now d)" by simp
qed

lemma window_ok_push: "window_ok d \<Longrightarrow> - (2 ^ 63) < sint s \<Longrightarrow> window_ok (push_sample s d)"
  by (cases "pd_clock_skew_samples d") (auto simp: window_ok_def push_sample_def SKEW_WINDOW_def Let_def)

lemma push_last: "last (pd_clock_skew_samples (push_sample s d)) = s" "pd_clock_skew_samples (push_sample s d) \<noteq> []"
  by (cases "pd_clock_skew_samples d"; simp add: push_sample_def SKEW_WINDOW_def Let_def)+

lemma live_skews_range:
  assumes "\<forall>d p. peer_of st d = Some p \<longrightarrow> window_ok p" "s \<in> set (live_skews st)"
  shows "- (2 ^ 63) < sint s"
proof -
  from assms(2) obtain d p where "peer_of st d = Some p" "pd_clock_skew_ms p = Some s"
    by (auto simp: live_skews_def List.map_filter_def in_peer_list)
  with assms(1) have "window_ok p" "median (pd_clock_skew_samples p) = Some s" by (auto simp: window_ok_def)
  then show ?thesis using median_member by (auto simp: window_ok_def)
qed

section \<open>The latch\<close>

definition over :: "i64 option \<Rightarrow> bool" where
  "over estimate \<longleftrightarrow> (case estimate of None \<Rightarrow> False | Some s \<Rightarrow> SKEW_WARN_MS \<le>s i64_abs s)"

text \<open>The verdicts of a run of ticks, and the length of the streak of disagreeing ticks at its end.\<close>

fun watch_run :: "(i64 option \<times> nat) list \<Rightarrow> skew_watch \<Rightarrow> skew_verdict list \<times> skew_watch" where
  "watch_run [] w = ([], w)"
| "watch_run ((x, n) # xs) w =
     (let (v, w1) = observe x n w; (vs, w2) = watch_run xs w1 in ((case v of None \<Rightarrow> vs | Some a \<Rightarrow> a # vs), w2))"

definition streak :: "(i64 option \<times> nat) list \<Rightarrow> nat" where
  "streak xs = length (takeWhile (over \<circ> fst) (rev xs))"

fun is_warn :: "skew_verdict \<Rightarrow> bool" where
  "is_warn (SkewWarn _ _) = True"
| "is_warn (SkewClear _) = False"

lemma watch_run_snoc:
  "watch_run (xs @ [(x, n)]) w =
     (let (vs, w1) = watch_run xs w; (v, w2) = observe x n w1 in ((case v of None \<Rightarrow> vs | Some a \<Rightarrow> vs @ [a]), w2))"
  by (induction xs w rule: watch_run.induct) (auto simp: Let_def split: prod.split option.split)

lemma streak_snoc: "streak (xs @ [(x, n)]) = (if over x then Suc (streak xs) else 0)"
  by (simp add: streak_def)

lemma unat_saturating_inc_u8: "unat (saturating_inc_u8 n) = min 255 (Suc (unat n))"
proof (cases "n = - 1")
  case True
  then have "unat n = 255" by (simp add: unsigned_minus_1_eq_mask mask_eq_exp_minus_1)
  with True show ?thesis by (simp add: saturating_inc_u8_def)
next
  case False
  then have "n + 1 \<noteq> 0" by (metis add_eq_0_iff2)
  then have "unat (n + 1) = Suc (unat n)" by (simp add: unatSuc add.commute)
  moreover have "unat (n + 1) \<le> 255" using unsigned_less [of "n + 1", where 'a = nat] by simp
  ultimately show ?thesis using False by (simp add: saturating_inc_u8_def)
qed

lemma observe_cases:
  "observe x n w =
     (if over x then (if 3 \<le> min 255 (Suc (unat (sw_over_ticks w))) \<and> \<not> sw_warned w
          then (Some (SkewWarn (the x) n), w\<lparr>sw_over_ticks := saturating_inc_u8 (sw_over_ticks w), sw_warned := True\<rparr>)
          else (None, w\<lparr>sw_over_ticks := saturating_inc_u8 (sw_over_ticks w)\<rparr>))
      else if x \<noteq> None \<and> sw_warned w \<and> i64_abs (the x) \<le>s SKEW_CLEAR_MS
        then (Some (SkewClear (the x)), w\<lparr>sw_over_ticks := 0, sw_warned := False\<rparr>) else (None, w\<lparr>sw_over_ticks := 0\<rparr>))"
  by (auto simp: observe_def over_def Let_def SKEW_WARN_TICKS_def word_le_nat_alt unat_saturating_inc_u8 split: option.split)

text \<open>Verdicts alternate, starting with a warning.\<close>

fun alternate :: "bool \<Rightarrow> skew_verdict list \<Rightarrow> bool" where
  "alternate warned [] = True"
| "alternate warned (v # vs) = (is_warn v \<noteq> warned \<and> alternate (is_warn v) vs)"

lemma alternate_snoc: "alternate b (vs @ [v]) \<longleftrightarrow> alternate b vs \<and> is_warn v \<noteq> (if vs = [] then b else is_warn (last vs))"
  by (induction b vs rule: alternate.induct) auto

lemma watch_inv:
  "watch_run xs \<lparr>sw_over_ticks = 0, sw_warned = False\<rparr> = (vs, w) \<Longrightarrow>
     unat (sw_over_ticks w) = min 255 (streak xs) \<and> sw_warned w = (vs \<noteq> [] \<and> is_warn (last vs)) \<and> alternate False vs"
proof (induction xs arbitrary: vs w rule: rev_induct)
  case (snoc a xs)
  obtain x n where a: "a = (x, n)" by (cases a)
  obtain us w1 where r: "watch_run xs \<lparr>sw_over_ticks = 0, sw_warned = False\<rparr> = (us, w1)" by (metis prod.exhaust)
  from snoc.IH [OF r] have ih: "unat (sw_over_ticks w1) = min 255 (streak xs)"
    "sw_warned w1 = (us \<noteq> [] \<and> is_warn (last us))" "alternate False us" by auto
  from snoc.prems r show ?case unfolding a watch_run_snoc Let_def observe_cases
    using ih by (auto simp: alternate_snoc streak_snoc unat_saturating_inc_u8 split: if_splits)
qed (simp add: streak_def)

section \<open>What a drop leaves of the other peers\<close>

text \<open>The slot of a peer: whether an earlier session is still closing, and the epoch of its entry.\<close>

definition slot :: "engine \<Rightarrow> string \<Rightarrow> bool \<times> u64 option" where
  "slot st k = (k \<in> es_closing st, map_option pc_epoch (fmlookup (es_peers st) k))"

lemma slot_same_core: "same_core st st' \<Longrightarrow> slot st' k = slot st k"
  by (simp add: slot_def same_core_fields)

lemma slot_primitives [simp]:
  "slot (snd (send_to_peer e d m st)) k = slot st k" "slot (emit ev st) k = slot st k" "slot (spawn t st) k = slot st k"
  "slot (reply r st) k = slot st k" "slot (update_peer d f st) k = slot st k" "slot (put_outbox d ob st) k = slot st k"
  "slot (st\<lparr>es_intents := ri\<rparr>) k = slot st k" "slot (st\<lparr>es_out := out\<rparr>) k = slot st k"
  "slot (st\<lparr>es_waiters := ws\<rparr>) k = slot st k" "slot (st\<lparr>es_phase := ph\<rparr>) k = slot st k"
  "slot (st\<lparr>es_skew_watch := sw\<rparr>) k = slot st k" "slot (st\<lparr>es_last_announce := la\<rparr>) k = slot st k"
  "slot (st\<lparr>es_fx := fx\<rparr>) k = slot st k"
  by (simp_all add: slot_same_core) (auto simp: slot_def update_peer_def put_outbox_def split: option.split)

lemma slot_fold: "(\<And>x s. slot (f x s) k = slot s k) \<Longrightarrow> slot (fold f xs st) k = slot st k"
  by (induction xs arbitrary: st) simp_all

lemma slot_after_drop [simp]: "slot (after_drop e d r st) k = slot st k"
  by (simp add: after_drop_def mark_unsent_def fail_peer_def record_reconnect_intent_def clear_reconnect_intent_def
      resolve_connect_waiters_def Let_def slot_fold split: option.split)

lemma slot_ladder [simp]: "slot (recompute st) k = slot st k" "slot (reevaluate_topology e st) k = slot st k"
  by (simp_all add: recompute_def set_phase_def reevaluate_topology_def shelve_one_def send_shelve_unshelve_def Let_def slot_fold
      split: option.split)

lemma slot_peer: "snd (slot st k) = None \<longleftrightarrow> peer_of st k = None"
  by (simp add: slot_def peer_of_def)

lemma drop_other:
  assumes "k \<noteq> d"
  shows "slot (snd (drop_peer_inner e d ep r st)) k = slot st k"
proof (cases "fst (drop_peer_inner e d ep r st)")
  case True
  then obtain p where p: "fmlookup (es_peers st) d = Some p" "d \<notin> es_closing st"
    by (auto simp: drop_peer_inner_def split: if_splits option.splits)
  define s1 where "s1 = st\<lparr>es_closing := insert d (es_closing st), es_peers := fmdrop d (es_peers st), es_deferred := fmdrop d (es_deferred st)\<rparr>"
  have s1: "slot s1 k = slot st k" using assms by (simp add: slot_def s1_def)
  have cl: "slot (s\<lparr>es_closing := es_closing s - {d}\<rparr>) k = slot s k" for s using assms by (simp add: slot_def)
  show ?thesis using p True by (simp add: drop_peer_inner_def Let_def s1 cl flip: s1_def)
next
  case False
  then have "snd (drop_peer_inner e d ep r st) = st" by (auto simp: drop_peer_inner_def Let_def split: if_splits option.splits)
  then show ?thesis by simp
qed

lemma drop_if_epoch:
  "peer_epoch_matches st d ep \<Longrightarrow> drop_peer_if_epoch e d ep r st = drop_peer_inner e d None r st"
  by (auto simp: drop_peer_if_epoch_def drop_peer_inner_def peer_epoch_matches_def split: option.splits)

lemma drop_stale_snd:
  "snd (drop_stale e (d, ep) (b, st)) = (if peer_epoch_matches st d ep then drop_peer e d HeartbeatTimeout st else st)"
  by (simp add: drop_stale_def drop_if_epoch drop_peer_def split: prod.split)

text \<open>A peer keeps its slot and its authentication.\<close>

definition kept :: "engine \<Rightarrow> engine \<Rightarrow> string \<Rightarrow> bool" where
  "kept st st' k \<longleftrightarrow> slot st' k = slot st k \<and>
     map_option pd_authenticated (peer_of st' k) = map_option pd_authenticated (peer_of st k)"

lemma kept_refl [simp]: "kept st st k"
  by (simp add: kept_def)

lemma kept_trans: "kept st st1 k \<Longrightarrow> kept st1 st2 k \<Longrightarrow> kept st st2 k"
  by (simp add: kept_def)

lemma drop_peer_kept: "k \<noteq> d \<Longrightarrow> kept st (drop_peer e d r st) k"
  unfolding kept_def
proof
  assume k: "k \<noteq> d"
  show "slot (drop_peer e d r st) k = slot st k" by (simp add: drop_peer_def drop_other [OF k])
  show "map_option pd_authenticated (peer_of (drop_peer e d r st) k) = map_option pd_authenticated (peer_of st k)"
    by (rule drop_peer_cases [of e d r st]) (use k in \<open>auto simp: reevaluate_peer option.map_comp comp_def\<close>)
qed

lemma stale_fold_kept:
  "k \<notin> fst ` set L \<Longrightarrow> kept st (snd (fold (drop_stale e) L (b, st))) k"
proof (induction L arbitrary: b st)
  case (Cons x L)
  obtain d ep where x: "x = (d, ep)" by (cases x)
  obtain b1 st1 where s: "drop_stale e x (b, st) = (b1, st1)" by (metis prod.exhaust)
  have "st1 = (if peer_epoch_matches st d ep then drop_peer e d HeartbeatTimeout st else st)"
    using drop_stale_snd [of e d ep b st] s x by simp
  then have "kept st st1 k" using Cons.prems x by (simp add: drop_peer_kept)
  moreover have "kept st1 (snd (fold (drop_stale e) L (b1, st1))) k" using Cons by simp
  ultimately show ?case using kept_trans [of st st1] by (simp add: s)
qed simp

lemma stale_fold_drops:
  assumes "distinct (map fst L)" "(k, ep) \<in> set L" "slot st k = (False, Some ep)"
  shows "peer_of (snd (fold (drop_stale e) L (b, st))) k = None"
  using assms
proof (induction L arbitrary: b st)
  case (Cons x L)
  obtain b1 st1 where s: "drop_stale e x (b, st) = (b1, st1)" by (metis prod.exhaust)
  have st1: "st1 = (if peer_epoch_matches st (fst x) (snd x) then drop_peer e (fst x) HeartbeatTimeout st else st)"
    using drop_stale_snd [of e "fst x" "snd x" b st] s by simp
  show ?case
  proof (cases "x = (k, ep)")
    case True
    from Cons.prems(3) have "k \<notin> es_closing st" "peer_epoch_matches st k ep" by (auto simp: slot_def peer_epoch_matches_def)
    with st1 True have "peer_of st1 k = None" by (simp add: drop_peer_gone)
    moreover have "kept st1 (snd (fold (drop_stale e) L (b1, st1))) k"
      by (rule stale_fold_kept) (use Cons.prems(1) True in auto)
    ultimately show ?thesis using s by (simp add: kept_def)
  next
    case False
    with Cons.prems(1,2) have k: "(k, ep) \<in> set L" "fst x \<noteq> k" by (auto simp: image_iff)
    then have "slot st1 k = slot st k" using st1 drop_peer_kept [of k "fst x" st e HeartbeatTimeout] by (simp add: kept_def)
    with Cons k(1) s show ?thesis by simp
  qed
qed simp

text \<open>Pinging and the skew watch change nothing the staleness test reads.\<close>

definition pulse :: "engine \<Rightarrow> string \<Rightarrow> (peer_status \<times> u64 option \<times> bool) option" where
  "pulse st k = map_option (\<lambda>p. (pd_status p, pd_last_recv_at p, pd_authenticated p)) (peer_of st k)"

lemma send_ping_pulse: "pulse (send_ping e d st) k = pulse st k \<and> slot (send_ping e d st) k = slot st k"
  by (auto simp: send_ping_def pulse_def Let_def option.map_comp comp_def)

lemma pings_pulse: "pulse (fold (send_ping e) ds st) k = pulse st k \<and> slot (fold (send_ping e) ds st) k = slot st k"
  by (induction ds arbitrary: st) (simp_all add: send_ping_pulse)

lemma skew_pulse: "pulse (snd (watch_clock_skew st)) k = pulse st k \<and> slot (snd (watch_clock_skew st)) k = slot st k"
  by (auto simp: watch_clock_skew_def pulse_def peer_of_def Let_def split: prod.split)

lemma announce_pulse: "pulse (snd (maybe_reactive_announce e st)) k = pulse st k"
  by (simp add: maybe_reactive_announce_def pulse_def peer_of_def Let_def)

lemma stale_peers_iff:
  "(k, ep) \<in> set (stale_peers e st) \<longleftrightarrow> (\<exists>p. peer_of st k = Some p \<and> is_silent_peer e p \<and> snd (slot st k) = Some ep)"
proof -
  have "(k, ep) \<in> set (stale_peers e st) \<longleftrightarrow>
      (\<exists>c. (k, c) \<in> set (sorted_list_of_fmap (es_peers st)) \<and> is_silent_peer e (pc_data c) \<and> ep = pc_epoch c)"
    unfolding stale_peers_def by (force simp del: in_sorted_list_of_fmap)
  then show ?thesis by (auto simp: peer_of_def slot_def)
qed

lemma distinct_stale: "distinct (map fst (stale_peers e st))"
proof -
  have "map fst (stale_peers e st) = map fst (filter (\<lambda>(d, p). is_silent_peer e (pc_data p)) (sorted_list_of_fmap (es_peers st)))"
    by (simp add: stale_peers_def case_prod_beta comp_def)
  then show ?thesis by (simp add: distinct_map_filter)
qed

section \<open>Properties\<close>

text \<open>
  The clock-skew window. From an arriving ping the window gains the exact skew of the sender's clock,
  corrected by half the round trip, although the intermediate sum may wrap, for any positive stamp a peer
  chooses to send and any clock past the first weeks of 1970; the window keeps its bound, its estimate is
  its median, and the stamp is echoed.
\<close>

theorem ping_sample_exact:
  assumes "peer_of st d = Some p" "window_ok p" "0 <s t"
    and "uint (case pd_rtt_ms p of None \<Rightarrow> 0 | Some r \<Rightarrow> r) div 2 \<le> sint (en_wall_ms e)"
  shows "\<exists>p'. peer_of (on_ping e d t st) d = Some p' \<and> window_ok p' \<and> pd_clock_skew_samples p' \<noteq> [] \<and>
     sint (last (pd_clock_skew_samples p')) =
       sint t + uint (case pd_rtt_ms p of None \<Rightarrow> 0 | Some r \<Rightarrow> r) div 2 - sint (en_wall_ms e)"
proof -
  let ?p' = "push_sample (skew_sample t (en_wall_ms e) p) p"
  from skew_sample_exact [OF assms(3,4)] window_ok_push [OF assms(2)] have "window_ok ?p'" by blast
  moreover have "peer_of (on_ping e d t st) d = Some ?p'"
    using assms(1,3) by (simp add: on_ping_def Let_def)
  ultimately show ?thesis using skew_sample_exact(1) [OF assms(3,4)] by (auto simp: push_last)
qed

theorem ping_sample_exact_witness:
  "\<exists>p'. peer_of (on_ping sample_env ''b'' 160000 (sample_engine [(''b'', active_peer)])) ''b'' = Some p' \<and>
     sint (last (pd_clock_skew_samples p')) = 60000"
proof -
  let ?st = "sample_engine [(''b'', active_peer)]"
  have "peer_of ?st ''b'' = Some active_peer" by (simp add: sample_engine_def peer_of_def sample_peer_def)
  moreover have "window_ok active_peer" by (simp add: window_ok_def active_peer_def default_peer_data_def median_def SKEW_WINDOW_def)
  ultimately show ?thesis
    using ping_sample_exact [of ?st "''b''" active_peer 160000 sample_env]
    by (auto simp: active_peer_def default_peer_data_def sample_env_def word_sless_alt)
qed

text \<open>
  The clock warning. It is raised only when a strict majority of the live peers with a measurement
  disagree with our clock by \<open>SKEW_WARN_MS\<close> or more, and only at the end of at least \<open>SKEW_WARN_TICKS\<close>
  disagreeing ticks in a row; over any run of ticks warnings and all-clears alternate, a warning first.
\<close>

theorem skew_warning_sound:
  assumes "\<forall>d p. peer_of st d = Some p \<longrightarrow> window_ok p"
    and "watch_run xs \<lparr>sw_over_ticks = 0, sw_warned = False\<rparr> = (vs, es_skew_watch st)"
    and "fst (watch_clock_skew st) = Some (SkewWarn m n)"
  shows "n = length (live_skews st) \<and> n < 2 * length (filter (\<lambda>s. 10000 \<le> \<bar>sint s\<bar>) (live_skews st)) \<and>
     2 \<le> streak xs \<and> alternate False (vs @ [SkewWarn m n])"
proof -
  let ?x = "median (live_skews st)" and ?n = "length (live_skews st)" and ?w = "es_skew_watch st"
  from assms(3) have o: "fst (observe ?x ?n ?w) = Some (SkewWarn m n)"
    by (auto simp: watch_clock_skew_def Let_def split: prod.splits)
  then have x: "over ?x" "the ?x = m" "n = ?n" "3 \<le> min 255 (Suc (unat (sw_over_ticks ?w)))" "\<not> sw_warned ?w"
    by (auto simp: observe_cases split: if_splits)
  then have m: "?x = Some m" by (auto simp: over_def split: option.splits)
  have range: "\<forall>s \<in> set (live_skews st). - (2 ^ 63) < sint s" using live_skews_range [OF assms(1)] by blast
  then have "- (2 ^ 63) < sint m" using median_member [OF m] by blast
  with x(1) m have big: "10000 \<le> \<bar>sint m\<bar>" by (simp add: over_def SKEW_WARN_MS_def word_sle_eq sint_i64_abs)
  from watch_inv [OF assms(2)] x(4,5) have "2 \<le> streak xs" "alternate False (vs @ [SkewWarn m n])"
    by (auto simp: alternate_snoc)
  with median_majority [OF m range _ big] x(3) show ?thesis by simp
qed

definition skewed_engine :: engine where
  "skewed_engine = (sample_engine [(''b'', active_peer\<lparr>pd_clock_skew_samples := [60000], pd_clock_skew_ms := Some 60000\<rparr>)])
     \<lparr>es_skew_watch := \<lparr>sw_over_ticks = 2, sw_warned = False\<rparr>\<rparr>"

theorem skew_warning_sound_witness:
  "length (live_skews skewed_engine) < 2 * length (filter (\<lambda>s. 10000 \<le> \<bar>sint s\<bar>) (live_skews skewed_engine))"
proof -
  have w: "\<forall>d p. peer_of skewed_engine d = Some p \<longrightarrow> window_ok p"
    by (auto simp: skewed_engine_def sample_engine_def peer_of_def sample_peer_def window_ok_def median_def SKEW_WINDOW_def split: if_splits)
  have r: "watch_run [(Some 60000, 1), (Some 60000, 1)] \<lparr>sw_over_ticks = 0, sw_warned = False\<rparr> = ([], es_skew_watch skewed_engine)"
    by code_simp
  have v: "fst (watch_clock_skew skewed_engine) = Some (SkewWarn 60000 1)" by code_simp
  from skew_warning_sound [OF w r v] show ?thesis by simp
qed

text \<open>
  C38: The heartbeat tick reclaims exactly the silent peers: a live peer not heard from for longer than the
  timeout and the wake threshold together is dropped, unless its previous session is still closing, and
  every other peer is still there, with its authentication, however many others the tick dropped.
\<close>

theorem heartbeat_reclaims_silent:
  assumes "peer_of st d = Some p"
  shows "(is_silent_peer e p \<and> d \<notin> es_closing st \<longrightarrow> peer_of (heartbeat_tick e st) d = None) \<and>
     (\<not> is_silent_peer e p \<longrightarrow> map_option pd_authenticated (peer_of (heartbeat_tick e st) d) = Some (pd_authenticated p))"
proof -
  define st2 where "st2 = snd (watch_clock_skew (fold (send_ping e) (live_peer_ids st) st))"
  define st3 where "st3 = snd (fold (drop_stale e) (stale_peers e st2) (False, st2))"
  have res: "pulse (heartbeat_tick e st) k = pulse st3 k" for k
    by (auto simp: heartbeat_tick_def Let_def st3_def st2_def announce_pulse split: prod.split)
  have "pulse st2 d = pulse st d" and sl: "slot st2 d = slot st d" using pings_pulse skew_pulse unfolding st2_def by metis+
  with assms obtain p2 where p2: "peer_of st2 d = Some p2" "pd_status p2 = pd_status p" "pd_last_recv_at p2 = pd_last_recv_at p"
    "pd_authenticated p2 = pd_authenticated p" by (auto simp: pulse_def)
  then have sil: "is_silent_peer e p2 = is_silent_peer e p" by (simp add: is_silent_peer_def)
  have "peer_of st3 d = None" if "is_silent_peer e p" and cl: "d \<notin> es_closing st"
  proof -
    obtain ep where ep: "slot st d = (False, Some ep)" using assms cl by (auto simp: slot_def peer_of_def)
    with p2(1) sil that(1) sl have "(d, ep) \<in> set (stale_peers e st2)" by (auto simp: stale_peers_iff)
    with ep sl show ?thesis unfolding st3_def by (intro stale_fold_drops [OF distinct_stale]) auto
  qed
  moreover have "map_option pd_authenticated (peer_of st3 d) = Some (pd_authenticated p)" if "\<not> is_silent_peer e p"
  proof -
    have "d \<notin> fst ` set (stale_peers e st2)" using that sil p2(1) by (auto simp: stale_peers_iff)
    then have "kept st2 st3 d" unfolding st3_def by (rule stale_fold_kept)
    with p2 show ?thesis by (simp add: kept_def)
  qed
  ultimately show ?thesis using res [of d] by (auto simp: pulse_def)
qed

definition quiet_peer :: peer_data where
  "quiet_peer = active_peer\<lparr>pd_last_recv_at := Some 5, pd_clock_skew_samples := [60000], pd_clock_skew_ms := Some 60000\<rparr>"

theorem heartbeat_reclaims_silent_witness:
  "peer_of (heartbeat_tick (sample_env\<lparr>en_instant := 90006\<rparr>) (sample_engine [(''b'', quiet_peer)])) ''b'' = None"
proof -
  let ?st = "sample_engine [(''b'', quiet_peer)]"
  have p: "peer_of ?st ''b'' = Some quiet_peer" by (simp add: sample_engine_def peer_of_def sample_peer_def)
  have "is_silent_peer (sample_env\<lparr>en_instant := 90006\<rparr>) quiet_peer" "''b'' \<notin> es_closing ?st"
    by (simp_all add: is_silent_peer_def quiet_peer_def active_peer_def HEARTBEAT_TIMEOUT_MS_def
        WAKE_DETECTION_THRESHOLD_MS_def duration_since_def sample_engine_def)
  with heartbeat_reclaims_silent [OF p] show ?thesis by blast
qed

end
