(* ===== verification/Dispatch.thy ===== *)
theory Dispatch
  imports Gov_Safety Routing Heartbeat
begin

text \<open>
  The driver's dispatch in \<open>engine/mod.rs\<close>: the admission gate and the frame dispatch of
  \<open>handle_inbound_frame\<close>, the small handlers beside it, and the RPC handlers with the client side of \<open>rpc.rs\<close>.

  \<open>serde_json::from_slice\<close> is the argument \<open>decode\<close>. An RPC handler runs in a task of its own: the model spawns
  \<open>RpcServe\<close>, and \<open>serve_single\<close> and \<open>serve_stream\<close> are what that task sends, given what the handler returned.
  Byte and frame counters are left out.
\<close>

section \<open>RPC\<close>

definition attach_rpc :: "engine \<Rightarrow> engine" where
  "attach_rpc st = (case es_rpc st of Some _ \<Rightarrow> st | None \<Rightarrow> st\<lparr>es_rpc := Some \<lparr>rpc_handlers = fmempty, rpc_calls = fmempty\<rparr>\<rparr>)"

text \<open>\<open>serve\<close>, \<open>serve_stream\<close> and \<open>forget\<close>.\<close>

definition serve_method :: "bool \<Rightarrow> string \<Rightarrow> rpc_inner \<Rightarrow> rpc_inner" where
  "serve_method streaming method r = r\<lparr>rpc_handlers := fmupd method streaming (rpc_handlers r)\<rparr>"

definition forget_method :: "string \<Rightarrow> rpc_inner \<Rightarrow> rpc_inner" where
  "forget_method method r = r\<lparr>rpc_handlers := fmdrop method (rpc_handlers r)\<rparr>"

definition on_rpc_request :: "env \<Rightarrow> string \<Rightarrow> rpc_request \<Rightarrow> engine \<Rightarrow> engine" where
  "on_rpc_request e device_id req st =
     (case es_rpc st of
        None \<Rightarrow> snd (send_to_peer e device_id (RpcResponse
                  \<lparr>rr_request_id = rq_request_id req, rr_ok = None, rr_error = Some ''rpc not bound''\<rparr>) st)
      | Some rpc \<Rightarrow>
          (case fmlookup (rpc_handlers rpc) (rq_method req) of
             None \<Rightarrow> snd (send_to_peer e device_id (RpcResponse
                  \<lparr>rr_request_id = rq_request_id req, rr_ok = None,
                   rr_error = Some (''no handler for '' @ [CHR 39] @ rq_method req @ [CHR 39])\<rparr>) st)
           | Some streaming \<Rightarrow> spawn (RpcServe device_id req streaming) st))"

definition serve_single :: "env \<Rightarrow> string \<Rightarrow> string \<Rightarrow> string + json \<Rightarrow> engine \<Rightarrow> engine" where
  "serve_single e device_id request_id resp st =
     snd (send_to_peer e device_id (RpcResponse
       (case resp of
          Inr body \<Rightarrow> \<lparr>rr_request_id = request_id, rr_ok = Some body, rr_error = None\<rparr>
        | Inl err \<Rightarrow> \<lparr>rr_request_id = request_id, rr_ok = None, rr_error = Some err\<rparr>)) st)"

fun send_chunks :: "env \<Rightarrow> string \<Rightarrow> string \<Rightarrow> u64 \<Rightarrow> json list \<Rightarrow> engine \<Rightarrow> engine" where
  "send_chunks e device_id request_id seq [] st = st"
| "send_chunks e device_id request_id seq (payload # payloads) st =
     (let seq1 = seq + 1;
          st1 = snd (send_to_peer e device_id
            (RpcStreamChunk \<lparr>rc_request_id = request_id, rc_seq = seq1, rc_payload = payload\<rparr>) st)
      in send_chunks e device_id request_id seq1 payloads st1)"

definition serve_stream :: "env \<Rightarrow> string \<Rightarrow> string \<Rightarrow> string + json list \<Rightarrow> engine \<Rightarrow> engine" where
  "serve_stream e device_id request_id items st =
     (case items of
        Inl err \<Rightarrow> snd (send_to_peer e device_id (RpcStreamEnd \<lparr>rn_request_id = request_id, rn_error = Some err\<rparr>) st)
      | Inr payloads \<Rightarrow>
          snd (send_to_peer e device_id (RpcStreamEnd \<lparr>rn_request_id = request_id, rn_error = None\<rparr>)
                 (send_chunks e device_id request_id 0 payloads st)))"

text \<open>What a caller is handed; a dropped sender closes its stream, or ends a single call without an answer.\<close>

definition hand :: "nat \<times> rpc_outcome \<Rightarrow> engine \<Rightarrow> engine" where
  "hand o' st = st\<lparr>es_fx := (es_fx st)\<lparr>fx_rpc := fx_rpc (es_fx st) @ [o']\<rparr>\<rparr>"

definition forget_call :: "string \<Rightarrow> rpc_inner \<Rightarrow> rpc_inner" where
  "forget_call i r = r\<lparr>rpc_calls := fmdrop i (rpc_calls r)\<rparr>"

definition on_rpc_response :: "string \<Rightarrow> rpc_response \<Rightarrow> engine \<Rightarrow> engine" where
  "on_rpc_response device_id resp st =
     (case es_rpc st of
        None \<Rightarrow> st
      | Some rpc \<Rightarrow>
          (case fmlookup (rpc_calls rpc) (rr_request_id resp) of
             None \<Rightarrow> st
           | Some entry \<Rightarrow>
               let st1 = st\<lparr>es_rpc := Some (forget_call (rr_request_id resp) rpc)\<rparr> in
               (case entry of
                  PendingSingle w \<Rightarrow>
                    hand (w, RpcDone (case rr_error resp of Some err \<Rightarrow> Inl err
                       | None \<Rightarrow> Inr (case rr_ok resp of None \<Rightarrow> JNull | Some v \<Rightarrow> v))) st1
                | PendingStream w \<Rightarrow> hand (w, RpcClosed) st1)))"

definition on_rpc_stream_chunk :: "string \<Rightarrow> rpc_stream_chunk \<Rightarrow> engine \<Rightarrow> engine" where
  "on_rpc_stream_chunk device_id chunk st =
     (case es_rpc st of
        None \<Rightarrow> st
      | Some rpc \<Rightarrow>
          (case fmlookup (rpc_calls rpc) (rc_request_id chunk) of
             Some (PendingStream w) \<Rightarrow> hand (w, RpcItem (Inr (rc_payload chunk))) st
           | _ \<Rightarrow> st))"

definition on_rpc_stream_end :: "string \<Rightarrow> rpc_stream_end \<Rightarrow> engine \<Rightarrow> engine" where
  "on_rpc_stream_end device_id end_frame st =
     (case es_rpc st of
        None \<Rightarrow> st
      | Some rpc \<Rightarrow>
          (case fmlookup (rpc_calls rpc) (rn_request_id end_frame) of
             None \<Rightarrow> st
           | Some entry \<Rightarrow>
               let st1 = st\<lparr>es_rpc := Some (forget_call (rn_request_id end_frame) rpc)\<rparr> in
               (case entry of
                  PendingSingle w \<Rightarrow> hand (w, RpcClosed) st1
                | PendingStream w \<Rightarrow>
                    hand (w, RpcClosed)
                      (case rn_error end_frame of None \<Rightarrow> st1 | Some err \<Rightarrow> hand (w, RpcItem (Inl err)) st1))))"

definition send_rpc_request :: "env \<Rightarrow> string \<Rightarrow> rpc_request \<Rightarrow> engine \<Rightarrow> unit result \<times> engine" where
  "send_rpc_request e peer request st = send_to_peer e peer (RpcRequest request) st"

text \<open>
  The client's \<open>call\<close> and \<open>call_stream\<close>: register under a fresh random id, send, and take the registration
  back if the send failed. The number \<open>w\<close> stands for the waiting caller.
\<close>

definition rpc_register :: "string \<Rightarrow> rpc_pending \<Rightarrow> engine \<Rightarrow> engine" where
  "rpc_register i p st = (case es_rpc st of None \<Rightarrow> st | Some rpc \<Rightarrow> st\<lparr>es_rpc := Some (rpc\<lparr>rpc_calls := fmupd i p (rpc_calls rpc)\<rparr>)\<rparr>)"

definition rpc_unregister :: "string \<Rightarrow> engine \<Rightarrow> engine" where
  "rpc_unregister i st = (case es_rpc st of None \<Rightarrow> st | Some rpc \<Rightarrow> st\<lparr>es_rpc := Some (forget_call i rpc)\<rparr>)"

definition rpc_call :: "env \<Rightarrow> string \<Rightarrow> nat \<Rightarrow> bool \<Rightarrow> string \<Rightarrow> string \<Rightarrow> json \<Rightarrow> engine \<Rightarrow> unit result \<times> engine" where
  "rpc_call e request_id w streaming peer method payload st =
     (let st1 = rpc_register request_id (if streaming then PendingStream w else PendingSingle w) st;
          (r, st2) = send_rpc_request e peer \<lparr>rq_request_id = request_id, rq_method = method, rq_payload = payload, rq_streaming = streaming\<rparr> st1
      in case r of Inl err \<Rightarrow> (Inl err, rpc_unregister request_id st2) | Inr _ \<Rightarrow> (Inr (), st2))"

section \<open>Small handlers\<close>

definition on_shelve :: "string \<Rightarrow> string option \<Rightarrow> engine \<Rightarrow> engine" where
  "on_shelve device_id reason st =
     (case peer_of st device_id of
        None \<Rightarrow> st
      | Some d \<Rightarrow>
          if \<not> pd_remote_shelved d
          then emit (EvShelved device_id reason False) (update_peer device_id (\<lambda>d. d\<lparr>pd_remote_shelved := True\<rparr>) st)
          else st)"

definition on_unshelve :: "string \<Rightarrow> engine \<Rightarrow> engine" where
  "on_unshelve device_id st =
     (case peer_of st device_id of
        None \<Rightarrow> st
      | Some d \<Rightarrow>
          if pd_remote_shelved d
          then emit (EvUnshelved device_id False) (update_peer device_id (\<lambda>d. d\<lparr>pd_remote_shelved := False\<rparr>) st)
          else st)"

definition on_capabilities_update :: "string \<Rightarrow> json \<Rightarrow> engine \<Rightarrow> engine" where
  "on_capabilities_update device_id caps st =
     emit (EvCapabilitiesChanged device_id caps) (update_peer device_id (\<lambda>d. d\<lparr>pd_capabilities := Some caps\<rparr>) st)"

definition broadcast_capabilities :: "env \<Rightarrow> json \<Rightarrow> engine \<Rightarrow> nat \<times> engine" where
  "broadcast_capabilities e caps st =
     fan_out e (CapabilitiesUpdate caps) (map fst (filter (\<lambda>(d, p). pd_status p = Active) (peer_list st))) st"

section \<open>Inbound frames\<close>

definition MAX_INBOUND_FRAME_BYTES :: nat where "MAX_INBOUND_FRAME_BYTES = 16 * 1024 * 1024"

definition frame_within_cap :: "nat \<Rightarrow> bool" where
  "frame_within_cap len \<longleftrightarrow> len \<le> MAX_INBOUND_FRAME_BYTES"

datatype admission = Protocol | Application

fun inbound_admission :: "mesh_message \<Rightarrow> admission" where
  "inbound_admission (Hello _) = Protocol"
| "inbound_admission (AuthResponse _) = Protocol"
| "inbound_admission Approve = Protocol"
| "inbound_admission (Deny _ _ _) = Protocol"
| "inbound_admission _ = Application"

definition saturating_inc_u64 :: "u64 \<Rightarrow> u64" where
  "saturating_inc_u64 n = (if n = - 1 then n else n + 1)"

definition reject_data :: "peer_data \<Rightarrow> peer_data" where
  "reject_data d = d\<lparr>pd_admission_rejected := saturating_inc_u64 (pd_admission_rejected d)\<rparr>"

text \<open>Inbound traffic: liveness, and a recovering peer is back.\<close>

definition touch_data :: "u64 \<Rightarrow> peer_data \<Rightarrow> peer_data" where
  "touch_data now d =
     (let d1 = d\<lparr>pd_last_recv_at := Some now\<rparr> in
      case pd_tier d1 of
        IceWatchdog _ \<Rightarrow> d1\<lparr>pd_tier := Steady, pd_ice_disconnected_since := None\<rparr>
      | IceRestart _ \<Rightarrow> d1\<lparr>pd_tier := Steady, pd_ice_disconnected_since := None\<rparr>
      | WakeProbe \<Rightarrow> d1\<lparr>pd_tier := Steady, pd_ice_disconnected_since := None\<rparr>
      | _ \<Rightarrow> d1)"

fun dispatch :: "env \<Rightarrow> string \<Rightarrow> mesh_message \<Rightarrow> engine \<Rightarrow> engine" where
  "dispatch e d (Hello h) st = on_hello e d h st"
| "dispatch e d (AuthResponse sig) st = on_auth_response e d sig st"
| "dispatch e d Approve st = on_approve e d st"
| "dispatch e d (Deny reason ts ml) st = on_deny e d ts ml st"
| "dispatch e d (Ping t) st = on_ping e d t st"
| "dispatch e d (Pong t) st = on_pong e d t st"
| "dispatch e d (Shelve reason) st = on_shelve d reason st"
| "dispatch e d Unshelve st = on_unshelve d st"
| "dispatch e d (CapabilitiesUpdate caps) st = on_capabilities_update d caps st"
| "dispatch e d (RpcRequest req) st = on_rpc_request e d req st"
| "dispatch e d (RpcResponse resp) st = on_rpc_response d resp st"
| "dispatch e d (RpcStreamChunk c) st = on_rpc_stream_chunk d c st"
| "dispatch e d (RpcStreamEnd n) st = on_rpc_stream_end d n st"
| "dispatch e d (Channel channel payload) st = on_channel_frame e d channel payload st"
| "dispatch e d (ChannelSeq stream seq channel payload) st = on_channel_seq e d stream seq channel payload st"
| "dispatch e d (ChannelAck stream up_to) st = on_channel_ack d stream up_to st"
| "dispatch e d (NetworkStateFrame b) st = on_state_broadcast e d b st"
| "dispatch e d (NetworkStatePropose m) st = on_propose e d m st"
| "dispatch e d (NetworkStateAck m) st = on_ack e d m st"
| "dispatch e d (NetworkStateSplit m) st = on_split e d m st"
| "dispatch e d (RosterSummary m) st = on_roster_summary e d m st"
| "dispatch e d (RosterRequest all ids) st = on_roster_request e d st"
| "dispatch e d (RosterEntries entries ts ml) st = on_roster_entries e entries ts ml st"
| "dispatch e d UnknownFrame st = st"

definition handle_frame :: "env \<Rightarrow> string \<Rightarrow> mesh_message \<Rightarrow> engine \<Rightarrow> engine" where
  "handle_frame e device_id msg st =
     (let application = (inbound_admission msg = Application) in
      case peer_of st device_id of
        None \<Rightarrow> if application then st else dispatch e device_id msg st
      | Some d \<Rightarrow>
          if application \<and> \<not> is_admitted d then update_peer device_id reject_data st
          else dispatch e device_id msg (update_peer device_id (touch_data (en_instant e)) st))"

definition handle_inbound_frame :: "env \<Rightarrow> (bytes \<Rightarrow> mesh_message option) \<Rightarrow> string \<Rightarrow> bytes \<Rightarrow> engine \<Rightarrow> engine" where
  "handle_inbound_frame e decode device_id frame st =
     (if \<not> frame_within_cap (length frame) then st
      else case decode frame of None \<Rightarrow> st | Some msg \<Rightarrow> handle_frame e device_id msg st)"

section \<open>The gate\<close>

lemma update_peer_twice: "update_peer d g (update_peer d f st) = update_peer d (g \<circ> f) st"
  by (simp add: update_peer_def split: option.split)

lemma update_peer_none: "peer_of st d = None \<Longrightarrow> update_peer d f st = st"
  by (simp add: update_peer_def peer_of_def split: option.split)

lemma update_peer_id: "update_peer d id st = st"
proof (cases "fmlookup (es_peers st) d")
  case (Some p)
  then have "fmupd d p (es_peers st) = es_peers st" by (intro fmap_ext) auto
  with Some show ?thesis by (simp add: update_peer_def)
qed (simp add: update_peer_def)

lemma reject_admitted [simp]: "is_admitted (reject_data p) = is_admitted p"
  by (simp add: is_admitted_def reject_data_def)

lemma gate_rejects:
  "inbound_admission msg = Application \<Longrightarrow> \<forall>p. peer_of st d = Some p \<longrightarrow> \<not> is_admitted p \<Longrightarrow>
     handle_frame e d msg st = update_peer d reject_data st"
  by (auto simp: handle_frame_def update_peer_none split: option.split)

lemma gate_run:
  assumes "\<forall>p. peer_of st d = Some p \<longrightarrow> \<not> is_admitted p" "\<forall>(e, m) \<in> set frames. inbound_admission m = Application"
  shows "fold (\<lambda>(e, m). handle_frame e d m) frames st = update_peer d (reject_data ^^ length frames) st"
  using assms
proof (induction frames arbitrary: st)
  case (Cons f frames)
  obtain e m where f: "f = (e, m)" by (cases f)
  with Cons.prems have "handle_frame e d m st = update_peer d reject_data st" by (intro gate_rejects) auto
  moreover have "\<forall>p. peer_of (update_peer d reject_data st) d = Some p \<longrightarrow> \<not> is_admitted p" using Cons.prems(1) by auto
  ultimately show ?case using Cons.IH Cons.prems(2) f by (simp add: update_peer_twice funpow_swap1 comp_def)
qed (simp add: update_peer_id [unfolded id_def] id_def)

lemma unat_saturating_inc_u64: "unat (saturating_inc_u64 n) = min (2 ^ 64 - 1) (Suc (unat n))"
proof (cases "n = - 1")
  case True
  then have "unat n = 2 ^ 64 - 1" by (simp add: unsigned_minus_1_eq_mask mask_eq_exp_minus_1)
  with True show ?thesis by (simp add: saturating_inc_u64_def)
next
  case False
  then have "n + 1 \<noteq> 0" by (metis add_eq_0_iff2)
  then have "unat (n + 1) = Suc (unat n)" by (simp add: unatSuc add.commute)
  moreover have "unat (n + 1) < 2 ^ 64" using unsigned_less [of "n + 1", where 'a = nat] by simp
  ultimately show ?thesis using False by (simp add: saturating_inc_u64_def)
qed

lemma reject_count: "unat (pd_admission_rejected ((reject_data ^^ k) p)) = min (2 ^ 64 - 1) (unat (pd_admission_rejected p) + k)"
proof (induction k)
  case 0
  have "unat (pd_admission_rejected p) < 2 ^ 64" using unsigned_less [of "pd_admission_rejected p", where 'a = nat] by simp
  then show ?case by simp
next
  case (Suc k)
  then show ?case by (simp add: reject_data_def unat_saturating_inc_u64)
qed

section \<open>Outcomes of a call\<close>

definition outcomes :: "nat \<Rightarrow> engine \<Rightarrow> rpc_outcome list" where
  "outcomes w st = map snd (filter (\<lambda>(v, o'). v = w) (fx_rpc (es_fx st)))"

fun waiter :: "rpc_pending \<Rightarrow> nat" where
  "waiter (PendingSingle w) = w"
| "waiter (PendingStream w) = w"

fun is_item :: "rpc_outcome \<Rightarrow> bool" where
  "is_item (RpcItem _) = True"
| "is_item _ = False"

text \<open>What a caller may see: a single call at most one answer, a stream items and then at most one close.\<close>

definition outcome_ok :: "bool \<Rightarrow> rpc_outcome list \<Rightarrow> bool" where
  "outcome_ok streaming os =
     (if streaming then dropWhile is_item os = [] \<or> dropWhile is_item os = [RpcClosed]
      else case os of [] \<Rightarrow> True | [RpcDone a] \<Rightarrow> True | [RpcClosed] \<Rightarrow> True | _ \<Rightarrow> False)"

fun is_rpc_reply :: "mesh_message \<Rightarrow> bool" where
  "is_rpc_reply (RpcResponse _) = True"
| "is_rpc_reply (RpcStreamChunk _) = True"
| "is_rpc_reply (RpcStreamEnd _) = True"
| "is_rpc_reply _ = False"

definition call_inv :: "string \<Rightarrow> nat \<Rightarrow> bool \<Rightarrow> engine \<Rightarrow> bool" where
  "call_inv i w streaming st \<longleftrightarrow> (\<exists>rpc. es_rpc st = Some rpc \<and>
     (\<forall>j p. fmlookup (rpc_calls rpc) j = Some p \<and> waiter p = w \<longrightarrow> j = i) \<and>
     (case fmlookup (rpc_calls rpc) i of
        Some p \<Rightarrow> p = (if streaming then PendingStream w else PendingSingle w) \<and>
          (if streaming then list_all is_item (outcomes w st) else outcomes w st = [])
      | None \<Rightarrow> outcome_ok streaming (outcomes w st)))"

lemma outcomes_hand [simp]: "outcomes w (hand (v, o') st) = outcomes w st @ (if v = w then [o'] else [])"
  by (simp add: outcomes_def hand_def)

lemma hand_rpc [simp]: "es_rpc (hand x st) = es_rpc st"
  by (simp add: hand_def)

lemma outcomes_rpc [simp]: "outcomes w (st\<lparr>es_rpc := r\<rparr>) = outcomes w st"
  by (simp add: outcomes_def)

lemma all_items: "list_all is_item os \<Longrightarrow> dropWhile is_item (os @ rest) = dropWhile is_item rest"
  by (induction os) auto

lemma outcome_ok_intros:
  "list_all is_item os \<Longrightarrow> outcome_ok True os" "list_all is_item os \<Longrightarrow> outcome_ok True (os @ [RpcClosed])"
  "list_all is_item os \<Longrightarrow> is_item o' \<Longrightarrow> outcome_ok True (os @ [o', RpcClosed])"
  "outcome_ok False []" "outcome_ok False [RpcDone a]" "outcome_ok False [RpcClosed]"
  using all_items [of os "[]"] by (simp_all add: outcome_ok_def all_items)

lemma call_inv_ok: "call_inv i w streaming st \<Longrightarrow> outcome_ok streaming (outcomes w st)"
  unfolding call_inv_def by (cases streaming) (auto simp: outcome_ok_intros split: option.splits)

lemma call_inv_other:
  assumes "call_inv i w streaming st" "es_rpc st = Some rpc" "es_rpc st' = Some rpc'" "outcomes w st' = outcomes w st"
    and "fmlookup (rpc_calls rpc') i = fmlookup (rpc_calls rpc) i"
    and "\<And>j p. fmlookup (rpc_calls rpc') j = Some p \<Longrightarrow> fmlookup (rpc_calls rpc) j = Some p"
  shows "call_inv i w streaming st'"
proof -
  from assms(1,2) have "\<forall>j p. fmlookup (rpc_calls rpc) j = Some p \<and> waiter p = w \<longrightarrow> j = i" by (simp add: call_inv_def)
  with assms(6) have "\<forall>j p. fmlookup (rpc_calls rpc') j = Some p \<and> waiter p = w \<longrightarrow> j = i" by blast
  with assms(1-5) show ?thesis by (cases "fmlookup (rpc_calls rpc) i") (simp_all add: call_inv_def)
qed

lemma call_inv_end:
  assumes "call_inv i w streaming st" "es_rpc st = Some rpc" "es_rpc st' = Some (forget_call i rpc)"
    and "outcome_ok streaming (outcomes w st')"
  shows "call_inv i w streaming st'"
  using assms by (auto simp: call_inv_def forget_call_def)

text \<open>The entry a call of the invariant is registered under.\<close>

lemma call_inv_entry:
  assumes "call_inv i w streaming st" "es_rpc st = Some rpc" "fmlookup (rpc_calls rpc) j = Some p"
  obtains "j \<noteq> i" "waiter p \<noteq> w"
  | "j = i" "streaming" "p = PendingStream w" "list_all is_item (outcomes w st)"
  | "j = i" "\<not> streaming" "p = PendingSingle w" "outcomes w st = []"
  using assms by (cases "j = i"; cases streaming) (auto simp: call_inv_def)

lemma call_inv_forget:
  assumes inv: "call_inv i w streaming st" and rpc: "es_rpc st = Some rpc" and p: "fmlookup (rpc_calls rpc) j = Some p"
    and st': "es_rpc st' = Some (forget_call j rpc)" "outcomes w st' = outcomes w st @ (if waiter p = w then os else [])"
    and stream: "p = PendingStream w \<Longrightarrow> list_all is_item (outcomes w st) \<Longrightarrow> outcome_ok True (outcomes w st @ os)"
    and single: "p = PendingSingle w \<Longrightarrow> outcome_ok False os"
  shows "call_inv i w streaming st'"
proof (rule call_inv_entry [OF inv rpc p])
  assume "j \<noteq> i" "waiter p \<noteq> w"
  with st' show ?thesis by (intro call_inv_other [OF inv rpc st'(1)]) (auto simp: forget_call_def split: if_splits)
next
  assume "j = i" "streaming" "p = PendingStream w" "list_all is_item (outcomes w st)"
  with st' stream show ?thesis by (intro call_inv_end [OF inv rpc]) auto
next
  assume "j = i" "\<not> streaming" "p = PendingSingle w" "outcomes w st = []"
  with st' single show ?thesis by (intro call_inv_end [OF inv rpc]) auto
qed

lemma call_inv_reply:
  assumes inv: "call_inv i w streaming st" and m: "is_rpc_reply m"
  shows "call_inv i w streaming (dispatch e d m st)"
proof -
  from inv obtain rpc where rpc: "es_rpc st = Some rpc" by (auto simp: call_inv_def)
  from m consider (resp) r where "m = RpcResponse r" | (chunk) c where "m = RpcStreamChunk c" | (fin) n where "m = RpcStreamEnd n"
    by (cases m) auto
  then show ?thesis
  proof cases
    case resp
    show ?thesis
    proof (cases "fmlookup (rpc_calls rpc) (rr_request_id r)")
      case (Some p)
      show ?thesis
        by (cases p; rule call_inv_forget [OF inv rpc Some])
          (use resp rpc Some in \<open>simp_all add: on_rpc_response_def\<close>, simp_all add: outcome_ok_intros)
    qed (use resp rpc inv in \<open>simp add: on_rpc_response_def\<close>)
  next
    case chunk
    show ?thesis
    proof (cases "fmlookup (rpc_calls rpc) (rc_request_id c)")
      case (Some p)
      from call_inv_entry [OF inv rpc Some] show ?thesis
        by cases (use chunk rpc Some inv in \<open>auto simp: on_rpc_stream_chunk_def call_inv_def split: rpc_pending.splits option.splits\<close>)
    qed (use chunk rpc inv in \<open>simp add: on_rpc_stream_chunk_def\<close>)
  next
    case fin
    show ?thesis
    proof (cases "fmlookup (rpc_calls rpc) (rn_request_id n)")
      case (Some p)
      show ?thesis
        by (cases p; cases "rn_error n"; rule call_inv_forget [OF inv rpc Some,
              where os = "case (p, rn_error n) of (PendingStream _, Some err) \<Rightarrow> [RpcItem (Inl err), RpcClosed] | _ \<Rightarrow> [RpcClosed]"])
          (use fin rpc Some in \<open>simp_all add: on_rpc_stream_end_def\<close>, simp_all add: outcome_ok_intros)
    qed (use fin rpc inv in \<open>simp add: on_rpc_stream_end_def\<close>)
  qed
qed

lemma call_inv_replies:
  "call_inv i w streaming st \<Longrightarrow> \<forall>(d, m) \<in> set frames. is_rpc_reply m \<Longrightarrow>
     call_inv i w streaming (fold (\<lambda>(d, m). dispatch e d m) frames st)"
  by (induction frames arbitrary: st) (auto simp: call_inv_reply)

text \<open>A fresh call that went out.\<close>

lemma call_inv_call:
  assumes "rpc_call e i w streaming peer method payload st = (Inr (), st')" "es_rpc st = Some rpc"
    and "\<forall>p \<in> fmran' (rpc_calls rpc). waiter p \<noteq> w" "outcomes w st = []"
  shows "call_inv i w streaming st'"
proof -
  let ?st1 = "rpc_register i (if streaming then PendingStream w else PendingSingle w) st"
  let ?req = "\<lparr>rq_request_id = i, rq_method = method, rq_payload = payload, rq_streaming = streaming\<rparr>"
  obtain r st2 where s: "send_rpc_request e peer ?req ?st1 = (r, st2)" by (metis prod.exhaust)
  with assms(1) have st': "st' = st2" by (auto simp: rpc_call_def Let_def split: sum.splits)
  have "same_core ?st1 st2" using s same_core_primitives(1) [of ?st1 e peer] by (metis send_rpc_request_def snd_conv)
  then have "es_rpc st2 = es_rpc ?st1" by (rule same_core_fields)
  moreover have "outcomes w st2 = outcomes w ?st1"
    using s send_to_peer_sends [of ?st1 e peer "RpcRequest ?req"] by (auto simp: send_rpc_request_def sends_def fx_sends_def outcomes_def)
  moreover have "outcomes w ?st1 = []" using assms(2,4) by (simp add: rpc_register_def)
  ultimately show ?thesis
    unfolding st' call_inv_def using assms(2,3) by (auto simp: rpc_register_def fmran'I)
qed

section \<open>Streams end to end\<close>

definition stream_frames :: "string \<Rightarrow> u64 \<Rightarrow> json list \<Rightarrow> mesh_message list" where
  "stream_frames i seq ps =
     map (\<lambda>(k, p). RpcStreamChunk \<lparr>rc_request_id = i, rc_seq = seq + of_nat k + 1, rc_payload = p\<rparr>) (zip [0..<length ps] ps)"

lemma stream_frames_Cons:
  "stream_frames i seq (p # ps) =
     RpcStreamChunk \<lparr>rc_request_id = i, rc_seq = seq + 1, rc_payload = p\<rparr> # stream_frames i (seq + 1) ps"
proof -
  have "zip [0..<length (p # ps)] (p # ps) = (0, p) # map (\<lambda>(k, q). (Suc k, q)) (zip [0..<length ps] ps)"
    by (simp add: upt_conv_Cons map_Suc_upt [symmetric] zip_map1 del: upt_Suc)
  then show ?thesis by (auto simp: stream_frames_def comp_def case_prod_beta ac_simps)
qed

lemma send_ok:
  assumes "fmlookup (es_peers st) d = Some p" "pc_session p \<noteq> None" "\<And>n. en_send_ok e n"
  shows "fx_wire (es_fx (snd (send_to_peer e d m st))) = fx_wire (es_fx st) @ [(d, m)]"
  using assms by (auto simp: send_to_peer_def transport_send_def Let_def split: option.split)

lemma send_chunks_wire:
  assumes "fmlookup (es_peers st) d = Some p" "pc_session p \<noteq> None" "\<And>n. en_send_ok e n"
  shows "fx_wire (es_fx (send_chunks e d i seq ps st)) = fx_wire (es_fx st) @ map (Pair d) (stream_frames i seq ps) \<and>
     es_peers (send_chunks e d i seq ps st) = es_peers st"
  using assms(1)
proof (induction ps arbitrary: seq st)
  case (Cons p' ps)
  then show ?case using send_ok [of st d p e] assms(2,3) by (simp add: stream_frames_Cons Let_def)
qed (simp add: stream_frames_def)

lemma dispatch_chunks:
  assumes "es_rpc st = Some rpc" "fmlookup (rpc_calls rpc) i = Some (PendingStream w)"
  shows "fx_rpc (es_fx (fold (dispatch e d) (stream_frames i seq ps) st)) =
       fx_rpc (es_fx st) @ map (\<lambda>p. (w, RpcItem (Inr p))) ps \<and>
     es_rpc (fold (dispatch e d) (stream_frames i seq ps) st) = Some rpc"
  using assms(1)
proof (induction ps arbitrary: st seq)
  case (Cons p ps)
  let ?st = "on_rpc_stream_chunk d \<lparr>rc_request_id = i, rc_seq = seq + 1, rc_payload = p\<rparr> st"
  have "?st = hand (w, RpcItem (Inr p)) st" using Cons.prems assms(2) by (simp add: on_rpc_stream_chunk_def)
  then have "fx_rpc (es_fx ?st) = fx_rpc (es_fx st) @ [(w, RpcItem (Inr p))]" "es_rpc ?st = Some rpc"
    using Cons.prems by (simp_all add: hand_def)
  with Cons.IH [of ?st "seq + 1"] show ?case by (simp add: stream_frames_Cons)
qed (simp add: stream_frames_def)

section \<open>Properties\<close>

text \<open>
  The admission gate: whatever application frames arrive on a link whose peer is not authenticated and
  approved, the engine does nothing but count them, up to the counter's maximum; no handler runs, nothing is
  delivered or sent, the peer is not kept alive, and frames from no peer at all are ignored. Frames over the
  size cap are dropped undecoded, from anyone.
\<close>

theorem admission_gate:
  assumes "\<forall>p. peer_of st d = Some p \<longrightarrow> \<not> is_admitted p" "\<forall>(e, m) \<in> set frames. inbound_admission m = Application"
  shows "fold (\<lambda>(e, m). handle_frame e d m) frames st = update_peer d (reject_data ^^ length frames) st \<and>
     unat (pd_admission_rejected ((reject_data ^^ length frames) p)) = min (2 ^ 64 - 1) (unat (pd_admission_rejected p) + length frames) \<and>
     (peer_of st d = None \<longrightarrow> update_peer d (reject_data ^^ length frames) st = st) \<and>
     (MAX_INBOUND_FRAME_BYTES < length frame \<longrightarrow> handle_inbound_frame e decode d frame st = st)"
  using gate_run [OF assms] reject_count [of "length frames" p]
  by (simp add: update_peer_none handle_inbound_frame_def frame_within_cap_def not_le)

theorem admission_gate_witness:
  "fold (\<lambda>(e, m). handle_frame e ''b'' m) [(sample_env, Ping 5), (sample_env, Channel ''chat'' JNull)]
       (sample_engine [(''b'', waiting_peer)]) =
     update_peer ''b'' (reject_data ^^ 2) (sample_engine [(''b'', waiting_peer)])"
proof -
  have "\<forall>p. peer_of (sample_engine [(''b'', waiting_peer)]) ''b'' = Some p \<longrightarrow> \<not> is_admitted p"
    by (simp add: sample_engine_def peer_of_def sample_peer_def is_admitted_def waiting_peer_def default_peer_data_def)
  from admission_gate [OF this, of "[(sample_env, Ping 5), (sample_env, Channel ''chat'' JNull)]"] show ?thesis
    by (simp add: numeral_2_eq_2)
qed

text \<open>
  RPC callers see well-formed outcomes: whatever response, chunk and end frames arrive from whatever
  peers after a call went out, in any order and number, a single call is answered at most once, and a
  streaming call gets items and then at most one close, with nothing after it.
\<close>

theorem rpc_outcomes_well_formed:
  assumes "rpc_call e i w streaming peer method payload st = (Inr (), st')" "es_rpc st = Some rpc"
    and "\<forall>p \<in> fmran' (rpc_calls rpc). waiter p \<noteq> w" "outcomes w st = []"
    and "\<forall>(d, m) \<in> set frames. is_rpc_reply m"
  shows "outcome_ok streaming (outcomes w (fold (\<lambda>(d, m). dispatch e' d m) frames st'))"
  by (rule call_inv_ok, rule call_inv_replies [OF call_inv_call [OF assms(1-4)] assms(5)])

definition rpc_engine :: engine where
  "rpc_engine = attach_rpc (sample_engine [(''b'', active_peer)])"

lemma rpc_engine_parts:
  "es_rpc rpc_engine = Some \<lparr>rpc_handlers = fmempty, rpc_calls = fmempty\<rparr>" "outcomes w rpc_engine = []"
  by (simp_all add: rpc_engine_def attach_rpc_def sample_engine_def outcomes_def)

lemma rpc_engine_call: "fst (rpc_call sample_env i w s ''b'' m p rpc_engine) = Inr ()"
  by (simp add: rpc_call_def rpc_register_def rpc_engine_def attach_rpc_def send_rpc_request_def send_to_peer_def sample_engine_def
      sample_peer_def sample_env_def Let_def)

theorem rpc_outcomes_well_formed_witness:
  "outcome_ok False (outcomes 7 (fold (\<lambda>(d, m). dispatch sample_env d m)
     [(''c'', RpcResponse \<lparr>rr_request_id = ''r1'', rr_ok = None, rr_error = None\<rparr>),
      (''b'', RpcResponse \<lparr>rr_request_id = ''r1'', rr_ok = Some JNull, rr_error = None\<rparr>)]
     (snd (rpc_call sample_env ''r1'' 7 False ''b'' ''m'' JNull rpc_engine))))"
proof (rule rpc_outcomes_well_formed)
  show "rpc_call sample_env ''r1'' 7 False ''b'' ''m'' JNull rpc_engine =
      (Inr (), snd (rpc_call sample_env ''r1'' 7 False ''b'' ''m'' JNull rpc_engine))"
    using rpc_engine_call by (metis prod.collapse)
qed (auto simp: rpc_engine_parts fmran'_alt_def)

text \<open>
  A stream crosses the wire intact: when the sends succeed, the frames the serving side puts on the wire
  for the values of its handler, dispatched in order at a caller waiting on that id, hand it exactly those
  values in order and then the close, and end the registration.
\<close>

theorem rpc_stream_round_trip:
  assumes "fmlookup (es_peers st) d = Some p" "pc_session p \<noteq> None" "\<And>n. en_send_ok e n"
    and "es_rpc caller = Some rpc" "fmlookup (rpc_calls rpc) i = Some (PendingStream w)"
  shows "\<exists>ws. fx_wire (es_fx (serve_stream e d i (Inr ps) st)) = fx_wire (es_fx st) @ map (Pair d) ws \<and>
     fx_rpc (es_fx (fold (dispatch e' d') ws caller)) =
       fx_rpc (es_fx caller) @ map (\<lambda>p. (w, RpcItem (Inr p))) ps @ [(w, RpcClosed)] \<and>
     es_rpc (fold (dispatch e' d') ws caller) = Some (forget_call i rpc)"
proof -
  let ?ws = "stream_frames i 0 ps @ [RpcStreamEnd \<lparr>rn_request_id = i, rn_error = None\<rparr>]"
  note c = send_chunks_wire [OF assms(1-3), of i 0 ps]
  have "fx_wire (es_fx (serve_stream e d i (Inr ps) st)) = fx_wire (es_fx st) @ map (Pair d) ?ws"
    using c send_ok [OF _ assms(2,3)] assms(1) by (simp add: serve_stream_def)
  moreover note dispatch_chunks [OF assms(4,5), of e' d' 0 ps]
  ultimately show ?thesis using assms(5)
    by (intro exI [of _ ?ws]) (simp add: on_rpc_stream_end_def hand_def)
qed

theorem rpc_stream_round_trip_witness:
  "\<exists>ws. fx_rpc (es_fx (fold (dispatch sample_env ''b'') ws (snd (rpc_call sample_env ''r1'' 7 True ''b'' ''m'' JNull rpc_engine)))) =
     [(7, RpcItem (Inr JNull)), (7, RpcItem (Inr (JStr ''x''))), (7, RpcClosed)]"
proof -
  let ?caller = "snd (rpc_call sample_env ''r1'' 7 True ''b'' ''m'' JNull rpc_engine)"
  have "fmlookup (es_peers rpc_engine) ''b'' = Some (sample_peer active_peer)"
    by (simp add: rpc_engine_def attach_rpc_def sample_engine_def)
  moreover have "pc_session (sample_peer active_peer) \<noteq> None" "en_send_ok sample_env n" for n
    by (simp_all add: sample_peer_def sample_env_def)
  moreover have c: "es_rpc ?caller = Some \<lparr>rpc_handlers = fmempty, rpc_calls = fmupd ''r1'' (PendingStream 7) fmempty\<rparr>"
    "fx_rpc (es_fx ?caller) = []"
    by (simp_all add: rpc_call_def rpc_register_def rpc_engine_def attach_rpc_def send_rpc_request_def send_to_peer_def sample_engine_def
      sample_peer_def sample_env_def transport_send_def Let_def)
  ultimately obtain ws where "fx_rpc (es_fx (fold (dispatch sample_env ''b'') ws ?caller)) =
      fx_rpc (es_fx ?caller) @ map (\<lambda>p. (7, RpcItem (Inr p))) [JNull, JStr ''x''] @ [(7, RpcClosed)]"
    using rpc_stream_round_trip [of rpc_engine "''b''" "sample_peer active_peer" sample_env ?caller _ "''r1''" 7 "[JNull, JStr ''x'']" sample_env "''b''"]
    by auto
  with c(2) show ?thesis by auto
qed

text \<open>
  A streaming call loses its error: a peer that has no handler for the method, or no dispatcher, answers
  the request with an error response, and a caller waiting on a stream sees precisely what it sees when a
  handler ran and produced nothing, a clean close.
\<close>

theorem rpc_stream_error_lost:
  assumes "es_rpc st = Some rpc" "fmlookup (rpc_calls rpc) i = Some (PendingStream w)"
  shows "on_rpc_response d \<lparr>rr_request_id = i, rr_ok = None, rr_error = Some err\<rparr> st =
     on_rpc_stream_end d \<lparr>rn_request_id = i, rn_error = None\<rparr> st"
  using assms by (simp add: on_rpc_response_def on_rpc_stream_end_def)

theorem rpc_stream_error_lost_witness:
  "on_rpc_response ''b'' \<lparr>rr_request_id = ''r1'', rr_ok = None, rr_error = Some ''rpc not bound''\<rparr>
       (rpc_register ''r1'' (PendingStream 7) rpc_engine) =
     on_rpc_stream_end ''b'' \<lparr>rn_request_id = ''r1'', rn_error = None\<rparr> (rpc_register ''r1'' (PendingStream 7) rpc_engine)"
  by (rule rpc_stream_error_lost [where w = 7 and rpc = "\<lparr>rpc_handlers = fmempty, rpc_calls = fmupd ''r1'' (PendingStream 7) fmempty\<rparr>"])
    (simp_all add: rpc_register_def rpc_engine_parts)

end
