(* ===== verification/Connect.thy ===== *)
theory Connect
  imports Dispatch
begin

text \<open>
  Opening and re-opening links, \<open>engine/mod.rs\<close>: sessions, offers and answers, remote candidates, restarts of a live
  link, and the handlers of signaling messages (\<open>handle_signaling_inbound\<close>).

  The WebRTC stack is the record \<open>transport\<close> of the environment. A call into it is an await: \<open>resumed\<close> is the
  environment after the calls made so far, in which another network of the process may have armed or released
  the socket-pressure circuit. The engine's own state is changed by one handler at a time; the epoch checks after
  an await are written where the code has them. A handler reads the clock once. The selected candidate pair and the snapshots
  written to the log are left out.
\<close>

section \<open>Calls into the transport\<close>

datatype link_role = Offerer | Answerer
datatype sdp_type = SdpOffer | SdpAnswer

definition REOFFER_MIN_INTERVAL_MS :: u64 where
  "REOFFER_MIN_INTERVAL_MS = 2000"

definition MAX_PENDING_REMOTE_CANDIDATES :: nat where
  "MAX_PENDING_REMOTE_CANDIDATES = 256"

definition STALE_INBOUND_MS :: u64 where
  "STALE_INBOUND_MS = 25000"

definition DATA_CHANNEL_OPEN_TIMEOUT_MS :: u64 where
  "DATA_CHANNEL_OPEN_TIMEOUT_MS = 30000"

definition RESTART_TRAFFIC_GRACE_MS :: u64 where
  "RESTART_TRAFFIC_GRACE_MS = 10000"

definition WAKE_PROBE_DELAY_MS :: u64 where
  "WAKE_PROBE_DELAY_MS = 1500"

definition LIVENESS_PROBE_MIN_INTERVAL_MS :: u64 where
  "LIVENESS_PROBE_MIN_INTERVAL_MS = 5000"

definition signal :: "signaling_outbound \<Rightarrow> engine \<Rightarrow> engine" where
  "signal m st = st\<lparr>es_fx := (es_fx st)\<lparr>fx_signals := fx_signals (es_fx st) @ [m]\<rparr>\<rparr>"

definition calls :: "engine \<Rightarrow> nat" where
  "calls st = fx_calls (es_fx st)"

definition transport_call :: "engine \<Rightarrow> engine" where
  "transport_call st = st\<lparr>es_fx := (es_fx st)\<lparr>fx_calls := fx_calls (es_fx st) + 1\<rparr>\<rparr>"

definition resumed :: "env \<Rightarrow> engine \<Rightarrow> engine \<Rightarrow> env" where
  "resumed e st st1 =
     (if calls st1 = calls st then e else e\<lparr>en_pressure_owners := tp_owners (en_transport e) (calls st1)\<rparr>)"

definition set_session :: "string \<Rightarrow> (session \<Rightarrow> session) \<Rightarrow> engine \<Rightarrow> engine" where
  "set_session d f st =
     (case fmlookup (es_peers st) d of
        None \<Rightarrow> st
      | Some p \<Rightarrow> st\<lparr>es_peers := fmupd d (p\<lparr>pc_session := map_option f (pc_session p)\<rparr>) (es_peers st)\<rparr>)"

definition create_offer :: "env \<Rightarrow> string \<Rightarrow> engine \<Rightarrow> string option \<times> engine" where
  "create_offer e d st =
     (case tp_offer (en_transport e) (calls st) of
        None \<Rightarrow> (None, transport_call st)
      | Some sdp \<Rightarrow> (Some sdp, set_session d (\<lambda>s. s\<lparr>ss_local_sdp := Some sdp\<rparr>) (transport_call st)))"

definition create_answer :: "env \<Rightarrow> string \<Rightarrow> engine \<Rightarrow> string option \<times> engine" where
  "create_answer e d st =
     (case tp_answer (en_transport e) (calls st) of
        None \<Rightarrow> (None, transport_call st)
      | Some sdp \<Rightarrow> (Some sdp, set_session d (\<lambda>s. s\<lparr>ss_local_sdp := Some sdp\<rparr>) (transport_call st)))"

definition set_remote_description :: "env \<Rightarrow> string \<Rightarrow> string \<Rightarrow> engine \<Rightarrow> bool \<times> engine" where
  "set_remote_description e d sdp st =
     (if tp_set_remote (en_transport e) (calls st)
      then (True, set_session d (\<lambda>s. s\<lparr>ss_remote_sdp := Some sdp\<rparr>) (transport_call st))
      else (False, transport_call st))"

definition add_ice_candidate :: "string \<Rightarrow> u64 \<Rightarrow> ice_candidate \<Rightarrow> engine \<Rightarrow> engine" where
  "add_ice_candidate d epoch c st =
     st\<lparr>es_fx := (es_fx st)\<lparr>fx_candidates := fx_candidates (es_fx st) @ [(d, epoch, c)]\<rparr>\<rparr>"

text \<open>The agent says the path is up.\<close>

definition ice_up :: "ice_state \<Rightarrow> bool" where
  "ice_up s \<longleftrightarrow> s = IceConnected \<or> s = IceCompleted"

definition peer_is_closing :: "engine \<Rightarrow> string \<Rightarrow> bool" where
  "peer_is_closing st d \<longleftrightarrow> d \<in> es_closing st"

section \<open>Offers\<close>

definition issue_offer_id :: "env \<Rightarrow> string \<Rightarrow> u64 \<Rightarrow> engine \<Rightarrow> string option \<times> engine" where
  "issue_offer_id e d expected_epoch st =
     (if peer_epoch_matches st d expected_epoch
      then let i = tp_offer_id (en_transport e) (calls st)
           in (Some i, update_peer d (\<lambda>p. p\<lparr>pd_pending_offer_id := Some i\<rparr>) st)
      else (None, st))"

definition offer_due :: "env \<Rightarrow> peer_data \<Rightarrow> bool" where
  "offer_due e p =
     (case pd_last_offer_sent_at p of None \<Rightarrow> True
      | Some t \<Rightarrow> REOFFER_MIN_INTERVAL_MS \<le> duration_since (en_instant e) t)"

definition stamp_offer :: "env \<Rightarrow> string \<Rightarrow> engine \<Rightarrow> engine" where
  "stamp_offer e d = update_peer d (\<lambda>p. p\<lparr>pd_last_offer_sent_at := Some (en_instant e)\<rparr>)"

definition forget_stamp :: "string \<Rightarrow> u64 \<Rightarrow> engine \<Rightarrow> engine" where
  "forget_stamp d epoch st =
     (if peer_epoch_matches st d epoch then update_peer d (\<lambda>p. p\<lparr>pd_last_offer_sent_at := None\<rparr>) st else st)"

text \<open>
  Building and sending a fresh offer on an existing session, as the announce and the failed-answer path do it. The
  flag is whether the handler goes on.
\<close>

definition re_offer :: "env \<Rightarrow> string \<Rightarrow> u64 \<Rightarrow> engine \<Rightarrow> bool \<times> engine" where
  "re_offer e d epoch st =
     (case create_offer e d st of
        (None, st1) \<Rightarrow> (True, st1)
      | (Some sdp, st1) \<Rightarrow>
          if \<not> peer_epoch_matches st1 d epoch then (False, st1)
          else if local_socket_recovery_active (resumed e st st1) st1 then (False, forget_stamp d epoch st1)
          else (case issue_offer_id e d epoch st1 of
                  (None, st2) \<Rightarrow> (False, st2)
                | (Some i, st2) \<Rightarrow> (True, signal (SendOffer d i sdp) st2)))"

definition fresh_peer :: "env \<Rightarrow> u64 \<Rightarrow> peer_connection" where
  "fresh_peer e epoch =
     \<lparr>pc_data = default_peer_data\<lparr>pd_session_started_at := Some (en_instant e)\<rparr>,
      pc_session = Some \<lparr>ss_local_sdp = None, ss_remote_sdp = None\<rparr>, pc_epoch = epoch\<rparr>"

definition insert_session :: "env \<Rightarrow> string \<Rightarrow> engine \<Rightarrow> engine" where
  "insert_session e d st =
     (let fx = es_fx st in
      emit (EvSighted d)
        (st\<lparr>es_peers := fmupd d (fresh_peer e (fx_next_epoch fx)) (es_peers st),
            es_fx := fx\<lparr>fx_next_epoch := fx_next_epoch fx + 1\<rparr>\<rparr>))"

text \<open>The offerer's half of \<open>ensure_peer_session\<close>; the flag is whether the event pump is started.\<close>

definition first_offer :: "env \<Rightarrow> string \<Rightarrow> u64 \<Rightarrow> engine \<Rightarrow> bool \<times> engine" where
  "first_offer e d epoch st =
     (if local_socket_recovery_active e st then (False, snd (drop_peer_if_epoch e d epoch IceFailed st))
      else
        case create_offer e d st of
          (None, st1) \<Rightarrow> (True, st1)
        | (Some sdp, st1) \<Rightarrow>
            let e1 = resumed e st st1 in
            if \<not> peer_epoch_matches st1 d epoch then (False, st1)
            else if local_socket_recovery_active e1 st1
            then (False, snd (drop_peer_if_epoch e1 d epoch IceFailed st1))
            else (case issue_offer_id e1 d epoch st1 of
                    (None, st2) \<Rightarrow> (False, st2)
                  | (Some i, st2) \<Rightarrow> (True, stamp_offer e1 d (signal (SendOffer d i sdp) st2))))"

definition ensure_peer_session :: "env \<Rightarrow> string \<Rightarrow> link_role \<Rightarrow> engine \<Rightarrow> engine" where
  "ensure_peer_session e d role st =
     (if es_offline st \<or> local_socket_recovery_active e st \<or> peer_is_closing st d then st
      else if session_of st d \<noteq> None then st
      else
        let opened = tp_open (en_transport e) (calls st);
            st1 = transport_call st;
            e1 = resumed e st st1
        in
        if \<not> opened then st1
        else if local_socket_recovery_active e1 st1 \<or> peer_is_closing st1 d then st1
        else
          let epoch = fx_next_epoch (es_fx st1);
              st2 = insert_session e1 d st1;
              (pump, st3) = (if role = Offerer then first_offer e1 d epoch st2 else (True, st2))
          in if pump then spawn (TransportPump d epoch) st3 else st3)"

section \<open>Descriptions and candidates\<close>

definition reoffer_after_failed_answer :: "env \<Rightarrow> string \<Rightarrow> engine \<Rightarrow> engine" where
  "reoffer_after_failed_answer e d st =
     (if \<not> self_id st < d \<or> es_offline st \<or> local_socket_recovery_active e st \<or> peer_is_closing st d then st
      else
        case fmlookup (es_peers st) d of
          None \<Rightarrow> ensure_peer_session e d Offerer st
        | Some p \<Rightarrow>
            if \<not> offer_due e (pc_data p) then st
            else
              let st1 = stamp_offer e d st in
              (case pc_session p of
                 None \<Rightarrow> ensure_peer_session e d Offerer st1
               | Some _ \<Rightarrow>
                   if local_socket_recovery_active e st1 then forget_stamp d (pc_epoch p) st1
                   else snd (re_offer e d (pc_epoch p) st1)))"

text \<open>\<open>for cand in pending\<close> of \<open>apply_remote_sdp\<close>.\<close>

fun add_pending :: "string \<Rightarrow> u64 \<Rightarrow> ice_candidate list \<Rightarrow> engine \<Rightarrow> engine" where
  "add_pending d epoch [] st = st"
| "add_pending d epoch (c # cs) st =
     (if \<not> peer_epoch_matches st d epoch then st else add_pending d epoch cs (add_ice_candidate d epoch c st))"

definition drain_candidates :: "string \<Rightarrow> u64 \<Rightarrow> string list \<Rightarrow> engine \<Rightarrow> engine" where
  "drain_candidates d epoch ufrags st =
     (case peer_of st d of
        None \<Rightarrow> st
      | Some p \<Rightarrow>
          add_pending d epoch (filter (candidate_matches_ufrags ufrags) (pd_pending_remote_candidates p))
            (update_peer d (\<lambda>p. p\<lparr>pd_remote_description_set := True, pd_pending_remote_candidates := []\<rparr>) st))"

definition apply_remote_sdp :: "env \<Rightarrow> string \<Rightarrow> sdp_type \<Rightarrow> string \<Rightarrow> engine \<Rightarrow> engine" where
  "apply_remote_sdp e d ty sdp st =
     (case fmlookup (es_peers st) d of
        None \<Rightarrow> if ty = SdpAnswer then reoffer_after_failed_answer e d st else st
      | Some p \<Rightarrow>
        if pc_session p = None then (if ty = SdpAnswer then reoffer_after_failed_answer e d st else st)
        else if ty = SdpAnswer \<and> \<not> tp_awaiting (en_transport e) (pc_epoch p) then reoffer_after_failed_answer e d st
        else if \<not> tp_parse (en_transport e) sdp then st
        else
          let (applied, st1) = set_remote_description e d sdp st in
          if \<not> applied
          then (if ty = SdpAnswer then reoffer_after_failed_answer (resumed e st st1) d st1 else st1)
          else if \<not> peer_epoch_matches st1 d (pc_epoch p) then st1
          else drain_candidates d (pc_epoch p) (sdp_ice_ufrags sdp) st1)"

definition queue_candidate :: "ice_candidate \<Rightarrow> peer_data \<Rightarrow> peer_data" where
  "queue_candidate c p =
     (let q = pd_pending_remote_candidates p;
          q1 = (if MAX_PENDING_REMOTE_CANDIDATES \<le> length q then tl q else q)
      in p\<lparr>pd_pending_remote_candidates := q1 @ [c]\<rparr>)"

definition on_candidate :: "string \<Rightarrow> ice_candidate \<Rightarrow> engine \<Rightarrow> engine" where
  "on_candidate d c st =
     (let st0 = st\<lparr>es_rescue := note_remote_candidate d (es_rescue st)\<rparr>;
          kind = classify_candidate_sdp (ic_candidate c)
      in case fmlookup (es_peers st0) d of
           None \<Rightarrow> st0
         | Some p \<Rightarrow>
             let st1 = update_peer d (\<lambda>p. p\<lparr>pd_remote_candidates := record_kind kind (pd_remote_candidates p)\<rparr>) st0 in
             if \<not> pd_remote_description_set (pc_data p) then update_peer d (queue_candidate c) st1
             else
               case pc_session p of
                 None \<Rightarrow> st1
               | Some s \<Rightarrow>
                   if \<not> peer_epoch_matches st1 d (pc_epoch p) then st1
                   else if \<not> candidate_matches_ufrags (remote_ice_ufrags s) c then st1
                   else add_ice_candidate d (pc_epoch p) c st1)"

section \<open>Restarting a live link\<close>

text \<open>Give a restart up for now: remember it, and let the next attempt offer at once.\<close>

definition defer_restart :: "string \<Rightarrow> u64 \<Rightarrow> bool \<Rightarrow> engine \<Rightarrow> engine" where
  "defer_restart d epoch force st = forget_stamp d epoch (defer_ice_restart d force st)"

text \<open>The part of \<open>renegotiate_ice\<close> after the restart is committed to.\<close>

definition restart_offer :: "env \<Rightarrow> string \<Rightarrow> u64 \<Rightarrow> bool \<Rightarrow> engine \<Rightarrow> engine" where
  "restart_offer e d epoch force st =
     (if local_socket_recovery_active e st then defer_restart d epoch force st
      else
        let st1 = transport_call st; e1 = resumed e st st1 in
        if \<not> peer_epoch_matches st1 d epoch then st1
        else if local_socket_recovery_active e1 st1 then defer_restart d epoch force st1
        else
          case create_offer e1 d st1 of
            (None, st2) \<Rightarrow> st2
          | (Some sdp, st2) \<Rightarrow>
              let e2 = resumed e1 st1 st2 in
              if \<not> peer_epoch_matches st2 d epoch then st2
              else if local_socket_recovery_active e2 st2 then defer_ice_restart d force st2
              else (case issue_offer_id e2 d epoch st2 of
                      (None, st3) \<Rightarrow> st3
                    | (Some i, st3) \<Rightarrow> signal (SendOffer d i sdp) st3))"

definition settle_tier :: "peer_data \<Rightarrow> peer_data" where
  "settle_tier p =
     (let p1 = p\<lparr>pd_ice_disconnected_since := None\<rparr> in
      case pd_tier p1 of
        IceRestart _ \<Rightarrow> p1\<lparr>pd_tier := Steady\<rparr>
      | IceWatchdog _ \<Rightarrow> p1\<lparr>pd_tier := Steady\<rparr>
      | _ \<Rightarrow> p1)"

definition renegotiate_ice :: "env \<Rightarrow> string \<Rightarrow> bool \<Rightarrow> string \<Rightarrow> u64 option \<Rightarrow> engine \<Rightarrow> engine" where
  "renegotiate_ice e d force trigger expected_epoch st =
     (if es_offline st then st
      else if expected_epoch = None \<and> local_socket_recovery_active e st then defer_ice_restart d force st
      else
        case fmlookup (es_peers st) d of
          None \<Rightarrow> st
        | Some p \<Rightarrow>
          let epoch = pc_epoch p; ice = tp_ice (en_transport e) epoch in
          if expected_epoch \<noteq> None \<and> expected_epoch \<noteq> Some epoch then st
          else if pc_session p = None then st
          else if local_socket_recovery_active e st then defer_ice_restart d force st
          else if ice_up ice \<and> \<not> force then update_peer d settle_tier st
          else if ice = IceChecking
          then (if trigger = ''socket-recovery'' then defer_ice_restart d force st else st)
          else if \<not> offer_due e (pc_data p)
          then (if trigger = ''socket-recovery'' then defer_ice_restart d force st else st)
          else
            let st1 = update_peer d (\<lambda>p. p\<lparr>pd_last_offer_sent_at := Some (en_instant e),
                  pd_tier := IceRestart (en_instant e)\<rparr>) st in
            if self_id st < d then restart_offer e d epoch force st1
            else if local_socket_recovery_active e st1 then defer_restart d epoch force st1
            else snd (maybe_reactive_announce e st1))"

section \<open>Stale sessions\<close>

definition restart_in_flight :: "env \<Rightarrow> peer_data \<Rightarrow> bool" where
  "restart_in_flight e p =
     (case pd_tier p of
        IceRestart started \<Rightarrow> duration_since (en_instant e) started < DATA_CHANNEL_OPEN_TIMEOUT_MS
      | IceWatchdog since \<Rightarrow> duration_since (en_instant e) since < DATA_CHANNEL_OPEN_TIMEOUT_MS
      | _ \<Rightarrow> False)"

definition inbound_stale :: "env \<Rightarrow> peer_data \<Rightarrow> bool" where
  "inbound_stale e p =
     (case pd_last_recv_at p of None \<Rightarrow> False | Some t \<Rightarrow> STALE_INBOUND_MS < duration_since (en_instant e) t)"

definition is_zombie :: "env \<Rightarrow> peer_connection \<Rightarrow> bool" where
  "is_zombie e p \<longleftrightarrow>
     inbound_stale e (pc_data p) \<and> \<not> restart_in_flight e (pc_data p) \<and>
     \<not> (pc_session p \<noteq> None \<and>
        (tp_ice (en_transport e) (pc_epoch p) = IceChecking \<or> ice_up (tp_ice (en_transport e) (pc_epoch p))))"

definition clear_stale_session_if_zombie :: "env \<Rightarrow> string \<Rightarrow> engine \<Rightarrow> engine" where
  "clear_stale_session_if_zombie e d st =
     (case fmlookup (es_peers st) d of
        None \<Rightarrow> st
      | Some p \<Rightarrow> if is_zombie e p then drop_peer e d HeartbeatTimeout st else st)"

definition wants_probe :: "env \<Rightarrow> peer_data \<Rightarrow> bool" where
  "wants_probe e p \<longleftrightarrow>
     (pd_status p = Active \<or> pd_status p = Shelved) \<and> inbound_stale e p \<and> \<not> restart_in_flight e p \<and>
     \<not> (case pd_last_liveness_probe_at p of None \<Rightarrow> False
        | Some t \<Rightarrow> duration_since (en_instant e) t < LIVENESS_PROBE_MIN_INTERVAL_MS)"

definition confirm_active_session_on_announce :: "env \<Rightarrow> string \<Rightarrow> engine \<Rightarrow> engine" where
  "confirm_active_session_on_announce e d st =
     (case fmlookup (es_peers st) d of
        None \<Rightarrow> st
      | Some p \<Rightarrow>
          if \<not> wants_probe e (pc_data p) then st
          else spawn (LivenessProbe d (pc_epoch p))
                 (send_ping e d (update_peer d (\<lambda>p. p\<lparr>pd_last_liveness_probe_at := Some (en_instant e)\<rparr>) st)))"

text \<open>The task it spawns, when its delay is over.\<close>

definition liveness_probe_fires :: "env \<Rightarrow> string \<Rightarrow> u64 \<Rightarrow> engine \<Rightarrow> engine" where
  "liveness_probe_fires e d probe_epoch st =
     (case fmlookup (es_peers st) d of
        None \<Rightarrow> st
      | Some p \<Rightarrow>
          if pc_epoch p = probe_epoch \<and>
             (case pd_last_recv_at (pc_data p) of None \<Rightarrow> True
              | Some t \<Rightarrow> WAKE_PROBE_DELAY_MS < duration_since (en_instant e) t)
          then snd (maybe_reactive_announce e (snd (drop_peer_if_epoch e d probe_epoch HeartbeatTimeout st)))
          else st)"

section \<open>Signaling messages\<close>

datatype signaling_inbound =
    DiscoveryLost string
  | PeerAnnounced string
  | SigOffer string string string
  | SigAnswer string string string
  | SigCandidate string ice_candidate
  | PeerLeft string

definition announce_role :: "engine \<Rightarrow> string \<Rightarrow> link_role" where
  "announce_role st d = (if self_id st < d then Offerer else Answerer)"

text \<open>A peer that is stuck at \<open>Sighted\<close> is offered again; the flag is whether the handler goes on.\<close>

definition reoffer_sighted :: "env \<Rightarrow> string \<Rightarrow> link_role \<Rightarrow> engine \<Rightarrow> bool \<times> engine" where
  "reoffer_sighted e d role st =
     (if role = Offerer \<and> \<not> local_socket_recovery_active e st \<and> \<not> peer_is_closing st d
      then
        case fmlookup (es_peers st) d of
          None \<Rightarrow> (True, st)
        | Some p \<Rightarrow>
            if pd_status (pc_data p) \<noteq> Sighted \<or> \<not> offer_due e (pc_data p) then (True, st)
            else
              let st1 = stamp_offer e d st in
              (case pc_session p of
                 None \<Rightarrow> (True, st1)
               | Some _ \<Rightarrow>
                   if local_socket_recovery_active e st1 then (False, forget_stamp d (pc_epoch p) st1)
                   else re_offer e d (pc_epoch p) st1)
      else (True, st))"

definition restart_unhealthy :: "env \<Rightarrow> string \<Rightarrow> link_role \<Rightarrow> engine \<Rightarrow> engine" where
  "restart_unhealthy e d role st =
     (case fmlookup (es_peers st) d of
        None \<Rightarrow> st
      | Some p \<Rightarrow>
          if role = Offerer \<and> pc_session p \<noteq> None \<and>
             (pd_status (pc_data p) = Active \<or> pd_status (pc_data p) = Shelved) \<and>
             \<not> ice_up (tp_ice (en_transport e) (pc_epoch p)) \<and>
             (case pd_last_recv_at (pc_data p) of None \<Rightarrow> False
              | Some t \<Rightarrow> duration_since (en_instant e) t < STALE_INBOUND_MS)
          then renegotiate_ice e d False ''announce-unhealthy'' None st else st)"

definition shape_wants :: "env \<Rightarrow> engine \<Rightarrow> string \<Rightarrow> bool" where
  "shape_wants e st d =
     (if prunes (es_topology_impl st)
      then let ids = map fst (sorted_list_of_fmap (es_peers st));
               known = (if d \<in> set ids then ids else ids @ [d]) @ [self_id st]
           in edge (en_crypto e) (es_topology_impl st) (self_id st) d known
      else True)"

definition dial_announced :: "env \<Rightarrow> string \<Rightarrow> link_role \<Rightarrow> engine \<Rightarrow> engine" where
  "dial_announced e d role st =
     (if is_sticky st d then ensure_peer_session e d Offerer st
      else if is_silent st then note_sighted_without_dialing d st
      else if shape_wants e st d then ensure_peer_session e d role st
      else note_sighted_without_dialing d st)"

definition on_peer_announced :: "env \<Rightarrow> string \<Rightarrow> engine \<Rightarrow> engine" where
  "on_peer_announced e d st =
     (if es_self_evicted st then st
      else
        let role = announce_role st d;
            st1 = snd (maybe_reactive_announce e st);
            (go, st2) = reoffer_sighted e d role st1
        in
        if \<not> go then st2
        else
          let e2 = resumed e st1 st2;
              st3 = restart_unhealthy e2 d role st2;
              e3 = resumed e2 st2 st3;
              st4 = clear_stale_session_if_zombie e3 d st3;
              st5 = confirm_active_session_on_announce e3 d st4
          in dial_announced e3 d role st5)"

text \<open>The offer comes from a rebuilt peer connection, or our own attempt is stuck.\<close>

definition peer_rebuilt :: "engine \<Rightarrow> string \<Rightarrow> string \<Rightarrow> bool" where
  "peer_rebuilt st d sdp =
     (case Option.bind (session_of st d) remote_fingerprint of
        None \<Rightarrow> False
      | Some prev \<Rightarrow> (case sdp_fingerprint sdp of None \<Rightarrow> False | Some now \<Rightarrow> now \<noteq> prev))"

definition connecting_stuck_past_grace :: "env \<Rightarrow> peer_data \<Rightarrow> bool" where
  "connecting_stuck_past_grace e p \<longleftrightarrow>
     \<not> pd_data_channel_open p \<and>
     (case pd_session_started_at p of None \<Rightarrow> False
      | Some t \<Rightarrow> RESTART_TRAFFIC_GRACE_MS \<le> duration_since (en_instant e) t)"

definition answer_offer :: "env \<Rightarrow> string \<Rightarrow> string \<Rightarrow> engine \<Rightarrow> engine" where
  "answer_offer e d offer_id st =
     (case fmlookup (es_peers st) d of
        None \<Rightarrow> st
      | Some p \<Rightarrow>
        if pc_session p = None then st
        else if local_socket_recovery_active e st then snd (drop_peer_if_epoch e d (pc_epoch p) IceFailed st)
        else
          case create_answer e d st of
            (None, st1) \<Rightarrow> st1
          | (Some sdp, st1) \<Rightarrow>
              let e1 = resumed e st st1 in
              if \<not> peer_epoch_matches st1 d (pc_epoch p) then st1
              else if local_socket_recovery_active e1 st1 then snd (drop_peer_if_epoch e1 d (pc_epoch p) IceFailed st1)
              else signal (SendAnswer d offer_id sdp) st1)"

definition on_offer :: "env \<Rightarrow> string \<Rightarrow> string \<Rightarrow> string \<Rightarrow> engine \<Rightarrow> engine" where
  "on_offer e d offer_id sdp st =
     (if local_socket_recovery_active e st \<or> peer_is_closing st d then st
      else
        let st1 = clear_stale_session_if_zombie e d st;
            stuck = (case peer_of st1 d of None \<Rightarrow> False | Some p \<Rightarrow> connecting_stuck_past_grace e p);
            st2 = (if peer_rebuilt st1 d sdp \<or> stuck then drop_peer e d IceFailed st1 else st1);
            st3 = ensure_peer_session e d Answerer st2;
            e3 = resumed e st2 st3;
            st4 = apply_remote_sdp e3 d SdpOffer sdp st3;
            e4 = resumed e3 st3 st4
        in answer_offer e4 d offer_id st4)"

definition on_answer :: "env \<Rightarrow> string \<Rightarrow> string \<Rightarrow> string \<Rightarrow> engine \<Rightarrow> engine" where
  "on_answer e d offer_id sdp st =
     (case peer_of st d of
        None \<Rightarrow> apply_remote_sdp e d SdpAnswer sdp st
      | Some p \<Rightarrow>
          if offer_id \<noteq> [] \<and> pd_pending_offer_id p \<noteq> Some offer_id then st
          else apply_remote_sdp e d SdpAnswer sdp (update_peer d (\<lambda>p. p\<lparr>pd_pending_offer_id := None\<rparr>) st))"

fun handle_signaling_inbound :: "env \<Rightarrow> signaling_inbound \<Rightarrow> engine \<Rightarrow> engine" where
  "handle_signaling_inbound e (PeerAnnounced d) st = on_peer_announced e d st"
| "handle_signaling_inbound e (SigOffer d offer_id sdp) st = on_offer e d offer_id sdp st"
| "handle_signaling_inbound e (SigAnswer d offer_id sdp) st = on_answer e d offer_id sdp st"
| "handle_signaling_inbound e (SigCandidate d c) st = on_candidate d c st"
| "handle_signaling_inbound e (DiscoveryLost d) st = st"
| "handle_signaling_inbound e (PeerLeft d) st = drop_peer e d UserLeft st"

end
