(* ===== verification/Watch.thy ===== *)
theory Watch
  imports Connect
begin

text \<open>
  Keeping links up: transport events (\<open>handle_transport_event\<close> of \<open>engine/mod.rs\<close>), the watchdog of
  \<open>engine/ice_watchdog.rs\<close>, the network-change watcher of \<open>engine/network_watch.rs\<close>, wake detection of
  \<open>engine/wake.rs\<close>, connection shaping of \<open>engine/ladder.rs\<close> and the state-watch tick of \<open>engine/tick.rs\<close>.

  What the operating system says of its interfaces is an argument, as are the random values of a handshake. Reading
  the connectivity-check snapshot for the log is a transport call whose result is not used. The fan-out of media samples
  to subscribers, the selected candidate pair and media renegotiation are left out.
\<close>

section \<open>Reconnecting\<close>

text \<open>A loop with an await in its body.\<close>

fun each_resumed :: "(env \<Rightarrow> 'a \<Rightarrow> engine \<Rightarrow> engine) \<Rightarrow> env \<Rightarrow> 'a list \<Rightarrow> engine \<Rightarrow> engine" where
  "each_resumed f e [] st = st"
| "each_resumed f e (x # xs) st = (let st1 = f e x st in each_resumed f (resumed e st st1) xs st1)"

definition try_reoffer :: "env \<Rightarrow> string \<Rightarrow> engine \<Rightarrow> engine" where
  "try_reoffer e d st =
     (if es_offline st \<or> local_socket_recovery_active e st \<or> peer_is_closing st d then st
      else if fmlookup (es_peers st) d \<noteq> None then st
      else ensure_peer_session e d Offerer (snd (maybe_reactive_announce e st)))"

definition service_reconnect_intents :: "env \<Rightarrow> engine \<Rightarrow> engine" where
  "service_reconnect_intents e st =
     (if es_offline st \<or> local_socket_recovery_active e st then st
      else let (ds, st1) = due_reconnect_intents e st in each_resumed try_reoffer e ds st1)"

definition add_sticky :: "string \<Rightarrow> engine \<Rightarrow> engine" where
  "add_sticky d st =
     st\<lparr>es_sticky := insert d (es_sticky st),
        es_pinned := if d \<in> set (es_pinned st) then es_pinned st else es_pinned st @ [d]\<rparr>"

definition remove_sticky :: "string \<Rightarrow> engine \<Rightarrow> engine" where
  "remove_sticky d st =
     st\<lparr>es_sticky := es_sticky st - {d}, es_pinned := filter (\<lambda>p. p \<noteq> d) (es_pinned st),
        es_intents := fmdrop d (es_intents st)\<rparr>"

definition register_connect_waiter :: "string \<Rightarrow> nat \<Rightarrow> engine \<Rightarrow> engine" where
  "register_connect_waiter d w st =
     st\<lparr>es_waiters := fmupd d ((case fmlookup (es_waiters st) d of None \<Rightarrow> [] | Some ws \<Rightarrow> ws) @ [w]) (es_waiters st)\<rparr>"

definition connect_peer :: "env \<Rightarrow> string \<Rightarrow> bool \<Rightarrow> nat option \<Rightarrow> engine \<Rightarrow> engine" where
  "connect_peer e d sticky wait st =
     (let st1 = (if sticky then add_sticky d st else st);
          st2 = (case wait of
                   None \<Rightarrow> st1
                 | Some w \<Rightarrow> if map_option pd_status (peer_of st1 d) = Some Active then reply (w, Inr ()) st1
                             else register_connect_waiter d w st1)
      in if local_socket_recovery_active e st2 \<or> peer_is_closing st2 d then record_reconnect_intent e d sticky st2
         else let st3 = ensure_peer_session e d Offerer st2
              in snd (maybe_reactive_announce (resumed e st2 st3) st3))"

definition prune_one :: "env \<Rightarrow> string \<Rightarrow> engine \<Rightarrow> engine" where
  "prune_one e d st = note_sighted_without_dialing d (drop_peer e d TopologyPruned st)"

definition shape_connections :: "env \<Rightarrow> engine \<Rightarrow> engine" where
  "shape_connections e st =
     (let (to_prune, to_dial) = shape_plan e st
      in each_resumed (\<lambda>e d. ensure_peer_session e d Offerer) e to_dial (fold (prune_one e) to_prune st))"

section \<open>The ICE watchdog\<close>

definition ICE_DISCONNECTED_RESTART_MS :: u64 where
  "ICE_DISCONNECTED_RESTART_MS = 1000"

definition NO_TURN_DIAG_AFTER_FAILURES :: u32 where
  "NO_TURN_DIAG_AFTER_FAILURES = 3"

definition begin_local_gather :: "peer_data \<Rightarrow> peer_data" where
  "begin_local_gather p =
     (if pd_local_gather_in_progress p then p
      else p\<lparr>pd_local_gather_candidates := no_candidates, pd_local_gather_in_progress := True\<rparr>)"

definition record_local_candidate :: "ice_candidate_kind \<Rightarrow> peer_data \<Rightarrow> peer_data" where
  "record_local_candidate kind p =
     (let p1 = begin_local_gather p
      in p1\<lparr>pd_local_gather_candidates := record_kind kind (pd_local_gather_candidates p1),
            pd_local_candidates := record_kind kind (pd_local_candidates p1)\<rparr>)"

definition finish_local_gather :: "peer_data \<Rightarrow> ice_stats option \<times> peer_data" where
  "finish_local_gather p =
     (if \<not> pd_local_gather_in_progress p then (None, p)
      else (Some (pd_local_gather_candidates p), p\<lparr>pd_local_gather_in_progress := False\<rparr>))"

definition should_reclaim_after_empty_gather :: "env \<Rightarrow> peer_data \<Rightarrow> bool" where
  "should_reclaim_after_empty_gather e p =
     (if \<not> pd_data_channel_open p then True
      else case (case pd_last_recv_at p of Some t \<Rightarrow> Some t | None \<Rightarrow> pd_session_started_at p) of
             None \<Rightarrow> False
           | Some at \<Rightarrow> HEARTBEAT_TIMEOUT_MS + WAKE_DETECTION_THRESHOLD_MS \<le> duration_since (en_instant e) at)"

definition on_empty_local_gather :: "env \<Rightarrow> string \<Rightarrow> u64 \<Rightarrow> engine \<Rightarrow> engine" where
  "on_empty_local_gather e d epoch st =
     (let (first_in_wave, st1, owners) = note_local_socket_pressure e st (en_pressure_owners e);
          e1 = e\<lparr>en_pressure_owners := owners\<rparr>
      in case fmlookup (es_peers st1) d of
           None \<Rightarrow> st1
         | Some p \<Rightarrow>
             if pc_epoch p \<noteq> epoch then st1
             else if should_reclaim_after_empty_gather e (pc_data p)
             then snd (drop_peer_if_epoch e1 d epoch IceFailed st1)
             else defer_ice_restart d True st1)"

text \<open>Only the latch of the no-TURN hint; its text goes to the log.\<close>

definition no_turn_data :: "peer_data \<Rightarrow> peer_data" where
  "no_turn_data p =
     (let p1 = p\<lparr>pd_ice_failed_count := saturating_inc_u32 (pd_ice_failed_count p)\<rparr> in
      if pd_no_turn_diag_emitted p1 \<or> pd_ice_failed_count p1 < NO_TURN_DIAG_AFTER_FAILURES \<or>
         0 < is_relay (pd_local_candidates p1) \<or> 0 < is_relay (pd_remote_candidates p1)
      then p1 else p1\<lparr>pd_no_turn_diag_emitted := True\<rparr>)"

definition on_failed :: "env \<Rightarrow> string \<Rightarrow> u64 \<Rightarrow> engine \<Rightarrow> engine" where
  "on_failed e d epoch st =
     (if \<not> peer_epoch_matches st d epoch then st
      else renegotiate_ice e d False ''ice-failed'' (Some epoch) (update_peer d no_turn_data st))"

definition request_relay_reconnect :: "engine \<Rightarrow> bool \<times> engine" where
  "request_relay_reconnect st =
     (if es_relay_reconnect st
      then (True, st\<lparr>es_fx := (es_fx st)\<lparr>fx_redials := fx_redials (es_fx st) + 1\<rparr>\<rparr>) else (False, st))"

definition request_relay_reconnect_throttled :: "env \<Rightarrow> string \<Rightarrow> engine \<Rightarrow> nat option \<times> engine" where
  "request_relay_reconnect_throttled e d st =
     (if \<not> es_relay_reconnect st then (None, st)
      else
        case take_permit d (en_instant e) (es_rescue st) of
          (None, w) \<Rightarrow> (None, st\<lparr>es_rescue := w\<rparr>)
        | (Some attempt, w) \<Rightarrow>
            let (issued, st1) = request_relay_reconnect (st\<lparr>es_rescue := w\<rparr>)
            in (if issued then Some attempt else None, st1))"

definition other_live_peers :: "engine \<Rightarrow> string \<Rightarrow> string list" where
  "other_live_peers st d = filter (\<lambda>k. k \<noteq> d) (live_peer_ids st)"

definition no_remote_candidates :: "engine \<Rightarrow> string \<Rightarrow> bool" where
  "no_remote_candidates st d =
     (case peer_of st d of None \<Rightarrow> False | Some p \<Rightarrow> stats_total (pd_remote_candidates p) = 0)"

text \<open>Dropping a session and, when it was dropped, asking to be found again.\<close>

definition rebuild :: "env \<Rightarrow> string \<Rightarrow> u64 \<Rightarrow> drop_reason \<Rightarrow> engine \<Rightarrow> engine" where
  "rebuild e d epoch reason st =
     (let (dropped, st1) = drop_peer_if_epoch e d epoch reason st
      in if dropped then snd (maybe_reactive_announce e st1) else st1)"

definition on_connect_timeout :: "env \<Rightarrow> string \<times> u64 \<Rightarrow> engine \<Rightarrow> engine" where
  "on_connect_timeout e = (\<lambda>(d, epoch) st.
     if es_offline st \<or> \<not> peer_epoch_matches st d epoch then st
     else if local_socket_recovery_active e st then snd (drop_peer_if_epoch e d epoch IceFailed st)
     else
       let st1 = transport_call st; e1 = resumed e st st1 in
       if \<not> peer_epoch_matches st1 d epoch then st1
       else if local_socket_recovery_active e1 st1 then snd (drop_peer_if_epoch e1 d epoch IceFailed st1)
       else
         let st2 = (if no_remote_candidates st1 d \<and> other_live_peers st1 d = []
                    then snd (request_relay_reconnect_throttled e1 d st1) else st1)
         in rebuild e1 d epoch IceFailed st2)"

definition on_restart_unconfirmed :: "env \<Rightarrow> string \<times> u64 \<Rightarrow> engine \<Rightarrow> engine" where
  "on_restart_unconfirmed e = (\<lambda>(d, epoch) st.
     if es_offline st \<or> \<not> peer_epoch_matches st d epoch then st else rebuild e d epoch IceFailed st)"

definition replay_deferred :: "env \<Rightarrow> string \<times> bool \<Rightarrow> engine \<Rightarrow> engine" where
  "replay_deferred e = (\<lambda>(d, force) st.
     if local_socket_recovery_active e st then defer_ice_restart d force st
     else if fmlookup (es_peers st) d \<noteq> None then renegotiate_ice e d force ''socket-recovery'' None st
     else try_reoffer e d st)"

text \<open>The environment is returned too, here and by \<open>poll_all\<close>: a successful probe lowers the process-wide count.\<close>

definition service_local_socket_recovery :: "env \<Rightarrow> engine \<Rightarrow> env \<times> engine" where
  "service_local_socket_recovery e st =
     (if es_offline st then (e, st)
      else
        let (permit, st1) = take_local_socket_probe_permit e st;
            (recovered, st2, owners) =
              (if permit then finish_local_socket_probe e (tp_probe (en_transport e)) st1 (en_pressure_owners e)
               else (False, st1, en_pressure_owners e));
            e2 = e\<lparr>en_pressure_owners := owners\<rparr>
        in
        if local_socket_recovery_active e2 st2 then (e2, st2)
        else
          let (deferred, st3) = take_deferred_ice_restarts st2;
              st4 = each_resumed replay_deferred e2 deferred st3;
              e4 = resumed e2 st3 st4
          in (e4, if recovered then snd (maybe_reactive_announce e4 st4) else st4))"

definition peers_where :: "(peer_connection \<Rightarrow> bool) \<Rightarrow> engine \<Rightarrow> (string \<times> u64) list" where
  "peers_where f st =
     map (\<lambda>(d, p). (d, pc_epoch p)) (filter (\<lambda>(d, p). f p) (sorted_list_of_fmap (es_peers st)))"

definition is_live :: "peer_data \<Rightarrow> bool" where
  "is_live p \<longleftrightarrow> pd_status p = Active \<or> pd_status p = Shelved"

definition past_since :: "env \<Rightarrow> u64 \<Rightarrow> u64 option \<Rightarrow> bool" where
  "past_since e ms since = (case since of None \<Rightarrow> False | Some t \<Rightarrow> ms \<le> duration_since (en_instant e) t)"

definition disconnected_too_long :: "env \<Rightarrow> peer_connection \<Rightarrow> bool" where
  "disconnected_too_long e p \<longleftrightarrow>
     is_live (pc_data p) \<and> past_since e ICE_DISCONNECTED_RESTART_MS (pd_ice_disconnected_since (pc_data p))"

definition connect_timed_out :: "env \<Rightarrow> peer_connection \<Rightarrow> bool" where
  "connect_timed_out e p \<longleftrightarrow>
     \<not> pd_data_channel_open (pc_data p) \<and> past_since e DATA_CHANNEL_OPEN_TIMEOUT_MS (pd_session_started_at (pc_data p))"

definition restart_unconfirmed :: "env \<Rightarrow> peer_connection \<Rightarrow> bool" where
  "restart_unconfirmed e p =
     (case pd_tier (pc_data p) of
        IceRestart started \<Rightarrow>
          (if pc_session p \<noteq> None \<and> ice_up (tp_ice (en_transport e) (pc_epoch p))
           then RESTART_TRAFFIC_GRACE_MS else DATA_CHANNEL_OPEN_TIMEOUT_MS) \<le> duration_since (en_instant e) started
      | _ \<Rightarrow> False)"

definition poll_all :: "env \<Rightarrow> engine \<Rightarrow> env \<times> engine" where
  "poll_all e st =
     (let (e1, st1) = service_local_socket_recovery e st;
          st2 = each_resumed (\<lambda>e (d, epoch). renegotiate_ice e d False ''ice-disconnected-watchdog'' (Some epoch)) e1
                  (peers_where (disconnected_too_long e) st1) st1;
          e2 = resumed e1 st1 st2;
          st3 = each_resumed on_connect_timeout e2 (peers_where (connect_timed_out e) st2) st2;
          e3 = resumed e2 st2 st3
      in (e3, each_resumed on_restart_unconfirmed e3 (peers_where (restart_unconfirmed e) st3) st3))"

definition force_ice_restart_all :: "env \<Rightarrow> engine \<Rightarrow> engine" where
  "force_ice_restart_all e st =
     each_resumed (\<lambda>e (d, epoch). renegotiate_ice e d True ''network-change'' (Some epoch)) e
       (peers_where (\<lambda>p. is_live (pc_data p)) st) st"

section \<open>Transport events\<close>

datatype gatherer_state = GatherUnspecified | GatherNew | Gathering | GatherComplete | GatherClosed

datatype pc_state = PcUnspecified | PcNew | PcConnecting | PcConnected | PcDisconnected | PcFailed | PcClosed

datatype transport_event =
    LocalIceCandidate "ice_candidate option"
  | IceGatheringStateChanged gatherer_state
  | IceConnectionStateChanged ice_state
  | PeerConnectionStateChanged pc_state
  | DataChannelOpen
  | Message bytes
  | DataChannelClosed
  | RenegotiationNeeded
  | VideoSample bytes
  | VideoDiscontinuity u8 u32 u64
  | AudioSample bytes

definition is_media :: "transport_event \<Rightarrow> bool" where
  "is_media ev = (case ev of VideoSample _ \<Rightarrow> True | AudioSample _ \<Rightarrow> True | _ \<Rightarrow> False)"

definition recovering :: "peer_data \<Rightarrow> bool" where
  "recovering p = (case pd_tier p of IceWatchdog _ \<Rightarrow> True | IceRestart _ \<Rightarrow> True | WakeProbe \<Rightarrow> True | _ \<Rightarrow> False)"

definition carrying_traffic :: "env \<Rightarrow> peer_data \<Rightarrow> bool" where
  "carrying_traffic e p =
     (case pd_last_recv_at p of None \<Rightarrow> False | Some t \<Rightarrow> duration_since (en_instant e) t < HEARTBEAT_TIMEOUT_MS)"

definition handle_ice_state_change :: "env \<Rightarrow> string \<Rightarrow> u64 \<Rightarrow> ice_state \<Rightarrow> engine \<Rightarrow> engine" where
  "handle_ice_state_change e d epoch ice st =
     (case fmlookup (es_peers st) d of
        None \<Rightarrow> st
      | Some p \<Rightarrow>
        if pc_epoch p \<noteq> epoch then st
        else if ice_up ice then
          let st1 = update_peer d (\<lambda>p. p\<lparr>pd_ice_disconnected_since := None,
                pd_tier := if recovering p then IceRestart (en_instant e) else pd_tier p\<rparr>) st
          in if recovering (pc_data p) then send_ping e d st1 else st1
        else if ice = IceDisconnected then
          update_peer d (\<lambda>p. if pd_ice_disconnected_since p = None
             then p\<lparr>pd_ice_disconnected_since := Some (en_instant e), pd_tier := IceWatchdog (en_instant e)\<rparr> else p) st
        else if ice = IceStateFailed then
          (if \<not> carrying_traffic e (pc_data p)
           then let st1 = transport_call st in
                if \<not> peer_epoch_matches st1 d epoch then st1 else on_failed (resumed e st st1) d epoch st1
           else st)
        else st)"

definition handle_pc_state_change :: "env \<Rightarrow> string \<Rightarrow> u64 \<Rightarrow> pc_state \<Rightarrow> engine \<Rightarrow> engine" where
  "handle_pc_state_change e d epoch pc st =
     (if pc = PcClosed then snd (drop_peer_if_epoch e d epoch IceFailed st) else st)"

type_synonym hello_args = "string \<times> string \<times> json \<times> string option"

definition gather_complete :: "env \<Rightarrow> string \<Rightarrow> u64 \<Rightarrow> engine \<Rightarrow> engine" where
  "gather_complete e d epoch st =
     (case peer_of st d of
        None \<Rightarrow> st
      | Some p \<Rightarrow>
          let (completed, p1) = finish_local_gather p;
              st1 = update_peer d (\<lambda>_. p1) st
          in case completed of
               None \<Rightarrow> st1
             | Some stats \<Rightarrow> if stats_total stats = 0 then on_empty_local_gather e d epoch st1 else st1)"

fun on_transport_event ::
  "env \<Rightarrow> (bytes \<Rightarrow> mesh_message option) \<Rightarrow> hello_args \<Rightarrow> string \<Rightarrow> u64 \<Rightarrow> transport_event \<Rightarrow> engine \<Rightarrow> engine" where
  "on_transport_event e decode h d epoch RenegotiationNeeded st =
     update_peer d (\<lambda>p. p\<lparr>pd_media_reneg_pending := True\<rparr>) st"
| "on_transport_event e decode h d epoch (LocalIceCandidate (Some c)) st =
     signal (SendCandidate d c)
       (update_peer d (record_local_candidate (classify_candidate_sdp (ic_candidate c))) st)"
| "on_transport_event e decode h d epoch (LocalIceCandidate None) st = st"
| "on_transport_event e decode h d epoch (IceGatheringStateChanged g) st =
     (case g of
        Gathering \<Rightarrow> update_peer d begin_local_gather st
      | GatherComplete \<Rightarrow> gather_complete e d epoch st
      | _ \<Rightarrow> st)"
| "on_transport_event e decode h d epoch (IceConnectionStateChanged ice) st = handle_ice_state_change e d epoch ice st"
| "on_transport_event e decode h d epoch (PeerConnectionStateChanged pc) st = handle_pc_state_change e d epoch pc st"
| "on_transport_event e decode h d epoch DataChannelOpen st =
     (case h of (nonce, code, caps, app_version) \<Rightarrow>
        initiate e nonce code caps app_version d
          (clear_deferred_ice_restart d (clear_reconnect_intent d
            (update_peer d (\<lambda>p. p\<lparr>pd_data_channel_open := True\<rparr>) st))))"
| "on_transport_event e decode h d epoch DataChannelClosed st =
     snd (drop_peer_if_epoch e d epoch (if log_evicted e st d then Denied else IceFailed) st)"
| "on_transport_event e decode h d epoch (Message frame) st = handle_inbound_frame e decode d frame st"
| "on_transport_event e decode h d epoch (VideoSample sample) st = st"
| "on_transport_event e decode h d epoch (VideoDiscontinuity lane timestamp sequence) st = st"
| "on_transport_event e decode h d epoch (AudioSample sample) st = st"

definition handle_transport_event ::
  "env \<Rightarrow> (bytes \<Rightarrow> mesh_message option) \<Rightarrow> hello_args \<Rightarrow> string \<Rightarrow> u64 \<Rightarrow> transport_event \<Rightarrow> engine \<Rightarrow> engine" where
  "handle_transport_event e decode h d epoch ev st =
     (if \<not> peer_epoch_matches st d epoch then st
      else on_transport_event e decode h d epoch ev
             (if is_media ev
              then update_peer d (\<lambda>p. if is_admitted p then p\<lparr>pd_last_recv_at := Some (en_instant e)\<rparr> else p) st
              else st))"

section \<open>Network changes\<close>

definition NETWORK_CHANGE_RESTART_COOLDOWN_MS :: u64 where
  "NETWORK_CHANGE_RESTART_COOLDOWN_MS = 5000"

text \<open>\<open>NetworkSnapshot\<close> and \<open>NetworkWatch\<close> without the probe target.\<close>

record network_snapshot =
  ns_v4 :: "32 word option"
  ns_v6 :: "128 word option"
  ns_local_set :: u64
  ns_local_count :: nat

record network_watch =
  nw_last :: "network_snapshot option"
  nw_last_restart_at :: "u64 option"

definition snapshot_offline :: "network_snapshot \<Rightarrow> bool" where
  "snapshot_offline s \<longleftrightarrow> ns_v4 s = None \<and> ns_v6 s = None \<and> ns_local_count s = 0"

definition is_benign_secondary_churn :: "network_snapshot \<Rightarrow> network_snapshot \<Rightarrow> bool" where
  "is_benign_secondary_churn prev current \<longleftrightarrow>
     (ns_v4 current = ns_v4 prev \<and> ns_v6 current = ns_v6 prev) \<and> (ns_v4 current \<noteq> None \<or> ns_v6 current \<noteq> None)"

definition cooldown_coalesces :: "bool \<Rightarrow> u64 option \<Rightarrow> u64 \<Rightarrow> bool" where
  "cooldown_coalesces is_offline_edge last_restart_at now =
     (if is_offline_edge then False
      else case last_restart_at of None \<Rightarrow> False | Some t \<Rightarrow> duration_since now t < NETWORK_CHANGE_RESTART_COOLDOWN_MS)"

definition set_offline :: "bool \<Rightarrow> engine \<Rightarrow> engine" where
  "set_offline b st = st\<lparr>es_offline := b\<rparr>"

definition fan_out_restart :: "env \<Rightarrow> engine \<Rightarrow> engine" where
  "fan_out_restart e st =
     (let st1 = force_ice_restart_all e st; e1 = resumed e st st1 in
      if local_socket_recovery_active e1 st1 then st1
      else
        let (ds, st2) = flush_reconnect_intents e1 st1;
            st3 = each_resumed try_reoffer e1 ds st2
        in snd (maybe_reactive_announce (resumed e1 st2 st3) st3))"

text \<open>With a relay driver attached the fan-out waits, as a task, for a fresh relay session.\<close>

definition redial_then_fan_out :: "env \<Rightarrow> engine \<Rightarrow> engine" where
  "redial_then_fan_out e st =
     (let (redialing, st1) = request_relay_reconnect st in
      if redialing \<and> es_relay_connected st1 then spawn FanOutOnRelay st1 else fan_out_restart e st1)"

definition on_network_change :: "env \<Rightarrow> network_snapshot \<Rightarrow> engine \<Rightarrow> engine" where
  "on_network_change e current st =
     (let st1 = set_offline (snapshot_offline current) st in
      if snapshot_offline current then st1 else redial_then_fan_out e st1)"

definition watch_poll :: "env \<Rightarrow> network_snapshot \<Rightarrow> network_watch \<Rightarrow> engine \<Rightarrow> network_watch \<times> engine" where
  "watch_poll e current w st =
     (case nw_last w of
        None \<Rightarrow> (w\<lparr>nw_last := Some current\<rparr>, st)
      | Some prev \<Rightarrow>
          if current = prev then (w, st)
          else
            let w1 = w\<lparr>nw_last := Some current\<rparr>;
                now_offline = snapshot_offline current;
                is_offline_edge = (now_offline \<or> es_offline st)
            in
            if is_benign_secondary_churn prev current then (w1, st)
            else if cooldown_coalesces is_offline_edge (nw_last_restart_at w1) (en_instant e) then (w1, st)
            else (if now_offline then w1 else w1\<lparr>nw_last_restart_at := Some (en_instant e)\<rparr>,
                  on_network_change e current st))"

definition reconnect_all_in_place :: "env \<Rightarrow> engine \<Rightarrow> engine" where
  "reconnect_all_in_place e st = (if es_offline st then st else redial_then_fan_out e st)"

definition reconnect_peer_in_place :: "env \<Rightarrow> string \<Rightarrow> engine \<Rightarrow> engine" where
  "reconnect_peer_in_place e d st =
     (if es_offline st then st
      else
        let st1 = renegotiate_ice e d True ''manual-reconnect'' None st; e1 = resumed e st st1;
            st2 = try_reoffer e1 d st1; e2 = resumed e1 st1 st2
        in snd (maybe_reactive_announce e2 st2))"

section \<open>Waking up\<close>

definition WAKE_COALESCE_MS :: u64 where
  "WAKE_COALESCE_MS = 2000"

definition HEARTBEAT_INTERVAL_MS :: u64 where
  "HEARTBEAT_INTERVAL_MS = 30000"

record wake_detector =
  wd_last_tick_at :: "u64 option"
  wd_last_wake_at :: "u64 option"
  wd_pending :: bool

definition wake_observe :: "u64 \<Rightarrow> u64 \<Rightarrow> wake_detector \<Rightarrow> wake_detector" where
  "wake_observe now interval_ms w =
     (let w1 =
        (case wd_last_tick_at w of
           None \<Rightarrow> w
         | Some prev \<Rightarrow>
             let gap = duration_since now prev;
                 threshold = max WAKE_DETECTION_THRESHOLD_MS (interval_ms * 2);
                 stale_window = (case wd_last_wake_at w of None \<Rightarrow> - 1 | Some t \<Rightarrow> duration_since now t)
             in if threshold < gap \<and> WAKE_COALESCE_MS < stale_window
                then w\<lparr>wd_pending := True, wd_last_wake_at := Some now\<rparr> else w)
      in w1\<lparr>wd_last_tick_at := Some now\<rparr>)"

definition take_wake_event :: "wake_detector \<Rightarrow> bool \<times> wake_detector" where
  "take_wake_event w = (wd_pending w, w\<lparr>wd_pending := False\<rparr>)"

definition wake_ping :: "env \<Rightarrow> string \<Rightarrow> engine \<Rightarrow> engine" where
  "wake_ping e d st =
     snd (send_to_peer e d (Ping (en_wall_ms e)) (update_peer d (\<lambda>p. p\<lparr>pd_last_ping_t := Some (en_wall_ms e)\<rparr>) st))"

definition on_wake :: "env \<Rightarrow> engine \<Rightarrow> engine" where
  "on_wake e st =
     (let st1 = snd (request_relay_reconnect (signal Announce st));
          active = peers_where (\<lambda>p. is_live (pc_data p)) st1
      in spawn (WakeSweep active) (fold (\<lambda>(d, _). wake_ping e d) active st1))"

text \<open>The sweep it spawns, when its delay is over. A peer that never sent anything counts as silent.\<close>

definition wake_sweep_one :: "env \<Rightarrow> string \<times> u64 \<Rightarrow> bool \<times> engine \<Rightarrow> bool \<times> engine" where
  "wake_sweep_one e = (\<lambda>(d, epoch) (any_rebuilt, st).
     case fmlookup (es_peers st) d of
       None \<Rightarrow> (any_rebuilt, st)
     | Some p \<Rightarrow>
         if pc_epoch p \<noteq> epoch then (any_rebuilt, st)
         else if WAKE_PROBE_DELAY_MS <
                 (case pd_last_recv_at (pc_data p) of None \<Rightarrow> - 1 | Some t \<Rightarrow> duration_since (en_instant e) t)
         then let (dropped, st1) = drop_peer_if_epoch e d epoch HeartbeatTimeout st in (any_rebuilt \<or> dropped, st1)
         else (any_rebuilt, st))"

definition wake_sweep_fires :: "env \<Rightarrow> (string \<times> u64) list \<Rightarrow> engine \<Rightarrow> engine" where
  "wake_sweep_fires e peers st =
     (let (any_rebuilt, st1) = fold (wake_sweep_one e) peers (False, st)
      in if any_rebuilt then snd (maybe_reactive_announce e st1) else st1)"

section \<open>The periodic passes of the driver\<close>

definition heartbeat_pass :: "env \<Rightarrow> wake_detector \<Rightarrow> engine \<Rightarrow> wake_detector \<times> engine" where
  "heartbeat_pass e w st =
     (let st1 = heartbeat_tick e st;
          (woke, w1) = take_wake_event (wake_observe (en_instant e) HEARTBEAT_INTERVAL_MS w)
      in (w1, if woke then on_wake e st1 else st1))"

text \<open>
  \<open>TickRegistry::run\<close> over the tickers in the order \<open>run_driver\<close> registers them, but for the ticker that renegotiates media lanes,
  which are not modelled.
\<close>

definition state_watch_pass :: "env \<Rightarrow> network_snapshot \<Rightarrow> network_watch \<Rightarrow> engine \<Rightarrow> network_watch \<times> engine" where
  "state_watch_pass e current w st =
     (let (e1, st1) = poll_all e st;
          (w1, st2) = watch_poll e1 current w st1; e2 = resumed e1 st1 st2;
          st3 = service_reconnect_intents e2 st2; e3 = resumed e2 st2 st3;
          st4 = tick e3 st3
      in (w1, shape_connections e3 st4))"

end
