(* ===== verification/Commands.thy ===== *)
theory Commands
  imports Watch
begin

text \<open>
  The commands of \<open>handle_command\<close> (\<open>engine/mod.rs\<close>) and the end of a network, \<open>shutdown\<close> of \<open>engine/state.rs\<close>.
  The two media-lane commands only call into a session and are left out.
\<close>

section \<open>Commands\<close>

datatype network_cmd =
    Shutdown
  | SetTopology topology_mode
  | ApproveRoster string string
  | RemoveRoster string
  | DropPeer string drop_reason
  | Reconnect "string option"
  | ConnectPeer string bool "nat option"
  | SendChannelReliable string string json "u64 option" nat
  | SendChannelFrame string string json
  | BroadcastChannelFrame string json
  | SendRpcRequest string rpc_request
  | BroadcastCapabilities json
  | TransportEvent string u64 transport_event
  | ProposeTransition variant "string option"
  | SignProposal string "string option"
  | DenyProposal string
  | WithdrawProposal string
  | SpawnSplit string
  | GovernanceSnapshot

datatype cmd_reply =
  NoReply | ReplyUnit "unit result" | ReplyCount nat | ReplyString "string result" | ReplySnapshot network_state

text \<open>
  The flag says whether the driver goes on. \<open>rnd\<close> is the random number a routed frame or a new outbox needs,
  \<open>fresh\<close> the random id of a proposal, \<open>h\<close> the random values of a handshake. The reply of a reliable send and of a
  deliberate connect comes later, by its number.
\<close>

fun handle_command ::
  "env \<Rightarrow> (bytes \<Rightarrow> mesh_message option) \<Rightarrow> hello_args \<Rightarrow> u64 \<Rightarrow> string \<Rightarrow> network_cmd \<Rightarrow> engine \<Rightarrow> bool \<times> cmd_reply \<times> engine" where
  "handle_command e decode h rnd fresh Shutdown st = (False, NoReply, st)"
| "handle_command e decode h rnd fresh (SetTopology mode) st =
     (True, NoReply,
      if ns_topology (es_gov st) \<noteq> None then st
      else reevaluate_topology e (st\<lparr>es_topology := mode, es_topology_impl := from_mode mode\<rparr>))"
| "handle_command e decode h rnd fresh (ApproveRoster d lbl) st =
     (let (result, st1) = approve_roster e d lbl st
      in (True, ReplyUnit result, if is_ok result then broadcast_roster_summary e st1 else st1))"
| "handle_command e decode h rnd fresh (RemoveRoster d) st =
     (let (result, st1) = remove_roster e d st in (True, ReplyUnit result, st1))"
| "handle_command e decode h rnd fresh (DropPeer d reason) st = (True, NoReply, drop_peer e d reason st)"
| "handle_command e decode h rnd fresh (Reconnect peer) st =
     (True, NoReply,
      case peer of Some d \<Rightarrow> reconnect_peer_in_place e d st | None \<Rightarrow> reconnect_all_in_place e st)"
| "handle_command e decode h rnd fresh (ConnectPeer d sticky wait) st = (True, NoReply, connect_peer e d sticky wait st)"
| "handle_command e decode h rnd fresh (SendChannelReliable peer channel payload ttl w) st =
     (True, NoReply, enqueue e rnd peer channel payload ttl w st)"
| "handle_command e decode h rnd fresh (SendChannelFrame peer channel payload) st =
     (let (result, st1) = send_channel_frame e rnd peer channel payload st in (True, ReplyUnit result, st1))"
| "handle_command e decode h rnd fresh (BroadcastChannelFrame channel payload) st =
     (let (count, st1) = broadcast_channel_frame e rnd channel payload st in (True, ReplyCount count, st1))"
| "handle_command e decode h rnd fresh (SendRpcRequest peer request) st =
     (let (result, st1) = send_rpc_request e peer request st in (True, ReplyUnit result, st1))"
| "handle_command e decode h rnd fresh (BroadcastCapabilities caps) st =
     (let (count, st1) = broadcast_capabilities e caps st in (True, ReplyCount count, st1))"
| "handle_command e decode h rnd fresh (TransportEvent d epoch event) st =
     (True, NoReply, handle_transport_event e decode h d epoch event st)"
| "handle_command e decode h rnd fresh (ProposeTransition v mfa) st =
     (let (result, st1) = propose e fresh v mfa st in (True, ReplyString result, st1))"
| "handle_command e decode h rnd fresh (SignProposal i mfa) st =
     (let (result, st1) = sign_proposal e i mfa st in (True, ReplyUnit result, st1))"
| "handle_command e decode h rnd fresh (DenyProposal i) st =
     (let (result, st1) = deny_proposal e i st in (True, ReplyUnit result, st1))"
| "handle_command e decode h rnd fresh (WithdrawProposal i) st =
     (let (result, st1) = withdraw_proposal e i st in (True, ReplyUnit result, st1))"
| "handle_command e decode h rnd fresh (SpawnSplit i) st =
     (let (result, st1) = spawn_split e i st in (True, ReplyString result, st1))"
| "handle_command e decode h rnd fresh GovernanceSnapshot st = (True, ReplySnapshot (es_gov st), st)"

section \<open>Shutdown\<close>

definition shutdown :: "engine \<Rightarrow> engine" where
  "shutdown st =
     (let st1 = st\<lparr>es_peers := fmempty\<rparr>;
          st2 = fold (\<lambda>d. resolve_connect_waiters d (Some ''network shut down'')) (sorted_list_of_fset (fmdom (es_waiters st1))) st1
      in fold (\<lambda>d. fail_peer d ''network shut down'') (sorted_list_of_fset (fmdom (es_out st2))) st2)"

end
