(* ===== verification/Links.thy ===== *)
theory Links
  imports Commands
begin

text \<open>
  What opening, restarting and tearing down links keeps: the interfaces between the link handlers of
  \<open>Connect\<close> and \<open>Watch\<close> and the rest of the engine.
\<close>

section \<open>What handling links keeps\<close>

lemma drop_if_epoch_snd: "snd (drop_peer_if_epoch e d ep r st) = (if peer_epoch_matches st d ep then drop_peer e d r st else st)"
proof (cases "peer_epoch_matches st d ep")
  case True
  then show ?thesis by (simp add: drop_if_epoch drop_peer_def)
next
  case False
  then show ?thesis by (auto simp: drop_peer_if_epoch_def drop_peer_inner_def peer_epoch_matches_def split: option.splits)
qed

text \<open>
  An update of a peer's record that leaves its place in the handshake alone: status, authentication and the two
  approvals, and whether and since when it has a session with an open channel.
\<close>

definition gentle :: "(peer_data \<Rightarrow> peer_data) \<Rightarrow> bool" where
  "gentle f \<longleftrightarrow> (\<forall>p. pd_status (f p) = pd_status p \<and> pd_authenticated (f p) = pd_authenticated p \<and>
     pd_local_approve_sent (f p) = pd_local_approve_sent p \<and> pd_remote_approve_seen (f p) = pd_remote_approve_seen p \<and>
     pd_data_channel_open (f p) = pd_data_channel_open p \<and> pd_session_started_at (f p) = pd_session_started_at p)"

lemma gentle_updates [simp]:
  "gentle (\<lambda>p. p\<lparr>pd_pending_offer_id := x\<rparr>)" "gentle (\<lambda>p. p\<lparr>pd_last_offer_sent_at := t\<rparr>)"
  "gentle (\<lambda>p. p\<lparr>pd_remote_description_set := b, pd_pending_remote_candidates := cs\<rparr>)"
  "gentle (\<lambda>p. p\<lparr>pd_remote_candidates := record_kind k (pd_remote_candidates p)\<rparr>)" "gentle (queue_candidate c)"
  "gentle settle_tier" "gentle (\<lambda>p. p\<lparr>pd_last_offer_sent_at := t, pd_tier := tier\<rparr>)"
  "gentle (\<lambda>p. p\<lparr>pd_last_liveness_probe_at := t\<rparr>)" "gentle (\<lambda>p. p\<lparr>pd_last_ping_sent_at := t, pd_last_ping_t := z\<rparr>)"
  "gentle (\<lambda>p. p\<lparr>pd_last_ping_t := z\<rparr>)" "gentle begin_local_gather" "gentle (record_local_candidate k)"
  "gentle no_turn_data" "gentle (\<lambda>p. p\<lparr>pd_media_reneg_pending := b\<rparr>)"
  "gentle (\<lambda>p. if is_admitted p then p\<lparr>pd_last_recv_at := t\<rparr> else p)"
  "gentle (\<lambda>p. p\<lparr>pd_ice_disconnected_since := t, pd_tier := if recovering p then tier else pd_tier p\<rparr>)"
  "gentle (\<lambda>p. if pd_ice_disconnected_since p = None then p\<lparr>pd_ice_disconnected_since := t, pd_tier := tier\<rparr> else p)"
  by (auto simp: gentle_def queue_candidate_def settle_tier_def begin_local_gather_def record_local_candidate_def
      no_turn_data_def Let_def split: connection_tier.split)

text \<open>
  The interfaces between handling links and the rest of the engine, in three steps. A property kept by the
  engine's effects, by pacing, by a session's descriptions and by gentle updates of a peer is kept by whatever restarts a
  link in place.
\<close>

locale restart_invariant =
  fixes I :: "engine \<Rightarrow> bool"
  assumes fx: "I (st\<lparr>es_fx := effects\<rparr>) = I st"
    and pacing: "I (st\<lparr>es_last_announce := la\<rparr>) = I st" "I (st\<lparr>es_deferred := df\<rparr>) = I st" "I (st\<lparr>es_intents := ri\<rparr>) = I st"
      "I (st\<lparr>es_rescue := rw\<rparr>) = I st" "I (st\<lparr>es_socket := so\<rparr>) = I st" "I (st\<lparr>es_waiters := ws\<rparr>) = I st"
      "I (st\<lparr>es_sticky := sk, es_pinned := pn\<rparr>) = I st"
    and session: "I st \<Longrightarrow> I (set_session d f st)"
    and peer: "gentle g \<Longrightarrow> I st \<Longrightarrow> I (update_peer d g st)"
begin

lemmas kept_fields [simp] = fx pacing
lemmas kept_updates [simp] = session peer

lemma kept_effects [simp]:
  "I (signal m st) = I st" "I (transport_call st) = I st" "I (spawn t st) = I st" "I (reply r st) = I st"
  "I (snd (send_to_peer e d msg st)) = I st" "I (add_ice_candidate d epoch c st) = I st"
  by (simp_all add: signal_def transport_call_def spawn_def reply_def add_ice_candidate_def send_to_peer_def Let_def split: option.split)

lemma kept_small [simp]:
  "I st \<Longrightarrow> I (snd (maybe_reactive_announce e st))" "I st \<Longrightarrow> I (defer_ice_restart d force st)"
  "I st \<Longrightarrow> I (snd (create_offer e d st))" "I st \<Longrightarrow> I (snd (create_answer e d st))"
  "I st \<Longrightarrow> I (snd (set_remote_description e d sdp st))" "I st \<Longrightarrow> I (snd (issue_offer_id e d epoch st))"
  "I st \<Longrightarrow> I (stamp_offer e d st)" "I st \<Longrightarrow> I (forget_stamp d epoch st)" "I st \<Longrightarrow> I (send_ping e d st)"
  "I st \<Longrightarrow> I (record_reconnect_intent e d b st)" "I st \<Longrightarrow> I (clear_reconnect_intent d st)"
  "I st \<Longrightarrow> I (clear_deferred_ice_restart d st)" "I st \<Longrightarrow> I (snd (request_relay_reconnect st))"
  by (simp_all add: maybe_reactive_announce_def defer_ice_restart_def create_offer_def create_answer_def set_remote_description_def
      issue_offer_id_def stamp_offer_def forget_stamp_def send_ping_def record_reconnect_intent_def clear_reconnect_intent_def
      clear_deferred_ice_restart_def request_relay_reconnect_def Let_def split: option.split)

lemma kept_restarts [simp]:
  "I st \<Longrightarrow> I (snd (re_offer e d epoch st))" "I st \<Longrightarrow> I (restart_offer e d epoch force st)"
  by (simp_all add: re_offer_def restart_offer_def defer_restart_def Let_def case_prod_beta split: option.split)

lemma kept_add_pending [simp]: "I st \<Longrightarrow> I (add_pending d epoch cs st)"
  by (induction d epoch cs st rule: add_pending.induct) simp_all

lemma kept_candidate [simp]: "I st \<Longrightarrow> I (on_candidate d c st)"
  by (simp add: on_candidate_def Let_def split: option.split)

lemma kept_renegotiate [simp]: "I st \<Longrightarrow> I (renegotiate_ice e d force trigger epoch st)"
  by (simp add: renegotiate_ice_def defer_restart_def Let_def split: option.split)

lemma kept_each: "(\<And>e x s. I s \<Longrightarrow> I (f e x s)) \<Longrightarrow> I st \<Longrightarrow> I (each_resumed f e xs st)"
  by (induction f e xs st rule: each_resumed.induct) (simp_all add: Let_def)

lemma kept_fold: "(\<And>x s. I s \<Longrightarrow> I (f x s)) \<Longrightarrow> I st \<Longrightarrow> I (fold f xs st)"
  by (induction xs arbitrary: st) simp_all

lemma kept_intents [simp]:
  "I st \<Longrightarrow> I (snd (due_reconnect_intents e st))" "I st \<Longrightarrow> I (snd (flush_reconnect_intents e st))"
  by (simp_all add: due_reconnect_intents_def flush_reconnect_intents_def offer_intents_def Let_def)

lemma kept_restart_all [simp]: "I st \<Longrightarrow> I (force_ice_restart_all e st)"
  by (simp add: force_ice_restart_all_def kept_each case_prod_beta)

lemma kept_ice [simp]: "I st \<Longrightarrow> I (handle_ice_state_change e d epoch ice st)"
  by (simp add: handle_ice_state_change_def on_failed_def Let_def split: option.split)

text \<open>The transport's reports that neither open, close nor feed the channel, and do not end a gathering.\<close>

theorem kept_report:
  assumes "I st" "ev \<notin> {DataChannelOpen, DataChannelClosed, PeerConnectionStateChanged PcClosed, IceGatheringStateChanged GatherComplete}"
    "\<nexists>frame. ev = Message frame"
  shows "I (handle_transport_event e decode h d epoch ev st)"
proof -
  define s where "s = (if is_media ev
              then update_peer d (\<lambda>p. if is_admitted p then p\<lparr>pd_last_recv_at := Some (en_instant e)\<rparr> else p) st
              else st)"
  from assms(1) have "I s" by (simp add: s_def)
  moreover have "I (on_transport_event e decode h d epoch ev s)" if "I s" for s
  proof (cases ev)
    case (LocalIceCandidate c)
    with that show ?thesis by (cases c) simp_all
  next
    case (IceGatheringStateChanged g)
    with that assms(2) show ?thesis by (cases g) simp_all
  qed (use that assms in \<open>auto simp: handle_pc_state_change_def\<close>)
  ultimately show ?thesis using assms(1) by (simp add: handle_transport_event_def s_def)
qed

end

text \<open>Kept by opening, dropping and greeting a peer too, a property is kept by everything that opens, restarts and tears down links.\<close>

locale link_invariant = restart_invariant +
  assumes fresh: "I st \<Longrightarrow> I (insert_session e d st)"
    and sighted: "I st \<Longrightarrow> I (note_sighted_without_dialing d st)"
    and drop: "I st \<Longrightarrow> I (drop_peer e d r st)"
    and opened: "I st \<Longrightarrow> I (update_peer d (\<lambda>p. p\<lparr>pd_data_channel_open := True\<rparr>) st)"
    and handshake: "I st \<Longrightarrow> I (initiate e n c caps v d st)"
begin

lemma drop_if [simp]: "I st \<Longrightarrow> I (snd (drop_peer_if_epoch e d epoch r st))"
  by (simp add: drop_if_epoch_snd drop)

lemmas kept_steps [simp] = fresh sighted drop opened handshake

lemma kept_first_offer [simp]: "I st \<Longrightarrow> I (snd (first_offer e d epoch st))"
  by (simp add: first_offer_def Let_def case_prod_beta split: option.split)

lemma kept_ensure [simp]: "I st \<Longrightarrow> I (ensure_peer_session e d role st)"
  by (simp add: ensure_peer_session_def Let_def case_prod_beta)

lemma kept_failed_answer [simp]: "I st \<Longrightarrow> I (reoffer_after_failed_answer e d st)"
  by (simp add: reoffer_after_failed_answer_def Let_def split: option.split)

lemma kept_sdp [simp]: "I st \<Longrightarrow> I (apply_remote_sdp e d ty sdp st)"
  by (simp add: apply_remote_sdp_def drain_candidates_def Let_def case_prod_beta split: option.split)

lemma kept_stale [simp]:
  "I st \<Longrightarrow> I (clear_stale_session_if_zombie e d st)" "I st \<Longrightarrow> I (confirm_active_session_on_announce e d st)"
  "I st \<Longrightarrow> I (liveness_probe_fires e d epoch st)"
  by (simp_all add: clear_stale_session_if_zombie_def confirm_active_session_on_announce_def liveness_probe_fires_def split: option.split)

lemma kept_announced: "I st \<Longrightarrow> I (on_peer_announced e d st)"
proof -
  assume "I st"
  moreover have "I s \<Longrightarrow> I (snd (reoffer_sighted e d role s))" for e role s
    by (simp add: reoffer_sighted_def Let_def split: option.split)
  moreover have "I s \<Longrightarrow> I (restart_unhealthy e d role s)" for e role s
    by (simp add: restart_unhealthy_def split: option.split)
  moreover have "I s \<Longrightarrow> I (dial_announced e d role s)" for e role s by (simp add: dial_announced_def)
  ultimately show ?thesis by (simp add: on_peer_announced_def Let_def case_prod_beta)
qed

lemma kept_offer: "I st \<Longrightarrow> I (on_offer e d i sdp st)"
proof -
  assume "I st"
  moreover have "I s \<Longrightarrow> I (answer_offer e d i s)" for e s
    by (simp add: answer_offer_def Let_def case_prod_beta split: option.split)
  ultimately show ?thesis by (simp add: on_offer_def Let_def)
qed

theorem kept_signaling: "I st \<Longrightarrow> I (handle_signaling_inbound e sig st)"
  by (cases sig) (simp_all add: kept_announced kept_offer on_answer_def split: option.split)

lemma kept_reoffer [simp]: "I st \<Longrightarrow> I (try_reoffer e d st)"
  by (simp add: try_reoffer_def)

lemma kept_service [simp]: "I st \<Longrightarrow> I (service_reconnect_intents e st)"
  by (simp add: service_reconnect_intents_def case_prod_beta kept_each)

lemma kept_connect: "I st \<Longrightarrow> I (connect_peer e d sticky wait st)"
  by (simp add: connect_peer_def add_sticky_def register_connect_waiter_def Let_def split: option.split)

lemma kept_shape: "I st \<Longrightarrow> I (shape_connections e st)"
  by (simp add: shape_connections_def case_prod_beta kept_each kept_fold prune_one_def)

lemma kept_recovery [simp]: "I st \<Longrightarrow> I (snd (service_local_socket_recovery e st))"
proof -
  have "I s \<Longrightarrow> I (replay_deferred e x s)" for e x s by (simp add: replay_deferred_def case_prod_beta)
  then show "I st \<Longrightarrow> I (snd (service_local_socket_recovery e st))"
    by (simp add: service_local_socket_recovery_def take_local_socket_probe_permit_def finish_local_socket_probe_def
        take_deferred_ice_restarts_def Let_def case_prod_beta kept_each)
qed

lemma kept_timeouts [simp]:
  "I st \<Longrightarrow> I (on_connect_timeout e x st)" "I st \<Longrightarrow> I (on_restart_unconfirmed e x st)"
proof -
  have "I s \<Longrightarrow> I (rebuild e d epoch r s)" for e d epoch r s by (simp add: rebuild_def case_prod_beta)
  moreover have "I s \<Longrightarrow> I (snd (request_relay_reconnect_throttled e d s))" for e d s
    by (simp add: request_relay_reconnect_throttled_def Let_def case_prod_beta split: option.split)
  ultimately show "I st \<Longrightarrow> I (on_connect_timeout e x st)" "I st \<Longrightarrow> I (on_restart_unconfirmed e x st)"
    by (simp_all add: on_connect_timeout_def on_restart_unconfirmed_def Let_def case_prod_beta)
qed

lemma kept_poll: "I st \<Longrightarrow> I (snd (poll_all e st))"
  by (simp add: poll_all_def Let_def case_prod_beta kept_each)

lemma kept_empty_gather [simp]: "I st \<Longrightarrow> I (on_empty_local_gather e d epoch st)"
  by (simp add: on_empty_local_gather_def note_local_socket_pressure_def Let_def case_prod_beta split: option.split)

lemma kept_gather_complete [simp]: "I st \<Longrightarrow> I (gather_complete e d epoch st)"
proof -
  assume "I st"
  have "update_peer d (\<lambda>_. snd (finish_local_gather p)) st = update_peer d (\<lambda>p. snd (finish_local_gather p)) st"
    if "peer_of st d = Some p" for p using that by (auto simp: update_peer_def peer_of_def split: option.split)
  moreover have "gentle (\<lambda>p. snd (finish_local_gather p))" by (simp add: gentle_def finish_local_gather_def)
  ultimately have "I (update_peer d (\<lambda>_. snd (finish_local_gather p)) st)" if "peer_of st d = Some p" for p
    using that \<open>I st\<close> by simp
  with \<open>I st\<close> show ?thesis by (simp add: gather_complete_def Let_def case_prod_beta split: option.split)
qed

theorem kept_transport:
  "I st \<Longrightarrow> \<nexists>frame. ev = Message frame \<Longrightarrow> I (handle_transport_event e decode h d epoch ev st)"
proof -
  assume "I st" "\<nexists>frame. ev = Message frame"
  define s where "s = (if is_media ev
              then update_peer d (\<lambda>p. if is_admitted p then p\<lparr>pd_last_recv_at := Some (en_instant e)\<rparr> else p) st
              else st)"
  from \<open>I st\<close> have "I s" by (simp add: s_def)
  moreover have "I (on_transport_event e decode h d epoch ev s)" if "I s" for s
  proof (cases ev)
    case (LocalIceCandidate c)
    with that show ?thesis by (cases c) simp_all
  next
    case (IceGatheringStateChanged g)
    with that show ?thesis by (cases g) simp_all
  qed (use that \<open>\<nexists>frame. ev = Message frame\<close> in \<open>simp_all add: handle_pc_state_change_def case_prod_beta\<close>)
  ultimately show ?thesis using \<open>I st\<close> by (simp add: handle_transport_event_def s_def)
qed

lemma kept_fan_out [simp]: "I st \<Longrightarrow> I (fan_out_restart e st)"
  by (simp add: fan_out_restart_def Let_def case_prod_beta kept_each)

lemma kept_redial [simp]: "I st \<Longrightarrow> I (redial_then_fan_out e st)"
  by (simp add: redial_then_fan_out_def Let_def case_prod_beta)

lemma kept_reconnect: "I st \<Longrightarrow> I (reconnect_all_in_place e st)" "I st \<Longrightarrow> I (reconnect_peer_in_place e d st)"
  by (simp_all add: reconnect_all_in_place_def reconnect_peer_in_place_def Let_def)

lemma kept_wake: "I st \<Longrightarrow> I (on_wake e st)" "I st \<Longrightarrow> I (wake_sweep_fires e ps st)"
proof -
  show "I st \<Longrightarrow> I (on_wake e st)" by (simp add: on_wake_def wake_ping_def Let_def case_prod_beta kept_fold)
  have "I (snd (wake_sweep_one e x bs))" if "I (snd bs)" for x bs
    using that by (simp add: wake_sweep_one_def case_prod_beta Let_def split: option.split)
  then have "I (snd (fold (wake_sweep_one e) ps bs))" if "I (snd bs)" for bs
    using that by (induction ps arbitrary: bs) simp_all
  from this [of "(False, st)"] show "I st \<Longrightarrow> I (wake_sweep_fires e ps st)"
    by (simp add: wake_sweep_fires_def Let_def case_prod_beta)
qed

end

text \<open>The passes also set the offline flag.\<close>

locale watch_invariant = link_invariant +
  assumes offline: "I (st\<lparr>es_offline := off\<rparr>) = I st"
begin

lemma kept_watch: "I st \<Longrightarrow> I (snd (watch_poll e current w st))"
  by (simp add: watch_poll_def on_network_change_def set_offline_def offline Let_def split: option.split)

theorem kept_state_watch:
  "I st \<Longrightarrow> (\<And>e s. I s \<Longrightarrow> I (tick e s)) \<Longrightarrow> I (snd (state_watch_pass e current w st))"
  by (simp add: state_watch_pass_def Let_def case_prod_beta kept_poll kept_watch kept_shape)

end

end
