(* ===== verification/Driver.thy ===== *)
theory Driver
  imports Links
begin

text \<open>
  The driver \<open>run_driver\<close> of \<open>engine/mod.rs\<close> as a step relation: commands (transport events and with them inbound
  frames among them), signaling messages, the heartbeat and state-watch passes, and the tasks that run beside the
  loop, in any order and in any environment over the same crypto; and the two invariants every step keeps, of the signed state and of admission.
\<close>

section \<open>Steps\<close>

inductive engine_step :: "crypto \<Rightarrow> engine \<Rightarrow> engine \<Rightarrow> bool" for c where
  command: "en_crypto e = c \<Longrightarrow> handle_command e decode h rnd fresh cmd st = (go, rep, st') \<Longrightarrow> engine_step c st st'"
| signaling: "en_crypto e = c \<Longrightarrow> engine_step c st (handle_signaling_inbound e sig st)"
| heartbeat: "en_crypto e = c \<Longrightarrow> engine_step c st (snd (heartbeat_pass e wd st))"
| state_watch: "en_crypto e = c \<Longrightarrow> engine_step c st (snd (state_watch_pass e current nw st))"
| hello_again: "en_crypto e = c \<Longrightarrow> engine_step c st (snd (hello_retry e d m st))"
| watchdog: "en_crypto e = c \<Longrightarrow> engine_step c st (watchdog_fires e d st)"
| liveness: "en_crypto e = c \<Longrightarrow> engine_step c st (liveness_probe_fires e d epoch st)"
| wake_sweep: "en_crypto e = c \<Longrightarrow> engine_step c st (wake_sweep_fires e ps st)"
| relay_back: "en_crypto e = c \<Longrightarrow> engine_step c st (fan_out_restart e st)"
| approve: "en_crypto e = c \<Longrightarrow> engine_step c st (send_local_approve e d st)"
| closed: "engine_step c st (st\<lparr>es_closing := es_closing st - {d}\<rparr>)"
| unpinned: "engine_step c st (remove_sticky d st)"
| relayed: "en_crypto e = c \<Longrightarrow> engine_step c st (relay_frame e rnd max_fanout origin env st)"
| call: "en_crypto e = c \<Longrightarrow> engine_step c st (snd (rpc_call e i w streaming peer method payload st))"
| served: "en_crypto e = c \<Longrightarrow> engine_step c st (serve_single e d i resp st)"
| streamed: "en_crypto e = c \<Longrightarrow> engine_step c st (serve_stream e d i items st)"
| stopped: "engine_step c st (shutdown st)"

definition engine_reaches :: "crypto \<Rightarrow> engine \<Rightarrow> engine \<Rightarrow> bool" where
  "engine_reaches c = (engine_step c)\<^sup>*\<^sup>*"

section \<open>Steps that leave the signed state alone\<close>

lemma chan_level_same_gov: "chan_level st st' \<Longrightarrow> same_gov st st'"
  by (simp add: same_gov_def chan_level_fields)

lemma same_core_same_gov: "same_core st st' \<Longrightarrow> same_gov st st'"
  by (simp add: same_gov_def same_core_fields)

lemma same_gov_trans: "same_gov st st1 \<Longrightarrow> same_gov st1 st2 \<Longrightarrow> same_gov st st2"
  by (simp add: same_gov_def)

lemma same_gov_more [simp]:
  "same_gov st (s\<lparr>es_rpc := r\<rparr>) = same_gov st s" "same_gov st (s\<lparr>es_skew_watch := sw\<rparr>) = same_gov st s"
  "same_gov st (s\<lparr>es_last_announce := la\<rparr>) = same_gov st s" "same_gov st (s\<lparr>es_fx := fx\<rparr>) = same_gov st s"
  "same_gov st (s\<lparr>es_closing := cl\<rparr>) = same_gov st s" "same_gov st (s\<lparr>es_peers := ps\<rparr>) = same_gov st s"
  "same_gov st (s\<lparr>es_out := ob\<rparr>) = same_gov st s" "same_gov st (s\<lparr>es_phase := ph\<rparr>) = same_gov st s"
  "same_gov st (spawn t s) = same_gov st s" "same_gov st (reply r' s) = same_gov st s" "same_gov st (hand h s) = same_gov st s"
  "same_gov st (put_outbox p ob' s) = same_gov st s" "same_gov st (update_peer d f s) = same_gov st s"
  by (simp_all add: same_gov_def hand_def put_outbox_def update_peer_def split: option.split)

lemma same_gov_handshake:
  "same_gov st (on_hello e d h st)" "same_gov st (on_approve e d st)" "same_gov st (initiate e n c caps v d st)"
  "same_gov st (snd (hello_retry e d m st))" "same_gov st (watchdog_fires e d st)"
  "same_gov st (note_sighted_without_dialing d st)"
  by (auto simp: on_hello_def on_approve_def initiate_def hello_retry_def watchdog_fires_def note_sighted_without_dialing_def Let_def
      split: option.split)

interpretation gov_links: watch_invariant "same_gov st" for st
proof unfold_locales
  show "same_gov st s \<Longrightarrow> same_gov st (note_sighted_without_dialing d s)" for s d
    by (rule same_gov_trans [OF _ same_gov_handshake(6)])
  show "same_gov st s \<Longrightarrow> same_gov st (initiate e n c caps v d s)" for s e n c caps v d
    by (rule same_gov_trans [OF _ same_gov_handshake(3)])
qed (auto simp: set_session_def insert_session_def Let_def same_gov_def [of st] update_peer_def split: option.split)

lemma same_gov_auth: "same_gov st (on_auth_response e d sig st)"
proof -
  have "same_gov st (let (denied, st1) = deny_if_evicted e d st in if denied then st1 else admit_authenticated e d l c st1)" for l c
    by (auto simp: case_prod_beta Let_def admit_authenticated_def)
  then show ?thesis by (auto simp: on_auth_response_def split: option.split)
qed

lemma same_gov_rpc:
  "same_gov st (on_rpc_request e d req st)" "same_gov st (on_rpc_response d resp st)"
  "same_gov st (on_rpc_stream_chunk d ch st)" "same_gov st (on_rpc_stream_end d n st)"
  by (auto simp: on_rpc_request_def on_rpc_response_def on_rpc_stream_chunk_def on_rpc_stream_end_def Let_def
      split: option.split rpc_pending.split)

lemma same_gov_chunks: "same_gov st s \<Longrightarrow> same_gov st (send_chunks e d i n ps s)"
  by (induction ps arbitrary: n s) (simp_all add: Let_def)

lemma same_gov_serving:
  "same_gov st (serve_single e d i resp st)" "same_gov st (serve_stream e d i items st)"
  "same_gov st (snd (rpc_call e i w b peer m p st))"
proof -
  show "same_gov st (snd (rpc_call e i w b peer m p st))"
  proof -
    let ?st1 = "rpc_register i (if b then PendingStream w else PendingSingle w) st"
    obtain r s where s: "send_rpc_request e peer \<lparr>rq_request_id = i, rq_method = m, rq_payload = p, rq_streaming = b\<rparr> ?st1 = (r, s)"
      by (metis prod.exhaust)
    then have "same_gov ?st1 s" using same_gov_primitives(6) [of ?st1] by (metis same_gov_refl send_rpc_request_def snd_conv)
    then have "same_gov st s" by (simp add: rpc_register_def same_gov_def split: option.splits)
    with s show ?thesis by (simp add: rpc_call_def rpc_unregister_def Let_def split: sum.split option.split)
  qed
qed (auto simp: serve_single_def serve_stream_def same_gov_chunks split: sum.split)

lemma same_gov_small:
  "same_gov st (on_ping e d t st)" "same_gov st (on_pong e d t st)" "same_gov st (on_shelve d r st)"
  "same_gov st (on_unshelve d st)" "same_gov st (on_capabilities_update d caps st)"
  "same_gov st (on_state_broadcast e d b st)" "same_gov st (on_roster_summary e d m' st)" "same_gov st (on_roster_request e d st)"
  by (auto simp: on_ping_def on_pong_def on_shelve_def on_unshelve_def on_capabilities_update_def on_state_broadcast_def
      on_roster_summary_def maybe_request_roster_def on_roster_request_def Let_def split: option.split)

lemma link_level_outbox:
  "link_level st (enqueue e rnd p ch pl ttl w st)" "link_level st (tick e st)"
proof -
  show "link_level st (enqueue e rnd p ch pl ttl w st)" by (auto simp: enqueue_def Let_def split: option.split)
  have "link_level st (fst (fold (expire_step now) obs (s, ex, ca)))" if "link_level st s" for now obs s ex ca
    using that
  proof (induction obs arbitrary: s ex ca)
    case (Cons x obs)
    obtain p ob where x: "x = (p, ob)" by (cases x)
    obtain s1 ex1 ca1 where e: "expire_step now x (s, ex, ca) = (s1, ex1, ca1)" by (metis prod.exhaust)
    then have "link_level st s1" using Cons.prems by (auto simp: x expire_step_def Let_def split: prod.splits if_splits)
    with Cons.IH e show ?case by simp
  qed simp
  then show "link_level st (tick e st)"
    by (auto simp: tick_def Let_def split: prod.split intro!: link_level_fold) (metis fst_conv link_level_refl)
qed

lemma same_gov_ticks: "same_gov st (tick e st)" "same_gov st (heartbeat_tick e st)"
proof -
  show "same_gov st (tick e st)" using link_level_outbox(2) by (rule same_gov_link_level [rotated]) simp
  have ping: "same_gov st (send_ping e d s)" if "same_gov st s" for d s
    using that by (simp add: send_ping_def Let_def)
  define s2 where "s2 = snd (watch_clock_skew (fold (send_ping e) (live_peer_ids st) st))"
  have "same_gov st (fold (send_ping e) (live_peer_ids st) st)" by (rule same_gov_fold) (simp_all add: ping)
  then have s2: "same_gov st s2" by (auto simp: s2_def watch_clock_skew_def Let_def split: prod.split)
  have "same_gov st (snd (fold (drop_stale e) L (b, s)))" if "same_gov st s" for L b s
    using that
  proof (induction L arbitrary: b s)
    case (Cons x L)
    obtain b1 s1 where x: "drop_stale e x (b, s) = (b1, s1)" by (metis prod.exhaust)
    then have "s1 = (if peer_epoch_matches s (fst x) (snd x) then drop_peer e (fst x) HeartbeatTimeout s else s)"
      using drop_stale_snd [of e "fst x" "snd x" b s] by simp
    with Cons.prems have "same_gov st s1" by simp
    with Cons.IH x show ?case by simp
  qed simp
  with s2 have s3: "same_gov st (snd (fold (drop_stale e) (stale_peers e s2) (False, s2)))" by blast
  then show "same_gov st (heartbeat_tick e st)"
    unfolding heartbeat_tick_def Let_def s2_def [symmetric]
    by (simp add: case_prod_beta maybe_reactive_announce_def Let_def)
qed

section \<open>Sending leaves the peers alone\<close>

lemma fan_out_core: "same_core st (snd (fan_out e msg ps st))"
proof -
  have "same_core s (snd (fold (\<lambda>peer (n, s). case send_to_peer e peer msg s of (r, s1) \<Rightarrow> (if is_ok r then n + 1 else n, s1)) ps (k, s)))"
    for k :: nat and s
  proof (induction ps arbitrary: k s)
    case (Cons p ps)
    obtain r s1 where r: "send_to_peer e p msg s = (r, s1)" by (metis prod.exhaust)
    then have "same_core s s1" using same_core_primitives(1) by (metis snd_conv)
    with Cons.IH [of s1] r show ?case by (auto intro: same_core_trans)
  qed simp
  then show ?thesis by (simp add: fan_out_def)
qed

lemma route_loop_core: "same_core st (snd (route_loop e dest m err hops st))"
proof (induction e dest m err hops st rule: route_loop.induct)
  case (2 e dest m err hop hops st)
  obtain r s1 where r: "send_envelope e hop m st = (r, s1)" by (metis prod.exhaust)
  then have "same_core st s1" using same_core_primitives(1) by (metis send_envelope_def snd_conv)
  with 2 r show ?case by (auto intro: same_core_trans split: sum.split)
qed simp

lemma send_routed_level: "chan_level st (snd (send_routed e rnd dest ch p st))"
  unfolding send_routed_def Let_def
  by (auto intro: chan_level_trans [OF first_sighting_level same_core_chan_level [OF route_loop_core]])

lemma send_channel_frame_level: "chan_level st (snd (send_channel_frame e rnd peer ch p st))"
proof -
  obtain r s1 where r: "send_to_peer e peer (Channel ch p) st = (r, s1)" by (metis prod.exhaust)
  then have "chan_level st s1" using same_core_primitives(1) same_core_chan_level by (metis snd_conv)
  with r show ?thesis
    by (auto simp: send_channel_frame_def intro: chan_level_trans [OF _ send_routed_level] split: sum.split)
qed

lemma broadcast_channel_frame_level: "chan_level st (snd (broadcast_channel_frame e rnd ch p st))"
  unfolding broadcast_channel_frame_def broadcast_flood_def Let_def
  by (auto intro: same_core_chan_level fan_out_core chan_level_trans [OF first_sighting_level same_core_chan_level [OF fan_out_core]])

lemma relay_frame_level: "chan_level st (relay_frame e rnd k f env st)"
proof -
  have "chan_level st (fold (\<lambda>t s. snd (send_channel_frame e (rnd t) t RELAY_CHANNEL m s)) ts s)" if "chan_level st s" for ts m s
    using that by (induction ts arbitrary: s) (auto intro: chan_level_trans [OF _ send_channel_frame_level])
  then show ?thesis by (simp add: relay_frame_def Let_def)
qed

section \<open>Every step keeps the signed state sound\<close>

abbreviation own_key :: "crypto \<Rightarrow> engine \<Rightarrow> bool" where
  "own_key c st \<equiv> own_signatures c (es_identity st)"

lemma dispatch_sound:
  assumes "engine_sound e st" shows "engine_sound e (dispatch e d m st)"
proof (cases m)
  case (Deny x y z)
  then show ?thesis using assms by (simp add: engine_sound_on_deny)
next
  case (NetworkStatePropose x)
  then show ?thesis using assms by (simp add: engine_sound_on_propose)
next
  case (NetworkStateAck x)
  then show ?thesis using assms by (simp add: engine_sound_on_ack)
next
  case (NetworkStateSplit x)
  then show ?thesis using assms by (simp add: engine_sound_on_split)
next
  case (RosterEntries x y z)
  then show ?thesis using assms by (simp add: engine_sound_entries)
next
  case (ChannelAck x y)
  have "link_level st (on_channel_ack d x y st)" by simp
  then have "same_gov st (on_channel_ack d x y st)" by (rule same_gov_link_level [rotated]) simp
  with assms ChannelAck show ?thesis by (simp add: engine_sound_same)
qed (use assms in \<open>simp_all add: engine_sound_same [OF same_gov_handshake(1)] engine_sound_same [OF same_gov_handshake(2)]
   engine_sound_same [OF same_gov_auth] engine_sound_same [OF same_gov_rpc(1)] engine_sound_same [OF same_gov_rpc(2)]
   engine_sound_same [OF same_gov_rpc(3)] engine_sound_same [OF same_gov_rpc(4)] engine_sound_same [OF same_gov_small(1)]
   engine_sound_same [OF same_gov_small(2)] engine_sound_same [OF same_gov_small(3)] engine_sound_same [OF same_gov_small(4)]
   engine_sound_same [OF same_gov_small(5)] engine_sound_same [OF same_gov_small(6)] engine_sound_same [OF same_gov_small(7)]
   engine_sound_same [OF same_gov_small(8)] engine_sound_same [OF chan_level_same_gov [OF on_channel_frame_level]]
   engine_sound_same [OF chan_level_same_gov [OF on_channel_seq_level]]\<close>)

lemma inbound_sound:
  assumes "engine_sound e st" shows "engine_sound e (handle_inbound_frame e decode d frame st)"
proof -
  have "engine_sound e (update_peer d f st)" for f using assms engine_sound_same [of st "update_peer d f st" e] by simp
  with assms show ?thesis
    by (auto simp: handle_inbound_frame_def handle_frame_def Let_def dispatch_sound split: option.split)
qed

text \<open>A transport event that carries no frame touches neither log.\<close>

lemma transport_kinds:
  obtains frame where "handle_transport_event e decode h d epoch ev st \<in> {st, handle_inbound_frame e decode d frame st}"
  | "same_gov st (handle_transport_event e decode h d epoch ev st)"
proof (cases "\<exists>frame. ev = Message frame")
  case True
  then obtain frame where "ev = Message frame" by blast
  then show thesis using that(1) [of frame] by (simp add: handle_transport_event_def is_media_def)
qed (rule that(2), rule gov_links.kept_transport, simp_all)

lemma transport_sound:
  assumes "engine_sound e st" shows "engine_sound e (handle_transport_event e decode h d epoch ev st)"
  by (rule transport_kinds [of e decode h d epoch ev st])
    (use assms inbound_sound engine_sound_same in \<open>auto simp: engine_sound_same\<close>)

lemma same_gov_remove: "same_gov st (snd (remove_roster e d st))"
  by (auto simp: remove_roster_def Let_def split: sum.split bool.split)

lemma command_sound:
  assumes "engine_sound e st" "own_key (en_crypto e) st"
  shows "engine_sound e (snd (snd (handle_command e decode h rnd fresh cmd st)))"
proof (cases cmd)
  case (SendChannelReliable x1 x2 x3 x4 x5)
  have "same_gov st (enqueue e rnd x1 x2 x3 x4 x5 st)" using link_level_outbox(1) by (rule same_gov_link_level [rotated]) simp
  with assms SendChannelReliable show ?thesis by (simp add: engine_sound_same)
next
  case (TransportEvent d epoch ev)
  with assms show ?thesis by (simp add: transport_sound)
next
  case (Reconnect x)
  have "same_gov st (case x of Some d \<Rightarrow> reconnect_peer_in_place e d st | None \<Rightarrow> reconnect_all_in_place e st)"
    by (simp add: gov_links.kept_reconnect split: option.split)
  with assms Reconnect show ?thesis by (simp add: engine_sound_same)
next
  case (SetTopology x)
  have "same_gov st (reevaluate_topology e (st\<lparr>es_topology := x, es_topology_impl := from_mode x\<rparr>))" by simp
  from engine_sound_same [OF this, of e] assms SetTopology show ?thesis by simp
next
  case (ApproveRoster x y)
  obtain r s where r: "approve_roster e x y st = (r, s)" by (metis prod.exhaust)
  have "same_gov st s" using r same_gov_roster(1) [of st st e x y] by simp
  then have "same_gov st (if is_ok r then broadcast_roster_summary e s else s)" by simp
  from engine_sound_same [OF this, of e] assms ApproveRoster r show ?thesis by simp
qed (use assms in \<open>simp_all add: case_prod_beta Let_def engine_sound_propose engine_sound_sign engine_sound_deny engine_sound_withdraw
    engine_sound_spawn_split engine_sound_same [OF same_gov_remove] engine_sound_same [OF gov_links.kept_connect [OF same_gov_refl]] engine_sound_same [OF chan_level_same_gov [OF send_channel_frame_level]]
    engine_sound_same [OF chan_level_same_gov [OF broadcast_channel_frame_level]] send_rpc_request_def broadcast_capabilities_def
    engine_sound_same [OF same_core_same_gov [OF fan_out_core]] engine_sound_same [OF same_gov_membership(11) [OF same_gov_refl]]\<close>)

section \<open>Every step keeps network and identity\<close>

definition same_self :: "engine \<Rightarrow> engine \<Rightarrow> bool" where
  "same_self st st' \<longleftrightarrow> es_network_id st' = es_network_id st \<and> es_identity st' = es_identity st"

lemma same_self_refl [simp]: "same_self st st"
  by (simp add: same_self_def)

lemma same_gov_self: "same_gov s s' \<Longrightarrow> same_self st s \<Longrightarrow> same_self st s'"
  by (simp add: same_self_def same_gov_def)

lemma same_self_upd [simp]:
  "same_self st (with_gov g s) = same_self st s" "same_self st (s\<lparr>es_roster := r\<rparr>) = same_self st s"
  "same_self st (update_peer d f s) = same_self st s" "same_self st (broadcast e m s) = same_self st s"
  "same_self st (snd (save_gov e s)) = same_self st s" "same_self st (snd (save_roster e s)) = same_self st s"
  by (simp_all add: same_self_def with_gov_def update_peer_def split: option.split)

lemma same_self_save: "save_gov e s = (r, s') \<Longrightarrow> same_self st s' = same_self st s"
  by (metis same_self_upd(5) snd_conv)

lemma same_self_parts [simp]:
  "same_self st s \<Longrightarrow> same_self st (broadcast_state e s)" "same_self st s \<Longrightarrow> same_self st (broadcast_roster_summary e s)"
  "same_self st s \<Longrightarrow> same_self st (refresh_self_evicted e s)" "same_self st s \<Longrightarrow> same_self st (snd (mirror_ratified e t s))"
  "same_self st s \<Longrightarrow> same_self st (settle_adoption e ch roles removed ad s)" "same_self st s \<Longrightarrow> same_self st (drop_peer e d r s)"
  by (erule same_gov_self [rotated], simp)+

lemma same_self_mirror: "mirror_ratified e t s = (r, s') \<Longrightarrow> same_self st s \<Longrightarrow> same_self st s'"
  using same_self_parts(4) by (metis snd_conv)

lemma same_self_ratify [simp]: "same_self st s \<Longrightarrow> same_self st (snd (try_ratify e i s))"
  by (auto simp: try_ratify_def Let_def same_self_save dest: same_self_mirror split: option.split prod.split sum.split)

lemma same_self_proposals:
  "same_self st (snd (propose e i v mfa st))" "same_self st (snd (sign_proposal e i mfa st))"
  "same_self st (snd (deny_proposal e i st))" "same_self st (snd (withdraw_proposal e i st))"
  "same_self st (snd (spawn_split e i st))" "same_self st (on_propose e d pm st)" "same_self st (on_ack e d am st)"
  "same_self st (on_split e d sm st)"
  by (auto simp: propose_def sign_proposal_def deny_proposal_def withdraw_proposal_def spawn_split_def on_propose_def on_ack_def
      on_split_def Let_def same_self_save split: option.split sum.split prod.split)

lemma same_self_adopt [simp]: "same_self st s \<Longrightarrow> same_self st (adopt_transition_log e ts ml s)"
  by (auto simp: adopt_transition_log_def Let_def split: prod.split sum.split)

lemma same_self_logs:
  "same_self st (on_roster_entries e entries ts ml st)" "same_self st (on_deny e d ts ml st)"
  by (auto simp: on_roster_entries_def on_deny_def adopt_deny_proof_def Let_def split: prod.split)

lemma dispatch_self: "same_self st (dispatch e d m st)"
proof (cases m)
  case (ChannelAck x y)
  have "link_level st (on_channel_ack d x y st)" by simp
  with ChannelAck show ?thesis by (simp add: same_self_def link_level_fields)
qed (simp_all add: same_self_proposals same_self_logs same_gov_self [OF same_gov_handshake(1)] same_gov_self [OF same_gov_handshake(2)]
   same_gov_self [OF same_gov_auth] same_gov_self [OF same_gov_rpc(1)] same_gov_self [OF same_gov_rpc(2)]
   same_gov_self [OF same_gov_rpc(3)] same_gov_self [OF same_gov_rpc(4)] same_gov_self [OF same_gov_small(1)]
   same_gov_self [OF same_gov_small(2)] same_gov_self [OF same_gov_small(3)] same_gov_self [OF same_gov_small(4)]
   same_gov_self [OF same_gov_small(5)] same_gov_self [OF same_gov_small(6)] same_gov_self [OF same_gov_small(7)]
   same_gov_self [OF same_gov_small(8)] same_gov_self [OF chan_level_same_gov [OF on_channel_frame_level]]
   same_gov_self [OF chan_level_same_gov [OF on_channel_seq_level]])

lemma same_self_trans: "same_self st s \<Longrightarrow> same_self s s' \<Longrightarrow> same_self st s'"
  by (simp add: same_self_def)

lemma inbound_self: "same_self st (handle_inbound_frame e decode d frame st)"
proof -
  have "same_self st (dispatch e d m (update_peer d f st))" for m f
    using dispatch_self [of "update_peer d f st" e d m] by (rule same_self_trans [rotated]) simp
  then show ?thesis by (auto simp: handle_inbound_frame_def handle_frame_def Let_def dispatch_self split: option.split)
qed

lemma command_self: "same_self st (snd (snd (handle_command e decode h rnd fresh cmd st)))"
proof (cases cmd)
  case (SendChannelReliable x1 x2 x3 x4 x5)
  have "link_level st (enqueue e rnd x1 x2 x3 x4 x5 st)" by (rule link_level_outbox)
  with SendChannelReliable show ?thesis by (simp add: same_self_def link_level_fields)
next
  case (TransportEvent d epoch ev)
  then show ?thesis
    by (cases rule: transport_kinds [of e decode h d epoch ev st]) (auto simp: inbound_self intro: same_gov_self)
next
  case (Reconnect x)
  have "same_gov st (case x of Some d \<Rightarrow> reconnect_peer_in_place e d st | None \<Rightarrow> reconnect_all_in_place e st)"
    by (simp add: gov_links.kept_reconnect split: option.split)
  from same_gov_self [OF this same_self_refl] Reconnect show ?thesis by simp
next
  case (SetTopology x)
  have "same_gov st (reevaluate_topology e (st\<lparr>es_topology := x, es_topology_impl := from_mode x\<rparr>))" by simp
  from same_gov_self [OF this same_self_refl] SetTopology show ?thesis by simp
next
  case (ApproveRoster x y)
  obtain r s where r: "approve_roster e x y st = (r, s)" by (metis prod.exhaust)
  have "same_gov st s" using r same_gov_roster(1) [of st st e x y] by simp
  from same_gov_self [OF this same_self_refl] ApproveRoster r show ?thesis by simp
qed (simp_all add: case_prod_beta Let_def same_self_proposals same_gov_self [OF same_gov_remove] same_gov_self [OF gov_links.kept_connect [OF same_gov_refl]]
    same_gov_self [OF chan_level_same_gov [OF send_channel_frame_level]] send_rpc_request_def broadcast_capabilities_def
    same_gov_self [OF chan_level_same_gov [OF broadcast_channel_frame_level]]
    same_gov_self [OF same_core_same_gov [OF fan_out_core]] same_gov_self [OF same_core_same_gov [OF same_core_primitives(1)]])

text \<open>The other steps touch neither log.\<close>

lemma same_gov_shutdown: "same_gov st (shutdown st)"
proof -
  have "same_gov st (resolve_connect_waiters d r s)" "same_gov st (fail_peer d r' s)" if "same_gov st s" for d r r' s
    using that same_gov_link_level [of st s] by simp_all
  then show ?thesis by (simp add: shutdown_def Let_def same_gov_fold)
qed

lemma same_gov_passes: "same_gov st (snd (heartbeat_pass e wd st))" "same_gov st (snd (state_watch_pass e current nw st))"
proof -
  have "same_gov st (tick e s)" if "same_gov st s" for e s using that same_gov_ticks(1) same_gov_trans by blast
  then show "same_gov st (snd (state_watch_pass e current nw st))" by (simp add: gov_links.kept_state_watch)
  show "same_gov st (snd (heartbeat_pass e wd st))"
    by (simp add: heartbeat_pass_def Let_def case_prod_beta gov_links.kept_wake same_gov_ticks)
qed

lemma step_kinds:
  assumes "engine_step c st st'"
  obtains "same_gov st st'"
  | e decode h rnd fresh cmd where "en_crypto e = c" "st' = snd (snd (handle_command e decode h rnd fresh cmd st))"
  using assms
proof (cases rule: engine_step.cases)
  case (command e decode h rnd fresh cmd go rep)
  then show thesis using that(2) by (metis snd_conv)
qed (auto intro: that simp: same_gov_passes same_gov_handshake same_gov_serving same_gov_shutdown gov_links.kept_signaling
    gov_links.kept_wake remove_sticky_def chan_level_same_gov [OF relay_frame_level])

lemma step_self: "engine_step c st st' \<Longrightarrow> same_self st st'"
  by (erule step_kinds) (auto simp: command_self intro: same_gov_self)

lemma step_sound:
  assumes "engine_step c st st'" "gov_sound c (es_network_id st) (es_gov st)" "own_key c st"
  shows "gov_sound c (es_network_id st') (es_gov st')"
  using assms(1)
proof (cases rule: step_kinds)
  case 1
  with assms(2) show ?thesis by (simp add: same_gov_def)
next
  case (2 e decode h rnd fresh cmd)
  with assms(2,3) command_sound show ?thesis by blast
qed

lemma reaches_sound:
  assumes "engine_reaches c st0 st" "gov_sound c (es_network_id st0) (es_gov st0)" "own_key c st0"
  shows "gov_sound c (es_network_id st) (es_gov st) \<and> same_self st0 st"
  using assms(1) unfolding engine_reaches_def
proof (induction rule: rtranclp_induct)
  case (step y z)
  then have "own_key c y" using assms(3) by (simp add: same_self_def)
  with step step_sound step_self same_self_trans show ?case by blast
qed (simp add: assms(2))

section \<open>Every step keeps admission bilateral\<close>

lemma adm_peers: "es_peers st' = es_peers st \<Longrightarrow> admission_inv st' = admission_inv st"
  by (simp add: admission_inv_def peer_of_def)

lemma adm_same_core: "same_core st st' \<Longrightarrow> admission_inv st' = admission_inv st"
  by (rule adm_peers) (simp add: same_core_fields)

lemma adm_simps [simp]:
  "admission_inv (with_gov g s) = admission_inv s" "admission_inv (snd (save_gov e s)) = admission_inv s"
  "admission_inv (snd (save_roster e s)) = admission_inv s" "admission_inv (broadcast e m s) = admission_inv s"
  "admission_inv (queue_cmd c s) = admission_inv s" "admission_inv (snd (send_to_peer e d m s)) = admission_inv s"
  "admission_inv (emit ev s) = admission_inv s" "admission_inv (spawn t s) = admission_inv s"
  "admission_inv (reply r s) = admission_inv s" "admission_inv (hand h s) = admission_inv s"
  "admission_inv (put_outbox p ob s) = admission_inv s"
  "admission_inv (broadcast_state e s) = admission_inv s" "admission_inv (broadcast_roster_summary e s) = admission_inv s"
  "admission_inv (request_roster e d s) = admission_inv s" "admission_inv (refresh_self_evicted e s) = admission_inv s"
  "admission_inv (snd (deny_if_evicted e d s)) = admission_inv s" "admission_inv (snd (approve_roster e d l s)) = admission_inv s"
  by (rule adm_peers, simp add: with_gov_def hand_def put_outbox_def broadcast_state_def broadcast_roster_summary_def request_roster_def
      refresh_self_evicted_def deny_if_evicted_def approve_roster_def Let_def)+

lemma adm_mirror [simp]: "admission_inv (snd (mirror_into_roster e roles removed s)) = admission_inv s"
  by (rule adm_peers) (auto simp: mirror_into_roster_def Let_def split: prod.split)

lemma adm_upd [simp]:
  "admission_inv (s\<lparr>es_roster := r\<rparr>) = admission_inv s" "admission_inv (s\<lparr>es_drifts := dr\<rparr>) = admission_inv s"
  "admission_inv (s\<lparr>es_topology := tm\<rparr>) = admission_inv s" "admission_inv (s\<lparr>es_topology_impl := ti\<rparr>) = admission_inv s"
  "admission_inv (s\<lparr>es_rpc := rp\<rparr>) = admission_inv s" "admission_inv (s\<lparr>es_out := ob\<rparr>) = admission_inv s"
  "admission_inv (s\<lparr>es_intents := ri\<rparr>) = admission_inv s" "admission_inv (s\<lparr>es_closing := cl\<rparr>) = admission_inv s"
  "admission_inv (s\<lparr>es_last_announce := la\<rparr>) = admission_inv s" "admission_inv (s\<lparr>es_fx := fx\<rparr>) = admission_inv s"
  "admission_inv (s\<lparr>es_skew_watch := sw\<rparr>) = admission_inv s"
  by (rule adm_peers, simp)+

lemma adm_more:
  "admission_inv (s\<lparr>es_deferred := df\<rparr>) = admission_inv s" "admission_inv (s\<lparr>es_rescue := rw\<rparr>) = admission_inv s"
  "admission_inv (s\<lparr>es_socket := so\<rparr>) = admission_inv s" "admission_inv (s\<lparr>es_waiters := ws\<rparr>) = admission_inv s"
  "admission_inv (s\<lparr>es_offline := off\<rparr>) = admission_inv s" "admission_inv (s\<lparr>es_sticky := sk, es_pinned := pn\<rparr>) = admission_inv s"
  by (rule adm_peers, simp)+

lemma adm_fold: "(\<And>x s. admission_inv s \<Longrightarrow> admission_inv (f x s)) \<Longrightarrow> admission_inv s \<Longrightarrow> admission_inv (fold f xs s)"
  by (induction xs arbitrary: s) auto

lemma adm_settle_adoption: "admission_inv st \<Longrightarrow> admission_inv (settle_adoption e ch roles removed ad st)"
proof -
  assume "admission_inv st"
  then have 1: "admission_inv (follow_topology e ad st)" by (auto simp: follow_topology_def admission_inv_reevaluate split: option.split)
  obtain b s1 where m: "mirror_into_roster e roles removed (follow_topology e ad st) = (b, s1)" by (metis prod.exhaust)
  with 1 have "admission_inv s1" using adm_mirror by (metis snd_conv)
  then have "admission_inv (approve_projected e roles s1)"
    unfolding approve_projected_def by (intro adm_fold) (simp_all add: admission_inv_send_approve)
  moreover have "admission_inv (deny_tombstoned e removed s)" if "admission_inv s" for s
    unfolding deny_tombstoned_def using that by (intro adm_fold) simp_all
  ultimately show ?thesis using m by (simp add: settle_adoption_def Let_def)
qed

lemma adm_adopt: "admission_inv st \<Longrightarrow> admission_inv (adopt_transition_log e ts ml st)"
  by (auto simp: adopt_transition_log_def Let_def adm_settle_adoption split: prod.split sum.split)

lemma adm_save: "save_gov e s = (r, s') \<Longrightarrow> admission_inv s' = admission_inv s" "save_roster e s = (r, s') \<Longrightarrow> admission_inv s' = admission_inv s"
  using adm_simps(2,3) by (metis snd_conv)+

lemma adm_mirror_ratified: "admission_inv st \<Longrightarrow> admission_inv (snd (mirror_ratified e t st))"
  by (cases "tr_variant t")
    (auto simp: mirror_ratified_def Let_def adm_save admission_inv_reevaluate split: prod.split sum.split network_kind.split)

lemma adm_ratify: "admission_inv st \<Longrightarrow> admission_inv (snd (try_ratify e i st))"
proof -
  have "mirror_ratified e t s = (r, s') \<Longrightarrow> admission_inv s \<Longrightarrow> admission_inv s'" for t s r s'
    using adm_mirror_ratified by (metis snd_conv)
  then show "admission_inv st \<Longrightarrow> admission_inv (snd (try_ratify e i st))"
    by (auto simp: try_ratify_def Let_def adm_save split: option.split prod.split sum.split)
qed

lemma adm_proposals:
  assumes "admission_inv st"
  shows "admission_inv (snd (propose e i v mfa st))" "admission_inv (snd (sign_proposal e i mfa st))"
    "admission_inv (snd (deny_proposal e i st))" "admission_inv (snd (withdraw_proposal e i st))"
    "admission_inv (snd (spawn_split e i st))" "admission_inv (on_propose e d pm st)" "admission_inv (on_ack e d am st)"
    "admission_inv (on_split e d sm st)"
  using assms
  by (auto simp: propose_def sign_proposal_def deny_proposal_def withdraw_proposal_def spawn_split_def on_propose_def on_ack_def
      on_split_def Let_def adm_save intro!: adm_ratify split: option.split sum.split prod.split)

lemma adm_logs:
  assumes "admission_inv st"
  shows "admission_inv (on_roster_entries e entries ts ml st)" "admission_inv (on_deny e d ts ml st)"
  using assms by (auto simp: on_roster_entries_def on_deny_def adopt_deny_proof_def Let_def admission_inv_drop adm_adopt split: prod.split)

lemma adm_update:
  assumes "admission_inv st" "\<And>p. bilateral p \<Longrightarrow> bilateral (f p)" shows "admission_inv (update_peer d f st)"
  using assms by (intro admission_inv_update)

lemma adm_small:
  assumes "admission_inv st"
  shows "admission_inv (on_ping e d t st)" "admission_inv (on_pong e d t st)" "admission_inv (on_shelve d r st)"
    "admission_inv (on_unshelve d st)" "admission_inv (on_capabilities_update d caps st)"
    "admission_inv (on_state_broadcast e d b st)" "admission_inv (on_roster_summary e d m' st)" "admission_inv (on_roster_request e d st)"
  using assms
  by (auto simp: on_ping_def on_pong_def on_shelve_def on_unshelve_def on_capabilities_update_def on_state_broadcast_def
      on_roster_summary_def maybe_request_roster_def on_roster_request_def push_sample_def bilateral_def Let_def
      intro!: adm_update split: option.split)

lemma adm_rpc:
  assumes "admission_inv st"
  shows "admission_inv (on_rpc_request e d req st)" "admission_inv (on_rpc_response d resp st)"
    "admission_inv (on_rpc_stream_chunk d ch st)" "admission_inv (on_rpc_stream_end d n st)"
  using assms
  by (auto simp: on_rpc_request_def on_rpc_response_def on_rpc_stream_chunk_def on_rpc_stream_end_def Let_def
      split: option.split rpc_pending.split)

lemma adm_chan: "chan_level st st' \<Longrightarrow> admission_inv st' = admission_inv st"
  by (rule adm_peers) (simp add: chan_level_def)

lemma adm_ack: "admission_inv (on_channel_ack d x y st) = admission_inv st"
proof (rule adm_peers)
  have "es_peers (fold (\<lambda>w. reply (w, Inr ())) ws s) = es_peers s" for ws s by (induction ws arbitrary: s) simp_all
  then show "es_peers (on_channel_ack d x y st) = es_peers st"
    by (auto simp: on_channel_ack_def put_outbox_def Let_def split: option.split prod.split)
qed

lemma dispatch_adm: "admission_inv st \<Longrightarrow> admission_inv (dispatch e d m st)"
  by (cases m) (simp_all add: adm_logs adm_proposals adm_small adm_rpc adm_ack admission_inv_hello admission_inv_auth
      admission_inv_approve adm_chan [OF on_channel_frame_level] adm_chan [OF on_channel_seq_level])

lemma bilateral_touch: "bilateral p \<Longrightarrow> bilateral (touch_data now p)" "bilateral p \<Longrightarrow> bilateral (reject_data p)"
  by (auto simp: bilateral_def touch_data_def reject_data_def Let_def split: connection_tier.splits)

lemma inbound_adm: "admission_inv st \<Longrightarrow> admission_inv (handle_inbound_frame e decode d frame st)"
  by (auto simp: handle_inbound_frame_def handle_frame_def Let_def split: option.split
      intro!: dispatch_adm adm_update bilateral_touch)

lemma adm_outbox:
  "admission_inv (enqueue e rnd p ch pl ttl w st) = admission_inv st" "admission_inv (tick e st) = admission_inv st"
proof -
  have flush: "peer_of (flush_peer e p s) k = peer_of s k" for p s k by (simp add: flush_peer_def split: option.split)
  show "admission_inv (enqueue e rnd p ch pl ttl w st) = admission_inv st"
    by (auto simp: admission_inv_def enqueue_def Let_def split: option.split)
  have "peer_of (fst (fold (expire_step now) obs (s, ex, ca))) k = peer_of s k" for now obs s ex ca k
  proof (induction obs arbitrary: s ex ca)
    case (Cons x obs)
    obtain p ob where x: "x = (p, ob)" by (cases x)
    obtain s1 ex1 ca1 where e: "expire_step now x (s, ex, ca) = (s1, ex1, ca1)" by (metis prod.exhaust)
    then have "peer_of s1 k = peer_of s k" by (auto simp: x expire_step_def Let_def split: prod.splits if_splits)
    with Cons e show ?case by simp
  qed simp
  moreover have "peer_of (fold (\<lambda>(p, w). reply (w, Inl (ETransport (Expired p)))) ws s) k = peer_of s k" for ws s k
    by (induction ws arbitrary: s) auto
  moreover have "peer_of (fold (flush_peer e) ps s) k = peer_of s k" for ps s k
    by (induction ps arbitrary: s) (simp_all add: flush)
  moreover obtain s1 ex ca where "fold (expire_step (en_instant e)) (sorted_list_of_fmap (es_out st)) (st, [], []) = (s1, ex, ca)"
    by (metis prod.exhaust)
  ultimately have "peer_of (tick e st) k = peer_of st k" for k by (simp add: tick_def Let_def) (metis fst_conv)
  then show "admission_inv (tick e st) = admission_inv st" by (simp add: admission_inv_def)
qed

interpretation adm_links: watch_invariant admission_inv
proof unfold_locales
  show "admission_inv s \<Longrightarrow> admission_inv (set_session d f s)" for s d f
    by (auto simp: set_session_def admission_inv_def peer_of_def split: option.splits if_splits)
  show "gentle g \<Longrightarrow> admission_inv s \<Longrightarrow> admission_inv (update_peer d g s)" for g s d
    by (rule adm_update) (auto simp: gentle_def bilateral_def)
  show "admission_inv s \<Longrightarrow> admission_inv (update_peer d (\<lambda>p. p\<lparr>pd_data_channel_open := True\<rparr>) s)" for s d
    by (rule adm_update) (auto simp: bilateral_def)
  show "admission_inv s \<Longrightarrow> admission_inv (insert_session e d s)" for s e d
    by (auto simp: insert_session_def Let_def admission_inv_def peer_of_def bilateral_def fresh_peer_def default_peer_data_def split: if_splits)
qed (simp_all add: admission_inv_sighted admission_inv_drop admission_inv_initiate adm_more)

lemma transport_adm: "admission_inv st \<Longrightarrow> admission_inv (handle_transport_event e decode h d epoch ev st)"
proof (cases "\<exists>frame. ev = Message frame")
  case True
  assume "admission_inv st"
  with True show ?thesis by (auto simp: handle_transport_event_def is_media_def inbound_adm)
qed (rule adm_links.kept_transport, simp_all)

lemma command_adm: "admission_inv st \<Longrightarrow> admission_inv (snd (snd (handle_command e decode h rnd fresh cmd st)))"
proof (cases cmd)
  case (RemoveRoster x)
  assume "admission_inv st"
  moreover have "es_peers (snd (remove_roster e x st)) = es_peers st"
    by (auto simp: remove_roster_def Let_def split: sum.split bool.split)
  ultimately show ?thesis using RemoveRoster adm_peers [of "snd (remove_roster e x st)" st] by (simp add: case_prod_beta)
next
  case (ApproveRoster x y)
  assume "admission_inv st"
  then have "admission_inv (snd (approve_roster e x y st))" by simp
  with ApproveRoster show ?thesis by (simp add: case_prod_beta)
qed (simp_all add: case_prod_beta Let_def adm_proposals adm_outbox admission_inv_drop admission_inv_reevaluate
    adm_chan [OF send_channel_frame_level] adm_chan [OF broadcast_channel_frame_level] send_rpc_request_def
    broadcast_capabilities_def adm_same_core [OF fan_out_core] transport_adm adm_links.kept_connect adm_links.kept_reconnect split: option.split)

lemma adm_heartbeat: "admission_inv st \<Longrightarrow> admission_inv (heartbeat_tick e st)"
proof -
  assume inv: "admission_inv st"
  define s2 where "s2 = snd (watch_clock_skew (fold (send_ping e) (live_peer_ids st) st))"
  have "admission_inv (send_ping e d s)" if "admission_inv s" for d s
    using that by (auto simp: send_ping_def Let_def bilateral_def intro!: adm_update)
  then have "admission_inv (fold (send_ping e) (live_peer_ids st) st)" using inv by (rule adm_fold)
  then have s2: "admission_inv s2" by (auto simp: s2_def watch_clock_skew_def Let_def split: prod.split)
  have "admission_inv (snd (fold (drop_stale e) L (b, s)))" if "admission_inv s" for L b s
    using that
  proof (induction L arbitrary: b s)
    case (Cons x L)
    obtain b1 s1 where x: "drop_stale e x (b, s) = (b1, s1)" by (metis prod.exhaust)
    then have "s1 = (if peer_epoch_matches s (fst x) (snd x) then drop_peer e (fst x) HeartbeatTimeout s else s)"
      using drop_stale_snd [of e "fst x" "snd x" b s] by simp
    with Cons.prems have "admission_inv s1" by (simp add: admission_inv_drop)
    with Cons.IH x show ?case by simp
  qed simp
  with s2 have "admission_inv (snd (fold (drop_stale e) (stale_peers e s2) (False, s2)))" by blast
  then show ?thesis
    unfolding heartbeat_tick_def Let_def s2_def [symmetric] by (simp add: case_prod_beta maybe_reactive_announce_def Let_def)
qed

lemma adm_serving:
  assumes "admission_inv st"
  shows "admission_inv (serve_single e d i resp st)" "admission_inv (serve_stream e d i items st)"
    "admission_inv (snd (rpc_call e i w b peer m p st))"
proof -
  have "admission_inv (send_chunks e d i n ps s) = admission_inv s" for n ps s
    by (induction ps arbitrary: n s) (simp_all add: Let_def)
  with assms show "admission_inv (serve_single e d i resp st)" "admission_inv (serve_stream e d i items st)"
    by (auto simp: serve_single_def serve_stream_def split: sum.split)
  let ?st1 = "rpc_register i (if b then PendingStream w else PendingSingle w) st"
  obtain r s where s: "send_rpc_request e peer \<lparr>rq_request_id = i, rq_method = m, rq_payload = p, rq_streaming = b\<rparr> ?st1 = (r, s)"
    by (metis prod.exhaust)
  then have "admission_inv s = admission_inv ?st1" using adm_simps(6) by (metis send_rpc_request_def snd_conv)
  then have "admission_inv s" using assms by (simp add: rpc_register_def split: option.split)
  with s show "admission_inv (snd (rpc_call e i w b peer m p st))"
    by (simp add: rpc_call_def rpc_unregister_def Let_def split: sum.split option.split)
qed

lemma shutdown_adm: "admission_inv (shutdown st)"
proof -
  have "es_peers (fold (\<lambda>w. reply (w, x)) ws s) = es_peers s" for x ws s by (induction ws arbitrary: s) simp_all
  then have w: "es_peers (resolve_connect_waiters d r s) = es_peers s" "es_peers (fail_peer d r' s) = es_peers s" for d r r' s
    by (simp_all add: resolve_connect_waiters_def fail_peer_def split: option.split)
  have "es_peers (fold (\<lambda>d. resolve_connect_waiters d r) ds s) = es_peers s" for r ds s
    by (induction ds arbitrary: s) (simp_all add: w)
  moreover have "es_peers (fold (\<lambda>d. fail_peer d r) ds s) = es_peers s" for r ds s
    by (induction ds arbitrary: s) (simp_all add: w)
  ultimately have "es_peers (shutdown st) = fmempty" by (simp add: shutdown_def Let_def)
  then show ?thesis by (simp add: admission_inv_def peer_of_def)
qed

lemma step_adm:
  assumes "engine_step c st st'" "admission_inv st" shows "admission_inv st'"
  using assms(1)
proof (cases rule: engine_step.cases)
  case (command e decode h rnd fresh cmd go rep)
  then show ?thesis using command_adm [OF assms(2), of e decode h rnd fresh cmd] by simp
qed (use assms(2) in \<open>simp_all add: heartbeat_pass_def case_prod_beta Let_def adm_heartbeat adm_outbox admission_inv_tasks
    admission_inv_send_approve adm_links.kept_signaling adm_links.kept_state_watch adm_links.kept_wake remove_sticky_def shutdown_adm
    adm_chan [OF relay_frame_level] adm_serving\<close>)

lemma reaches_adm: "engine_reaches c st0 st \<Longrightarrow> admission_inv st0 \<Longrightarrow> admission_inv st"
  unfolding engine_reaches_def by (induction rule: rtranclp_induct) (auto intro: step_adm)

end
