(* ===== verification/Link_Safety.thy ===== *)
theory Link_Safety
  imports Driver
begin

text \<open>
  Properties of the link handlers of \<open>Connect\<close>, \<open>Watch\<close> and \<open>Commands\<close>: who dials whom, which answers and candidates reach a session,
  what a transport event may tear down, when a hold on restarts ends, and that nothing outlives a network.
\<close>

section \<open>Shutdown\<close>

lemma replies_fold: "fx_replies (es_fx (fold (\<lambda>w. reply (w, x)) ws st)) = fx_replies (es_fx st) @ map (\<lambda>w. (w, x)) ws"
  by (induction ws arbitrary: st) (simp_all add: reply_def)

lemma fold_reply_fields:
  "es_waiters (fold (\<lambda>w. reply (w, x)) ws st) = es_waiters st" "es_out (fold (\<lambda>w. reply (w, x)) ws st) = es_out st"
  by (induction ws arbitrary: st) (simp_all add: reply_def)

lemma fmdrop_absent: "fmlookup m d = None \<Longrightarrow> fmdrop d m = m"
  by (rule fmap_ext) auto

lemma resolve_effects:
  "es_waiters (resolve_connect_waiters d r st) = fmdrop d (es_waiters st)" "es_out (resolve_connect_waiters d r st) = es_out st"
  "set (fx_replies (es_fx st)) \<subseteq> set (fx_replies (es_fx (resolve_connect_waiters d r st)))"
  "fmlookup (es_waiters st) d = Some ws \<Longrightarrow>
     (\<lambda>w. (w, Inl (ENetwork (ConnectFailed d)))) ` set ws \<subseteq> set (fx_replies (es_fx (resolve_connect_waiters d (Some why) st)))"
  by (auto simp: resolve_connect_waiters_def fold_reply_fields replies_fold fmdrop_absent split: option.split)

lemma fail_effects:
  "es_out (fail_peer d r st) = fmdrop d (es_out st)" "es_waiters (fail_peer d r st) = es_waiters st"
  "set (fx_replies (es_fx st)) \<subseteq> set (fx_replies (es_fx (fail_peer d r st)))"
  "fmlookup (es_out st) d = Some ob \<Longrightarrow> (\<lambda>w. (w, Inl (ETransport (Abandoned d r)))) ` set (List.map_filter pe_reply (ob_entries ob))
     \<subseteq> set (fx_replies (es_fx (fail_peer d r st)))"
  by (auto simp: fail_peer_def fold_reply_fields replies_fold fmdrop_absent split: option.split)

text \<open>Both loops of \<open>shutdown\<close> empty a map key by key and answer what was waiting under the key.\<close>

lemma drained:
  assumes drop: "\<And>d s. m (f d s) = fmdrop d (m s)" and mono: "\<And>d s. set (log s) \<subseteq> set (log (f d s))"
    and answer: "\<And>d s x. fmlookup (m s) d = Some x \<Longrightarrow> A d x \<subseteq> set (log (f d s))"
  shows "m (fold f ds st) = fmfilter (\<lambda>d. d \<notin> set ds) (m st) \<and> set (log st) \<subseteq> set (log (fold f ds st)) \<and>
     (\<forall>d x. d \<in> set ds \<and> fmlookup (m st) d = Some x \<longrightarrow> A d x \<subseteq> set (log (fold f ds st)))"
proof (induction ds arbitrary: st)
  case (Cons d ds)
  have m: "m (fold f (d # ds) st) = fmfilter (\<lambda>k. k \<notin> set (d # ds)) (m st)"
    using Cons.IH [of "f d st"] by (intro fmap_ext) (auto simp: drop)
  have l: "set (log (f d st)) \<subseteq> set (log (fold f (d # ds) st))" using Cons.IH [of "f d st"] by simp
  have "A k x \<subseteq> set (log (fold f (d # ds) st))" if "k \<in> set (d # ds)" "fmlookup (m st) k = Some x" for k x
  proof (cases "k = d")
    case True
    with that answer l show ?thesis by blast
  next
    case False
    with that Cons.IH [of "f d st"] show ?thesis by (simp add: drop)
  qed
  with m l mono show ?case by blast
qed simp

lemma drained_all:
  assumes "\<And>d s. m (f d s) = fmdrop d (m s)" "\<And>d s. set (log s) \<subseteq> set (log (f d s))"
    and "\<And>d s x. fmlookup (m s) d = Some x \<Longrightarrow> A d x \<subseteq> set (log (f d s))"
    and "st' = fold f (sorted_list_of_fset (fmdom (m st))) st"
  shows "m st' = fmempty" "set (log st) \<subseteq> set (log st')" "fmlookup (m st) d = Some x \<Longrightarrow> A d x \<subseteq> set (log st')"
proof -
  note d = drained [of m f log A, OF assms(1-3), of "sorted_list_of_fset (fmdom (m st))" st, folded assms(4)]
  show "m st' = fmempty" using d by (intro fmap_ext) (auto simp: fmlookup_dom_iff)
  show "set (log st) \<subseteq> set (log st')" using d by blast
  show "fmlookup (m st) d = Some x \<Longrightarrow> A d x \<subseteq> set (log st')" using d by (auto simp: fmlookup_dom_iff)
qed

text \<open>
  C17: Nothing outlives a network. When a network shuts down, no connect wait and no queued reliable send is left, and everyone
  who was waiting for one has been told that it failed.
\<close>

theorem shutdown_answers_everyone:
  "es_waiters (shutdown st) = fmempty \<and> es_out (shutdown st) = fmempty \<and>
   (\<forall>d ws w. fmlookup (es_waiters st) d = Some ws \<and> w \<in> set ws \<longrightarrow>
      (w, Inl (ENetwork (ConnectFailed d))) \<in> set (fx_replies (es_fx (shutdown st)))) \<and>
   (\<forall>d ob p w. fmlookup (es_out st) d = Some ob \<and> p \<in> set (ob_entries ob) \<and> pe_reply p = Some w \<longrightarrow>
      (w, Inl (ETransport (Abandoned d ''network shut down''))) \<in> set (fx_replies (es_fx (shutdown st))))"
proof -
  let ?r = "\<lambda>d. resolve_connect_waiters d (Some ''network shut down'')" and ?f = "\<lambda>d. fail_peer d ''network shut down''"
  define st1 where "st1 = st\<lparr>es_peers := fmempty\<rparr>"
  define st2 where "st2 = fold ?r (sorted_list_of_fset (fmdom (es_waiters st1))) st1"
  have "es_out (fold ?r ds s) = es_out s" for ds s by (induction ds arbitrary: s) (simp_all add: resolve_effects)
  then have o: "es_out st2 = es_out st" by (simp add: st2_def st1_def)
  have "es_waiters (fold ?f ds s) = es_waiters s" for ds s by (induction ds arbitrary: s) (simp_all add: fail_effects)
  moreover have sh: "shutdown st = fold ?f (sorted_list_of_fset (fmdom (es_out st2))) st2"
    by (simp add: shutdown_def Let_def st1_def st2_def)
  ultimately have w: "es_waiters (shutdown st) = es_waiters st2" by simp
  note waits = drained_all [of es_waiters ?r "\<lambda>s. fx_replies (es_fx s)" "\<lambda>d ws. (\<lambda>w. (w, Inl (ENetwork (ConnectFailed d)))) ` set ws",
    OF resolve_effects(1,3,4) st2_def]
  note queued = drained_all [of es_out ?f "\<lambda>s. fx_replies (es_fx s)"
    "\<lambda>d ob. (\<lambda>w. (w, Inl (ETransport (Abandoned d ''network shut down'')))) ` set (List.map_filter pe_reply (ob_entries ob))",
    OF fail_effects(1,3,4) sh]
  have "es_waiters st1 = es_waiters st" by (simp add: st1_def)
  with waits(1) w have "es_waiters (shutdown st) = fmempty" by simp
  moreover have "(v, Inl (ENetwork (ConnectFailed d))) \<in> set (fx_replies (es_fx (shutdown st)))"
    if "fmlookup (es_waiters st) d = Some ws" "v \<in> set ws" for d ws v
    using waits(3) [of d ws] that queued(2) \<open>es_waiters st1 = es_waiters st\<close> by auto
  moreover have "v \<in> set (List.map_filter pe_reply ps)" if "p \<in> set ps" "pe_reply p = Some v" for v p ps
    using that by (induction ps) (auto simp: List.map_filter_simps split: option.split)
  note listed = this
  have "(v, Inl (ETransport (Abandoned d ''network shut down''))) \<in> set (fx_replies (es_fx (shutdown st)))"
    if "fmlookup (es_out st) d = Some ob" "p \<in> set (ob_entries ob)" "pe_reply p = Some v" for d ob p v
    using queued(3) [of d ob] that o listed [OF that(2,3)] by (auto simp: image_subset_iff)
  ultimately show ?thesis using queued(1) by blast
qed

theorem shutdown_answers_everyone_witness:
  "(7, Inl (ENetwork (ConnectFailed ''b''))) \<in> set (fx_replies (es_fx (shutdown ((sample_engine [])\<lparr>es_waiters := fmap_of_list [(''b'', [7])]\<rparr>))))"
proof -
  let ?st = "(sample_engine [])\<lparr>es_waiters := fmap_of_list [(''b'', [7])]\<rparr>"
  have "fmlookup (es_waiters ?st) ''b'' = Some [7]" "7 \<in> set [7 :: nat]" by simp_all
  with shutdown_answers_everyone [of ?st] show ?thesis by blast
qed

section \<open>Answers and candidates\<close>

lemma peer_update_peer: "fmlookup (es_peers (update_peer d f st)) k =
    (if k = d then map_option (\<lambda>p. p\<lparr>pc_data := f (pc_data p)\<rparr>) (fmlookup (es_peers st) k) else fmlookup (es_peers st) k)"
  by (simp add: update_peer_def split: option.split)

lemma queue_candidate_bound:
  "length (pd_pending_remote_candidates p) \<le> MAX_PENDING_REMOTE_CANDIDATES \<Longrightarrow>
     length (pd_pending_remote_candidates (queue_candidate c p)) \<le> MAX_PENDING_REMOTE_CANDIDATES"
  by (simp add: queue_candidate_def Let_def MAX_PENDING_REMOTE_CANDIDATES_def)

text \<open>The record a candidate leaves behind while no description has been applied.\<close>

definition noted :: "ice_candidate \<Rightarrow> peer_data \<Rightarrow> peer_data" where
  "noted c p = queue_candidate c (p\<lparr>pd_remote_candidates := record_kind (classify_candidate_sdp (ic_candidate c)) (pd_remote_candidates p)\<rparr>)"

lemma on_candidate_queues:
  assumes "fmlookup (es_peers st) d = Some p" "\<not> pd_remote_description_set (pc_data p)"
  shows "fmlookup (es_peers (on_candidate d c st)) d = Some (p\<lparr>pc_data := noted c (pc_data p)\<rparr>)"
    "es_fx (on_candidate d c st) = es_fx st"
  using assms by (simp_all add: on_candidate_def Let_def peer_update_peer noted_def) (simp_all add: update_peer_def split: option.split)

lemma noted_queue:
  "length (pd_pending_remote_candidates p) < MAX_PENDING_REMOTE_CANDIDATES \<Longrightarrow>
     pd_pending_remote_candidates (noted c p) = pd_pending_remote_candidates p @ [c]"
  "pd_remote_description_set (noted c p) = pd_remote_description_set p"
  by (simp_all add: noted_def queue_candidate_def Let_def)

lemma candidates_queue_up:
  assumes "fmlookup (es_peers st) d = Some p" "\<not> pd_remote_description_set (pc_data p)"
    and "length (pd_pending_remote_candidates (pc_data p)) + length cs \<le> MAX_PENDING_REMOTE_CANDIDATES"
  shows "\<exists>q. fmlookup (es_peers (fold (on_candidate d) cs st)) d = Some (p\<lparr>pc_data := q\<rparr>) \<and> \<not> pd_remote_description_set q \<and>
     pd_pending_remote_candidates q = pd_pending_remote_candidates (pc_data p) @ cs \<and>
     es_fx (fold (on_candidate d) cs st) = es_fx st"
  using assms
proof (induction cs arbitrary: st p)
  case Nil
  then show ?case by (auto intro: exI [of _ "pc_data p"])
next
  case (Cons c cs)
  note q = on_candidate_queues [OF Cons.prems(1,2), of c]
  from Cons.IH [OF q(1)] Cons.prems(2,3) show ?case by (simp add: noted_queue q(2))
qed

lemma add_pending_all:
  "peer_epoch_matches st d epoch \<Longrightarrow>
     fx_candidates (es_fx (add_pending d epoch cs st)) = fx_candidates (es_fx st) @ map (\<lambda>c. (d, epoch, c)) cs"
  by (induction cs arbitrary: st) (simp_all add: add_ice_candidate_def peer_epoch_matches_def)

lemma set_session_peer: "fmlookup (es_peers (set_session d f st)) k =
    (if k = d then map_option (\<lambda>p. p\<lparr>pc_session := map_option f (pc_session p)\<rparr>) (fmlookup (es_peers st) k) else fmlookup (es_peers st) k)"
  by (simp add: set_session_def split: option.split)

lemma set_session_fx [simp]: "es_fx (set_session d f st) = es_fx st" "es_fx (update_peer d g st) = es_fx st"
  by (simp_all add: set_session_def update_peer_def split: option.split)

lemma transport_call_fields [simp]:
  "es_peers (transport_call st) = es_peers st" "fx_candidates (es_fx (transport_call st)) = fx_candidates (es_fx st)"
  "fx_signals (es_fx (transport_call st)) = fx_signals (es_fx st)"
  by (simp_all add: transport_call_def)

lemma apply_drains:
  assumes "fmlookup (es_peers st) d = Some p" "pc_session p \<noteq> None" "tp_parse (en_transport e) sdp"
    and "tp_set_remote (en_transport e) (calls st)" "ty = SdpAnswer \<longrightarrow> tp_awaiting (en_transport e) (pc_epoch p)"
  shows "fx_candidates (es_fx (apply_remote_sdp e d ty sdp st)) = fx_candidates (es_fx st) @
     map (\<lambda>c. (d, pc_epoch p, c)) (filter (candidate_matches_ufrags (sdp_ice_ufrags sdp)) (pd_pending_remote_candidates (pc_data p)))"
proof -
  from assms(2) obtain s where "pc_session p = Some s" by blast
  let ?st1 = "update_peer d (\<lambda>p. p\<lparr>pd_remote_description_set := True, pd_pending_remote_candidates := []\<rparr>)
    (set_session d (\<lambda>s. s\<lparr>ss_remote_sdp := Some sdp\<rparr>) (transport_call st))"
  let ?cs = "filter (candidate_matches_ufrags (sdp_ice_ufrags sdp)) (pd_pending_remote_candidates (pc_data p))"
  have "apply_remote_sdp e d ty sdp st = add_pending d (pc_epoch p) ?cs ?st1"
    using assms \<open>pc_session p = Some s\<close>
    by (auto simp: apply_remote_sdp_def set_remote_description_def drain_candidates_def peer_epoch_matches_def set_session_peer peer_of_def)
  moreover have "peer_epoch_matches ?st1 d (pc_epoch p)"
    using assms(1) by (simp add: peer_epoch_matches_def peer_update_peer set_session_peer)
  ultimately show ?thesis by (simp add: add_pending_all)
qed

text \<open>
  Candidates that arrive before the peer's description are not lost. Up to the queue's bound, they are all handed to the
  session when the description is applied, in the order they came, except those of another ICE generation; and the queue
  never exceeds its bound.
\<close>

theorem early_candidates_kept:
  assumes "fmlookup (es_peers st) d = Some p" "pc_session p \<noteq> None" "\<not> pd_remote_description_set (pc_data p)"
    and "length (pd_pending_remote_candidates (pc_data p)) + length cs \<le> MAX_PENDING_REMOTE_CANDIDATES"
    and "tp_parse (en_transport e) sdp" "tp_set_remote (en_transport e) (calls st)"
    and "ty = SdpAnswer \<longrightarrow> tp_awaiting (en_transport e) (pc_epoch p)"
  shows "fx_candidates (es_fx (apply_remote_sdp e d ty sdp (fold (on_candidate d) cs st))) =
     fx_candidates (es_fx st) @ map (\<lambda>c. (d, pc_epoch p, c))
       (filter (candidate_matches_ufrags (sdp_ice_ufrags sdp)) (pd_pending_remote_candidates (pc_data p) @ cs)) \<and>
   (length (pd_pending_remote_candidates q) \<le> MAX_PENDING_REMOTE_CANDIDATES \<longrightarrow>
      length (pd_pending_remote_candidates (queue_candidate c q)) \<le> MAX_PENDING_REMOTE_CANDIDATES)"
proof -
  from candidates_queue_up [OF assms(1,3,4)] obtain q' where
    q: "fmlookup (es_peers (fold (on_candidate d) cs st)) d = Some (p\<lparr>pc_data := q'\<rparr>)"
      "pd_pending_remote_candidates q' = pd_pending_remote_candidates (pc_data p) @ cs"
      "es_fx (fold (on_candidate d) cs st) = es_fx st" by blast
  from apply_drains [OF q(1), of e sdp ty] assms(2,5-7) show ?thesis
    by (simp add: q calls_def queue_candidate_bound)
qed

definition early_peer :: peer_connection where
  "early_peer = \<lparr>pc_data = default_peer_data, pc_session = Some \<lparr>ss_local_sdp = Some [], ss_remote_sdp = None\<rparr>, pc_epoch = 9\<rparr>"

definition candidate_of_line :: "string \<Rightarrow> ice_candidate" where
  "candidate_of_line l = \<lparr>ic_candidate = l, ic_sdp_mid = None, ic_sdp_mline_index = None, ic_username_fragment = None\<rparr>"

theorem early_candidates_kept_witness:
  "fx_candidates (es_fx (apply_remote_sdp sample_env ''b'' SdpAnswer ''a=ice-ufrag:u1''
     (fold (on_candidate ''b'') [candidate_of_line ''1 typ host'', candidate_of_line ''2 typ host ufrag u0'']
        ((sample_engine [])\<lparr>es_peers := fmap_of_list [(''b'', early_peer)]\<rparr>)))) =
   [(''b'', 9, candidate_of_line ''1 typ host'')]"
proof -
  let ?st = "(sample_engine [])\<lparr>es_peers := fmap_of_list [(''b'', early_peer)]\<rparr>"
  let ?cs = "[candidate_of_line ''1 typ host'', candidate_of_line ''2 typ host ufrag u0'']"
  have "filter (candidate_matches_ufrags (sdp_ice_ufrags ''a=ice-ufrag:u1'')) ?cs = [candidate_of_line ''1 typ host'']" by code_simp
  then show ?thesis
    using early_candidates_kept [of ?st "''b''" early_peer ?cs sample_env "''a=ice-ufrag:u1''" SdpAnswer]
    by (simp add: early_peer_def default_peer_data_def MAX_PENDING_REMOTE_CANDIDATES_def sample_env_def sample_transport_def
        sample_engine_def)
qed

text \<open>Of the peer \<open>d\<close>: it has a session and the offer it waits for is not \<open>i\<close>.\<close>

definition awaits_other :: "string \<Rightarrow> string \<Rightarrow> engine \<Rightarrow> bool" where
  "awaits_other d i st \<longleftrightarrow>
     (\<exists>p. fmlookup (es_peers st) d = Some p \<and> pc_session p \<noteq> None \<and> pd_pending_offer_id (pc_data p) \<noteq> Some i)"

lemma awaits_steps [simp]:
  "awaits_other d i (transport_call st) = awaits_other d i st" "awaits_other d i (signal m st) = awaits_other d i st"
  "awaits_other d i (add_ice_candidate k ep c st) = awaits_other d i st"
  "awaits_other d i st \<Longrightarrow> awaits_other d i (set_session k f st)"
  "awaits_other d i st \<Longrightarrow> (\<And>p. pd_pending_offer_id (g p) = pd_pending_offer_id p) \<Longrightarrow> awaits_other d i (update_peer k g st)"
  by (auto simp: awaits_other_def signal_def add_ice_candidate_def set_session_peer peer_update_peer)

lemma awaits_re_offer:
  assumes "awaits_other d i st" "\<forall>n. tp_offer_id (en_transport e) n \<noteq> i"
  shows "awaits_other d i (snd (re_offer e d ep st))"
proof -
  have "awaits_other d i (snd (create_offer e d st))" using assms(1) by (simp add: create_offer_def split: option.split)
  moreover have "awaits_other d i (snd (issue_offer_id e d ep s))" if "awaits_other d i s" for s
    using that assms(2) by (auto simp: issue_offer_id_def Let_def awaits_other_def peer_update_peer)
  ultimately show ?thesis by (simp add: re_offer_def case_prod_beta forget_stamp_def split: option.split)
qed

lemma awaits_failed_answer:
  assumes "awaits_other d i st" "\<forall>n. tp_offer_id (en_transport e) n \<noteq> i"
  shows "awaits_other d i (reoffer_after_failed_answer e d st)"
proof -
  from assms(1) obtain p s where "fmlookup (es_peers st) d = Some p" "pc_session p = Some s" by (auto simp: awaits_other_def)
  with assms show ?thesis
    by (simp add: reoffer_after_failed_answer_def Let_def awaits_re_offer stamp_offer_def forget_stamp_def)
qed

lemma awaits_apply:
  assumes "awaits_other d i st" "\<forall>n. tp_offer_id (en_transport e) n \<noteq> i"
  shows "awaits_other d i (apply_remote_sdp e d ty sdp st)"
proof -
  have "awaits_other d i (add_pending d ep cs s)" if "awaits_other d i s" for ep cs s
    using that by (induction cs arbitrary: s) simp_all
  moreover have "en_transport (resumed e s s1) = en_transport e" for s s1 by (simp add: resumed_def)
  ultimately show ?thesis using assms
    by (simp add: apply_remote_sdp_def set_remote_description_def drain_candidates_def Let_def awaits_failed_answer split: option.split)
qed

text \<open>
  C16: An answer that names an offer is applied only to that offer. On a peer with a session, an answer with a non-empty id other than the
  newest offer's changes nothing; and once such an answer has been taken, the same answer again changes nothing, whatever it then
  carries, as long as fresh offers get other ids. An answer without an id, as peers from before the ids send it, is taken for
  whatever offer is outstanding: it does what an answer naming that offer would.
\<close>

theorem answers_match_offers:
  assumes "fmlookup (es_peers st) d = Some p" "pc_session p \<noteq> None" "i \<noteq> []"
    and "\<forall>n. tp_offer_id (en_transport e) n \<noteq> i"
  shows "(pd_pending_offer_id (pc_data p) \<noteq> Some i \<longrightarrow> on_answer e d i sdp st = st) \<and>
     on_answer e' d i sdp' (on_answer e d i sdp st) = on_answer e d i sdp st \<and>
     (pd_pending_offer_id (pc_data p) = Some j \<longrightarrow> on_answer e d [] sdp st = on_answer e d j sdp st)"
proof -
  have stale: "on_answer e'' d i sdp'' s = s" if "awaits_other d i s" for e'' sdp'' s
    using that assms(3) by (auto simp: on_answer_def awaits_other_def peer_of_def)
  have "awaits_other d i (on_answer e d i sdp st)"
  proof (cases "pd_pending_offer_id (pc_data p) = Some i")
    case True
    let ?st = "update_peer d (\<lambda>p. p\<lparr>pd_pending_offer_id := None\<rparr>) st"
    have "awaits_other d i ?st" using assms(1,2) by (auto simp: awaits_other_def peer_update_peer)
    from awaits_apply [OF this assms(4)] True assms(1) show ?thesis by (simp add: on_answer_def peer_of_def)
  next
    case False
    with assms(1,2) have "awaits_other d i st" by (auto simp: awaits_other_def)
    with stale show ?thesis by simp
  qed
  moreover have "on_answer e d [] sdp st = on_answer e d j sdp st" if "pd_pending_offer_id (pc_data p) = Some j"
    using that assms(1) by (simp add: on_answer_def peer_of_def)
  ultimately show ?thesis using stale assms(1,2) by (auto simp: awaits_other_def)
qed

theorem answers_match_offers_witness:
  "on_answer sample_env ''b'' ''old'' ''sdp'' (sample_engine [(''b'', active_peer\<lparr>pd_pending_offer_id := Some ''new''\<rparr>)]) =
     sample_engine [(''b'', active_peer\<lparr>pd_pending_offer_id := Some ''new''\<rparr>)] \<and>
   on_answer sample_env ''b'' [] ''sdp'' (sample_engine [(''b'', active_peer\<lparr>pd_pending_offer_id := Some ''new''\<rparr>)]) =
     on_answer sample_env ''b'' ''new'' ''sdp'' (sample_engine [(''b'', active_peer\<lparr>pd_pending_offer_id := Some ''new''\<rparr>)])"
  using answers_match_offers [of "sample_engine [(''b'', active_peer\<lparr>pd_pending_offer_id := Some ''new''\<rparr>)]" "''b''"
      "sample_peer (active_peer\<lparr>pd_pending_offer_id := Some ''new''\<rparr>)" "''old''" sample_env "''sdp''" sample_env "[]" "''new''"]
  by (simp add: sample_engine_def sample_peer_def sample_env_def sample_transport_def)

section \<open>Reports of the transport\<close>

text \<open>What the rest of the mesh relies on of each peer: its session's epoch, its place in the handshake and its channel.\<close>

definition link_view :: "engine \<Rightarrow> (string, u64 \<times> peer_status \<times> bool \<times> bool \<times> bool \<times> bool) fmap" where
  "link_view st = fmmap (\<lambda>p. (pc_epoch p, pd_status (pc_data p), pd_authenticated (pc_data p), pd_local_approve_sent (pc_data p),
     pd_remote_approve_seen (pc_data p), pd_data_channel_open (pc_data p))) (es_peers st)"

interpretation reports: restart_invariant "\<lambda>s. link_view s = v" for v
proof unfold_locales
  have "link_view (set_session d f s) = link_view s" for d f s
    by (rule fmap_ext) (simp add: link_view_def set_session_peer option.map_comp comp_def)
  then show "link_view s = v \<Longrightarrow> link_view (set_session d f s) = v" for s d f by simp
  have "link_view (update_peer d g s) = link_view s" if "gentle g" for d g s
    using that by (intro fmap_ext) (simp add: link_view_def peer_update_peer option.map_comp comp_def gentle_def)
  then show "gentle g \<Longrightarrow> link_view s = v \<Longrightarrow> link_view (update_peer d g s) = v" for g s d by simp
qed (simp_all add: link_view_def)

text \<open>
  A link is torn down by an event only when its channel or its connection is closed. Any other report of the transport, of
  ICE failing or losing its path, of candidates, of a connection state, of media, leaves every peer with the session, the
  place in the handshake and the channel it had; the repair runs beside the live link.
\<close>

theorem transport_reports_keep_links:
  assumes "ev \<notin> {DataChannelOpen, DataChannelClosed, PeerConnectionStateChanged PcClosed, IceGatheringStateChanged GatherComplete}"
    and "\<nexists>frame. ev = Message frame"
  shows "link_view (handle_transport_event e decode h d epoch ev st) = link_view st"
  using assms by (intro reports.kept_report [of _ "link_view st"]) simp_all

theorem transport_reports_keep_links_witness:
  "link_view (handle_transport_event sample_env (\<lambda>_. None) ([], [], JNull, None) ''b'' 1 (IceConnectionStateChanged IceStateFailed)
     (sample_engine [(''b'', active_peer)])) = link_view (sample_engine [(''b'', active_peer)])"
  by (rule transport_reports_keep_links) simp_all

section \<open>The offline hold\<close>

text \<open>The flag is set by the network watcher alone.\<close>

interpretation hold: link_invariant "\<lambda>s. es_offline s = b" for b
proof unfold_locales
  have "es_offline (drop_peer e d r s) = es_offline s" for e d r s by (rule link_level_fields(17)) simp
  then show "es_offline s = b \<Longrightarrow> es_offline (drop_peer e d r s) = b" for e d r s by simp
qed (simp_all add: set_session_def update_peer_def insert_session_def note_sighted_without_dialing_def recompute_def set_phase_def
    initiate_def emit_def send_to_peer_def spawn_def Let_def split: option.split)

lemma hold_tick: "es_offline (tick e st) = es_offline st"
  using link_level_outbox(2) by (rule link_level_fields(17))

lemma hold_pass:
  fixes st e
  defines "st1 \<equiv> snd (poll_all e st)" and "e1 \<equiv> fst (poll_all e st)"
  shows "fst (state_watch_pass e s w st) = fst (watch_poll e1 s w st1)" "es_offline st1 = es_offline st"
    "es_offline (snd (state_watch_pass e s w st)) = es_offline (snd (watch_poll e1 s w st1))"
proof -
  show "fst (state_watch_pass e s w st) = fst (watch_poll e1 s w st1)"
    by (simp add: state_watch_pass_def st1_def e1_def case_prod_beta Let_def)
  show "es_offline st1 = es_offline st" unfolding st1_def by (rule hold.kept_poll) simp
  have "es_offline (shape_connections e' (tick e' (service_reconnect_intents e'' s'))) = es_offline s'" for e' e'' s'
    using hold.kept_shape [of "tick e' (service_reconnect_intents e'' s')"] hold.kept_service [of s' _ e''] by (simp add: hold_tick)
  then show "es_offline (snd (state_watch_pass e s w st)) = es_offline (snd (watch_poll e1 s w st1))"
    by (simp add: state_watch_pass_def st1_def e1_def case_prod_beta Let_def)
qed

lemma watch_poll_flag:
  assumes "nw_last w = Some prev" "es_offline st \<longrightarrow> snapshot_offline prev"
  shows "nw_last (fst (watch_poll e s w st)) = Some s"
    "es_offline (snd (watch_poll e s w st)) = (if s = prev then es_offline st else snapshot_offline s)"
proof -
  show "nw_last (fst (watch_poll e s w st)) = Some s" using assms(1) by (simp add: watch_poll_def Let_def)
  have "es_offline (redial_then_fan_out e s') = es_offline s'" for s' by (rule hold.kept_redial) simp
  then have change: "es_offline (on_network_change e s st) = snapshot_offline s"
    by (simp add: on_network_change_def set_offline_def Let_def)
  moreover have "\<not> es_offline st \<and> \<not> snapshot_offline s" if "is_benign_secondary_churn prev s"
    using that assms(2) by (auto simp: is_benign_secondary_churn_def snapshot_offline_def)
  ultimately show "es_offline (snd (watch_poll e s w st)) = (if s = prev then es_offline st else snapshot_offline s)"
    using assms(1) by (auto simp: watch_poll_def cooldown_coalesces_def Let_def)
qed

definition passes :: "(env \<times> network_snapshot) list \<Rightarrow> network_watch \<times> engine \<Rightarrow> network_watch \<times> engine" where
  "passes ps = fold (\<lambda>(e, s) (w, st). state_watch_pass e s w st) ps"

lemma passes_flag:
  assumes "nw_last w = Some s0" "\<not> es_offline st"
  shows "nw_last (fst (passes ps (w, st))) = Some (last (s0 # map snd ps)) \<and>
     (es_offline (snd (passes ps (w, st))) \<longleftrightarrow> snapshot_offline (last (s0 # map snd ps)) \<and> (\<exists>x \<in> set ps. snd x \<noteq> s0))"
proof (induction ps rule: rev_induct)
  case Nil
  with assms show ?case by (simp add: passes_def)
next
  case (snoc x ps)
  obtain e s where x: "x = (e, s)" by (cases x)
  obtain w1 st1 where p: "passes ps (w, st) = (w1, st1)" by (metis prod.exhaust)
  define prev where "prev = last (s0 # map snd ps)"
  from snoc p have w1: "nw_last w1 = Some prev" and f1: "es_offline st1 \<longleftrightarrow> snapshot_offline prev \<and> (\<exists>x \<in> set ps. snd x \<noteq> s0)"
    by (simp_all only: prev_def fst_conv snd_conv)
  note h = hold_pass(1,3) [where e = e and s = s and w = w1 and st = st1] hold_pass(2) [where e = e and st = st1]
  have flag: "es_offline (snd (poll_all e st1)) \<longrightarrow> snapshot_offline prev" using f1 h(3) by blast
  have run: "passes (ps @ [x]) (w, st) = state_watch_pass e s w1 st1" using p by (simp add: passes_def x)
  have "prev = s0 \<or> (\<exists>x \<in> set ps. snd x \<noteq> s0)" by (auto simp: prev_def last_map)
  then have "es_offline (snd (passes (ps @ [x]) (w, st))) \<longleftrightarrow> snapshot_offline s \<and> (\<exists>x \<in> set (ps @ [x]). snd x \<noteq> s0)"
    unfolding run h(2) using f1 h(3) watch_poll_flag(2) [OF w1 flag, where e = "fst (poll_all e st1)" and s = s] by (cases "s = prev") (auto simp: x)
  moreover have "nw_last (fst (passes (ps @ [x]) (w, st))) = Some s"
    using watch_poll_flag(1) [OF w1 flag] by (simp add: run h(1))
  ultimately show ?case by (simp add: x)
qed

text \<open>
  The offline hold follows the network. Started with no baseline, over any run of state-watch passes the hold is on exactly
  when the latest reading shows no address at all and the reading has changed since the first one: it is not left
  behind when the network returns, and the cooldown and the filter for secondary interfaces never swallow an outage or a return.
\<close>

theorem offline_hold_tracks_network:
  assumes "nw_last w = None" "\<not> es_offline st"
  shows "es_offline (snd (passes ((e0, s0) # ps) (w, st))) \<longleftrightarrow>
     snapshot_offline (last (s0 # map snd ps)) \<and> (\<exists>x \<in> set ps. snd x \<noteq> s0)"
proof -
  obtain w1 st1 where p: "state_watch_pass e0 s0 w st = (w1, st1)" by (metis prod.exhaust)
  note h = hold_pass(1,3) [where e = e0 and s = s0 and w = w and st = st] hold_pass(2) [where e = e0 and st = st]
  have "nw_last w1 = Some s0" "\<not> es_offline st1" using h p assms by (simp_all add: watch_poll_def)
  from passes_flag [OF this, of ps] show ?thesis by (simp add: passes_def p)
qed

definition reading :: "32 word option \<Rightarrow> network_snapshot" where
  "reading v4 = \<lparr>ns_v4 = v4, ns_v6 = None, ns_local_set = 0, ns_local_count = (if v4 = None then 0 else 1)\<rparr>"

theorem offline_hold_tracks_network_witness:
  "es_offline (snd (passes [(sample_env, reading (Some 7)), (sample_env, reading None)]
     (\<lparr>nw_last = None, nw_last_restart_at = None\<rparr>, sample_engine [])))"
  using offline_hold_tracks_network [of "\<lparr>nw_last = None, nw_last_restart_at = None\<rparr>" "sample_engine []" sample_env "reading (Some 7)"
      "[(sample_env, reading None)]"]
  by (simp add: reading_def snapshot_offline_def sample_engine_def)

section \<open>Sessions that never open\<close>

text \<open>The slot of a peer, whether its channel is open and since when it has a session.\<close>

definition dial :: "engine \<Rightarrow> string \<Rightarrow> (bool \<times> u64 option) \<times> (bool \<times> u64 option) option" where
  "dial st k = (slot st k, map_option (\<lambda>p. (pd_data_channel_open p, pd_session_started_at p)) (peer_of st k))"

lemma dial_peers: "es_peers s = es_peers s' \<Longrightarrow> es_closing s = es_closing s' \<Longrightarrow> dial s k = dial s' k"
  by (simp add: dial_def slot_def peer_of_def)

interpretation dials: restart_invariant "\<lambda>s. dial s k = v" for k v
proof unfold_locales
  have "dial (set_session d f s) k = dial s k" for d f s
    by (auto simp: dial_def slot_def peer_of_def set_session_peer option.map_comp comp_def set_session_def split: option.split)
  then show "dial s k = v \<Longrightarrow> dial (set_session d f s) k = v" for s d f by simp
  have "dial (update_peer d g s) k = dial s k" if "gentle g" for d g s
    using that by (auto simp: dial_def slot_def peer_of_def update_peer_def gentle_def split: option.split)
  then show "gentle g \<Longrightarrow> dial s k = v \<Longrightarrow> dial (update_peer d g s) k = v" for g s d by simp
qed (simp_all add: dial_def slot_def peer_of_def)

lemma dial_restarts [simp]:
  "dial (snd (maybe_reactive_announce e s)) k = dial s k" "dial (renegotiate_ice e d force tr ep s) k = dial s k"
  "dial (defer_ice_restart d force s) k = dial s k" "dial (transport_call s) k = dial s k"
  "dial (snd (request_relay_reconnect_throttled e d s)) k = dial s k"
  by (rule dials.kept_small dials.kept_renegotiate, rule refl)+
    (simp_all add: request_relay_reconnect_throttled_def request_relay_reconnect_def transport_call_def Let_def case_prod_beta
      dial_def slot_def peer_of_def split: option.split)

lemma shelve_data_dial: "pd_data_channel_open (shelve_data b p) = pd_data_channel_open p"
    "pd_session_started_at (shelve_data b p) = pd_session_started_at p"
  by (simp_all add: shelve_data_def Let_def)

lemma dial_drop:
  assumes "k \<noteq> d"
  shows "dial (drop_peer e d r s) k = dial s k" "dial (snd (drop_peer_if_epoch e d ep r s)) k = dial s k"
proof -
  have "map_option (\<lambda>p. (pd_data_channel_open p, pd_session_started_at p)) (peer_of (drop_peer e d r s) k) =
      map_option (\<lambda>p. (pd_data_channel_open p, pd_session_started_at p)) (peer_of s k)"
    by (rule drop_peer_cases [of e d r s])
      (use assms in \<open>auto simp: reevaluate_peer option.map_comp comp_def shelve_data_dial\<close>)
  then show d: "dial (drop_peer e d r s) k = dial s k" by (simp add: dial_def drop_peer_def drop_other [OF assms])
  then show "dial (snd (drop_peer_if_epoch e d ep r s)) k = dial s k" by (simp add: drop_if_epoch_snd)
qed

lemma dial_ensure:
  assumes "k \<noteq> d" shows "dial (ensure_peer_session e d role s) k = dial s k"
proof -
  have "dial (insert_session e d s) k = dial s k" for e s
    using assms by (simp add: insert_session_def Let_def dial_def slot_def peer_of_def)
  moreover have "dial (snd (first_offer e d ep s)) k = dial s k" for e ep s
    using assms by (simp add: first_offer_def Let_def case_prod_beta dial_drop split: option.split)
  ultimately show ?thesis by (simp add: ensure_peer_session_def Let_def case_prod_beta)
qed

text \<open>Ringing somebody else, or somebody who is there, leaves a peer's session alone.\<close>

lemma dial_reoffer: "snd (dial s k) \<noteq> None \<Longrightarrow> dial (try_reoffer e d s) k = dial s k"
  by (cases "k = d") (auto simp: try_reoffer_def dial_ensure, simp add: dial_def peer_of_def)

lemma dial_each:
  assumes "\<And>e x s. x \<in> set xs \<Longrightarrow> dial s k = v \<Longrightarrow> dial (f e x s) k = v" "dial st k = v"
  shows "dial (each_resumed f e xs st) k = v"
  using assms by (induction f e xs st rule: each_resumed.induct) (simp_all add: Let_def)

lemma dial_recovery:
  assumes "snd (dial st k) \<noteq> None" shows "dial (snd (service_local_socket_recovery e st)) k = dial st k"
proof -
  have replay: "dial (replay_deferred e x s) k = dial st k" if "dial s k = dial st k" for e x s
    using that assms dial_reoffer [of s k] by (simp add: replay_deferred_def case_prod_beta)
  have "dial (each_resumed replay_deferred e' xs s) k = dial s k" if "dial s k = dial st k" for e' xs s
    using dial_each [of xs k "dial st k" replay_deferred s e'] replay that by simp
  moreover have "dial (st\<lparr>es_socket := so\<rparr>) k = dial st k" "dial (st\<lparr>es_socket := so, es_deferred := df\<rparr>) k = dial st k" for so df
    by (rule dial_peers; simp)+
  ultimately show ?thesis
    by (simp add: service_local_socket_recovery_def take_local_socket_probe_permit_def finish_local_socket_probe_def
        take_deferred_ice_restarts_def Let_def case_prod_beta)
qed

lemma timeout_other: "k \<noteq> fst x \<Longrightarrow> dial (on_connect_timeout e x s) k = dial s k"
  by (cases x) (simp add: on_connect_timeout_def rebuild_def Let_def case_prod_beta dial_drop)

lemma timeout_drops:
  assumes "slot s k = (False, Some ep)" "\<not> es_offline s"
  shows "peer_of (on_connect_timeout e (k, ep) s) k = None"
proof -
  have gone: "peer_of (snd (drop_peer_if_epoch e' k ep r s')) k = None" if "dial s' k = dial s k" for e' r s'
  proof -
    have "slot s' k = (False, Some ep)" using that assms(1) by (simp add: dial_def)
    then have "peer_epoch_matches s' k ep" "k \<notin> es_closing s'" by (auto simp: slot_def peer_epoch_matches_def)
    then show ?thesis using drop_peer_gone [of k s' e' r] by (simp add: drop_if_epoch drop_peer_def)
  qed
  moreover have "peer_of (snd (maybe_reactive_announce e' s')) k = peer_of s' k" for e' s'
    by (simp add: maybe_reactive_announce_def peer_of_def Let_def)
  moreover have "peer_epoch_matches s k ep" "peer_epoch_matches (transport_call s) k ep"
    using assms(1) by (auto simp: slot_def peer_epoch_matches_def)
  ultimately show ?thesis using assms(2)
    by (simp add: on_connect_timeout_def rebuild_def Let_def case_prod_beta)
qed

lemma timeouts_drop:
  assumes "(k, ep) \<in> set L" "distinct (map fst L)" "slot st k = (False, Some ep)" "\<not> es_offline st"
  shows "peer_of (each_resumed on_connect_timeout e L st) k = None"
  using assms
proof (induction L arbitrary: e st)
  case (Cons x L)
  let ?s = "on_connect_timeout e x st"
  show ?case
  proof (cases "x = (k, ep)")
    case True
    with Cons.prems have "\<And>y. y \<in> set L \<Longrightarrow> k \<noteq> fst y" by (metis (no_types) distinct.simps(2) fst_conv image_eqI list.set_map list.simps(9))
    then have "dial (each_resumed on_connect_timeout e' L ?s) k = dial ?s k" for e'
      by (intro dial_each) (simp_all add: timeout_other)
    moreover have "peer_of ?s k = None" using timeout_drops [OF Cons.prems(3,4)] True by simp
    ultimately show ?thesis by (simp add: dial_def Let_def)
  next
    case False
    with Cons.prems have "(k, ep) \<in> set L" "k \<noteq> fst x" by (auto simp: image_iff dest: sym)
    moreover from this Cons.prems(3) have "slot ?s k = (False, Some ep)" using timeout_other [of k x e st] by (simp add: dial_def)
    moreover have "\<not> es_offline ?s" using Cons.prems(4) hold.kept_timeouts(1) [of st False e x] by simp
    ultimately show ?thesis using Cons by (simp add: Let_def)
  qed
qed simp

lemma unconfirmed_absent: "peer_of s k = None \<Longrightarrow> dial (on_restart_unconfirmed e x s) k = dial s k"
proof (cases "k = fst x")
  case True
  assume "peer_of s k = None"
  with True show ?thesis by (simp add: on_restart_unconfirmed_def peer_epoch_matches_def peer_of_def case_prod_beta)
next
  case False
  then show ?thesis by (simp add: on_restart_unconfirmed_def rebuild_def case_prod_beta Let_def dial_drop)
qed

lemma peers_where_iff: "(k, ep) \<in> set (peers_where f st) \<longleftrightarrow> (\<exists>p. fmlookup (es_peers st) k = Some p \<and> pc_epoch p = ep \<and> f p)"
proof -
  have "(k, ep) \<in> set (peers_where f st) \<longleftrightarrow> (\<exists>p. (k, p) \<in> set (sorted_list_of_fmap (es_peers st)) \<and> f p \<and> ep = pc_epoch p)"
    unfolding peers_where_def by (force simp del: in_sorted_list_of_fmap)
  then show ?thesis by auto
qed

lemma peers_where_distinct: "distinct (map fst (peers_where f st))"
proof -
  have "map fst (peers_where f st) = map fst (filter (\<lambda>(d, p). f p) (sorted_list_of_fmap (es_peers st)))"
    by (simp add: peers_where_def case_prod_beta comp_def)
  then show ?thesis by (simp add: distinct_map_filter)
qed

text \<open>
  C14: No attempt to connect hangs. While the host is online, one pass of the watchdog removes every peer whose session has
  not opened its channel within thirty seconds, whatever restarts are replayed or other peers are torn down in the same
  pass and whatever the WebRTC stack answers, so that a fresh attempt can be made.
\<close>

theorem stuck_sessions_reclaimed:
  assumes "fmlookup (es_peers st) k = Some p" "k \<notin> es_closing st" "\<not> es_offline st" "connect_timed_out e p"
  shows "fmlookup (es_peers (snd (poll_all e st))) k = None"
proof -
  define st1 e1 where "st1 = snd (service_local_socket_recovery e st)" and "e1 = fst (service_local_socket_recovery e st)"
  define st2 where "st2 = each_resumed (\<lambda>e (d, epoch). renegotiate_ice e d False ''ice-disconnected-watchdog'' (Some epoch)) e1
    (peers_where (disconnected_too_long e) st1) st1"
  define st3 where "st3 = each_resumed on_connect_timeout (resumed e1 st1 st2) (peers_where (connect_timed_out e) st2) st2"
  have p: "dial st k = ((False, Some (pc_epoch p)), Some (pd_data_channel_open (pc_data p), pd_session_started_at (pc_data p)))"
    using assms(1,2) by (simp add: dial_def slot_def peer_of_def)
  then have "dial st1 k = dial st k" unfolding st1_def by (intro dial_recovery) simp
  then have d2: "dial st2 k = dial st k" unfolding st2_def by (intro dial_each) (simp_all add: case_prod_beta)
  then obtain q where q: "fmlookup (es_peers st2) k = Some q" "pc_epoch q = pc_epoch p"
      "pd_data_channel_open (pc_data q) = pd_data_channel_open (pc_data p)" "pd_session_started_at (pc_data q) = pd_session_started_at (pc_data p)"
    using p by (auto simp: dial_def slot_def peer_of_def)
  have "es_offline st1 = es_offline st" unfolding st1_def by (rule hold.kept_recovery) simp
  moreover have "es_offline st2 = es_offline st1"
    unfolding st2_def by (rule hold.kept_each) (auto split: prod.split intro: hold.kept_renegotiate)
  ultimately have "\<not> es_offline st2" using assms(3) by simp
  moreover have "(k, pc_epoch p) \<in> set (peers_where (connect_timed_out e) st2)"
    using q assms(4) by (auto simp: peers_where_iff connect_timed_out_def)
  ultimately have "peer_of st3 k = None"
    using d2 p unfolding st3_def by (intro timeouts_drop [of k "pc_epoch p"]) (simp_all add: peers_where_distinct dial_def)
  moreover have "dial (each_resumed on_restart_unconfirmed e' L st3) k = dial st3 k" for e' L
  proof (rule dial_each)
    fix e x s
    assume "dial s k = dial st3 k"
    moreover from this have "peer_of s k = None" using \<open>peer_of st3 k = None\<close> by (simp add: dial_def)
    ultimately show "dial (on_restart_unconfirmed e x s) k = dial st3 k" by (simp add: unconfirmed_absent)
  qed simp
  ultimately show ?thesis
    by (simp add: poll_all_def case_prod_beta Let_def dial_def peer_of_def flip: st1_def e1_def st2_def st3_def)
qed

theorem stuck_sessions_reclaimed_witness:
  "fmlookup (es_peers (snd (poll_all (sample_env\<lparr>en_instant := 30100\<rparr>)
     (sample_engine [(''b'', default_peer_data\<lparr>pd_session_started_at := Some 100\<rparr>)])))) ''b'' = None"
  by (rule stuck_sessions_reclaimed [where p = "sample_peer (default_peer_data\<lparr>pd_session_started_at := Some 100\<rparr>)"])
    (simp_all add: sample_engine_def connect_timed_out_def past_since_def sample_peer_def default_peer_data_def
      DATA_CHANNEL_OPEN_TIMEOUT_MS_def duration_since_def)

section \<open>What goes out to signaling\<close>

text \<open>Nothing more than in \<open>st\<close> has gone to signaling, no session has been opened and the socket circuit is as it was.\<close>

definition hushed :: "engine \<Rightarrow> engine \<Rightarrow> bool" where
  "hushed st s \<longleftrightarrow> es_socket s = es_socket st \<and> fx_signals (es_fx s) = fx_signals (es_fx st) \<and>
     (\<forall>k. session_of s k \<noteq> None \<longrightarrow> session_of st k \<noteq> None)"

lemma hushed_refl [simp]: "hushed st st"
  by (simp add: hushed_def)

lemma hushed_fields [simp]:
  "hushed st (s\<lparr>es_last_announce := la\<rparr>) = hushed st s" "hushed st (s\<lparr>es_deferred := df\<rparr>) = hushed st s"
  "hushed st (s\<lparr>es_intents := ri\<rparr>) = hushed st s" "hushed st (s\<lparr>es_rescue := rw\<rparr>) = hushed st s"
  "hushed st (s\<lparr>es_waiters := ws\<rparr>) = hushed st s" "hushed st (s\<lparr>es_sticky := sk, es_pinned := pn\<rparr>) = hushed st s"
  "hushed st (s\<lparr>es_out := ob\<rparr>) = hushed st s" "hushed st (s\<lparr>es_phase := ph\<rparr>) = hushed st s"
  "hushed st (s\<lparr>es_closing := cl\<rparr>) = hushed st s" "hushed st (s\<lparr>es_offline := off\<rparr>) = hushed st s"
  "hushed st (s\<lparr>es_sticky := sk\<rparr>) = hushed st s"
  by (simp_all add: hushed_def session_of_def)

lemma session_of_steps [simp]:
  "session_of (update_peer d g s) k = session_of s k" "(session_of (set_session d f s) k = None) = (session_of s k = None)"
  "session_of (s\<lparr>es_fx := effects\<rparr>) k = session_of s k"
  by (auto simp: session_of_def update_peer_def set_session_def split: option.split)

lemma signals_send [simp]: "fx_signals (es_fx (snd (send_to_peer e d msg s))) = fx_signals (es_fx s)"
  by (simp add: send_to_peer_def transport_send_def Let_def split: option.split)

lemma hushed_cong:
  "es_socket s = es_socket s' \<Longrightarrow> fx_signals (es_fx s) = fx_signals (es_fx s') \<Longrightarrow>
     (\<And>k. (session_of s k = None) = (session_of s' k = None)) \<Longrightarrow> hushed st s = hushed st s'"
  by (auto simp: hushed_def)

lemma hushed_primitives [simp]:
  "hushed st (spawn t s) = hushed st s" "hushed st (reply r s) = hushed st s" "hushed st (emit ev s) = hushed st s"
  "hushed st (snd (send_to_peer e d msg s)) = hushed st s" "hushed st (transport_call s) = hushed st s"
  "hushed st (put_outbox d ob s) = hushed st s" "hushed st (add_ice_candidate d ep c s) = hushed st s"
  "hushed st (update_peer d g s) = hushed st s" "hushed st (set_session d f s) = hushed st s"
proof -
  have "session_of (snd (send_to_peer e d msg s)) k = session_of s k" for k
    by (simp add: send_to_peer_def session_of_def Let_def split: option.split)
  moreover have "es_socket (snd (send_to_peer e d msg s)) = es_socket s"
    by (simp add: send_to_peer_def Let_def split: option.split)
  ultimately show "hushed st (snd (send_to_peer e d msg s)) = hushed st s" by (intro hushed_cong) simp_all
  have "es_socket (set_session d f s) = es_socket s" "es_socket (update_peer d g s) = es_socket s"
    by (simp_all add: set_session_def update_peer_def split: option.split)
  then show "hushed st (set_session d f s) = hushed st s" "hushed st (update_peer d g s) = hushed st s" by (intro hushed_cong; simp)+
qed (rule hushed_cong; simp add: spawn_def reply_def emit_def transport_call_def put_outbox_def add_ice_candidate_def session_of_def)+

lemma hushed_fold: "(\<And>x s. hushed st s \<Longrightarrow> hushed st (f x s)) \<Longrightarrow> hushed st s \<Longrightarrow> hushed st (fold f xs s)"
  by (induction xs arbitrary: s) simp_all

lemma hushed_replies [simp]:
  "hushed st (fold (\<lambda>w. reply (w, x)) ws s) = hushed st s"
  by (induction ws arbitrary: s) simp_all

lemma hushed_peers [simp]:
  "hushed st s \<Longrightarrow> hushed st (recompute s)" "hushed st s \<Longrightarrow> hushed st (reevaluate_topology e s)"
  "hushed st s \<Longrightarrow> hushed st (after_drop e d r s)" "hushed st s \<Longrightarrow> hushed st (note_sighted_without_dialing d s)"
proof -
  show r: "hushed st s \<Longrightarrow> hushed st (recompute s)" for s by (simp add: recompute_def set_phase_def Let_def)
  have "hushed st s \<Longrightarrow> hushed st (shelve_one e ps k s)" for ps k s
    by (simp add: shelve_one_def send_shelve_unshelve_def Let_def split: option.split)
  then show "hushed st s \<Longrightarrow> hushed st (reevaluate_topology e s)"
    by (simp add: reevaluate_topology_def Let_def hushed_fold)
  show "hushed st s \<Longrightarrow> hushed st (after_drop e d r s)"
    by (simp add: after_drop_def mark_unsent_def fail_peer_def record_reconnect_intent_def clear_reconnect_intent_def
        resolve_connect_waiters_def Let_def split: option.split)
  show "hushed st s \<Longrightarrow> hushed st (note_sighted_without_dialing d s)"
    unfolding note_sighted_without_dialing_def Let_def
    by (auto intro!: r) (auto simp: hushed_def session_of_def split: option.splits if_splits)
qed

lemma hushed_drop [simp]: "hushed st s \<Longrightarrow> hushed st (drop_peer e d r s)"
proof -
  assume s: "hushed st s"
  then have "hushed st (s\<lparr>es_closing := cl, es_peers := fmdrop d (es_peers s), es_deferred := df\<rparr>)" for cl df
    by (auto simp: hushed_def session_of_def split: option.splits if_splits)
  with s show ?thesis by (simp add: drop_peer_def drop_peer_inner_def Let_def split: option.split)
qed

lemma circuit_shared: "lr_active (es_socket st) \<Longrightarrow> hushed st s \<Longrightarrow> local_socket_recovery_active e s"
  by (simp add: hushed_def local_socket_recovery_active_def)

lemma circuit_stops:
  assumes "lr_active (es_socket st)" "hushed st s"
  shows "snd (maybe_reactive_announce e s) = s" "ensure_peer_session e d role s = s" "reoffer_after_failed_answer e d s = s"
    "reoffer_sighted e d role s = (True, s)" "try_reoffer e d s = s" "service_reconnect_intents e s = s" "on_offer e d i sdp s = s"
    "hushed st (renegotiate_ice e d force tr ep s)"
  using circuit_shared [OF assms] assms(2)
  by (simp_all add: maybe_reactive_announce_def ensure_peer_session_def reoffer_after_failed_answer_def reoffer_sighted_def
      try_reoffer_def service_reconnect_intents_def on_offer_def renegotiate_ice_def defer_ice_restart_def Let_def split: option.split)

lemma circuit_announced:
  assumes act: "lr_active (es_socket st)" shows "hushed st (on_peer_announced e d st)"
proof -
  note stops = circuit_stops [OF act]
  have "hushed st (restart_unhealthy e' d role s)" if "hushed st s" for e' role s
    using that stops(8) by (simp add: restart_unhealthy_def split: option.split)
  moreover have "hushed st (clear_stale_session_if_zombie e' d s)" if "hushed st s" for e' s
    using that by (simp add: clear_stale_session_if_zombie_def split: option.split)
  moreover have "hushed st (confirm_active_session_on_announce e' d s)" if "hushed st s" for e' s
    using that by (simp add: confirm_active_session_on_announce_def send_ping_def Let_def split: option.split)
  moreover have "hushed st (dial_announced e' d role s)" if "hushed st s" for e' role s
    using that stops(2) by (simp add: dial_announced_def)
  ultimately show ?thesis using stops(1) [OF hushed_refl] stops(4) [OF hushed_refl]
    by (simp add: on_peer_announced_def Let_def)
qed

lemma circuit_sdp:
  assumes act: "lr_active (es_socket st)" and "hushed st s" shows "hushed st (apply_remote_sdp e d ty sdp s)"
proof -
  have "hushed st (add_pending d ep cs s')" if "hushed st s'" for ep cs s'
    using that by (induction d ep cs s' rule: add_pending.induct) simp_all
  then show ?thesis using circuit_stops(3) [OF act] assms(2)
    by (simp add: apply_remote_sdp_def set_remote_description_def drain_candidates_def Let_def split: option.split)
qed

lemma circuit_signaling:
  assumes act: "lr_active (es_socket st)" shows "hushed st (handle_signaling_inbound e sig st)"
proof (cases sig)
  case (SigAnswer d i sdp)
  with circuit_sdp [OF act] show ?thesis by (simp add: on_answer_def split: option.split)
next
  case (SigCandidate d c)
  then show ?thesis by (simp add: on_candidate_def Let_def split: option.split)
qed (use circuit_announced [OF act] circuit_stops(7) [OF act hushed_refl] in simp_all)

lemma hushed_each: "(\<And>e x s. hushed st s \<Longrightarrow> hushed st (f e x s)) \<Longrightarrow> hushed st s \<Longrightarrow> hushed st (each_resumed f e xs s)"
  by (induction f e xs s rule: each_resumed.induct) (simp_all add: Let_def)

lemma circuit_reconnect:
  assumes act: "lr_active (es_socket st)" and s: "hushed st s"
  shows "hushed st (redial_then_fan_out e s)" "hushed st (reconnect_peer_in_place e d s)"
proof -
  have "hushed st (force_ice_restart_all e' s')" if "hushed st s'" for e' s'
    using that circuit_stops(8) [OF act] unfolding force_ice_restart_all_def by (intro hushed_each) (simp_all add: case_prod_beta)
  then have "hushed st (fan_out_restart e' s')" if "hushed st s'" for e' s'
    using that circuit_shared [OF act] by (simp add: fan_out_restart_def Let_def)
  moreover have redial: "hushed st (snd (request_relay_reconnect s))"
    using s by (simp add: request_relay_reconnect_def hushed_def)
  ultimately show "hushed st (redial_then_fan_out e s)" by (simp add: redial_then_fan_out_def case_prod_beta)
  have "hushed st (renegotiate_ice e d True tr ep s)" for tr ep using circuit_stops(8) [OF act s] .
  then show "hushed st (reconnect_peer_in_place e d s)"
    using s circuit_stops(1,5) [OF act] by (simp add: reconnect_peer_in_place_def Let_def)
qed

lemma circuit_connect:
  assumes act: "lr_active (es_socket st)" and s: "hushed st s"
  obtains s2 where "hushed st s2" "connect_peer e d sticky wait s = record_reconnect_intent e d sticky s2"
proof -
  define s1 where "s1 = (if sticky then add_sticky d s else s)"
  define s2 where "s2 = (case wait of None \<Rightarrow> s1
     | Some w \<Rightarrow> if map_option pd_status (peer_of s1 d) = Some Active then reply (w, Inr ()) s1 else register_connect_waiter d w s1)"
  have "hushed st s1" using s by (simp add: s1_def add_sticky_def)
  then have "hushed st s2" by (simp add: s2_def register_connect_waiter_def split: option.split)
  moreover from circuit_shared [OF act this] have "connect_peer e d sticky wait s = record_reconnect_intent e d sticky s2"
    unfolding connect_peer_def Let_def s1_def [symmetric] s2_def [symmetric] by simp
  ultimately show thesis by (rule that)
qed

lemma circuit_passes:
  assumes act: "lr_active (es_socket st)" and s: "hushed st s"
  shows "hushed st (snd (watch_poll e current w s))" "hushed st (shape_connections e s)" "hushed st (reconnect_all_in_place e s)"
    "hushed st (connect_peer e d sticky wait s)"
proof -
  show "hushed st (snd (watch_poll e current w s))"
    using s circuit_reconnect(1) [OF act] by (simp add: watch_poll_def on_network_change_def set_offline_def Let_def split: option.split)
  have "hushed st (each_resumed (\<lambda>e d. ensure_peer_session e d Offerer) e' ds s')" if "hushed st s'" for e' ds s'
    using that circuit_stops(2) [OF act] by (intro hushed_each) simp_all
  moreover have "hushed st (fold (prune_one e) ds s)" for ds using s by (intro hushed_fold) (simp_all add: prune_one_def)
  ultimately show "hushed st (shape_connections e s)" by (simp add: shape_connections_def case_prod_beta)
  show "hushed st (reconnect_all_in_place e s)" using s circuit_reconnect(1) [OF act] by (simp add: reconnect_all_in_place_def)
  obtain s2 where "hushed st s2" "connect_peer e d sticky wait s = record_reconnect_intent e d sticky s2"
    by (rule circuit_connect [OF act s])
  then show "hushed st (connect_peer e d sticky wait s)" by (simp add: record_reconnect_intent_def Let_def)
qed

text \<open>
  C15: Under local socket pressure the engine stops asking for sockets. While the circuit of this network is open, seven operations open no
  session and send no offer, answer or announcement: the handling of any signaling message, the service of the reconnect
  intents, a poll of the network watcher, a pass of the shaper, the reconnect of all peers or of one in place, and a deliberate
  connect, which is remembered instead. (The announcement on wake is not held back by the circuit, and the renegotiation of media
  lanes is not part of the model.)
\<close>

theorem pressure_stops_dialing:
  assumes "lr_active (es_socket st)"
  shows "hushed st (handle_signaling_inbound e sig st) \<and> hushed st (service_reconnect_intents e st) \<and>
     hushed st (snd (watch_poll e current w st)) \<and> hushed st (shape_connections e st) \<and>
     hushed st (reconnect_all_in_place e st) \<and> hushed st (reconnect_peer_in_place e d st) \<and>
     hushed st (connect_peer e d sticky wait st) \<and>
     fmlookup (es_intents (connect_peer e d sticky wait st)) d \<noteq> None"
proof -
  obtain s2 where "connect_peer e d sticky wait st = record_reconnect_intent e d sticky s2"
    by (rule circuit_connect [OF assms hushed_refl])
  then have "fmlookup (es_intents (connect_peer e d sticky wait st)) d \<noteq> None" by (simp add: record_reconnect_intent_def Let_def)
  with circuit_signaling [OF assms] circuit_passes [OF assms hushed_refl] circuit_reconnect(2) [OF assms hushed_refl]
    circuit_stops(6) [OF assms hushed_refl] show ?thesis by simp
qed

theorem pressure_stops_dialing_witness:
  "hushed ((sample_engine [])\<lparr>es_socket := (es_socket (sample_engine []))\<lparr>lr_active := True\<rparr>\<rparr>)
     (handle_signaling_inbound sample_env (PeerAnnounced ''b'') ((sample_engine [])\<lparr>es_socket := (es_socket (sample_engine []))\<lparr>lr_active := True\<rparr>\<rparr>))"
  using pressure_stops_dialing [of "(sample_engine [])\<lparr>es_socket := (es_socket (sample_engine []))\<lparr>lr_active := True\<rparr>\<rparr>" sample_env "PeerAnnounced ''b''"]
  by simp

section \<open>Who offers\<close>

text \<open>What has gone to signaling since \<open>st\<close> satisfies \<open>P\<close>, and only links have changed.\<close>

definition said :: "engine \<Rightarrow> (signaling_outbound \<Rightarrow> bool) \<Rightarrow> engine \<Rightarrow> bool" where
  "said st P s \<longleftrightarrow> link_level st s \<and>
     (\<exists>new. fx_signals (es_fx s) = fx_signals (es_fx st) @ new \<and> (\<forall>m \<in> set new. P m))"

lemma said_refl [simp]: "said st P st"
  by (simp add: said_def)

lemma said_cong: "link_level s s' \<Longrightarrow> fx_signals (es_fx s') = fx_signals (es_fx s) \<Longrightarrow> said st P s \<Longrightarrow> said st P s'"
  by (auto simp: said_def intro: link_level_trans)

lemma said_signal [simp]: "P m \<Longrightarrow> said st P s \<Longrightarrow> said st P (signal m s)"
  by (fastforce simp: said_def signal_def)

lemma said_announce [simp]: "P Announce \<Longrightarrow> said st P s \<Longrightarrow> said st P (snd (maybe_reactive_announce e s))"
  by (fastforce simp: said_def maybe_reactive_announce_def Let_def)

lemma said_steps [simp]:
  "said st P s \<Longrightarrow> said st P (update_peer d g s)" "said st P s \<Longrightarrow> said st P (set_session d f s)"
  "said st P s \<Longrightarrow> said st P (transport_call s)" "said st P s \<Longrightarrow> said st P (spawn t s)"
  "said st P s \<Longrightarrow> said st P (snd (send_to_peer e d msg s))" "said st P s \<Longrightarrow> said st P (defer_ice_restart d force s)"
  by (erule said_cong [rotated 2]; simp add: set_session_def transport_call_def spawn_def defer_ice_restart_def split: option.split)+

lemma signals_hushed: "hushed st s \<Longrightarrow> fx_signals (es_fx s) = fx_signals (es_fx st)"
  by (simp add: hushed_def)

lemma said_peers [simp]:
  "said st P s \<Longrightarrow> said st P (drop_peer e d r s)" "said st P s \<Longrightarrow> said st P (note_sighted_without_dialing d s)"
  "said st P s \<Longrightarrow> said st P (insert_session e d s)" "said st P s \<Longrightarrow> said st P (snd (drop_peer_if_epoch e d ep r s))"
proof -
  show d: "said st P s \<Longrightarrow> said st P (drop_peer e d r s)" for s
    using signals_hushed [of s "drop_peer e d r s"] by (elim said_cong [rotated 2]) simp_all
  show "said st P s \<Longrightarrow> said st P (note_sighted_without_dialing d s)"
    using signals_hushed [OF hushed_peers(4) [OF hushed_refl [of s]], of d]
    by (elim said_cong [rotated 2]) (simp_all, simp add: note_sighted_without_dialing_def Let_def)
  show "said st P s \<Longrightarrow> said st P (insert_session e d s)"
    by (elim said_cong [rotated 2]) (simp_all add: insert_session_def emit_def Let_def)
  show "said st P s \<Longrightarrow> said st P (snd (drop_peer_if_epoch e d ep r s))"
    using d by (simp add: drop_if_epoch_snd)
qed

lemma said_offers:
  assumes "\<And>i sdp. P (SendOffer d i sdp)" "said st P s"
  shows "said st P (snd (re_offer e d ep s))" "said st P (snd (first_offer e d ep s))" "said st P (restart_offer e d ep force s)"
  using assms
  by (simp_all add: re_offer_def first_offer_def restart_offer_def defer_restart_def create_offer_def issue_offer_id_def
      forget_stamp_def stamp_offer_def Let_def case_prod_beta split: option.split)

lemma said_ensure:
  assumes "role = Offerer \<Longrightarrow> (\<And>i sdp. P (SendOffer d i sdp))" "said st P s"
  shows "said st P (ensure_peer_session e d role s)"
  using assms said_offers(2) [of P d st] by (simp add: ensure_peer_session_def Let_def case_prod_beta)

text \<open>Of an announcement of \<open>d\<close>, seen in \<open>st\<close>: we announce ourselves, or offer if the order of the ids or a pin says so.\<close>

definition may_say :: "engine \<Rightarrow> string \<Rightarrow> signaling_outbound \<Rightarrow> bool" where
  "may_say st d m \<longleftrightarrow> m = Announce \<or> (\<exists>i sdp. m = SendOffer d i sdp) \<and> (self_id st < d \<or> is_sticky st d)"

lemma may_say_announce [simp]: "may_say st d Announce"
  by (simp add: may_say_def)

lemma may_say_offer: "self_id st < d \<or> is_sticky st d \<Longrightarrow> may_say st d (SendOffer d i sdp)"
  by (simp add: may_say_def)

lemma said_same: "said st P s \<Longrightarrow> self_id s = self_id st" "said st P s \<Longrightarrow> is_sticky s d = is_sticky st d"
  by (auto simp: said_def is_sticky_def dest: link_level_fields(2,9))

lemma said_restart:
  assumes "said st (may_say st d) s" shows "said st (may_say st d) (renegotiate_ice e d force tr ep s)"
proof -
  have offer: "said st (may_say st d) (restart_offer e d ep b s')" if "said st (may_say st d) s'" "self_id s < d" for ep s' b
    using said_offers(3) [of "may_say st d" d st s'] that may_say_offer said_same(1) [OF assms] by simp
  show ?thesis using assms offer
    by (simp add: renegotiate_ice_def defer_restart_def forget_stamp_def Let_def split: option.split)
qed

lemma announced_said: "said st (may_say st d) (on_peer_announced e d st)"
proof -
  let ?said = "said st (may_say st d)"
  have "?said (snd (re_offer e' d ep s))" if "?said s" "announce_role st d = Offerer" for e' ep s
    using said_offers(1) [of "may_say st d" d st s] that may_say_offer by (simp add: announce_role_def split: if_splits)
  then have "?said (snd (reoffer_sighted e' d (announce_role st d) s))" if "?said s" for e' s
    using that by (simp add: reoffer_sighted_def stamp_offer_def forget_stamp_def Let_def split: option.split)
  moreover have "?said (restart_unhealthy e' d role s)" if "?said s" for e' role s
    using that said_restart by (simp add: restart_unhealthy_def split: option.split)
  moreover have "?said (clear_stale_session_if_zombie e' d s)" if "?said s" for e' s
    using that by (simp add: clear_stale_session_if_zombie_def split: option.split)
  moreover have "?said (confirm_active_session_on_announce e' d s)" if "?said s" for e' s
    using that by (simp add: confirm_active_session_on_announce_def send_ping_def Let_def split: option.split)
  moreover have "?said (dial_announced e' d (announce_role st d) s)" if "?said s" for e' s
  proof -
    have "?said (ensure_peer_session e' d (announce_role st d) s)"
      using that may_say_offer by (intro said_ensure) (auto simp: announce_role_def split: if_splits)
    moreover have "?said (ensure_peer_session e' d Offerer s)" if "is_sticky st d"
      using that \<open>?said s\<close> may_say_offer by (intro said_ensure) auto
    ultimately show ?thesis using that said_same(2) [OF that] by (simp add: dial_announced_def)
  qed
  ultimately show ?thesis by (simp add: on_peer_announced_def Let_def case_prod_beta)
qed

definition offers_after :: "env \<Rightarrow> string \<Rightarrow> engine \<Rightarrow> bool" where
  "offers_after e d st \<longleftrightarrow>
     (\<exists>m \<in> set (drop (length (fx_signals (es_fx st))) (fx_signals (es_fx (on_peer_announced e d st)))). m \<noteq> Announce)"



end
