(* ===== verification/Video.thy ===== *)
theory Video
  imports Recovery
begin

text \<open>
  Receiving video: the access-unit assembler \<open>H264AuAssembler\<close> of \<open>transport/webrtc.rs\<close>, which turns RTP packets that may be lost,
  reordered and repeated into whole H.264 units.

  The third-party H.264 depacketizer is the record \<open>depacketizer\<close>: the fragment state a fresh one has, and what one payload
  yields. Unwrapped sequence numbers are \<open>i64\<close> in the code and integers here: a packet moves them by at most \<open>2 ^ 15\<close>.
\<close>

unbundle bit_operations_syntax

section \<open>Payloads\<close>

definition newer_rtp_ts :: "u32 \<Rightarrow> u32 \<Rightarrow> bool" where
  "newer_rtp_ts a b \<longleftrightarrow> a \<noteq> b \<and> a - b < 0xFFFFFFFF div 2"

definition payload_starts_au :: "bytes \<Rightarrow> bool" where
  "payload_starts_au payload =
     (case payload of
        [] \<Rightarrow> False
      | b0 # rest \<Rightarrow>
          let t = (of_char b0 :: u8) AND 0x1F in
          if 1 \<le> t \<and> t \<le> 23 then True
          else if t = 24 then True
          else if t = 28 \<or> t = 29 then (case rest of [] \<Rightarrow> False | b1 # _ \<Rightarrow> (of_char b1 :: u8) AND 0x80 \<noteq> 0)
          else False)"

text \<open>The index of the code is the suffix still to be read.\<close>

fun annexb_nal_types :: "bytes \<Rightarrow> u8 list" where
  "annexb_nal_types (a # b # c # r) =
     (if a = CHR 0x00 \<and> b = CHR 0x00 \<and> c = CHR 0x01
      then (case r of [] \<Rightarrow> [] | t # r1 \<Rightarrow> (of_char t AND 0x1F) # annexb_nal_types r1)
      else case r of
             d # r0 \<Rightarrow>
               (if a = CHR 0x00 \<and> b = CHR 0x00 \<and> c = CHR 0x00 \<and> d = CHR 0x01
                then (case r0 of [] \<Rightarrow> [] | t # r1 \<Rightarrow> (of_char t AND 0x1F) # annexb_nal_types r1)
                else annexb_nal_types (b # c # d # r0))
           | [] \<Rightarrow> annexb_nal_types [b, c])"
| "annexb_nal_types _ = []"

definition au_has_idr :: "bytes \<Rightarrow> bool" where
  "au_has_idr data \<longleftrightarrow> 5 \<in> set (annexb_nal_types data)"

record 's depacketizer =
  dp_fresh :: 's
  dp_step :: "'s \<Rightarrow> bytes \<Rightarrow> (bytes \<times> 's) option"

fun depacketize_all :: "'s depacketizer \<Rightarrow> 's \<Rightarrow> bytes list \<Rightarrow> bytes \<Rightarrow> bytes option" where
  "depacketize_all dp s [] data = Some data"
| "depacketize_all dp s (p # ps) data =
     (case dp_step dp s p of None \<Rightarrow> None | Some (part, s1) \<Rightarrow> depacketize_all dp s1 ps (data @ part))"

section \<open>The assembler\<close>

text \<open>What the assembler reads of an RTP packet.\<close>

record rtp_packet =
  rp_sequence_number :: "16 word"
  rp_timestamp :: u32
  rp_marker :: bool
  rp_payload :: bytes

record pending_au =
  au_timestamp :: u32
  au_parts :: "(int, bytes) fmap"
  au_marker_seq :: "int option"
  au_blocked_since :: "u64 option"
  au_overflowed :: bool

record assembler =
  as_pending :: "pending_au list"
  as_prev_end :: "int option"
  as_last_seq :: "(16 word \<times> int) option"
  as_newest_timestamp :: "u32 option"
  as_gap_open :: bool

definition new_assembler :: assembler where
  "new_assembler = \<lparr>as_pending = [], as_prev_end = None, as_last_seq = None, as_newest_timestamp = None, as_gap_open = False\<rparr>"

record video_sample =
  vs_rtp_timestamp :: u32
  vs_key :: bool
  vs_lane :: u8
  vs_sequence :: u64
  vs_data :: bytes

record recovery_diagnostic =
  rd_observed_at :: u64
  rd_reason :: string
  rd_pending_samples :: nat
  rd_pending_frames :: nat
  rd_pending_packets :: nat
  rd_blocked_ms :: u64

datatype assembly_event = Sample video_sample | Discontinuity u32 recovery_diagnostic

definition MAX_AU_PARTS :: nat where "MAX_AU_PARTS = 2048"
definition MAX_PENDING_FRAMES :: nat where "MAX_PENDING_FRAMES = 15"
definition MAX_PENDING_PARTS :: nat where "MAX_PENDING_PARTS = 4096"
definition RETRANSMIT_GRACE_MS :: u64 where "RETRANSMIT_GRACE_MS = 150"

definition unwrap_seq :: "16 word \<Rightarrow> assembler \<Rightarrow> int \<times> assembler" where
  "unwrap_seq raw a =
     (case as_last_seq a of
        None \<Rightarrow> (uint raw, a\<lparr>as_last_seq := Some (raw, uint raw)\<rparr>)
      | Some (last_raw, last_unwrapped) \<Rightarrow>
          let delta = sint (raw - last_raw);
              unwrapped = last_unwrapped + delta
          in (unwrapped, if 0 < delta then a\<lparr>as_last_seq := Some (raw, unwrapped)\<rparr> else a))"

text \<open>The loop of \<open>pending_position\<close>, with the lower bound it carries and the index it has reached.\<close>

fun position_from :: "u32 \<Rightarrow> int \<Rightarrow> int option \<Rightarrow> nat \<Rightarrow> pending_au list \<Rightarrow> nat option" where
  "position_from ts seq lower n [] = None"
| "position_from ts seq lower n (au # aus) =
     (if au_timestamp au \<noteq> ts then position_from ts seq lower (Suc n) aus
      else if (case lower of None \<Rightarrow> True | Some e \<Rightarrow> e < seq) \<and> (case au_marker_seq au of None \<Rightarrow> True | Some e \<Rightarrow> seq \<le> e)
      then Some n
      else position_from ts seq (case au_marker_seq au of None \<Rightarrow> lower | Some e \<Rightarrow> Some e) (Suc n) aus)"

definition pending_position :: "u32 \<Rightarrow> int \<Rightarrow> assembler \<Rightarrow> nat option" where
  "pending_position ts seq a = position_from ts seq (as_prev_end a) 0 (as_pending a)"

text \<open>\<open>first_key_value\<close> and \<open>last_key_value\<close>, and the values of a range of keys in order.\<close>

definition first_part :: "pending_au \<Rightarrow> (int \<times> bytes) option" where
  "first_part au = (case sorted_list_of_fmap (au_parts au) of [] \<Rightarrow> None | kv # _ \<Rightarrow> Some kv)"

definition last_part :: "pending_au \<Rightarrow> (int \<times> bytes) option" where
  "last_part au = (case rev (sorted_list_of_fmap (au_parts au)) of [] \<Rightarrow> None | kv # _ \<Rightarrow> Some kv)"

definition parts_range :: "int \<Rightarrow> int \<Rightarrow> pending_au \<Rightarrow> bytes list" where
  "parts_range i j au = map snd (filter (\<lambda>(k, _). i \<le> k \<and> k \<le> j) (sorted_list_of_fmap (au_parts au)))"

definition parts_len :: "pending_au \<Rightarrow> nat" where
  "parts_len au = fcard (fmdom (au_parts au))"

text \<open>\<open>Ok(None)\<close> is \<open>Inr None\<close>, a payload the depacketizer refuses \<open>Inl\<close>.\<close>

definition depacketize_if_complete ::
  "'s depacketizer \<Rightarrow> int option \<Rightarrow> pending_au \<Rightarrow> string + (video_sample \<times> int) option" where
  "depacketize_if_complete dp prev_end au =
     (case au_marker_seq au of
        None \<Rightarrow> Inr None
      | Some e \<Rightarrow>
          let start = (case prev_end of
                         Some prev \<Rightarrow> Some (prev + 1)
                       | None \<Rightarrow> (case first_part au of
                                    None \<Rightarrow> None
                                  | Some (lo, first) \<Rightarrow> if payload_starts_au first then Some lo else None))
          in case start of
               None \<Rightarrow> Inr None
             | Some i \<Rightarrow>
                 if e < i then Inr None
                 else if length (parts_range i e au) < nat (e - i + 1) then Inr None
                 else
                   case depacketize_all dp (dp_fresh dp) (parts_range i e au) [] of
                     None \<Rightarrow> Inl ''h264 depacketize''
                   | Some data \<Rightarrow>
                       if data = [] then Inr None
                       else Inr (Some (\<lparr>vs_rtp_timestamp = au_timestamp au, vs_key = au_has_idr data, vs_lane = 0, vs_sequence = 0,
                                        vs_data = data\<rparr>, e)))"

definition arm_clock :: "u64 \<Rightarrow> pending_au \<Rightarrow> pending_au" where
  "arm_clock now au = (case au_blocked_since au of None \<Rightarrow> au\<lparr>au_blocked_since := Some now\<rparr> | Some _ \<Rightarrow> au)"

fun start_clocks :: "u64 \<Rightarrow> pending_au list \<Rightarrow> pending_au list" where
  "start_clocks now [] = []"
| "start_clocks now (au # aus) =
     (if au_marker_seq au \<noteq> None \<or> aus \<noteq> [] then arm_clock now au else au) # start_clocks now aus"

definition total_parts :: "pending_au list \<Rightarrow> nat" where
  "total_parts aus = sum_list (map parts_len aus)"

definition pending_frames :: "pending_au list \<Rightarrow> nat" where
  "pending_frames aus = length (remdups_adj (map au_timestamp aus))"

definition limit_reason :: "pending_au list \<Rightarrow> string option" where
  "limit_reason aus =
     (if aus \<noteq> [] \<and> au_overflowed (hd aus) then Some ''sample_packet_limit''
      else if MAX_PENDING_PARTS < total_parts aus then Some ''pending_packet_limit''
      else if MAX_PENDING_FRAMES < pending_frames aus then Some ''pending_frame_limit''
      else None)"

definition try_front :: "'s depacketizer \<Rightarrow> int option \<Rightarrow> pending_au list \<Rightarrow> string option \<times> (video_sample \<times> int) option" where
  "try_front dp prev_end aus =
     (if aus = [] \<or> au_overflowed (hd aus) then (limit_reason aus, None)
      else case depacketize_if_complete dp prev_end (hd aus) of
             Inl _ \<Rightarrow> (Some ''invalid_payload'', None)
           | Inr complete \<Rightarrow> (limit_reason aus, complete))"

definition still_waiting :: "u64 \<Rightarrow> pending_au \<Rightarrow> bool" where
  "still_waiting now au =
     (case au_blocked_since au of None \<Rightarrow> True | Some t \<Rightarrow> duration_since now t < RETRANSMIT_GRACE_MS)"

definition abandon_event :: "u64 \<Rightarrow> string option \<Rightarrow> pending_au list \<Rightarrow> assembly_event" where
  "abandon_event now reason aus =
     Discontinuity (au_timestamp (hd aus))
       \<lparr>rd_observed_at = now, rd_reason = (case reason of None \<Rightarrow> ''retransmit_deadline'' | Some r \<Rightarrow> r),
        rd_pending_samples = length aus, rd_pending_frames = pending_frames aus, rd_pending_packets = total_parts aus,
        rd_blocked_ms = (case au_blocked_since (hd aus) of None \<Rightarrow> 0 | Some t \<Rightarrow> duration_since now t)\<rparr>"

text \<open>
  The loop of \<open>collect_ready\<close>. Every turn but the last takes the front unit off. A waiting front keeps the clock
  that \<open>get_or_insert\<close> started.
\<close>

function collect_loop :: "'s depacketizer \<Rightarrow> u64 \<Rightarrow> assembler \<Rightarrow> assembly_event list \<times> assembler" where
  "collect_loop dp now a =
     (case as_pending a of
        [] \<Rightarrow> ([], a)
      | au # rest \<Rightarrow>
          let (reason, complete) = try_front dp (as_prev_end a) (au # rest) in
          case complete of
            Some (sample, e) \<Rightarrow>
              apfst ((#) (Sample sample))
                (collect_loop dp now (a\<lparr>as_pending := rest, as_prev_end := Some e, as_gap_open := False\<rparr>))
          | None \<Rightarrow>
              let observable_hole = (au_marker_seq au \<noteq> None \<or> rest \<noteq> []);
                  front = (if observable_hole then arm_clock now au else au)
              in
              if observable_hole \<and> reason = None \<and> still_waiting now front then ([], a\<lparr>as_pending := front # rest\<rparr>)
              else if \<not> observable_hole \<and> reason = None then ([], a)
              else
                apfst (\<lambda>events. if as_gap_open a then events else abandon_event now reason (front # rest) # events)
                  (collect_loop dp now (a\<lparr>as_pending := rest, as_prev_end := au_marker_seq front, as_gap_open := True\<rparr>)))"
  by pat_completeness auto
termination by (relation "measure (\<lambda>(dp, now, a). length (as_pending a))") auto

declare collect_loop.simps [simp del]

definition collect_ready :: "'s depacketizer \<Rightarrow> u64 \<Rightarrow> assembler \<Rightarrow> assembly_event list \<times> assembler" where
  "collect_ready dp now a = collect_loop dp now (a\<lparr>as_pending := start_clocks now (as_pending a)\<rparr>)"

text \<open>Where a packet that no pending unit owns may open one, and since when that place is a known hole.\<close>

definition admit_at :: "u32 \<Rightarrow> int \<Rightarrow> u64 \<Rightarrow> assembler \<Rightarrow> (nat \<times> u64 option) option" where
  "admit_at ts seq now a =
     (let at_end = Some (length (as_pending a), None) in
      case as_newest_timestamp a of
        None \<Rightarrow> at_end
      | Some newest \<Rightarrow>
          if ts = newest then (case as_prev_end a of None \<Rightarrow> None | Some e \<Rightarrow> if seq \<le> e then None else at_end)
          else if newer_rtp_ts ts newest then at_end
          else
            case as_prev_end a of
              None \<Rightarrow> None
            | Some e \<Rightarrow>
                case position (\<lambda>au. newer_rtp_ts (au_timestamp au) ts) (as_pending a) of
                  None \<Rightarrow> None
                | Some next_at \<Rightarrow>
                    let right = as_pending a ! next_at in
                    if seq \<le> e \<or>
                       (case first_part right of None \<Rightarrow> True | Some (first, _) \<Rightarrow> first \<le> seq) \<or>
                       (0 < next_at \<and>
                        (let left = as_pending a ! (next_at - 1) in
                         ts \<noteq> au_timestamp left \<and> \<not> newer_rtp_ts ts (au_timestamp left) \<or>
                         (case last_part left of None \<Rightarrow> False | Some (last_key, _) \<Rightarrow> seq \<le> last_key)))
                    then None
                    else Some (next_at, case au_blocked_since right of None \<Rightarrow> Some now | Some t \<Rightarrow> Some t))"

definition insert_at :: "nat \<Rightarrow> 'a \<Rightarrow> 'a list \<Rightarrow> 'a list" where
  "insert_at n x xs = take n xs @ x # drop n xs"

definition open_unit :: "u32 \<Rightarrow> nat \<Rightarrow> u64 option \<Rightarrow> assembler \<Rightarrow> assembler" where
  "open_unit ts n blocked a =
     a\<lparr>as_newest_timestamp :=
         (case as_newest_timestamp a of
            None \<Rightarrow> Some ts
          | Some newest \<Rightarrow> if newer_rtp_ts ts newest then Some ts else Some newest),
       as_pending := insert_at n \<lparr>au_timestamp = ts, au_parts = fmempty, au_marker_seq = None, au_blocked_since = blocked,
         au_overflowed = False\<rparr> (as_pending a)\<rparr>"

definition add_part :: "int \<Rightarrow> bytes \<Rightarrow> pending_au \<Rightarrow> pending_au" where
  "add_part seq payload au =
     (if fmlookup (au_parts au) seq \<noteq> None then au
      else if MAX_AU_PARTS \<le> parts_len au then au\<lparr>au_overflowed := True\<rparr>
      else au\<lparr>au_parts := fmupd seq payload (au_parts au)\<rparr>)"

text \<open>A marker cuts off what was already seen of the next sample of the same timestamp.\<close>

definition mark_end :: "int \<Rightarrow> pending_au \<Rightarrow> pending_au list" where
  "mark_end seq au =
     (let tail = fmfilter (\<lambda>k. seq < k) (au_parts au);
          au1 = au\<lparr>au_marker_seq := Some seq, au_parts := fmfilter (\<lambda>k. k \<le> seq) (au_parts au)\<rparr>
      in if tail = fmempty then [au1]
         else [au1, \<lparr>au_timestamp = au_timestamp au, au_parts = tail,
                     au_marker_seq = (case au_marker_seq au of None \<Rightarrow> None | Some e \<Rightarrow> if seq < e then Some e else None),
                     au_blocked_since = au_blocked_since au, au_overflowed = False\<rparr>])"

definition store :: "rtp_packet \<Rightarrow> int \<Rightarrow> nat \<Rightarrow> assembler \<Rightarrow> assembler" where
  "store pkt seq pos a =
     (let au = add_part seq (rp_payload pkt) (as_pending a ! pos)
      in a\<lparr>as_pending := take pos (as_pending a) @ (if rp_marker pkt then mark_end seq au else [au]) @ drop (Suc pos) (as_pending a)\<rparr>)"

text \<open>\<open>push_at\<close> up to the collector, which every path of it ends in: padding and stale packets only let time pass.\<close>

definition take_in :: "rtp_packet \<Rightarrow> u64 \<Rightarrow> assembler \<Rightarrow> assembler" where
  "take_in pkt now a =
     (if rp_payload pkt = [] then a
      else
        let (seq, a1) = unwrap_seq (rp_sequence_number pkt) a; ts = rp_timestamp pkt in
        case pending_position ts seq a1 of
          Some pos \<Rightarrow> store pkt seq pos a1
        | None \<Rightarrow>
            case admit_at ts seq now a1 of
              None \<Rightarrow> a1
            | Some (n, blocked) \<Rightarrow> store pkt seq n (open_unit ts n blocked a1))"

definition push_at :: "'s depacketizer \<Rightarrow> rtp_packet \<Rightarrow> u64 \<Rightarrow> assembler \<Rightarrow> assembly_event list \<times> assembler" where
  "push_at dp pkt now a = collect_ready dp now (take_in pkt now a)"

text \<open>What the pump stamps on each event: the lane, and a count that skips zero when it wraps.\<close>

definition next_sequence :: "u64 \<Rightarrow> u64" where
  "next_sequence s = (if s + 1 = 0 then 1 else s + 1)"

fun stamp_events :: "u8 \<Rightarrow> u64 \<Rightarrow> assembly_event list \<Rightarrow> (u64 \<times> assembly_event) list \<times> u64" where
  "stamp_events lane s [] = ([], s)"
| "stamp_events lane s (ev # evs) =
     (let s1 = next_sequence s;
          ev1 = (case ev of Sample v \<Rightarrow> Sample (v\<lparr>vs_lane := lane, vs_sequence := s1\<rparr>) | _ \<Rightarrow> ev);
          (out, s2) = stamp_events lane s1 evs
      in ((s1, ev1) # out, s2))"

section \<open>One pass of the collector\<close>

lemma arm_clock_parts [simp]:
  "au_timestamp (arm_clock now au) = au_timestamp au" "au_parts (arm_clock now au) = au_parts au"
  "au_marker_seq (arm_clock now au) = au_marker_seq au" "au_overflowed (arm_clock now au) = au_overflowed au"
  "parts_len (arm_clock now au) = parts_len au"
  by (simp_all add: arm_clock_def parts_len_def split: option.split)

text \<open>The collector by its five outcomes: nothing pending, a unit out, a hole to wait for, a unit still arriving, a unit given up.\<close>

lemma collect_induct [case_names empty sample wait arriving abandon]:
  assumes "\<And>a. as_pending a = [] \<Longrightarrow> P a [] a"
    and "\<And>a au rest s e events a'. as_pending a = au # rest \<Longrightarrow> depacketize_if_complete dp (as_prev_end a) au = Inr (Some (s, e)) \<Longrightarrow>
       P (a\<lparr>as_pending := rest, as_prev_end := Some e, as_gap_open := False\<rparr>) events a' \<Longrightarrow> P a (Sample s # events) a'"
    and "\<And>a au rest. as_pending a = au # rest \<Longrightarrow> au_marker_seq au \<noteq> None \<or> rest \<noteq> [] \<Longrightarrow> limit_reason (au # rest) = None \<Longrightarrow>
       still_waiting now (arm_clock now au) \<Longrightarrow> P a [] (a\<lparr>as_pending := arm_clock now au # rest\<rparr>)"
    and "\<And>a au. as_pending a = [au] \<Longrightarrow> au_marker_seq au = None \<Longrightarrow> limit_reason [au] = None \<Longrightarrow> P a [] a"
    and "\<And>a au rest d events a'. as_pending a = au # rest \<Longrightarrow>
       P (a\<lparr>as_pending := rest, as_prev_end := au_marker_seq au, as_gap_open := True\<rparr>) events a' \<Longrightarrow>
       P a (if as_gap_open a then events else Discontinuity (au_timestamp au) d # events) a'"
  shows "P a (fst (collect_loop dp now a)) (snd (collect_loop dp now a))"
proof (induction "length (as_pending a)" arbitrary: a rule: less_induct)
  case less
  show ?case
  proof (cases "as_pending a")
    case Nil
    then show ?thesis using assms(1) by (simp add: collect_loop.simps)
  next
    case (Cons au rest)
    obtain reason complete where t: "try_front dp (as_prev_end a) (au # rest) = (reason, complete)" by (metis prod.exhaust)
    note unfold = collect_loop.simps [of dp now a, simplified Cons t list.case prod.case Let_def]
    show ?thesis
    proof (cases complete)
      case (Some se)
      obtain s e where se: "se = (s, e)" by (cases se)
      with t Some have "depacketize_if_complete dp (as_prev_end a) au = Inr (Some (s, e))"
        by (auto simp: try_front_def split: if_splits sum.splits)
      with less Cons Some se show ?thesis by (simp add: unfold assms(2))
    next
      case None
      let ?hole = "au_marker_seq au \<noteq> None \<or> rest \<noteq> []"
      have l: "reason = None \<Longrightarrow> limit_reason (au # rest) = None" using t by (auto simp: try_front_def split: if_splits sum.splits)
      show ?thesis
      proof (cases "reason = None \<and> (?hole \<longrightarrow> still_waiting now (arm_clock now au))")
        case True
        then show ?thesis using l None Cons assms(3) [of a au rest] assms(4) [of a au] by (auto simp: unfold)
      next
        case False
        let ?front = "if ?hole then arm_clock now au else au"
        let ?d = "abandon_event now reason (?front # rest)"
        let ?a1 = "a\<lparr>as_pending := rest, as_prev_end := au_marker_seq au, as_gap_open := True\<rparr>"
        from False None have "collect_loop dp now a = apfst (\<lambda>events. if as_gap_open a then events else ?d # events)
            (collect_loop dp now ?a1)"
          by (auto simp: unfold)
        moreover obtain d where "?d = Discontinuity (au_timestamp au) d" by (simp add: abandon_event_def)
        moreover have "P ?a1 (fst (collect_loop dp now ?a1)) (snd (collect_loop dp now ?a1))" using less Cons by simp
        then have "P a (if as_gap_open a then fst (collect_loop dp now ?a1) else Discontinuity (au_timestamp au) d # fst (collect_loop dp now ?a1))
            (snd (collect_loop dp now ?a1))" for d by (rule assms(5) [OF Cons])
        ultimately show ?thesis by (cases "as_gap_open a") simp_all
      qed
    qed
  qed
qed

text \<open>A run of the assembler over packets with their arrival times.\<close>

fun assemble :: "'s depacketizer \<Rightarrow> (rtp_packet \<times> u64) list \<Rightarrow> assembler \<Rightarrow> assembly_event list \<times> assembler" where
  "assemble dp [] a = ([], a)"
| "assemble dp ((pkt, now) # ps) a =
     (let (events, a1) = push_at dp pkt now a in apfst ((@) events) (assemble dp ps a1))"

lemma assemble_append:
  "assemble dp (ps @ qs) a = (let (e1, a1) = assemble dp ps a in apfst ((@) e1) (assemble dp qs a1))"
  by (induction dp ps a rule: assemble.induct) (simp_all add: Let_def case_prod_beta apfst_def map_prod_def prod_eq_iff)

lemma take_in_gap [simp]: "as_gap_open (take_in pkt now a) = as_gap_open a"
proof -
  have "as_gap_open (snd (unwrap_seq raw a)) = as_gap_open a" for raw
    by (simp add: unwrap_seq_def Let_def case_prod_beta split: option.split)
  then show ?thesis by (simp add: take_in_def store_def open_unit_def Let_def case_prod_beta split: option.split)
qed

lemma take_in_prev_end: "as_prev_end (take_in pkt now a) = as_prev_end a"
proof -
  have "as_prev_end (snd (unwrap_seq raw a)) = as_prev_end a" for raw
    by (simp add: unwrap_seq_def Let_def case_prod_beta split: option.split)
  then show ?thesis by (simp add: take_in_def store_def open_unit_def Let_def case_prod_beta split: option.split)
qed

section \<open>Bounds\<close>

text \<open>
  What is held back: so many packets, of so many pictures, the front unit within its packet limit and, once a
  hole in it shows, within its grace.
\<close>

definition held_back :: "u64 \<Rightarrow> pending_au list \<Rightarrow> bool" where
  "held_back now aus \<longleftrightarrow> total_parts aus \<le> MAX_PENDING_PARTS \<and> pending_frames aus \<le> MAX_PENDING_FRAMES \<and>
     (\<forall>au rest. aus = au # rest \<longrightarrow> \<not> au_overflowed au \<and>
        (au_marker_seq au \<noteq> None \<or> rest \<noteq> [] \<longrightarrow>
           (\<exists>t. au_blocked_since au = Some t \<and> duration_since now t < RETRANSMIT_GRACE_MS)))"

lemma limit_reason_None:
  "limit_reason (au # rest) = None \<longleftrightarrow>
     \<not> au_overflowed au \<and> total_parts (au # rest) \<le> MAX_PENDING_PARTS \<and> pending_frames (au # rest) \<le> MAX_PENDING_FRAMES"
  by (auto simp: limit_reason_def)

lemma collect_held_back: "held_back now (as_pending (snd (collect_loop dp now a)))"
proof (rule collect_induct [where P = "\<lambda>_ _ a'. held_back now (as_pending a')"])
  have armed: "\<exists>t. au_blocked_since (arm_clock now au) = Some t" for au by (simp add: arm_clock_def split: option.split)
  show "held_back now (as_pending a)" if "as_pending a = []" for a :: assembler
    using that by (simp add: held_back_def total_parts_def pending_frames_def)
  show "held_back now (as_pending (a\<lparr>as_pending := arm_clock now au # rest\<rparr>))"
    if "limit_reason (au # rest) = None" "still_waiting now (arm_clock now au)" for a au rest
    using that armed [of au] by (auto simp: held_back_def limit_reason_None total_parts_def pending_frames_def still_waiting_def)
  show "held_back now (as_pending a)" if "as_pending a = [au]" "au_marker_seq au = None" "limit_reason [au] = None" for a au
    using that by (auto simp: held_back_def limit_reason_None)
qed simp_all

text \<open>
  The receive buffer is bounded in space and time. After every packet, whatever arrives and however late, at most 4096 packets of
  at most fifteen pictures are held, the unit at the front is below its own packet limit, and if a hole in it shows it has
  been waiting less than the retransmission grace.
\<close>

theorem video_buffer_bounded: "held_back now (as_pending (snd (push_at dp pkt now a)))"
  by (simp add: push_at_def collect_ready_def collect_held_back)

section \<open>Discontinuities\<close>

text \<open>Whether a gap is open after the events, unless one is reported twice.\<close>

fun fence :: "bool \<Rightarrow> assembly_event list \<Rightarrow> bool option" where
  "fence g [] = Some g"
| "fence g (Sample s # evs) = fence False evs"
| "fence g (Discontinuity ts d # evs) = (if g then None else fence True evs)"

lemma fence_append: "fence g (xs @ ys) = Option.bind (fence g xs) (\<lambda>g1. fence g1 ys)"
  by (induction g xs rule: fence.induct) simp_all

lemma collect_fence: "fence (as_gap_open a) (fst (collect_loop dp now a)) = Some (as_gap_open (snd (collect_loop dp now a)))"
  by (rule collect_induct [where P = "\<lambda>a evs a'. fence (as_gap_open a) evs = Some (as_gap_open a')"]) simp_all

lemma push_fence: "fence (as_gap_open a) (fst (push_at dp pkt now a)) = Some (as_gap_open (snd (push_at dp pkt now a)))"
  using collect_fence [of "take_in pkt now a\<lparr>as_pending := start_clocks now (as_pending (take_in pkt now a))\<rparr>" dp now]
  by (simp add: push_at_def collect_ready_def)

lemma assemble_fence: "fence (as_gap_open a) (fst (assemble dp ps a)) = Some (as_gap_open (snd (assemble dp ps a)))"
proof (induction ps arbitrary: a)
  case (Cons x ps)
  then show ?case by (cases x) (simp add: fence_append push_fence Let_def case_prod_beta)
qed simp

section \<open>Whole units\<close>

text \<open>What has arrived: the unwrapped sequence number, timestamp, marker and payload of each packet that is not padding.\<close>

type_synonym arrival = "int \<times> u32 \<times> bool \<times> bytes"

definition arrival_of :: "rtp_packet \<Rightarrow> assembler \<Rightarrow> arrival set" where
  "arrival_of pkt a =
     (if rp_payload pkt = [] then {}
      else {(fst (unwrap_seq (rp_sequence_number pkt) a), rp_timestamp pkt, rp_marker pkt, rp_payload pkt)})"

fun arrivals :: "'s depacketizer \<Rightarrow> (rtp_packet \<times> u64) list \<Rightarrow> assembler \<Rightarrow> arrival set" where
  "arrivals dp [] a = {}"
| "arrivals dp ((pkt, now) # ps) a = arrival_of pkt a \<union> arrivals dp ps (snd (push_at dp pkt now a))"

definition sourced :: "arrival set \<Rightarrow> pending_au \<Rightarrow> bool" where
  "sourced R au \<longleftrightarrow> (\<forall>k v. fmlookup (au_parts au) k = Some v \<longrightarrow> (\<exists>m. (k, au_timestamp au, m, v) \<in> R)) \<and>
     (\<forall>j. au_marker_seq au = Some j \<longrightarrow> (\<exists>v. (j, au_timestamp au, True, v) \<in> R))"

text \<open>The sample \<open>s\<close> is the packets \<open>i\<close> to \<open>j\<close> of what has arrived, none missing, the last one marked as the end of a unit.\<close>

definition whole :: "'s depacketizer \<Rightarrow> arrival set \<Rightarrow> int \<Rightarrow> int \<Rightarrow> video_sample \<Rightarrow> bool" where
  "whole dp R i j s \<longleftrightarrow> (\<exists>f. i \<le> j \<and> (\<forall>k \<in> {i..j}. \<exists>m. (k, vs_rtp_timestamp s, m, f k) \<in> R) \<and>
     (\<exists>v. (j, vs_rtp_timestamp s, True, v) \<in> R) \<and>
     depacketize_all dp (dp_fresh dp) (map f [i..j]) [] = Some (vs_data s) \<and> vs_data s \<noteq> [] \<and> vs_key s = au_has_idr (vs_data s))"

text \<open>
  A stream without silent holes: each sample is whole, and unless a discontinuity stands before it, it begins where the sample before it
  ended. The two options are the last packet of the latest sample before and after the events, if no report has come since.
\<close>

inductive hole_free :: "'s depacketizer \<Rightarrow> arrival set \<Rightarrow> int option \<Rightarrow> assembly_event list \<Rightarrow> int option \<Rightarrow> bool" for dp R where
  hole_free_Nil: "hole_free dp R p [] p"
| hole_free_report: "hole_free dp R None evs q \<Longrightarrow> hole_free dp R p (Discontinuity ts d # evs) q"
| hole_free_sample: "whole dp R i j s \<Longrightarrow> p = None \<or> p = Some (i - 1) \<Longrightarrow> hole_free dp R (Some j) evs q \<Longrightarrow> hole_free dp R p (Sample s # evs) q"

lemma sourced_mono: "sourced R au \<Longrightarrow> R \<subseteq> R' \<Longrightarrow> sourced R' au"
  unfolding sourced_def by blast

lemma whole_mono: "whole dp R i j s \<Longrightarrow> R \<subseteq> R' \<Longrightarrow> whole dp R' i j s"
  unfolding whole_def by blast

lemma hole_free_mono: "hole_free dp R p evs q \<Longrightarrow> R \<subseteq> R' \<Longrightarrow> hole_free dp R' p evs q"
  by (induction rule: hole_free.induct) (auto intro: hole_free.intros whole_mono)

lemma hole_free_append: "hole_free dp R p xs q \<Longrightarrow> hole_free dp R q ys r \<Longrightarrow> hole_free dp R p (xs @ ys) r"
  by (induction rule: hole_free.induct) (auto intro: hole_free.intros)

text \<open>As many keys in a range as the range has are all of them, in order.\<close>

lemma full_range:
  assumes "length (filter (\<lambda>(k, _). i \<le> k \<and> k \<le> j) (sorted_list_of_fmap m)) \<ge> nat (j - i + 1)" "i \<le> (j :: int)"
  shows "filter (\<lambda>(k, _). i \<le> k \<and> k \<le> j) (sorted_list_of_fmap m) = map (\<lambda>k. (k, the (fmlookup m k))) [i..j]"
    and "\<And>k. k \<in> {i..j} \<Longrightarrow> fmlookup m k \<noteq> None"
proof -
  let ?kvs = "filter (\<lambda>(k, _). i \<le> k \<and> k \<le> j) (sorted_list_of_fmap m)"
  let ?ks = "map fst ?kvs"
  have ks: "?ks = filter (\<lambda>k. i \<le> k \<and> k \<le> j) (map fst (sorted_list_of_fmap m))" by (simp add: filter_map comp_def case_prod_unfold)
  then have sd: "sorted ?ks" "distinct ?ks" by (simp_all add: keys_sorted_list_of_fmap sorted_list_of_fset.rep_eq sorted_wrt_filter del: map_map)
  have sub: "set ?ks \<subseteq> {i..j}" by auto
  have "card (set ?ks) = length ?ks" using sd(2) by (rule distinct_card)
  moreover have "card {i..j} = nat (j - i + 1)" by simp
  ultimately have "card {i..j} \<le> card (set ?ks)" using assms by simp
  with sub have "set ?ks = {i..j}" by (intro card_seteq) simp_all
  then have all: "?ks = [i..j]" using sd by (intro sorted_distinct_set_unique) simp_all
  have v: "snd kv = the (fmlookup m (fst kv)) \<and> fmlookup m (fst kv) \<noteq> None" if "kv \<in> set ?kvs" for kv
    using that by (cases kv rule: prod.exhaust) auto
  have "map (\<lambda>k. (k, the (fmlookup m k))) ?ks = ?kvs" unfolding map_map
    by (rule map_idI) (simp only: comp_def prod_eq_iff fst_conv snd_conv v)
  with all show "?kvs = map (\<lambda>k. (k, the (fmlookup m k))) [i..j]" by simp
  show "fmlookup m k \<noteq> None" if "k \<in> {i..j}" for k
  proof -
    have "k \<in> fst ` set ?kvs" unfolding set_map [symmetric] \<open>set ?ks = {i..j}\<close> by (rule that)
    then obtain kv where "kv \<in> set ?kvs" "fst kv = k" by blast
    with v [of kv] show ?thesis by simp
  qed
qed

lemma complete_whole:
  assumes "sourced R au" "depacketize_if_complete dp prev au = Inr (Some (s, e))"
  shows "\<exists>i. whole dp R i e s \<and> (prev = None \<or> prev = Some (i - 1))"
proof -
  from assms(2) obtain i data where m: "au_marker_seq au = Some e" and prev: "prev = None \<or> (\<exists>p. prev = Some p \<and> i = p + 1)" and "i \<le> e" and n: "nat (e - i + 1) \<le> length (parts_range i e au)"
    and d: "depacketize_all dp (dp_fresh dp) (parts_range i e au) [] = Some data" "data \<noteq> []"
    and s: "s = \<lparr>vs_rtp_timestamp = au_timestamp au, vs_key = au_has_idr data, vs_lane = 0, vs_sequence = 0, vs_data = data\<rparr>"
    by (auto simp: depacketize_if_complete_def Let_def not_less split: option.splits if_splits)
  note r = full_range [of e i "au_parts au"]
  let ?f = "\<lambda>k. the (fmlookup (au_parts au) k)"
  have p: "parts_range i e au = map ?f [i..e]" using r(1) n \<open>i \<le> e\<close> by (simp add: parts_range_def)
  have "\<exists>t. (k, au_timestamp au, t, ?f k) \<in> R" if "k \<in> {i..e}" for k
  proof -
    from r(2) that n \<open>i \<le> e\<close> obtain v where "fmlookup (au_parts au) k = Some v" by (auto simp: parts_range_def)
    with assms(1) show ?thesis by (auto simp: sourced_def)
  qed
  moreover have "\<exists>v. (e, au_timestamp au, True, v) \<in> R" using assms(1) m by (simp add: sourced_def)
  ultimately have "whole dp R i e s" unfolding whole_def using \<open>i \<le> e\<close> d p by (intro exI [of _ ?f]) (simp add: s)
  moreover have "prev = None \<or> prev = Some (i - 1)" using prev by auto
  ultimately show ?thesis by blast
qed

lemma position_from_owner:
  assumes "position_from ts seq lower n aus = Some p"
  shows "n \<le> p \<and> p - n < length aus \<and> au_timestamp (aus ! (p - n)) = ts"
  using assms
proof (induction ts seq lower n aus rule: position_from.induct)
  case (2 ts seq lower n au aus)
  show ?case
  proof (cases "p = n")
    case True
    with "2.prems" "2.IH" show ?thesis by (auto split: if_splits)
  next
    case False
    with 2 have "Suc n \<le> p \<and> p - Suc n < length aus \<and> au_timestamp (aus ! (p - Suc n)) = ts" by (auto split: if_splits)
    then show ?thesis by (cases "p - n") (auto simp: Suc_diff_le dest: Suc_diff_le)
  qed
qed simp

lemma position_bound: "position p xs = Some n \<Longrightarrow> n < length xs"
  by (induction xs arbitrary: n) (auto split: if_splits)

lemma admit_bound: "admit_at ts seq now a = Some (n, blocked) \<Longrightarrow> n \<le> length (as_pending a)"
  by (auto simp: admit_at_def Let_def split: option.splits if_splits dest!: position_bound)

lemma add_part_parts [simp]:
  "au_timestamp (add_part seq payload au) = au_timestamp au" "au_marker_seq (add_part seq payload au) = au_marker_seq au"
  by (simp_all add: add_part_def)

lemma sourced_add_part:
  assumes "sourced R au" "(seq, au_timestamp au, m, payload) \<in> R"
  shows "sourced R (add_part seq payload au)"
  using assms by (auto simp: sourced_def add_part_def)

lemma sourced_mark_end:
  assumes "sourced R au" "(seq, au_timestamp au, True, payload) \<in> R" "x \<in> set (mark_end seq au)"
  shows "sourced R x"
proof -
  have "sourced R \<lparr>au_timestamp = au_timestamp au, au_parts = fmfilter P (au_parts au),
     au_marker_seq = mk, au_blocked_since = b, au_overflowed = ov\<rparr>" if "mk \<in> {None, au_marker_seq au, Some seq}" for P mk b ov
    using that assms(1,2) by (auto simp: sourced_def)
  moreover have "sourced R (au\<lparr>au_marker_seq := Some seq, au_parts := fmfilter P (au_parts au)\<rparr>)" for P
    using assms(1,2) by (auto simp: sourced_def)
  ultimately show ?thesis using assms(3) by (auto simp: mark_end_def Let_def split: if_splits option.splits)
qed

lemma store_sourced:
  assumes "\<forall>au \<in> set (as_pending a). sourced R au" "pos < length (as_pending a)" "au_timestamp (as_pending a ! pos) = rp_timestamp pkt"
    and "(seq, rp_timestamp pkt, rp_marker pkt, rp_payload pkt) \<in> R"
  shows "\<forall>au \<in> set (as_pending (store pkt seq pos a)). sourced R au"
proof -
  let ?au = "add_part seq (rp_payload pkt) (as_pending a ! pos)"
  let ?new = "if rp_marker pkt then mark_end seq ?au else [?au]"
  have "sourced R (as_pending a ! pos)" using assms(1,2) nth_mem by blast
  then have au: "sourced R ?au" using assms(3,4) sourced_add_part [of R _ seq "rp_marker pkt"] by simp
  then have "\<forall>x \<in> set ?new. sourced R x"
    using sourced_mark_end [OF au, of seq "rp_payload pkt"] assms(3,4) by (cases "rp_marker pkt") auto
  moreover have "set (as_pending (store pkt seq pos a)) \<subseteq> set ?new \<union> set (as_pending a)"
    using set_take_subset [of pos "as_pending a"] set_drop_subset [of "Suc pos" "as_pending a"] by (auto simp: store_def Let_def)
  ultimately show ?thesis using assms(1) by blast
qed

lemma take_in_sourced:
  assumes "\<forall>au \<in> set (as_pending a). sourced R au"
  shows "\<forall>au \<in> set (as_pending (take_in pkt now a)). sourced (R \<union> arrival_of pkt a) au"
proof (cases "rp_payload pkt = []")
  case True
  with assms show ?thesis by (simp add: take_in_def arrival_of_def)
next
  case False
  define R' where "R' = R \<union> arrival_of pkt a"
  obtain seq a1 where u: "unwrap_seq (rp_sequence_number pkt) a = (seq, a1)" by (metis prod.exhaust)
  then have p: "as_pending a1 = as_pending a" by (auto simp: unwrap_seq_def Let_def split: option.splits prod.splits)
  have r: "(seq, rp_timestamp pkt, rp_marker pkt, rp_payload pkt) \<in> R'" using u False by (simp add: R'_def arrival_of_def)
  have a1: "\<forall>au \<in> set (as_pending a1). sourced R' au" using assms p by (auto simp: R'_def intro: sourced_mono)
  have "\<forall>au \<in> set (as_pending (take_in pkt now a)). sourced R' au"
  proof (cases "pending_position (rp_timestamp pkt) seq a1")
    case (Some pos)
    then have "pos < length (as_pending a1)" "au_timestamp (as_pending a1 ! pos) = rp_timestamp pkt"
      using position_from_owner [of "rp_timestamp pkt" seq "as_prev_end a1" 0 "as_pending a1" pos] by (auto simp: pending_position_def)
    from store_sourced [OF a1 this r] show ?thesis using False u Some by (simp add: take_in_def)
  next
    case None
    show ?thesis
    proof (cases "admit_at (rp_timestamp pkt) seq now a1")
      case None
      with \<open>pending_position (rp_timestamp pkt) seq a1 = None\<close> show ?thesis using a1 u False by (simp add: take_in_def)
    next
      case (Some nb)
      obtain n blocked where nb: "nb = (n, blocked)" by (cases nb)
      let ?a2 = "open_unit (rp_timestamp pkt) n blocked a1"
      have n: "n \<le> length (as_pending a1)" using admit_bound Some nb by blast
      then have "n < length (as_pending ?a2)" "au_timestamp (as_pending ?a2 ! n) = rp_timestamp pkt"
        by (simp_all add: open_unit_def insert_at_def nth_append)
      moreover have "\<forall>au \<in> set (as_pending ?a2). sourced R' au"
      proof
        fix au
        assume "au \<in> set (as_pending ?a2)"
        then consider "au_parts au = fmempty" "au_marker_seq au = None" | "au \<in> set (as_pending a1)"
          by (auto simp: open_unit_def insert_at_def dest: in_set_takeD in_set_dropD)
        then show "sourced R' au" using a1 by cases (simp_all add: sourced_def)
      qed
      ultimately show ?thesis using store_sourced [of ?a2 R' n pkt seq] r u False Some nb
          \<open>pending_position (rp_timestamp pkt) seq a1 = None\<close> by (simp add: take_in_def)
    qed
  qed
  then show ?thesis by (simp only: R'_def)
qed

lemma sourced_arm [simp]: "sourced R (arm_clock now au) = sourced R au"
  by (simp add: sourced_def)

lemma start_clocks_sourced: "\<forall>au \<in> set aus. sourced R au \<Longrightarrow> \<forall>au \<in> set (start_clocks now aus). sourced R au"
  by (induction now aus rule: start_clocks.induct) auto

text \<open>What has been handed over ends where the assembler takes the next unit up, unless a gap is open.\<close>

definition resumes :: "int option \<Rightarrow> assembler \<Rightarrow> bool" where
  "resumes p a \<longleftrightarrow> p = None \<or> p = as_prev_end a \<and> \<not> as_gap_open a"

lemma collect_hole_free:
  assumes "\<forall>au \<in> set (as_pending a). sourced R au" "resumes p a"
  shows "(\<exists>q. hole_free dp R p (fst (collect_loop dp now a)) q \<and> resumes q (snd (collect_loop dp now a))) \<and>
     (\<forall>au \<in> set (as_pending (snd (collect_loop dp now a))). sourced R au)"
proof -
  let ?P = "\<lambda>a evs a'. \<forall>p. (\<forall>au \<in> set (as_pending a). sourced R au) \<longrightarrow> resumes p a \<longrightarrow>
      (\<exists>q. hole_free dp R p evs q \<and> resumes q a') \<and> (\<forall>au \<in> set (as_pending a'). sourced R au)"
  have "?P a (fst (collect_loop dp now a)) (snd (collect_loop dp now a))"
  proof (rule collect_induct [where P = ?P])
    show "?P a (Sample s # events) a'"
      if "as_pending a = au # rest" "depacketize_if_complete dp (as_prev_end a) au = Inr (Some (s, e))"
        "?P (a\<lparr>as_pending := rest, as_prev_end := Some e, as_gap_open := False\<rparr>) events a'" for a au rest s e events a'
    proof (intro allI impI)
      fix p assume src: "\<forall>au \<in> set (as_pending a). sourced R au" and p: "resumes p a"
      from complete_whole [OF _ that(2), of R] src that(1) obtain i where i: "whole dp R i e s" "as_prev_end a = None \<or> as_prev_end a = Some (i - 1)"
        by auto
      from that(1,3) src have "(\<exists>q. hole_free dp R (Some e) events q \<and> resumes q a') \<and> (\<forall>au \<in> set (as_pending a'). sourced R au)"
        by (auto simp: resumes_def)
      moreover have "p = None \<or> p = Some (i - 1)" using p i(2) by (auto simp: resumes_def)
      ultimately show "(\<exists>q. hole_free dp R p (Sample s # events) q \<and> resumes q a') \<and> (\<forall>au \<in> set (as_pending a'). sourced R au)"
        using hole_free_sample [OF i(1)] by blast
    qed
    show "?P a (if as_gap_open a then events else Discontinuity (au_timestamp au) d # events) a'"
      if "as_pending a = au # rest" "?P (a\<lparr>as_pending := rest, as_prev_end := au_marker_seq au, as_gap_open := True\<rparr>) events a'" for a au rest d events a'
    proof (intro allI impI)
      fix p assume src: "\<forall>au \<in> set (as_pending a). sourced R au" and p: "resumes p a"
      from that src have "(\<exists>q. hole_free dp R None events q \<and> resumes q a') \<and> (\<forall>au \<in> set (as_pending a'). sourced R au)"
        by (auto simp: resumes_def)
      then show "(\<exists>q. hole_free dp R p (if as_gap_open a then events else Discontinuity (au_timestamp au) d # events) q \<and> resumes q a') \<and>
          (\<forall>au \<in> set (as_pending a'). sourced R au)" using p by (auto simp: resumes_def intro: hole_free_report)
    qed
  qed (auto simp: resumes_def intro: hole_free_Nil)
  with assms show ?thesis by blast
qed

lemma push_hole_free:
  assumes "\<forall>au \<in> set (as_pending a). sourced R au" "resumes p a"
  shows "(\<exists>q. hole_free dp (R \<union> arrival_of pkt a) p (fst (push_at dp pkt now a)) q \<and> resumes q (snd (push_at dp pkt now a))) \<and>
     (\<forall>au \<in> set (as_pending (snd (push_at dp pkt now a))). sourced (R \<union> arrival_of pkt a) au)"
  unfolding push_at_def collect_ready_def
  by (rule collect_hole_free) (use assms(2) in \<open>simp_all add: start_clocks_sourced [OF take_in_sourced [OF assms(1)]] resumes_def take_in_prev_end\<close>)

lemma assemble_hole_free:
  assumes "\<forall>au \<in> set (as_pending a). sourced R au" "resumes p a"
  shows "\<exists>q. hole_free dp (R \<union> arrivals dp ps a) p (fst (assemble dp ps a)) q"
  using assms
proof (induction ps arbitrary: a R p)
  case (Cons x ps)
  obtain pkt now where x: "x = (pkt, now)" by (cases x)
  let ?R = "R \<union> arrival_of pkt a" and ?a1 = "snd (push_at dp pkt now a)"
  from push_hole_free [OF Cons.prems, of dp pkt now] obtain q where q: "hole_free dp ?R p (fst (push_at dp pkt now a)) q" "resumes q ?a1"
    "\<forall>au \<in> set (as_pending ?a1). sourced ?R au" by blast
  from Cons.IH [OF q(3,2)] obtain r where "hole_free dp (?R \<union> arrivals dp ps ?a1) q (fst (assemble dp ps ?a1)) r" ..
  with hole_free_mono [OF q(1), of "?R \<union> arrivals dp ps ?a1"] have
    "hole_free dp (?R \<union> arrivals dp ps ?a1) p (fst (push_at dp pkt now a) @ fst (assemble dp ps ?a1)) r" by (intro hole_free_append) auto
  then show ?case by (auto simp: x Un_assoc Let_def case_prod_beta)
qed (auto intro: hole_free_Nil)

text \<open>
  C28: No torn picture reaches a decoder, and no loss between two pictures goes unreported. Whatever packets arrive, lost, repeated or
  reordered, every unit the assembler emits is the depacketized payloads of an unbroken run of sequence numbers, each of a packet that
  did arrive with the unit's own timestamp, the last of them marked as the end of a unit; it begins right after the last packet of
  the unit emitted before it, unless a discontinuity is reported between the two; and never are two discontinuities reported without a
  unit between them. (What is lost before the first unit of a stream needs no report: no unit precedes it.)
\<close>

theorem video_units_whole:
  "(\<exists>q. hole_free dp (arrivals dp ps new_assembler) None (fst (assemble dp ps new_assembler)) q) \<and>
   fence False (fst (assemble dp ps new_assembler)) \<noteq> None"
proof
  show "\<exists>q. hole_free dp (arrivals dp ps new_assembler) None (fst (assemble dp ps new_assembler)) q"
    using assemble_hole_free [of new_assembler "{}" None dp ps] by (simp add: new_assembler_def resumes_def)
  show "fence False (fst (assemble dp ps new_assembler)) \<noteq> None"
    using assemble_fence [of new_assembler dp ps] by (simp add: new_assembler_def)
qed

definition plain_depacketizer :: "unit depacketizer" where
  "plain_depacketizer = \<lparr>dp_fresh = (), dp_step = (\<lambda>_ p. Some (p, ()))\<rparr>"

definition sample_packets :: "(rtp_packet \<times> u64) list" where
  "sample_packets =
     [(\<lparr>rp_sequence_number = 65535, rp_timestamp = 7, rp_marker = False, rp_payload = ''Aab''\<rparr>, 10),
      (\<lparr>rp_sequence_number = 1, rp_timestamp = 7, rp_marker = True, rp_payload = ''e''\<rparr>, 11),
      (\<lparr>rp_sequence_number = 0, rp_timestamp = 7, rp_marker = False, rp_payload = ''cd''\<rparr>, 12)]"

text \<open>A packet lost between two units: the damaged unit is given up after the grace, reported, and the next whole one follows.\<close>

definition lossy_packets :: "(rtp_packet \<times> u64) list" where
  "lossy_packets =
     [(\<lparr>rp_sequence_number = 1, rp_timestamp = 7, rp_marker = True, rp_payload = ''Aab''\<rparr>, 10),
      (\<lparr>rp_sequence_number = 3, rp_timestamp = 8, rp_marker = True, rp_payload = ''Ac''\<rparr>, 20),
      (\<lparr>rp_sequence_number = 4, rp_timestamp = 9, rp_marker = True, rp_payload = ''Ad''\<rparr>, 300)]"

lemma lossy_assembled:
  "map (\<lambda>ev. case ev of Sample v \<Rightarrow> vs_data v | Discontinuity _ d \<Rightarrow> rd_reason d) (fst (assemble plain_depacketizer lossy_packets new_assembler)) =
     [''Aab'', ''retransmit_deadline'', ''Ad'']"
  by code_simp

lemma sample_assembled:
  "fst (assemble plain_depacketizer sample_packets new_assembler) =
     [Sample \<lparr>vs_rtp_timestamp = 7, vs_key = False, vs_lane = 0, vs_sequence = 0, vs_data = ''Aabcde''\<rparr>]"
  by code_simp

section \<open>Reordering\<close>

lemma unwrap_exact:
  assumes "as_last_seq a = Some (word_of_int u, u)" "\<bar>k - u\<bar> < 2 ^ 15"
  shows "unwrap_seq (word_of_int k) a = (k, a\<lparr>as_last_seq := Some (word_of_int (max u k), max u k)\<rparr>)"
proof -
  have "signed_take_bit 15 (k - u) = k - u" using assms(2) by (intro signed_take_bit_int_eq_self) auto
  then have "sint (word_of_int (k - u) :: 16 word) = k - u" unfolding sint_sbintrunc' by simp
  then have "sint (word_of_int k - word_of_int u :: 16 word) = k - u" unfolding of_int_diff .
  with assms(1) show ?thesis by (simp add: unwrap_seq_def Let_def max_def)
qed

lemma depacketize_arm [simp]: "depacketize_if_complete dp prev (arm_clock now au) = depacketize_if_complete dp prev au"
proof -
  have "parts_range i j (arm_clock now au) = parts_range i j au" "first_part (arm_clock now au) = first_part au" for i j
    by (simp_all add: parts_range_def first_part_def)
  then show ?thesis by (simp only: depacketize_if_complete_def arm_clock_parts)
qed

lemma collect_single:
  assumes "as_pending a = [au]" "\<not> au_overflowed au" "parts_len au \<le> MAX_AU_PARTS"
  shows "depacketize_if_complete dp (as_prev_end a) au = Inr None \<Longrightarrow>
       (au_marker_seq au \<noteq> None \<Longrightarrow> still_waiting now (arm_clock now au)) \<Longrightarrow>
       collect_ready dp now a = ([], a\<lparr>as_pending := start_clocks now [au]\<rparr>)"
    and "depacketize_if_complete dp (as_prev_end a) au = Inr (Some (s, e)) \<Longrightarrow>
       collect_ready dp now a = ([Sample s], a\<lparr>as_pending := [], as_prev_end := Some e, as_gap_open := False\<rparr>)"
proof -
  have l: "limit_reason [x] = None" if "\<not> au_overflowed x" "parts_len x \<le> MAX_AU_PARTS" for x
    using that by (simp add: limit_reason_None total_parts_def pending_frames_def MAX_AU_PARTS_def MAX_PENDING_PARTS_def MAX_PENDING_FRAMES_def)
  have stop: "collect_loop dp now b = ([], b)" if "as_pending b = []" for b using that by (simp add: collect_loop.simps)
  have arm: "arm_clock now (arm_clock now au) = arm_clock now au" by (simp add: arm_clock_def split: option.split)
  show "collect_ready dp now a = ([], a\<lparr>as_pending := start_clocks now [au]\<rparr>)"
    if "depacketize_if_complete dp (as_prev_end a) au = Inr None" "au_marker_seq au \<noteq> None \<Longrightarrow> still_waiting now (arm_clock now au)"
    using that assms l arm by (cases "au_marker_seq au = None") (simp_all add: collect_ready_def collect_loop.simps try_front_def)
  show "collect_ready dp now a = ([Sample s], a\<lparr>as_pending := [], as_prev_end := Some e, as_gap_open := False\<rparr>)"
    if "depacketize_if_complete dp (as_prev_end a) au = Inr (Some (s, e))"
    using that assms l stop collect_loop.simps [of dp now "a\<lparr>as_pending := start_clocks now [au]\<rparr>"]
    by (cases "au_marker_seq au = None") (simp_all add: collect_ready_def try_front_def)
qed

text \<open>The \<open>i\<close>-th packet of a unit that follows sequence number \<open>e\<close>, and what the assembler holds once the packets \<open>S\<close> of it have come.\<close>

definition unit_packet :: "int \<Rightarrow> u32 \<Rightarrow> bytes list \<Rightarrow> nat \<Rightarrow> rtp_packet" where
  "unit_packet e ts ps i =
     \<lparr>rp_sequence_number = word_of_int (e + 1 + int i), rp_timestamp = ts, rp_marker = (Suc i = length ps), rp_payload = ps ! i\<rparr>"

definition unit_so_far :: "int \<Rightarrow> u32 \<Rightarrow> bytes list \<Rightarrow> u64 set \<Rightarrow> nat set \<Rightarrow> pending_au \<Rightarrow> bool" where
  "unit_so_far e ts ps T S au \<longleftrightarrow> au_timestamp au = ts \<and> \<not> au_overflowed au \<and> (\<forall>t. au_blocked_since au = Some t \<longrightarrow> t \<in> T) \<and>
     au_marker_seq au = (if length ps - 1 \<in> S then Some (e + int (length ps)) else None) \<and>
     (\<forall>k. fmlookup (au_parts au) k = (if k - e - 1 \<in> int ` S then Some (ps ! nat (k - e - 1)) else None))"

definition arrived :: "int \<Rightarrow> u32 \<Rightarrow> bytes list \<Rightarrow> u64 set \<Rightarrow> nat set \<Rightarrow> assembler \<Rightarrow> bool" where
  "arrived e ts ps T S a \<longleftrightarrow> as_prev_end a = Some e \<and>
     (let u = Max (insert e ((\<lambda>i. e + 1 + int i) ` S)) in as_last_seq a = Some (word_of_int u, u)) \<and>
     (if S = {} then as_pending a = [] \<and> (case as_newest_timestamp a of None \<Rightarrow> True | Some n \<Rightarrow> newer_rtp_ts ts n)
      else as_newest_timestamp a = Some ts \<and> (\<exists>au. as_pending a = [au] \<and> unit_so_far e ts ps T S au))"

lemma unit_parts_len:
  assumes "unit_so_far e ts ps T S au" shows "parts_len au = card S"
proof -
  have "k - e - 1 \<in> int ` S \<longleftrightarrow> k \<in> (\<lambda>i. e + 1 + int i) ` S" for k
    unfolding image_iff by (intro bex_cong refl) arith
  moreover have "k |\<in>| fmdom (au_parts au) \<longleftrightarrow> k - e - 1 \<in> int ` S" for k
    using assms by (simp add: unit_so_far_def fmlookup_dom_iff)
  ultimately have "fset (fmdom (au_parts au)) = (\<lambda>i. e + 1 + int i) ` S" by blast
  then have "parts_len au = card ((\<lambda>i. e + 1 + int i) ` S)" by (simp add: parts_len_def fcard.rep_eq)
  then show ?thesis by (simp add: card_image inj_on_def)
qed

text \<open>A packet of the unit, new or repeated, put in its place.\<close>

lemma unit_add:
  assumes "unit_so_far e ts ps T S au" "S \<subseteq> {..<length ps}" "i < length ps" "length ps \<le> MAX_AU_PARTS"
  obtains au' where "unit_so_far e ts ps T (insert i S) au'"
    "(let au1 = add_part (e + 1 + int i) (ps ! i) au in if Suc i = length ps then mark_end (e + 1 + int i) au1 else [au1]) = [au']"
proof -
  let ?seq = "e + 1 + int i"
  have au: "au_timestamp au = ts" "\<not> au_overflowed au" "\<And>t. au_blocked_since au = Some t \<Longrightarrow> t \<in> T"
    "au_marker_seq au = (if length ps - 1 \<in> S then Some (e + int (length ps)) else None)"
    "\<And>k. fmlookup (au_parts au) k = (if k - e - 1 \<in> int ` S then Some (ps ! nat (k - e - 1)) else None)"
    using assms(1) by (auto simp: unit_so_far_def)
  define m where "m = (if i \<in> S then au_parts au else fmupd ?seq (ps ! i) (au_parts au))"
  have add: "add_part ?seq (ps ! i) au = au\<lparr>au_parts := m\<rparr>"
  proof (cases "i \<in> S")
    case False
    then have "card S < card {..<length ps}" using assms(2,3) by (intro psubset_card_mono) auto
    then have "\<not> MAX_AU_PARTS \<le> parts_len au" using assms(4) unit_parts_len [OF assms(1)] by simp
    moreover have "fmlookup (au_parts au) ?seq = None" using False by (auto simp: au(5))
    ultimately show ?thesis using False by (simp add: add_part_def m_def)
  qed (simp add: add_part_def m_def au(5))
  have look: "fmlookup m k = (if k - e - 1 \<in> int ` insert i S then Some (ps ! nat (k - e - 1)) else None)" for k
  proof (cases "k = ?seq")
    case False
    then have "k - e - 1 \<noteq> int i" by arith
    with False show ?thesis by (simp add: m_def au(5))
  qed (simp add: m_def au(5))
  show thesis
  proof (cases "Suc i = length ps")
    case True
    have none: "fmlookup m k = None" if "?seq < k" for k
    proof -
      have "k - e - 1 \<noteq> int l" if "l \<in> insert i S" for l using that \<open>?seq < k\<close> assms(2) True by auto
      then show ?thesis by (auto simp: look)
    qed
    have "fmfilter (\<lambda>k. ?seq < k) m = fmempty" by (rule fmap_ext) (simp add: none)
    moreover have "fmfilter (\<lambda>k. k \<le> ?seq) m = m" by (rule fmap_ext) (use none in \<open>auto simp: not_le\<close>)
    ultimately have "mark_end ?seq (add_part ?seq (ps ! i) au) = [au\<lparr>au_parts := m, au_marker_seq := Some ?seq\<rparr>]"
      by (simp add: mark_end_def add Let_def cong del: fmfilter_cong)
    moreover have "unit_so_far e ts ps T (insert i S) (au\<lparr>au_parts := m, au_marker_seq := Some ?seq\<rparr>)"
      using True au(1-3) look unfolding unit_so_far_def by (simp flip: True)
    ultimately show thesis using True by (intro that) (simp_all add: Let_def)
  next
    case False
    with assms(3) have "length ps - 1 \<noteq> i" by auto
    then have "unit_so_far e ts ps T (insert i S) (add_part ?seq (ps ! i) au)"
      using au(1-4) look unfolding unit_so_far_def add by simp
    with False show thesis by (intro that) (simp_all add: Let_def)
  qed
qed

text \<open>What a packet of the unit does to what is pending, the first one opening the unit.\<close>

lemma take_in_part:
  assumes "arrived e ts ps T S a" "S \<subseteq> {..<length ps}" "i < length ps" "length ps \<le> MAX_AU_PARTS" "ps ! i \<noteq> []"
  obtains au where "unit_so_far e ts ps T (insert i S) au" "as_pending (take_in (unit_packet e ts ps i) now a) = [au]"
    "as_prev_end (take_in (unit_packet e ts ps i) now a) = Some e"
    "as_newest_timestamp (take_in (unit_packet e ts ps i) now a) = Some ts"
    "let u = Max (insert e ((\<lambda>j. e + 1 + int j) ` insert i S)) in as_last_seq (take_in (unit_packet e ts ps i) now a) = Some (word_of_int u, u)"
proof -
  let ?k = "e + 1 + int i" and ?f = "\<lambda>j. e + 1 + int j"
  let ?A = "insert e (?f ` S)"
  define u where "u = Max ?A"
  have fin: "finite ?A" using assms(2) finite_subset by blast
  have "e \<le> u" "u \<in> ?A" using fin Max_in [of ?A] by (auto simp: u_def)
  then have "\<bar>?k - u\<bar> < 2 ^ 15" using assms(2-4) by (auto simp: MAX_AU_PARTS_def)
  then have w: "unwrap_seq (word_of_int ?k) a = (?k, a\<lparr>as_last_seq := Some (word_of_int (max u ?k), max u ?k)\<rparr>)"
    using assms(1) by (intro unwrap_exact) (simp_all add: arrived_def u_def Let_def)
  define a1 where "a1 = a\<lparr>as_last_seq := Some (word_of_int (max u ?k), max u ?k)\<rparr>"
  have top: "max u ?k = Max (insert e (?f ` insert i S))"
    by (metis Max_insert empty_not_insert fin image_insert insert_commute max.commute u_def)
  obtain au0 where u0: "unit_so_far e ts ps T S au0"
    and t: "\<exists>a2. take_in (unit_packet e ts ps i) now a = store (unit_packet e ts ps i) ?k 0 a2 \<and> as_pending a2 = [au0] \<and>
      as_prev_end a2 = Some e \<and> as_newest_timestamp a2 = Some ts \<and> as_last_seq a2 = as_last_seq a1"
  proof (cases "S = {}")
    case True
    let ?au = "\<lparr>au_timestamp = ts, au_parts = fmempty, au_marker_seq = None, au_blocked_since = None, au_overflowed = False\<rparr>"
    have "unit_so_far e ts ps T S ?au" by (simp add: unit_so_far_def True)
    moreover have "admit_at ts ?k now a1 = Some (0, None)" "pending_position ts ?k a1 = None" "as_prev_end a1 = Some e"
      "as_pending (open_unit ts 0 None a1) = [?au]" "as_newest_timestamp (open_unit ts 0 None a1) = Some ts"
      using assms(1) True by (auto simp: arrived_def a1_def admit_at_def pending_position_def open_unit_def insert_at_def newer_rtp_ts_def
          split: option.splits)
    then have "take_in (unit_packet e ts ps i) now a = store (unit_packet e ts ps i) ?k 0 (open_unit ts 0 None a1)"
      using assms(5) w by (simp add: take_in_def unit_packet_def a1_def)
    ultimately show thesis using \<open>as_prev_end a1 = Some e\<close> \<open>as_pending (open_unit ts 0 None a1) = [?au]\<close>
        \<open>as_newest_timestamp (open_unit ts 0 None a1) = Some ts\<close>
      by (intro that [of ?au] exI [of _ "open_unit ts 0 None a1"]) (simp_all add: open_unit_def)
  next
    case False
    with assms(1) obtain au where au: "as_pending a = [au]" "unit_so_far e ts ps T S au" by (auto simp: arrived_def)
    then have "pending_position ts ?k a1 = Some 0"
      using assms(1,3) by (auto simp: pending_position_def a1_def arrived_def unit_so_far_def)
    then have "take_in (unit_packet e ts ps i) now a = store (unit_packet e ts ps i) ?k 0 a1"
      using assms(5) w by (simp add: take_in_def unit_packet_def a1_def)
    with au False assms(1) show thesis by (intro that [of au] exI [of _ a1]) (simp_all add: a1_def arrived_def)
  qed
  from unit_add [OF u0 assms(2-4)] obtain au where au: "unit_so_far e ts ps T (insert i S) au"
    "(let au1 = add_part ?k (ps ! i) au0 in if Suc i = length ps then mark_end ?k au1 else [au1]) = [au]" by blast
  with t top show thesis by (intro that [of au]) (auto simp: store_def unit_packet_def Let_def a1_def)
qed

lemma sorted_parts_len: "length (sorted_list_of_fmap (au_parts au)) = parts_len au"
  by (simp add: parts_len_def sorted_list_of_fmap_def sorted_list_of_fset.rep_eq fcard.rep_eq)

text \<open>The unit is complete exactly when all of it has come, and then it is the payloads in order.\<close>

lemma unit_incomplete:
  assumes "unit_so_far e ts ps T S au" "S \<subset> {..<length ps}"
  shows "depacketize_if_complete dp (Some e) au = Inr None"
proof -
  have "card S < length ps" using psubset_card_mono [OF _ assms(2)] by simp
  moreover have "length (sorted_list_of_fmap (au_parts au)) = card S"
    using unit_parts_len [OF assms(1)] by (simp add: sorted_parts_len)
  then have "length (parts_range i j au) \<le> card S" for i j
    using length_filter_le [of "\<lambda>(k, _). i \<le> k \<and> k \<le> j" "sorted_list_of_fmap (au_parts au)"] by (simp add: parts_range_def)
  ultimately have "length (parts_range (e + 1) (e + int (length ps)) au) < length ps" by (meson le_less_trans)
  moreover have "au_marker_seq au \<in> {None, Some (e + int (length ps))}" using assms(1) by (simp add: unit_so_far_def)
  then have "au_marker_seq au = None \<or> au_marker_seq au = Some (e + int (length ps))" by simp
  ultimately show ?thesis by (elim disjE) (simp_all add: depacketize_if_complete_def)
qed

lemma unit_complete:
  assumes "unit_so_far e ts ps T {..<length ps} au" "ps \<noteq> []" "depacketize_all dp (dp_fresh dp) ps [] = Some data" "data \<noteq> []"
  shows "depacketize_if_complete dp (Some e) au =
    Inr (Some (\<lparr>vs_rtp_timestamp = ts, vs_key = au_has_idr data, vs_lane = 0, vs_sequence = 0, vs_data = data\<rparr>, e + int (length ps)))"
proof -
  let ?j = "e + int (length ps)" and ?m = "au_parts au"
  have look: "fmlookup ?m k = (if e < k \<and> k \<le> ?j then Some (ps ! nat (k - e - 1)) else None)" for k
  proof -
    have "k - e - 1 \<in> int ` {..<length ps} \<longleftrightarrow> e < k \<and> k \<le> ?j"
      by (auto simp: image_iff intro!: bexI [of _ "nat (k - e - 1)"])
    then show ?thesis using assms(1) by (simp add: unit_so_far_def)
  qed
  have "fst kv \<in> {e + 1..?j}" if "kv \<in> set (sorted_list_of_fmap ?m)" for kv
    using that look [of "fst kv"] by (cases kv rule: prod.exhaust) (auto split: if_splits)
  then have "filter (\<lambda>(k, _). e + 1 \<le> k \<and> k \<le> ?j) (sorted_list_of_fmap ?m) = sorted_list_of_fmap ?m"
    by (intro filter_True) (auto simp: case_prod_beta)
  moreover have n: "length (sorted_list_of_fmap ?m) = length ps"
    using unit_parts_len [OF assms(1)] by (simp add: sorted_parts_len)
  ultimately have "parts_range (e + 1) ?j au = map (\<lambda>k. the (fmlookup ?m k)) [e + 1..?j]"
    using full_range(1) [of ?j "e + 1" ?m] assms(2) by (simp add: parts_range_def Suc_le_eq)
  also have "\<dots> = ps" by (rule nth_equalityI) (simp_all add: look nth_upto)
  finally have "parts_range (e + 1) ?j au = ps" .
  moreover have "au_marker_seq au = Some ?j" "au_timestamp au = ts" using assms(1,2) by (simp_all add: unit_so_far_def)
  ultimately show ?thesis using assms(2-4) by (simp add: depacketize_if_complete_def Let_def Suc_le_eq)
qed

text \<open>Everything received and handed on up to a sequence number, and arrivals within one retransmission grace of each other.\<close>

definition caught_up :: "int \<Rightarrow> assembler \<Rightarrow> bool" where
  "caught_up e a \<longleftrightarrow> as_pending a = [] \<and> as_prev_end a = Some e \<and> as_last_seq a = Some (word_of_int e, e)"

definition close_together :: "u64 set \<Rightarrow> bool" where
  "close_together T \<longleftrightarrow> (\<forall>t \<in> T. \<forall>t' \<in> T. duration_since t t' < RETRANSMIT_GRACE_MS)"

definition unit_sample :: "u32 \<Rightarrow> bytes \<Rightarrow> video_sample" where
  "unit_sample ts data = \<lparr>vs_rtp_timestamp = ts, vs_key = au_has_idr data, vs_lane = 0, vs_sequence = 0, vs_data = data\<rparr>"

lemma unit_armed:
  assumes "unit_so_far e ts ps T S au" "now \<in> T"
  shows "unit_so_far e ts ps T S (arm_clock now au)" "close_together T \<Longrightarrow> still_waiting now (arm_clock now au)"
  using assms by (auto simp: unit_so_far_def arm_clock_def still_waiting_def close_together_def split: option.splits)

lemma push_part:
  assumes "arrived e ts ps T S a" "S \<subseteq> {..<length ps}" "i < length ps" "length ps \<le> MAX_AU_PARTS" "ps ! i \<noteq> []"
    and "now \<in> T" "close_together T"
  shows "insert i S \<noteq> {..<length ps} \<Longrightarrow> \<exists>a'. push_at dp (unit_packet e ts ps i) now a = ([], a') \<and> arrived e ts ps T (insert i S) a'"
    and "insert i S = {..<length ps} \<Longrightarrow> depacketize_all dp (dp_fresh dp) ps [] = Some data \<Longrightarrow> data \<noteq> [] \<Longrightarrow>
       \<exists>a'. push_at dp (unit_packet e ts ps i) now a = ([Sample (unit_sample ts data)], a') \<and>
         caught_up (e + int (length ps)) a' \<and> as_newest_timestamp a' = Some ts"
proof -
  define a1 where "a1 = take_in (unit_packet e ts ps i) now a"
  let ?u = "Max (insert e ((\<lambda>j. e + 1 + int j) ` insert i S))"
  from take_in_part [OF assms(1-5), of now] obtain au where au: "unit_so_far e ts ps T (insert i S) au" "as_pending a1 = [au]"
    and a1: "as_prev_end a1 = Some e" "as_newest_timestamp a1 = Some ts" "as_last_seq a1 = Some (word_of_int ?u, ?u)"
    unfolding a1_def Let_def by metis
  have sub: "insert i S \<subseteq> {..<length ps}" using assms(2,3) by simp
  have "parts_len au \<le> card {..<length ps}" unfolding unit_parts_len [OF au(1)] by (intro card_mono sub) simp
  then have small: "parts_len au \<le> MAX_AU_PARTS" "\<not> au_overflowed au" using assms(4) au(1) by (simp_all add: unit_so_far_def)
  note collect = collect_single [OF au(2) small(2,1), where now = now and dp = dp]
  show "\<exists>a'. push_at dp (unit_packet e ts ps i) now a = ([], a') \<and> arrived e ts ps T (insert i S) a'" if "insert i S \<noteq> {..<length ps}"
  proof -
    from that sub have "depacketize_if_complete dp (Some e) au = Inr None" by (intro unit_incomplete [OF au(1)]) blast
    then have "push_at dp (unit_packet e ts ps i) now a = ([], a1\<lparr>as_pending := start_clocks now [au]\<rparr>)"
      using collect(1) a1(1) unit_armed(2) [OF au(1) assms(6,7)] by (simp add: push_at_def a1_def)
    moreover have "\<exists>au'. start_clocks now [au] = [au'] \<and> unit_so_far e ts ps T (insert i S) au'"
      using au(1) unit_armed(1) [OF au(1) assms(6)] by simp
    ultimately show ?thesis using a1 by (auto simp: arrived_def Let_def simp del: start_clocks.simps)
  qed
  show "\<exists>a'. push_at dp (unit_packet e ts ps i) now a = ([Sample (unit_sample ts data)], a') \<and>
      caught_up (e + int (length ps)) a' \<and> as_newest_timestamp a' = Some ts"
    if all: "insert i S = {..<length ps}" and d: "depacketize_all dp (dp_fresh dp) ps [] = Some data" "data \<noteq> []"
  proof -
    have "ps \<noteq> []" using assms(3) by auto
    then have "depacketize_if_complete dp (as_prev_end a1) au = Inr (Some (unit_sample ts data, e + int (length ps)))"
      unfolding a1(1) unit_sample_def using au(1) all d by (intro unit_complete) simp_all
    then have "push_at dp (unit_packet e ts ps i) now a =
        ([Sample (unit_sample ts data)], a1\<lparr>as_pending := [], as_prev_end := Some (e + int (length ps)), as_gap_open := False\<rparr>)"
      using collect(2) by (simp add: push_at_def a1_def)
    moreover have "?u = e + int (length ps)" unfolding all
      by (rule Max_eqI) (use \<open>ps \<noteq> []\<close> in \<open>auto simp: image_iff Suc_le_eq intro!: bexI [of _ "length ps - 1"]\<close>)
    ultimately show ?thesis using a1 by (simp add: caught_up_def)
  qed
qed

text \<open>A packet of a unit already handed on is ignored.\<close>

lemma push_repeat:
  assumes "caught_up (e + int (length ps)) a" "as_newest_timestamp a = Some ts" "i < length ps" "length ps \<le> MAX_AU_PARTS" "ps ! i \<noteq> []"
  shows "push_at dp (unit_packet e ts ps i) now a = ([], a)"
proof -
  let ?k = "e + 1 + int i" and ?u = "e + int (length ps)"
  have "\<bar>?k - ?u\<bar> < 2 ^ 15" using assms(3,4) by (simp add: MAX_AU_PARTS_def)
  moreover have "max ?u ?k = ?u" using assms(3) by simp
  ultimately have "unwrap_seq (word_of_int ?k) a = (?k, a)"
    using assms(1) unwrap_exact [of a ?u ?k] by (simp add: caught_up_def)
  then have "take_in (unit_packet e ts ps i) now a = a"
    using assms by (simp add: take_in_def unit_packet_def caught_up_def pending_position_def admit_at_def)
  then show ?thesis using assms(1) by (simp add: push_at_def collect_ready_def collect_loop.simps caught_up_def)
qed

definition unit_run :: "int \<Rightarrow> u32 \<Rightarrow> bytes list \<Rightarrow> (nat \<times> u64) list \<Rightarrow> (rtp_packet \<times> u64) list" where
  "unit_run e ts ps xs = map (\<lambda>(i, t). (unit_packet e ts ps i, t)) xs"

lemma assemble_repeats:
  assumes "caught_up (e + int (length ps)) a" "as_newest_timestamp a = Some ts" "length ps \<le> MAX_AU_PARTS" "[] \<notin> set ps"
    and "fst ` set xs \<subseteq> {..<length ps}"
  shows "assemble dp (unit_run e ts ps xs) a = ([], a)"
  using assms(5)
proof (induction xs)
  case (Cons x xs)
  obtain i t where x: "x = (i, t)" by (cases x)
  with Cons.prems assms(4) have "i < length ps" "ps ! i \<noteq> []" by (auto simp: in_set_conv_nth)
  then have "push_at dp (unit_packet e ts ps i) t a = ([], a)" by (intro push_repeat [OF assms(1,2) _ assms(3)])
  with Cons show ?case by (simp add: x unit_run_def)
qed (simp add: unit_run_def)

lemma assemble_unit:
  assumes "length ps \<le> MAX_AU_PARTS" "[] \<notin> set ps" "close_together T" "depacketize_all dp (dp_fresh dp) ps [] = Some data" "data \<noteq> []"
    and "arrived e ts ps T S a" "S \<subset> {..<length ps}" "S \<union> fst ` set xs = {..<length ps}" "snd ` set xs \<subseteq> T"
  shows "\<exists>a'. assemble dp (unit_run e ts ps xs) a = ([Sample (unit_sample ts data)], a') \<and>
     caught_up (e + int (length ps)) a' \<and> as_newest_timestamp a' = Some ts"
  using assms(6-)
proof (induction xs arbitrary: S a)
  case (Cons x xs)
  obtain i t where x: "x = (i, t)" by (cases x)
  have i: "i < length ps" "t \<in> T" using Cons.prems(3,4) x by auto
  then have "ps ! i \<noteq> []" using assms(2) by (auto simp: in_set_conv_nth)
  note push = push_part [OF Cons.prems(1) _ i(1) assms(1) this i(2) assms(3), where dp = dp]
  show ?case
  proof (cases "insert i S = {..<length ps}")
    case True
    with push(2) [OF _ _ assms(4,5)] Cons.prems(2) obtain a' where a': "push_at dp (unit_packet e ts ps i) t a = ([Sample (unit_sample ts data)], a')"
      "caught_up (e + int (length ps)) a'" "as_newest_timestamp a' = Some ts" by blast
    have "fst ` set xs \<subseteq> {..<length ps}" using Cons.prems(3) by auto
    from assemble_repeats [OF a'(2,3) assms(1,2) this, of dp] a' show ?thesis by (simp add: x unit_run_def)
  next
    case False
    with push(1) Cons.prems(2) obtain a' where a': "push_at dp (unit_packet e ts ps i) t a = ([], a')"
      "arrived e ts ps T (insert i S) a'" by blast
    have "insert i S \<subset> {..<length ps}" "insert i S \<union> fst ` set xs = {..<length ps}" "snd ` set xs \<subseteq> T"
      using False Cons.prems(2-4) i x by auto
    from Cons.IH [OF a'(2) this] a'(1) show ?thesis by (auto simp: x unit_run_def)
  qed
qed auto

text \<open>
  C29: Reordering and repetition are repaired once a stream runs. Take an assembler that holds nothing back and has just handed over the unit
  that ends at sequence number \<open>e\<close>. The packets of the next unit, of a newer timestamp, at most 2048 of them and none empty, in any
  order and each as often as the network likes, within one retransmission grace, give exactly that unit, once, as the payloads
  in order depacketize; and the assembler is again ready for the next one, whatever the sequence numbers wrap to. (The first unit of a
  stream has no predecessor to tell where it begins: see \<open>first_unit_reordered\<close>.)
\<close>

theorem video_reordering_repaired:
  assumes "caught_up e a" "case as_newest_timestamp a of None \<Rightarrow> True | Some n \<Rightarrow> newer_rtp_ts ts n"
    and "ps \<noteq> []" "length ps \<le> MAX_AU_PARTS" "[] \<notin> set ps" "depacketize_all dp (dp_fresh dp) ps [] = Some data" "data \<noteq> []"
    and "fst ` set xs = {..<length ps}" "close_together (snd ` set xs)"
  shows "\<exists>a'. assemble dp (unit_run e ts ps xs) a = ([Sample (unit_sample ts data)], a') \<and>
     caught_up (e + int (length ps)) a' \<and> as_newest_timestamp a' = Some ts"
proof -
  have "arrived e ts ps (snd ` set xs) {} a" using assms(1,2) by (simp add: arrived_def caught_up_def)
  with assms(3-) show ?thesis by (intro assemble_unit [where S = "{}" and T = "snd ` set xs"]) auto
qed

text \<open>
  Of the first unit of a stream the assembler knows no beginning: if its last packet is one a unit can begin with and comes first, that
  packet alone is handed over and the others are stale, with no report, since nothing came before.
\<close>

lemma first_unit_reordered:
  "fst (assemble plain_depacketizer (unit_run 65534 7 [''Aab'', ''cd'', ''e''] [(2, 20), (0, 21), (1, 22)]) new_assembler) =
     [Sample (unit_sample 7 ''e'')]"
  by code_simp

theorem video_reordering_repaired_witness:
  "\<exists>a'. assemble plain_depacketizer (unit_run 65534 7 [''Aab'', ''cd'', ''e''] [(2, 20), (0, 11), (2, 50), (1, 30), (0, 60)])
       \<lparr>as_pending = [], as_prev_end = Some 65534, as_last_seq = Some (65534, 65534), as_newest_timestamp = Some 3, as_gap_open = False\<rparr> =
     ([Sample (unit_sample 7 ''Aabcde'')], a') \<and> caught_up 65537 a' \<and> as_newest_timestamp a' = Some 7"
proof -
  have three: "{..<Suc (Suc (Suc 0))} = {2, 0, 1}" by auto
  show ?thesis
    using video_reordering_repaired [of 65534 "\<lparr>as_pending = [], as_prev_end = Some 65534, as_last_seq = Some (65534, 65534),
        as_newest_timestamp = Some 3, as_gap_open = False\<rparr>" 7 "[''Aab'', ''cd'', ''e'']" plain_depacketizer "''Aabcde''"
        "[(2, 20), (0, 11), (2, 50), (1, 30), (0, 60)]"]
    by (simp add: caught_up_def newer_rtp_ts_def MAX_AU_PARTS_def plain_depacketizer_def close_together_def duration_since_def
        RETRANSMIT_GRACE_MS_def three insert_commute)
qed

end
