(* ===== verification/Media.thy ===== *)
theory Media
  imports Video
begin

text \<open>
  Video on its way out of the engine: the fan-out to subscribers (\<open>engine/video_fanout.rs\<close>), the hand-off to a client's socket
  (\<open>ipc/media_queue.rs\<close>) and the binary frames of the media pipes (\<open>control.rs\<close>).

  A queue that would panic, by an \<open>expect\<close> or a subtraction below zero, gives \<open>None\<close>. A subscriber's queue is behind its own
  lock; a sender never waits. Lengths and counts are naturals.
\<close>

section \<open>Counting pictures\<close>

text \<open>\<open>entry(key).or_default() += 1\<close>, and its inverse, which removes the key at zero and panics without one.\<close>

definition bump :: "'k \<Rightarrow> ('k, nat) fmap \<Rightarrow> ('k, nat) fmap" where
  "bump k m = fmupd k ((case fmlookup m k of None \<Rightarrow> 0 | Some n \<Rightarrow> n) + 1) m"

definition unbump :: "'k \<Rightarrow> ('k, nat) fmap \<Rightarrow> ('k, nat) fmap option" where
  "unbump k m =
     (case fmlookup m k of
        None \<Rightarrow> None
      | Some n \<Rightarrow> if n = 0 then None else if n = 1 then Some (fmdrop k m) else Some (fmupd k (n - 1) m))"

definition counts :: "('k, nat) fmap \<Rightarrow> 'k list \<Rightarrow> bool" where
  "counts m ks \<longleftrightarrow> (\<forall>k. fmlookup m k = (if k \<in> set ks then Some (count_list ks k) else None))"

definition checked_sub :: "nat \<Rightarrow> nat \<Rightarrow> nat option" where
  "checked_sub a b = (if b \<le> a then Some (a - b) else None)"

section \<open>The subscriber queue\<close>

record inbound_video =
  iv_from :: string
  iv_sample :: video_sample

type_synonym picture_key = "string \<times> u8 \<times> u32"

definition VIDEO_RECEIVE_REPAIR_MAX_FRAMES :: nat where "VIDEO_RECEIVE_REPAIR_MAX_FRAMES = MAX_PENDING_FRAMES + 1"
definition MAX_PICTURES :: nat where "MAX_PICTURES = VIDEO_RECEIVE_REPAIR_MAX_FRAMES"
definition MAX_BYTES :: nat where "MAX_BYTES = 64 * 1024 * 1024"
definition MAX_SAMPLES :: nat where "MAX_SAMPLES = 4096"

definition sample_picture :: "inbound_video \<Rightarrow> picture_key" where
  "sample_picture s = (iv_from s, vs_lane (iv_sample s), vs_rtp_timestamp (iv_sample s))"

definition sample_size :: "inbound_video \<Rightarrow> nat" where
  "sample_size s = length (vs_data (iv_sample s)) + length (iv_from s)"

record video_queue =
  vq_samples :: "inbound_video list"
  vq_pictures :: "(picture_key, nat) fmap"
  vq_bytes :: nat
  vq_lagged :: nat
  vq_closed :: bool

definition empty_queue :: video_queue where
  "empty_queue = \<lparr>vq_samples = [], vq_pictures = fmempty, vq_bytes = 0, vq_lagged = 0, vq_closed = False\<rparr>"

text \<open>The sample popped, if there is one.\<close>

definition queue_pop :: "video_queue \<Rightarrow> (inbound_video option \<times> video_queue) option" where
  "queue_pop q =
     (case vq_samples q of
        [] \<Rightarrow> Some (None, q)
      | s # rest \<Rightarrow>
          Option.bind (checked_sub (vq_bytes q) (sample_size s)) (\<lambda>bytes.
          Option.bind (unbump (sample_picture s) (vq_pictures q)) (\<lambda>pictures.
          Some (Some s, q\<lparr>vq_samples := rest, vq_bytes := bytes, vq_pictures := pictures\<rparr>))))"

definition under_pressure :: "picture_key \<Rightarrow> nat \<Rightarrow> video_queue \<Rightarrow> bool" where
  "under_pressure key bytes q \<longleftrightarrow>
     fmlookup (vq_pictures q) key = None \<and> MAX_PICTURES \<le> fcard (fmdom (vq_pictures q)) \<or>
     MAX_BYTES - vq_bytes q < bytes \<or> MAX_SAMPLES \<le> length (vq_samples q)"

function evict :: "picture_key \<Rightarrow> nat \<Rightarrow> video_queue \<Rightarrow> video_queue option" where
  "evict key bytes q =
     (if vq_samples q \<noteq> [] \<and> under_pressure key bytes q
      then case queue_pop q of None \<Rightarrow> None | Some (_, q1) \<Rightarrow> evict key bytes (q1\<lparr>vq_lagged := vq_lagged q1 + 1\<rparr>)
      else Some q)"
  by pat_completeness auto
termination
  by (relation "measure (\<lambda>(key, bytes, q). length (vq_samples q))")
    (auto simp: queue_pop_def split: list.splits bind_splits)

declare evict.simps [simp del]

definition queue_push :: "inbound_video \<Rightarrow> video_queue \<Rightarrow> video_queue option" where
  "queue_push s q =
     map_option (\<lambda>q1.
       if MAX_BYTES < sample_size s then q1\<lparr>vq_lagged := vq_lagged q1 + 1\<rparr>
       else q1\<lparr>vq_bytes := vq_bytes q1 + sample_size s, vq_pictures := bump (sample_picture s) (vq_pictures q1),
               vq_samples := vq_samples q1 @ [s]\<rparr>)
       (evict (sample_picture s) (sample_size s) q)"

datatype recv_outcome = Lagged nat | Received inbound_video | Closed

text \<open>One turn of \<open>recv\<close>: no outcome means it goes on waiting.\<close>

definition queue_recv :: "video_queue \<Rightarrow> (recv_outcome option \<times> video_queue) option" where
  "queue_recv q =
     (if vq_lagged q \<noteq> 0 then Some (Some (Lagged (vq_lagged q)), q\<lparr>vq_lagged := 0\<rparr>)
      else Option.bind (queue_pop q) (\<lambda>(s, q1).
        case s of
          Some s \<Rightarrow> Some (Some (Received s), q1)
        | None \<Rightarrow> Some (if vq_closed q1 then Some Closed else None, q1)))"

text \<open>The fan-out: each subscriber with whether its receiver still exists.\<close>

type_synonym video_fanout = "(bool \<times> video_queue) list"

definition subscribe :: "video_fanout \<Rightarrow> video_fanout" where
  "subscribe subs = filter fst subs @ [(True, empty_queue)]"

definition fanout_send :: "inbound_video \<Rightarrow> video_fanout \<Rightarrow> (nat option \<times> video_fanout) option" where
  "fanout_send s subs =
     map_option (\<lambda>qs. (if qs = [] then None else Some (length qs), map (Pair True) qs))
       (those (map (\<lambda>(_, q). queue_push s q) (filter fst subs)))"

text \<open>
  How the engine hands over what the assembler of a peer's lane releases: units as they are, a discontinuity as a sample with no
  data, both through the same fan-out.
\<close>

definition dispatch_video :: "string \<Rightarrow> video_sample \<Rightarrow> video_fanout \<Rightarrow> video_fanout option" where
  "dispatch_video from sample subs = map_option snd (fanout_send \<lparr>iv_from = from, iv_sample = sample\<rparr> subs)"

definition dispatch_video_discontinuity :: "string \<Rightarrow> u8 \<Rightarrow> u32 \<Rightarrow> u64 \<Rightarrow> video_fanout \<Rightarrow> video_fanout option" where
  "dispatch_video_discontinuity from lane ts seq =
     dispatch_video from \<lparr>vs_rtp_timestamp = ts, vs_key = False, vs_lane = lane, vs_sequence = seq, vs_data = []\<rparr>"

fun dispatch_events :: "string \<Rightarrow> u8 \<Rightarrow> (u64 \<times> assembly_event) list \<Rightarrow> video_fanout \<Rightarrow> video_fanout option" where
  "dispatch_events from lane [] subs = Some subs"
| "dispatch_events from lane ((_, Sample v) # evs) subs = Option.bind (dispatch_video from v subs) (dispatch_events from lane evs)"
| "dispatch_events from lane ((seq, Discontinuity ts _) # evs) subs =
     Option.bind (dispatch_video_discontinuity from lane ts seq subs) (dispatch_events from lane evs)"

definition drop_fanout :: "video_fanout \<Rightarrow> video_fanout" where
  "drop_fanout subs = map (\<lambda>(alive, q). (alive, if alive then q\<lparr>vq_closed := True\<rparr> else q)) subs"

section \<open>The client hand-off\<close>

definition le_val :: "bytes \<Rightarrow> nat" where
  "le_val bs = foldr (\<lambda>b n. of_char b + 256 * n) bs 0"

fun le_bytes :: "nat \<Rightarrow> nat \<Rightarrow> bytes" where
  "le_bytes 0 v = []"
| "le_bytes (Suc n) v = char_of (v mod 256) # le_bytes n (v div 256)"

text \<open>\<open>body.get(i..j)\<close>.\<close>

definition get_range :: "nat \<Rightarrow> nat \<Rightarrow> bytes \<Rightarrow> bytes option" where
  "get_range i j body = (if i \<le> j \<and> j \<le> length body then Some (take (j - i) (drop i body)) else None)"

definition MEDIA_KIND_VIDEO :: char where "MEDIA_KIND_VIDEO = CHR 0x00"
definition MEDIA_KIND_AUDIO :: char where "MEDIA_KIND_AUDIO = CHR 0x01"
definition MEDIA_KIND_VIDEO_DISCONTINUITY :: char where "MEDIA_KIND_VIDEO_DISCONTINUITY = CHR 0x02"
definition MAX_MEDIA_FRAME_BYTES :: nat where "MAX_MEDIA_FRAME_BYTES = 64 * 1024 * 1024"
definition MAX_QUEUED_SAMPLES :: nat where "MAX_QUEUED_SAMPLES = 4096"
definition MEDIA_SOURCE_QUEUE_CAPACITY :: nat where "MEDIA_SOURCE_QUEUE_CAPACITY = 8"
definition VIDEO_SOURCE_QUEUE_CAPACITY :: nat where "VIDEO_SOURCE_QUEUE_CAPACITY = VIDEO_RECEIVE_REPAIR_MAX_FRAMES"

type_synonym queued_picture = "bytes \<times> char \<times> nat"

definition body_picture :: "bytes \<Rightarrow> queued_picture option" where
  "body_picture body =
     (case body of
        [] \<Rightarrow> None
      | kind # _ \<Rightarrow>
          if kind \<noteq> MEDIA_KIND_VIDEO \<and> kind \<noteq> MEDIA_KIND_VIDEO_DISCONTINUITY then None
          else Option.bind (get_range 0 9 body) (\<lambda>head.
            let len = le_val [head ! 7, head ! 8] in
            map_option (\<lambda>peer. (peer, head ! 2, le_val (take 4 (drop 3 head)))) (get_range 9 (9 + len) body)))"

record budget =
  bg_pictures :: "(queued_picture, nat) fmap"
  bg_other :: nat
  bg_bytes :: nat
  bg_items :: nat

record media_queue =
  mq_items :: "bytes list"
  mq_budget :: budget
  mq_capacity :: nat
  mq_other_capacity :: nat
  mq_byte_capacity :: nat
  mq_closed :: bool

definition channel_with_bytes :: "nat \<Rightarrow> nat \<Rightarrow> media_queue" where
  "channel_with_bytes capacity byte_capacity =
     \<lparr>mq_items = [], mq_budget = \<lparr>bg_pictures = fmempty, bg_other = 0, bg_bytes = 0, bg_items = 0\<rparr>, mq_capacity = capacity,
      mq_other_capacity = capacity, mq_byte_capacity = byte_capacity, mq_closed = False\<rparr>"

definition media_channel :: "nat \<Rightarrow> media_queue" where
  "media_channel capacity = channel_with_bytes capacity MAX_MEDIA_FRAME_BYTES"

definition channel_with_other_capacity :: "nat \<Rightarrow> nat \<Rightarrow> media_queue" where
  "channel_with_other_capacity capacity other_capacity = (media_channel capacity)\<lparr>mq_other_capacity := other_capacity\<rparr>"

definition media_source_queue :: media_queue where
  "media_source_queue = channel_with_other_capacity VIDEO_SOURCE_QUEUE_CAPACITY MEDIA_SOURCE_QUEUE_CAPACITY"

datatype send_outcome = Sent | SendFull bytes | SendClosed bytes

definition over_budget :: "bytes \<Rightarrow> media_queue \<Rightarrow> bool" where
  "over_budget body q =
     (let b = mq_budget q; picture = body_picture body;
          known = (case picture of None \<Rightarrow> False | Some p \<Rightarrow> fmlookup (bg_pictures b) p \<noteq> None)
      in \<not> known \<and> mq_capacity q \<le> fcard (fmdom (bg_pictures b)) + bg_other b \<or>
         picture = None \<and> mq_other_capacity q \<le> bg_other b \<or>
         mq_byte_capacity q - bg_bytes b < length body \<or> MAX_QUEUED_SAMPLES \<le> bg_items b)"

definition reserve :: "bytes \<Rightarrow> budget \<Rightarrow> budget" where
  "reserve body b =
     (let b1 = b\<lparr>bg_bytes := bg_bytes b + length body, bg_items := bg_items b + 1\<rparr>
      in case body_picture body of
           Some p \<Rightarrow> b1\<lparr>bg_pictures := bump p (bg_pictures b)\<rparr>
         | None \<Rightarrow> b1\<lparr>bg_other := bg_other b + 1\<rparr>)"

definition try_send :: "bytes \<Rightarrow> media_queue \<Rightarrow> send_outcome \<times> media_queue" where
  "try_send body q =
     (if mq_closed q then (SendClosed body, q)
      else if over_budget body q then (SendFull body, q)
      else (Sent, q\<lparr>mq_budget := reserve body (mq_budget q), mq_items := mq_items q @ [body]\<rparr>))"

text \<open>\<open>Drop\<close> of an item gives its budget back.\<close>

definition release :: "bytes \<Rightarrow> budget \<Rightarrow> budget option" where
  "release body b =
     Option.bind (checked_sub (bg_bytes b) (length body)) (\<lambda>bytes.
     Option.bind (checked_sub (bg_items b) 1) (\<lambda>items.
     let b1 = b\<lparr>bg_bytes := bytes, bg_items := items\<rparr> in
     case body_picture body of
       Some p \<Rightarrow> map_option (\<lambda>m. b1\<lparr>bg_pictures := m\<rparr>) (unbump p (bg_pictures b))
     | None \<Rightarrow> map_option (\<lambda>n. b1\<lparr>bg_other := n\<rparr>) (checked_sub (bg_other b) 1)))"

definition media_recv :: "media_queue \<Rightarrow> (bytes option \<times> media_queue) option" where
  "media_recv q =
     (case mq_items q of
        [] \<Rightarrow> Some (None, q)
      | body # rest \<Rightarrow> map_option (\<lambda>b. (Some body, q\<lparr>mq_items := rest, mq_budget := b\<rparr>)) (release body (mq_budget q)))"

definition queue_capacity :: "media_queue \<Rightarrow> nat option" where
  "queue_capacity q =
     Option.bind (checked_sub (mq_capacity q) (fcard (fmdom (bg_pictures (mq_budget q))))) (\<lambda>n. checked_sub n (bg_other (mq_budget q)))"

text \<open>A dropped receiver drops what is queued.\<close>

fun release_all :: "bytes list \<Rightarrow> budget \<Rightarrow> budget option" where
  "release_all [] b = Some b"
| "release_all (body # rest) b = Option.bind (release body b) (release_all rest)"

definition drop_receiver :: "media_queue \<Rightarrow> media_queue option" where
  "drop_receiver q = map_option (\<lambda>b. q\<lparr>mq_items := [], mq_budget := b, mq_closed := True\<rparr>) (release_all (mq_items q) (mq_budget q))"

section \<open>The frames of the media pipes\<close>

text \<open>\<open>std::str::from_utf8\<close>: the well-formed byte sequences of Unicode.\<close>

definition byte_in :: "nat \<Rightarrow> nat \<Rightarrow> char \<Rightarrow> bool" where
  "byte_in lo hi c \<longleftrightarrow> lo \<le> of_char c \<and> of_char c \<le> hi"

fun utf8_ok :: "bytes \<Rightarrow> bool" where
  "utf8_ok [] = True"
| "utf8_ok (a # r) =
     (if byte_in 0 0x7F a then utf8_ok r
      else case r of
        [] \<Rightarrow> False
      | b # r2 \<Rightarrow>
          if byte_in 0xC2 0xDF a then byte_in 0x80 0xBF b \<and> utf8_ok r2
          else case r2 of
            [] \<Rightarrow> False
          | c # r3 \<Rightarrow>
              if byte_in 0xE0 0xEF a
              then byte_in (if a = CHR 0xE0 then 0xA0 else 0x80) (if a = CHR 0xED then 0x9F else 0xBF) b \<and> byte_in 0x80 0xBF c \<and> utf8_ok r3
              else case r3 of
                [] \<Rightarrow> False
              | d # r4 \<Rightarrow>
                  byte_in 0xF0 0xF4 a \<and> byte_in (if a = CHR 0xF0 then 0x90 else 0x80) (if a = CHR 0xF4 then 0x8F else 0xBF) b \<and>
                  byte_in 0x80 0xBF c \<and> byte_in 0x80 0xBF d \<and> utf8_ok r4)"

record media_frame =
  mf_kind :: char
  mf_stream :: char
  mf_duration_us :: u64
  mf_network :: string
  mf_peer :: string
  mf_data :: bytes

text \<open>The position of the code is the suffix still to be read.\<close>

definition rd :: "nat \<Rightarrow> bytes \<Rightarrow> (bytes \<times> bytes) option" where
  "rd n b = (if n \<le> length b then Some (take n b, drop n b) else None)"

definition rd_str :: "bytes \<Rightarrow> (string \<times> bytes) option" where
  "rd_str b =
     Option.bind (rd 2 b) (\<lambda>(len, b1).
     Option.bind (rd (le_val len) b1) (\<lambda>(s, b2). if utf8_ok s then Some (s, b2) else None))"

definition decode_media_frame :: "bytes \<Rightarrow> media_frame option" where
  "decode_media_frame body =
     Option.bind (rd 1 body) (\<lambda>(kind, b1).
     Option.bind (rd 1 b1) (\<lambda>(stream, b2).
     Option.bind (rd 8 b2) (\<lambda>(duration, b3).
     Option.bind (rd_str b3) (\<lambda>(network, b4).
     map_option (\<lambda>(peer, data).
       \<lparr>mf_kind = hd kind, mf_stream = hd stream, mf_duration_us = of_nat (le_val duration), mf_network = network, mf_peer = peer,
        mf_data = data\<rparr>) (rd_str b4)))))"

definition encode_inbound_frame :: "char \<Rightarrow> bool \<Rightarrow> char \<Rightarrow> u32 \<Rightarrow> string \<Rightarrow> bytes \<Rightarrow> bytes" where
  "encode_inbound_frame kind key stream ts from data =
     [kind, if key then CHR 0x01 else CHR 0x00, stream] @ le_bytes 4 (unat ts) @ le_bytes 2 (length from) @ from @ data"

text \<open>
  What the reader of a media-track pipe hands to a track, from the bytes a client writes until it closes: frames of
  networks that are joined, of a kind that is known. A torn frame or an oversize one ends the reading, a malformed one is skipped.
\<close>

definition routed_frame :: "(string \<Rightarrow> bool) \<Rightarrow> media_frame \<Rightarrow> bool" where
  "routed_frame joined f \<longleftrightarrow> joined (mf_network f) \<and> (mf_kind f = MEDIA_KIND_VIDEO \<or> mf_kind f = MEDIA_KIND_AUDIO)"

function run_media_track_pipe :: "(string \<Rightarrow> bool) \<Rightarrow> bytes \<Rightarrow> media_frame list" where
  "run_media_track_pipe joined input =
     (if length input < 4 then []
      else
        let len = le_val (take 4 input); rest = drop 4 input in
        if MAX_MEDIA_FRAME_BYTES < len then []
        else if length rest < len then []
        else
          (case decode_media_frame (take len rest) of
             None \<Rightarrow> []
           | Some f \<Rightarrow> if routed_frame joined f then [f] else []) @ run_media_track_pipe joined (drop len rest))"
  by pat_completeness auto
termination by (relation "measure (\<lambda>(joined, input). length input)") auto

declare run_media_track_pipe.simps [simp del]

section \<open>Accounts\<close>

lemma counts_empty [simp]: "counts m [] \<longleftrightarrow> m = fmempty"
  by (auto simp: counts_def intro: fmap_ext)

lemma counts_lookup: "counts m ks \<Longrightarrow> fmlookup m k = (if k \<in> set ks then Some (count_list ks k) else None)"
  unfolding counts_def by blast

lemma counts_bump: assumes "counts m ks" shows "counts (bump k m) (ks @ [k])"
proof -
  have "(case fmlookup m k of None \<Rightarrow> 0 | Some n \<Rightarrow> n) = count_list ks k" using assms by (simp add: counts_def)
  with assms show ?thesis by (auto simp: counts_def bump_def)
qed

lemma counts_unbump: assumes "counts m (k # ks)" obtains m' where "unbump k m = Some m'" "counts m' ks"
proof -
  have k: "fmlookup m k = Some (count_list ks k + 1)" using assms by (simp add: counts_def)
  let ?m' = "if count_list ks k = 0 then fmdrop k m else fmupd k (count_list ks k) m"
  have "unbump k m = Some ?m'" using k by (simp add: unbump_def)
  moreover have "counts ?m' ks" using assms by (auto simp: counts_def count_list_0_iff)
  ultimately show thesis by (rule that)
qed

lemma counts_card: assumes "counts m ks" shows "fcard (fmdom m) = card (set ks)"
proof -
  have "k |\<in>| fmdom m \<longleftrightarrow> k \<in> set ks" for k using assms by (simp add: counts_def fmlookup_dom_iff)
  then have "fset (fmdom m) = set ks" by blast
  then show ?thesis by (simp add: fcard.rep_eq)
qed

lemma checked_sub_add [simp]: "checked_sub (a + b) a = Some b"
  by (simp add: checked_sub_def)

text \<open>A queue whose items come out in order: what draining it gives.\<close>

fun drain :: "('q \<Rightarrow> ('a option \<times> 'q) option) \<Rightarrow> nat \<Rightarrow> 'q \<Rightarrow> ('a list \<times> 'q) option" where
  "drain pull 0 q = Some ([], q)"
| "drain pull (Suc n) q =
     (case pull q of
        None \<Rightarrow> None
      | Some (None, q1) \<Rightarrow> Some ([], q1)
      | Some (Some x, q1) \<Rightarrow> map_option (\<lambda>(xs, q2). (x # xs, q2)) (drain pull n q1))"

locale drained_queue =
  fixes items :: "'q \<Rightarrow> 'a list" and pull :: "'q \<Rightarrow> ('a option \<times> 'q) option" and invar :: "'q \<Rightarrow> bool"
  assumes pull_Cons: "invar q \<Longrightarrow> items q = x # xs \<Longrightarrow> \<exists>q1. pull q = Some (Some x, q1) \<and> items q1 = xs \<and> invar q1"
    and pull_Nil: "items q = [] \<Longrightarrow> pull q = Some (None, q)"
begin

lemma drain_all: "invar q \<Longrightarrow> \<exists>q1. drain pull (length (items q)) q = Some (items q, q1) \<and> items q1 = [] \<and> invar q1"
proof (induction "items q" arbitrary: q)
  case Nil
  then show ?case by (metis drain.simps(1) list.size(3))
next
  case (Cons x xs)
  from pull_Cons [OF Cons.prems Cons.hyps(2) [symmetric]] obtain q1 where q1: "pull q = Some (Some x, q1)" "items q1 = xs" "invar q1"
    by blast
  from Cons.hyps(1) [of q1] q1 obtain q2 where "drain pull (length xs) q1 = Some (xs, q2)" "items q2 = []" "invar q2" by auto
  with q1 show ?case by (simp flip: Cons.hyps(2))
qed

end

section \<open>What a subscriber sees\<close>

definition queue_ok :: "video_queue \<Rightarrow> bool" where
  "queue_ok q \<longleftrightarrow> counts (vq_pictures q) (map sample_picture (vq_samples q)) \<and> vq_bytes q = sum_list (map sample_size (vq_samples q)) \<and>
     vq_bytes q \<le> MAX_BYTES \<and> length (vq_samples q) \<le> MAX_SAMPLES \<and> fcard (fmdom (vq_pictures q)) \<le> MAX_PICTURES"

lemma pop_Cons:
  assumes "queue_ok q" "vq_samples q = s # rest"
  obtains q' where "queue_pop q = Some (Some s, q')" "vq_samples q' = rest" "vq_lagged q' = vq_lagged q" "vq_closed q' = vq_closed q" "queue_ok q'"
proof -
  have "counts (vq_pictures q) (sample_picture s # map sample_picture rest)" using assms by (simp add: queue_ok_def)
  from counts_unbump [OF this] obtain m where m: "unbump (sample_picture s) (vq_pictures q) = Some m" "counts m (map sample_picture rest)" by blast
  have b: "vq_bytes q = sample_size s + sum_list (map sample_size rest)" using assms by (simp add: queue_ok_def)
  let ?q' = "q\<lparr>vq_samples := rest, vq_bytes := sum_list (map sample_size rest), vq_pictures := m\<rparr>"
  have "queue_pop q = Some (Some s, ?q')" by (simp add: queue_pop_def assms(2) b m)
  moreover have "card (set (map sample_picture rest)) \<le> card (set (map sample_picture (vq_samples q)))"
    by (intro card_mono) (auto simp: assms(2))
  moreover have "fcard (fmdom (vq_pictures q)) = card (set (map sample_picture (vq_samples q)))"
    using assms(1) by (intro counts_card) (simp add: queue_ok_def)
  ultimately have "queue_ok ?q'" using assms m(2) b counts_card [OF m(2)] by (simp add: queue_ok_def)
  with \<open>queue_pop q = Some (Some s, ?q')\<close> show thesis by (intro that [of ?q']) simp_all
qed

interpretation subscriber: drained_queue vq_samples queue_pop queue_ok
  by unfold_locales (meson pop_Cons, simp add: queue_pop_def)

lemma evict_ok:
  assumes "queue_ok q"
  shows "\<exists>q' n. evict key b q = Some q' \<and> n \<le> length (vq_samples q) \<and> vq_samples q' = drop n (vq_samples q) \<and>
     vq_lagged q' = vq_lagged q + n \<and> vq_closed q' = vq_closed q \<and> queue_ok q' \<and> (vq_samples q' = [] \<or> \<not> under_pressure key b q') \<and>
     (\<not> under_pressure key b q \<longrightarrow> n = 0)"
  using assms
proof (induction "length (vq_samples q)" arbitrary: q)
  case 0
  then show ?case by (intro exI [of _ q] exI [of _ 0]) (simp add: evict.simps)
next
  case (Suc k)
  show ?case
  proof (cases "under_pressure key b q")
    case True
    from Suc.hyps(2) obtain s rest where sr: "vq_samples q = s # rest" by (cases "vq_samples q") auto
    from pop_Cons [OF Suc.prems sr] obtain q1 where q1: "queue_pop q = Some (Some s, q1)" "vq_samples q1 = rest"
      "vq_lagged q1 = vq_lagged q" "vq_closed q1 = vq_closed q" "queue_ok q1" by blast
    let ?q2 = "q1\<lparr>vq_lagged := vq_lagged q1 + 1\<rparr>"
    have "queue_ok ?q2" "k = length (vq_samples ?q2)" using q1 Suc.hyps(2) sr by (simp_all add: queue_ok_def)
    from Suc.hyps(1) [OF this(2,1)] obtain q' n where "evict key b ?q2 = Some q'" "n \<le> length (vq_samples ?q2)"
      "vq_samples q' = drop n (vq_samples ?q2)" "vq_lagged q' = vq_lagged ?q2 + n" "vq_closed q' = vq_closed ?q2" "queue_ok q'"
      "vq_samples q' = [] \<or> \<not> under_pressure key b q'" by (elim exE conjE)
    moreover have "evict key b q = evict key b ?q2" using True sr q1(1) by (simp add: evict.simps [of key b q])
    ultimately show ?thesis using sr True q1 by (intro exI [of _ q'] exI [of _ "Suc n"]) simp
  qed (use Suc.prems in \<open>intro exI [of _ q] exI [of _ 0], simp add: evict.simps\<close>)
qed

lemma push_ok:
  assumes "queue_ok q"
  shows "\<exists>q' n. queue_push s q = Some q' \<and> n \<le> Suc (length (vq_samples q)) \<and> vq_samples q' = drop n (vq_samples q @ [s]) \<and>
     vq_lagged q' = vq_lagged q + n \<and> vq_closed q' = vq_closed q \<and> queue_ok q' \<and>
     (\<not> under_pressure (sample_picture s) (sample_size s) q \<and> sample_size s \<le> MAX_BYTES \<longrightarrow> n = 0)"
proof -
  let ?k = "sample_picture s" and ?b = "sample_size s"
  from evict_ok [OF assms, of ?k ?b] obtain q1 n where e: "evict ?k ?b q = Some q1" "n \<le> length (vq_samples q)"
    "vq_samples q1 = drop n (vq_samples q)" "vq_lagged q1 = vq_lagged q + n" "vq_closed q1 = vq_closed q" "queue_ok q1"
    "vq_samples q1 = [] \<or> \<not> under_pressure ?k ?b q1" "\<not> under_pressure ?k ?b q \<longrightarrow> n = 0" by (elim exE conjE)
  show ?thesis
  proof (cases "MAX_BYTES < ?b")
    case True
    then have "under_pressure ?k ?b q1" by (auto simp: under_pressure_def)
    with e have "length (vq_samples q) = n" by simp
    with True e show ?thesis
      by (intro exI [of _ "q1\<lparr>vq_lagged := vq_lagged q1 + 1\<rparr>"] exI [of _ "Suc n"]) (simp add: queue_push_def queue_ok_def fcard_fempty)
  next
    case False
    let ?q2 = "q1\<lparr>vq_bytes := vq_bytes q1 + ?b, vq_pictures := bump ?k (vq_pictures q1), vq_samples := vq_samples q1 @ [s]\<rparr>"
    have c1: "counts (vq_pictures q1) (map sample_picture (vq_samples q1))" using e(6) by (simp add: queue_ok_def)
    then have c2: "counts (vq_pictures ?q2) (map sample_picture (vq_samples ?q2))" using counts_bump by fastforce
    have "card (set (map sample_picture (vq_samples ?q2))) \<le> MAX_PICTURES \<and> vq_bytes q1 + ?b \<le> MAX_BYTES \<and> length (vq_samples q1) < MAX_SAMPLES"
    proof (cases "vq_samples q1 = []")
      case True
      with e(6) False show ?thesis
        by (simp add: queue_ok_def MAX_PICTURES_def VIDEO_RECEIVE_REPAIR_MAX_FRAMES_def MAX_PENDING_FRAMES_def MAX_SAMPLES_def)
    next
      case ne: False
      with e(7) have np: "\<not> under_pressure ?k ?b q1" by simp
      have known: "fmlookup (vq_pictures q1) ?k = None \<longleftrightarrow> ?k \<notin> sample_picture ` set (vq_samples q1)"
        using counts_lookup [OF c1, of ?k] by simp
      have "fcard (fmdom (vq_pictures q1)) = card (sample_picture ` set (vq_samples q1))" using counts_card [OF c1] by simp
      with np known e(6) show ?thesis by (auto simp: under_pressure_def queue_ok_def card_insert_if)
    qed
    with c2 counts_card [OF c2] e(6) have "queue_ok ?q2" by (simp add: queue_ok_def)
    with False e show ?thesis by (intro exI [of _ ?q2] exI [of _ n]) (simp add: queue_push_def)
  qed
qed

datatype queue_op = OpSend inbound_video | OpRecv

fun run_queue :: "queue_op list \<Rightarrow> video_queue \<Rightarrow> (recv_outcome list \<times> video_queue) option" where
  "run_queue [] q = Some ([], q)"
| "run_queue (OpSend s # ops) q = Option.bind (queue_push s q) (run_queue ops)"
| "run_queue (OpRecv # ops) q =
     Option.bind (queue_recv q) (\<lambda>(out, q1). map_option (\<lambda>(outs, q2). (case_option [] (\<lambda>x. [x]) out @ outs, q2)) (run_queue ops q1))"

fun sent_samples :: "queue_op list \<Rightarrow> inbound_video list" where
  "sent_samples [] = []"
| "sent_samples (OpSend s # ops) = s # sent_samples ops"
| "sent_samples (OpRecv # ops) = sent_samples ops"

text \<open>What of a stream is left once the outcomes have accounted for it: a lag of so many for as many samples, each received one for itself.\<close>

fun explain :: "inbound_video list \<Rightarrow> recv_outcome list \<Rightarrow> inbound_video list option" where
  "explain xs [] = Some xs"
| "explain xs (Lagged n # outs) = (if n \<le> length xs then explain (drop n xs) outs else None)"
| "explain xs (Received s # outs) = (case xs of [] \<Rightarrow> None | x # xs \<Rightarrow> if x = s then explain xs outs else None)"
| "explain xs (Closed # outs) = explain xs outs"

lemma run_explained:
  assumes "queue_ok q" "length lost = vq_lagged q"
  shows "\<exists>outs q' lost'. run_queue ops q = Some (outs, q') \<and> queue_ok q' \<and> length lost' = vq_lagged q' \<and>
     explain (lost @ vq_samples q @ sent_samples ops) outs = Some (lost' @ vq_samples q')"
  using assms
proof (induction ops arbitrary: q lost rule: sent_samples.induct)
  case 1
  then show ?case by auto
next
  case (2 s ops)
  from push_ok [OF "2.prems"(1), of s] obtain q1 n where p: "queue_push s q = Some q1" "n \<le> Suc (length (vq_samples q))"
    "vq_samples q1 = drop n (vq_samples q @ [s])" "vq_lagged q1 = vq_lagged q + n" "queue_ok q1" by (elim exE conjE)
  let ?lost = "lost @ take n (vq_samples q @ [s])"
  have "length ?lost = vq_lagged q1" using p(2,4) "2.prems"(2) by simp
  from "2.IH" [OF p(5) this] obtain outs q' lost' where r: "run_queue ops q1 = Some (outs, q')" "queue_ok q'" "length lost' = vq_lagged q'"
    "explain (?lost @ vq_samples q1 @ sent_samples ops) outs = Some (lost' @ vq_samples q')" by (elim exE conjE)
  have "?lost @ vq_samples q1 @ sent_samples ops = lost @ (take n (vq_samples q @ [s]) @ drop n (vq_samples q @ [s])) @ sent_samples ops"
    unfolding p(3) by (simp only: append_assoc)
  also have "\<dots> = lost @ vq_samples q @ s # sent_samples ops" unfolding append_take_drop_id by simp
  finally have eq: "?lost @ vq_samples q1 @ sent_samples ops = lost @ vq_samples q @ s # sent_samples ops" .
  have "explain (lost @ vq_samples q @ sent_samples (OpSend s # ops)) outs = Some (lost' @ vq_samples q')"
    using r(4) unfolding eq by (simp only: sent_samples.simps)
  moreover have "run_queue (OpSend s # ops) q = Some (outs, q')" using r(1) p(1) by simp
  ultimately show ?case using r(2,3) by blast
next
  case (3 ops)
  show ?case
  proof (cases "vq_lagged q = 0")
    case False
    let ?q1 = "q\<lparr>vq_lagged := 0\<rparr>"
    have "queue_ok ?q1" "length [] = vq_lagged ?q1" using "3.prems"(1) by (simp_all add: queue_ok_def)
    from "3.IH" [OF this] obtain outs q' lost' where "run_queue ops ?q1 = Some (outs, q')" "queue_ok q'" "length lost' = vq_lagged q'"
      "explain (vq_samples q @ sent_samples ops) outs = Some (lost' @ vq_samples q')" by auto
    with False "3.prems"(2) show ?thesis by (auto simp: queue_recv_def)
  next
    case True
    with "3.prems"(2) have l: "lost = []" by simp
    show ?thesis
    proof (cases "vq_samples q")
      case Nil
      from "3.IH" [OF "3.prems"] obtain outs q' lost' where "run_queue ops q = Some (outs, q')" "queue_ok q'" "length lost' = vq_lagged q'"
        "explain (lost @ vq_samples q @ sent_samples ops) outs = Some (lost' @ vq_samples q')" by (elim exE conjE)
      with True Nil l show ?thesis by (auto simp: queue_recv_def queue_pop_def)
    next
      case (Cons s rest)
      from pop_Cons [OF "3.prems"(1) Cons] obtain q1 where q1: "queue_pop q = Some (Some s, q1)" "vq_samples q1 = rest"
        "vq_lagged q1 = vq_lagged q" "queue_ok q1" by blast
      from "3.IH" [OF q1(4), of "[]"] q1 True obtain outs q' lost' where "run_queue ops q1 = Some (outs, q')" "queue_ok q'"
        "length lost' = vq_lagged q'" "explain (rest @ sent_samples ops) outs = Some (lost' @ vq_samples q')" by auto
      with True Cons q1 l show ?thesis by (auto simp: queue_recv_def)
    qed
  qed
qed

text \<open>
  C30: A subscriber is told of every picture it misses. However fast the engine sends and however slowly a subscriber reads, its queue
  stays within its limits and its accounts are exact; and what it receives is what was sent, in order, with every missing
  sample counted, in its place, in the lag it is told of before the next one.
\<close>

theorem subscriber_stream_exact:
  "\<exists>outs q lost. run_queue ops empty_queue = Some (outs, q) \<and> queue_ok q \<and>
     explain (sent_samples ops) outs = Some (lost @ vq_samples q) \<and> length lost = vq_lagged q"
proof -
  have "queue_ok empty_queue" "length ([] :: inbound_video list) = vq_lagged empty_queue" by (simp_all add: empty_queue_def queue_ok_def fcard_fempty)
  from run_explained [OF this, of ops] show ?thesis by (auto simp: empty_queue_def)
qed

section \<open>A repaired release\<close>

definition event_timestamp :: "assembly_event \<Rightarrow> u32" where
  "event_timestamp ev = (case ev of Sample v \<Rightarrow> vs_rtp_timestamp v | Discontinuity ts _ \<Rightarrow> ts)"

text \<open>What a subscriber finds in its queue for one stamped event: the unit, or the empty sample that stands for a discontinuity.\<close>

definition inbound_of :: "string \<Rightarrow> u8 \<Rightarrow> u64 \<times> assembly_event \<Rightarrow> inbound_video" where
  "inbound_of from lane ev =
     \<lparr>iv_from = from, iv_sample = (case snd ev of
        Sample v \<Rightarrow> v
      | Discontinuity ts _ \<Rightarrow> \<lparr>vs_rtp_timestamp = ts, vs_key = False, vs_lane = lane, vs_sequence = fst ev, vs_data = []\<rparr>)\<rparr>"

definition released :: "string \<Rightarrow> u8 \<Rightarrow> u64 \<Rightarrow> assembly_event list \<Rightarrow> inbound_video list" where
  "released from lane s events = map (inbound_of from lane) (fst (stamp_events lane s events))"

lemma released_pictures: "sample_picture ` set (released from lane s events) \<subseteq> (\<lambda>ts. (from, lane, ts)) ` event_timestamp ` set events"
proof (induction events arbitrary: s)
  case (Cons ev evs)
  from Cons.IH [of "next_sequence s"] show ?case
    by (cases ev) (auto simp: released_def inbound_of_def sample_picture_def event_timestamp_def Let_def case_prod_beta)
qed (simp add: released_def)

lemma fanout_send_each:
  assumes "\<forall>x \<in> set subs. fst x \<and> queue_ok (snd x)"
  shows "\<exists>subs'. map_option snd (fanout_send s subs) = Some subs' \<and> length subs' = length subs \<and> (\<forall>x \<in> set subs'. fst x \<and> queue_ok (snd x)) \<and>
     (\<forall>i < length subs. queue_push s (snd (subs ! i)) = Some (snd (subs' ! i)))"
proof -
  let ?g = "\<lambda>x. the (queue_push s (snd x))"
  have live: "filter fst subs = subs" using assms by (intro filter_True) blast
  have push: "queue_push s (snd x) = Some (?g x) \<and> queue_ok (?g x)" if "x \<in> set subs" for x
    using push_ok [of "snd x" s] assms that by auto
  have "those (map f xs) = Some (map g xs)" if "\<forall>x \<in> set xs. f x = Some (g x)" for f :: "bool \<times> video_queue \<Rightarrow> video_queue option" and g xs
    using that by (induction xs) auto
  moreover have "\<forall>x \<in> set subs. (\<lambda>(_, q). queue_push s q) x = Some (?g x)" using push by (simp add: case_prod_beta)
  ultimately have "those (map (\<lambda>(_, q). queue_push s q) subs) = Some (map ?g subs)" .
  with live push show ?thesis by (intro exI [of _ "map (Pair True) (map ?g subs)"]) (auto simp: fanout_send_def)
qed

lemma dispatch_each:
  assumes "\<forall>x \<in> set subs. fst x \<and> queue_ok (snd x)"
  shows "\<exists>subs'. dispatch_events from lane evs subs = Some subs' \<and> length subs' = length subs \<and>
     (\<forall>i < length subs. run_queue (map OpSend (map (inbound_of from lane) evs)) (snd (subs ! i)) = Some ([], snd (subs' ! i)))"
  using assms
proof (induction evs arbitrary: subs)
  case (Cons ev evs)
  from fanout_send_each [OF Cons.prems, of "inbound_of from lane ev"] obtain subs1 where one:
    "map_option snd (fanout_send (inbound_of from lane ev) subs) = Some subs1" "length subs1 = length subs"
    "\<forall>x \<in> set subs1. fst x \<and> queue_ok (snd x)" "\<forall>i < length subs. queue_push (inbound_of from lane ev) (snd (subs ! i)) = Some (snd (subs1 ! i))"
    by blast
  obtain seq e where ev: "ev = (seq, e)" by (cases ev)
  have "dispatch_events from lane (ev # evs) subs = dispatch_events from lane evs subs1"
    using one(1) by (cases e) (auto simp: ev dispatch_video_def dispatch_video_discontinuity_def inbound_of_def)
  with Cons.IH [OF one(3)] one(2,4) show ?case by auto
qed simp

lemma collect_timestamps:
  "event_timestamp ` set (fst (collect_loop dp now a)) \<subseteq> au_timestamp ` set (as_pending a)"
proof -
  have ts: "vs_rtp_timestamp v = au_timestamp au" if "depacketize_if_complete dp prev au = Inr (Some (v, e))" for prev au v e
    using that by (auto simp: depacketize_if_complete_def Let_def split: option.splits if_splits)
  show ?thesis
    by (rule collect_induct [where P = "\<lambda>a evs a'. event_timestamp ` set evs \<subseteq> au_timestamp ` set (as_pending a)"])
      (auto simp: event_timestamp_def dest: ts split: if_splits)
qed

lemma start_clocks_timestamps: "map au_timestamp (start_clocks now aus) = map au_timestamp aus"
  by (induction now aus rule: start_clocks.induct) simp_all

lemma mark_end_timestamps: "au \<in> set (mark_end seq x) \<Longrightarrow> au_timestamp au = au_timestamp x"
  by (auto simp: mark_end_def Let_def split: if_splits)

lemma store_timestamps:
  assumes "pos < length (as_pending a)" shows "au_timestamp ` set (as_pending (store pkt seq pos a)) \<subseteq> au_timestamp ` set (as_pending a)"
proof -
  let ?au = "add_part seq (rp_payload pkt) (as_pending a ! pos)"
  have "as_pending a ! pos \<in> set (as_pending a)" using assms by simp
  then have "au_timestamp x \<in> au_timestamp ` set (as_pending a)" if "x \<in> set (if rp_marker pkt then mark_end seq ?au else [?au])" for x
    using that by (auto dest: mark_end_timestamps split: if_splits)
  moreover have "set (as_pending (store pkt seq pos a)) \<subseteq> set (if rp_marker pkt then mark_end seq ?au else [?au]) \<union> set (as_pending a)"
    using set_take_subset [of pos "as_pending a"] set_drop_subset [of "Suc pos" "as_pending a"] by (auto simp: store_def Let_def)
  ultimately show ?thesis by blast
qed

lemma take_in_timestamps:
  "au_timestamp ` set (as_pending (take_in pkt now a)) \<subseteq> insert (rp_timestamp pkt) (au_timestamp ` set (as_pending a))"
proof (cases "rp_payload pkt = []")
  case False
  obtain seq a1 where u: "unwrap_seq (rp_sequence_number pkt) a = (seq, a1)" by (metis prod.exhaust)
  then have p: "as_pending a1 = as_pending a" by (auto simp: unwrap_seq_def Let_def split: option.splits prod.splits)
  show ?thesis
  proof (cases "pending_position (rp_timestamp pkt) seq a1")
    case (Some pos)
    then have "pos < length (as_pending a1)"
      using position_from_owner [of "rp_timestamp pkt" seq "as_prev_end a1" 0 "as_pending a1" pos] by (auto simp: pending_position_def)
    from store_timestamps [OF this, of pkt seq] show ?thesis using False u Some p by (auto simp: take_in_def)
  next
    case None
    show ?thesis
    proof (cases "admit_at (rp_timestamp pkt) seq now a1")
      case (Some nb)
      obtain n blocked where nb: "nb = (n, blocked)" by (cases nb)
      let ?a2 = "open_unit (rp_timestamp pkt) n blocked a1"
      have "n \<le> length (as_pending a1)" using admit_bound Some nb by blast
      then have "n < length (as_pending ?a2)" by (simp add: open_unit_def insert_at_def)
      from store_timestamps [OF this, of pkt seq]
      have "au_timestamp ` set (as_pending (take_in pkt now a)) \<subseteq> au_timestamp ` set (as_pending ?a2)"
        using False u None Some nb by (simp add: take_in_def)
      also have "\<dots> \<subseteq> insert (rp_timestamp pkt) (au_timestamp ` set (as_pending a))"
        by (auto simp: open_unit_def insert_at_def p dest: in_set_takeD in_set_dropD)
      finally show ?thesis .
    qed (use None False u p in \<open>auto simp: take_in_def\<close>)
  qed
qed (auto simp: take_in_def)

lemma released_few:
  assumes "pending_frames (as_pending a) \<le> MAX_PENDING_FRAMES"
  shows "card (sample_picture ` set (released from lane s (fst (push_at dp pkt now a)))) \<le> MAX_PICTURES"
proof -
  let ?T = "au_timestamp ` set (as_pending a)" and ?a1 = "take_in pkt now a"
  have "card ?T \<le> pending_frames (as_pending a)"
    unfolding pending_frames_def using card_length [of "remdups_adj (map au_timestamp (as_pending a))"] by simp
  moreover have "event_timestamp ` set (fst (push_at dp pkt now a)) \<subseteq> insert (rp_timestamp pkt) ?T"
  proof -
    have "event_timestamp ` set (fst (push_at dp pkt now a)) \<subseteq> au_timestamp ` set (start_clocks now (as_pending ?a1))"
      using collect_timestamps [of dp now "?a1\<lparr>as_pending := start_clocks now (as_pending ?a1)\<rparr>"] by (simp add: push_at_def collect_ready_def)
    also have "\<dots> = au_timestamp ` set (as_pending ?a1)" by (metis set_map start_clocks_timestamps)
    finally show ?thesis using take_in_timestamps [of pkt now a] by blast
  qed
  then have "card (event_timestamp ` set (fst (push_at dp pkt now a))) \<le> card (insert (rp_timestamp pkt) ?T)" by (intro card_mono) simp_all
  moreover have fin: "finite (event_timestamp ` set (fst (push_at dp pkt now a)))"
    using \<open>event_timestamp ` _ \<subseteq> _\<close> by (rule finite_subset) simp
  moreover have "card (insert (rp_timestamp pkt) ?T) \<le> Suc (card ?T)" by (simp add: card_insert_le_m1 card_insert_if)
  moreover have "card (sample_picture ` set (released from lane s (fst (push_at dp pkt now a)))) \<le>
      card ((\<lambda>ts. (from, lane, ts)) ` event_timestamp ` set (fst (push_at dp pkt now a)))"
    using released_pictures fin by (intro card_mono) auto
  then have "card (sample_picture ` set (released from lane s (fst (push_at dp pkt now a)))) \<le> card (event_timestamp ` set (fst (push_at dp pkt now a)))"
    using card_image_le [OF fin, of "\<lambda>ts. (from, lane, ts)"] by (rule order_trans)
  ultimately show ?thesis using assms by (simp add: MAX_PICTURES_def VIDEO_RECEIVE_REPAIR_MAX_FRAMES_def)
qed

lemma send_all:
  assumes "queue_ok q" "card (sample_picture ` (set (vq_samples q) \<union> set ss)) \<le> MAX_PICTURES"
    and "length (vq_samples q) + length ss \<le> MAX_SAMPLES" "vq_bytes q + sum_list (map sample_size ss) \<le> MAX_BYTES"
  shows "\<exists>q'. run_queue (map OpSend ss) q = Some ([], q') \<and> vq_samples q' = vq_samples q @ ss \<and> vq_lagged q' = vq_lagged q"
  using assms
proof (induction ss arbitrary: q)
  case (Cons s ss)
  have c: "counts (vq_pictures q) (map sample_picture (vq_samples q))" using Cons.prems(1) by (simp add: queue_ok_def)
  have "card (insert (sample_picture s) (sample_picture ` set (vq_samples q))) \<le> card (sample_picture ` (set (vq_samples q) \<union> set (s # ss)))"
    by (intro card_mono) auto
  then have "\<not> under_pressure (sample_picture s) (sample_size s) q"
    using Cons.prems counts_lookup [OF c, of "sample_picture s"] counts_card [OF c] by (auto simp: under_pressure_def card_insert_if split: if_splits)
  moreover have "sample_size s \<le> MAX_BYTES" using Cons.prems(4) by simp
  ultimately obtain q1 where q1: "queue_push s q = Some q1" "vq_samples q1 = vq_samples q @ [s]" "vq_lagged q1 = vq_lagged q" "queue_ok q1"
    using push_ok [OF Cons.prems(1), of s] by auto
  moreover have "vq_bytes q1 = vq_bytes q + sample_size s" using q1(2,4) Cons.prems(1) by (simp add: queue_ok_def)
  ultimately have "\<exists>q'. run_queue (map OpSend ss) q1 = Some ([], q') \<and> vq_samples q' = vq_samples q1 @ ss \<and> vq_lagged q' = vq_lagged q1"
    using Cons.prems by (intro Cons.IH) (simp_all add: insert_commute Un_commute)
  then show ?case using q1 by auto
qed simp

text \<open>
  C31: A repaired stretch reaches a waiting subscriber whole. Whatever one packet releases from an assembler within its bounds, units and
  reports of discontinuities (which travel as empty samples) alike, is of at most sixteen pictures, so that an empty subscriber queue
  takes every one of its samples, in order and with no lag, as long as the release is within the queue's other two limits,
  4096 samples and 64 MiB.
\<close>

theorem repair_release_fits:
  assumes "held_back t (as_pending a)" "evs = fst (stamp_events lane s (fst (push_at dp pkt now a)))"
    and "\<forall>x \<in> set subs. fst x \<and> queue_ok (snd x)" "i < length subs" "snd (subs ! i) = empty_queue"
    and "length evs \<le> MAX_SAMPLES" "sum_list (map (sample_size \<circ> inbound_of from lane) evs) \<le> MAX_BYTES"
  shows "\<exists>subs'. dispatch_events from lane evs subs = Some subs' \<and>
     vq_samples (snd (subs' ! i)) = map (inbound_of from lane) evs \<and> vq_lagged (snd (subs' ! i)) = 0"
proof -
  let ?ss = "map (inbound_of from lane) evs"
  have "?ss = released from lane s (fst (push_at dp pkt now a))" by (simp add: released_def assms(2))
  moreover have "pending_frames (as_pending a) \<le> MAX_PENDING_FRAMES" using assms(1) by (simp add: held_back_def)
  ultimately have "card (sample_picture ` set ?ss) \<le> MAX_PICTURES" using released_few by metis
  moreover have "queue_ok empty_queue" "vq_samples empty_queue = []" "vq_bytes empty_queue = 0" "vq_lagged empty_queue = 0"
    by (simp_all add: empty_queue_def queue_ok_def fcard_fempty)
  ultimately obtain q where "run_queue (map OpSend ?ss) empty_queue = Some ([], q)" "vq_samples q = ?ss" "vq_lagged q = 0"
    using send_all [of empty_queue ?ss] assms(6,7) by (auto simp: comp_def)
  with dispatch_each [OF assms(3), of "from" lane evs] assms(4,5) show ?thesis by fastforce
qed

text \<open>
  A decoder's view of a loss, one packet away: the second unit has lost its first packet, and the packet of the third, late enough to
  end the wait, releases the report of the loss and the third unit together.
\<close>

definition sample_waiting :: assembler where
  "sample_waiting = snd (assemble plain_depacketizer (take 2 lossy_packets) new_assembler)"

theorem repair_release_fits_witness:
  "\<exists>subs'. dispatch_events ''p'' 3 (fst (stamp_events 3 1 (fst (push_at plain_depacketizer (fst (lossy_packets ! 2)) 300 sample_waiting))))
      (subscribe []) = Some subs' \<and>
    vq_samples (snd (subs' ! 0)) =
      [\<lparr>iv_from = ''p'', iv_sample = \<lparr>vs_rtp_timestamp = 8, vs_key = False, vs_lane = 3, vs_sequence = 2, vs_data = []\<rparr>\<rparr>,
       \<lparr>iv_from = ''p'', iv_sample = \<lparr>vs_rtp_timestamp = 9, vs_key = False, vs_lane = 3, vs_sequence = 3, vs_data = ''Ad''\<rparr>\<rparr>] \<and>
    vq_lagged (snd (subs' ! 0)) = 0"
proof -
  let ?evs = "fst (stamp_events 3 1 (fst (push_at plain_depacketizer (fst (lossy_packets ! 2)) 300 sample_waiting)))"
  have w: "sample_waiting = snd (push_at plain_depacketizer (fst (lossy_packets ! 1)) 20 (snd (push_at plain_depacketizer (fst (lossy_packets ! 0)) 10 new_assembler)))"
    by (simp add: sample_waiting_def lossy_packets_def Let_def case_prod_beta)
  have h: "held_back 20 (as_pending sample_waiting)" unfolding w push_at_def [of _ "fst (lossy_packets ! 1)"] collect_ready_def by (rule collect_held_back)
  have r: "map (inbound_of ''p'' 3) ?evs =
      [\<lparr>iv_from = ''p'', iv_sample = \<lparr>vs_rtp_timestamp = 8, vs_key = False, vs_lane = 3, vs_sequence = 2, vs_data = []\<rparr>\<rparr>,
       \<lparr>iv_from = ''p'', iv_sample = \<lparr>vs_rtp_timestamp = 9, vs_key = False, vs_lane = 3, vs_sequence = 3, vs_data = ''Ad''\<rparr>\<rparr>]"
    by code_simp
  have "length ?evs = 2" "sum_list (map (sample_size \<circ> inbound_of ''p'' 3) ?evs) = 4"
    using arg_cong [OF r, of length] arg_cong [OF r, of "\<lambda>ss. sum_list (map sample_size ss)"] by (simp_all add: sample_size_def)
  moreover have "queue_ok empty_queue" by (simp add: empty_queue_def queue_ok_def fcard_fempty)
  ultimately show ?thesis using repair_release_fits [OF h refl, of "subscribe []" 0 3 1 plain_depacketizer "fst (lossy_packets ! 2)" 300 "''p''"] r
    by (simp add: subscribe_def MAX_SAMPLES_def MAX_BYTES_def)
qed

section \<open>The client's hand-off\<close>

definition media_ok :: "media_queue \<Rightarrow> bool" where
  "media_ok q \<longleftrightarrow> (let b = mq_budget q; ps = List.map_filter body_picture (mq_items q) in
     counts (bg_pictures b) ps \<and> bg_other b + length ps = length (mq_items q) \<and>
     bg_bytes b = sum_list (map length (mq_items q)) \<and> bg_items b = length (mq_items q) \<and>
     card (set ps) + bg_other b \<le> mq_capacity q \<and> bg_other b \<le> mq_other_capacity q \<and>
     bg_bytes b \<le> mq_byte_capacity q \<and> bg_items b \<le> MAX_QUEUED_SAMPLES)"

lemma send_media_ok:
  assumes "media_ok q" "try_send body q = (Sent, q')"
  shows "media_ok q' \<and> mq_items q' = mq_items q @ [body] \<and> mq_capacity q' = mq_capacity q \<and> mq_other_capacity q' = mq_other_capacity q \<and>
     mq_byte_capacity q' = mq_byte_capacity q"
proof -
  let ?b = "mq_budget q" and ?ps = "List.map_filter body_picture (mq_items q)"
  have q': "q' = q\<lparr>mq_budget := reserve body ?b, mq_items := mq_items q @ [body]\<rparr>" and n: "\<not> over_budget body q"
    using assms(2) by (auto simp: try_send_def split: if_splits)
  note ok = assms(1) [unfolded media_ok_def Let_def]
  have card: "fcard (fmdom (bg_pictures ?b)) = card (set ?ps)" using ok counts_card by blast
  have known: "fmlookup (bg_pictures ?b) p = None \<longleftrightarrow> p \<notin> set ?ps" for p using ok counts_lookup [of "bg_pictures ?b" ?ps p] by simp
  have ps: "List.map_filter body_picture (mq_items q @ [body]) = ?ps @ List.map_filter body_picture [body]"
    by (simp add: List.map_filter_def)
  have "media_ok q'"
  proof (cases "body_picture body")
    case None
    with n card have "card (set ?ps) + bg_other ?b < mq_capacity q" "bg_other ?b < mq_other_capacity q"
      "bg_bytes ?b + length body \<le> mq_byte_capacity q" "bg_items ?b < MAX_QUEUED_SAMPLES"
      using ok by (auto simp: over_budget_def Let_def)
    with None ok show ?thesis unfolding media_ok_def q' by (simp add: Let_def ps reserve_def List.map_filter_def)
  next
    case (Some p)
    with n card known have "card (insert p (set ?ps)) + bg_other ?b \<le> mq_capacity q"
      "bg_bytes ?b + length body \<le> mq_byte_capacity q" "bg_items ?b < MAX_QUEUED_SAMPLES"
      using ok by (auto simp: over_budget_def Let_def card_insert_if insert_absorb)
    with Some ok counts_bump [of "bg_pictures ?b" ?ps p] show ?thesis
      unfolding media_ok_def q' by (simp add: Let_def ps reserve_def)
  qed
  then show ?thesis by (simp add: q')
qed

lemma map_filter_length: "length (List.map_filter f xs) \<le> length xs"
  by (simp add: List.map_filter_def)

lemma release_ok:
  assumes "media_ok q" "mq_items q = body # rest"
  obtains b where "release body (mq_budget q) = Some b" "media_ok (q\<lparr>mq_items := rest, mq_budget := b\<rparr>)"
proof -
  let ?b = "mq_budget q" and ?ps = "List.map_filter body_picture rest"
  let ?b1 = "?b\<lparr>bg_bytes := sum_list (map length rest), bg_items := length rest\<rparr>"
  note ok = assms(1) [unfolded media_ok_def Let_def assms(2)]
  have sub: "checked_sub (bg_bytes ?b) (length body) = Some (sum_list (map length rest))" "checked_sub (bg_items ?b) 1 = Some (length rest)"
    using ok by (simp_all add: checked_sub_def)
  show thesis
  proof (cases "body_picture body")
    case None
    then have l: "bg_other ?b = Suc (bg_other ?b - 1)" "bg_other ?b + length ?ps = Suc (length rest)"
      using ok map_filter_length [of body_picture rest] by (simp_all add: List.map_filter_simps)
    then have "release body ?b = Some (?b1\<lparr>bg_other := bg_other ?b - 1\<rparr>)"
      using None sub by (simp add: release_def Let_def checked_sub_def [of "bg_other ?b"])
    moreover have "media_ok (q\<lparr>mq_items := rest, mq_budget := ?b1\<lparr>bg_other := bg_other ?b - 1\<rparr>\<rparr>)"
      unfolding media_ok_def Let_def using ok l None by (simp add: List.map_filter_simps) linarith
    ultimately show thesis by (rule that)
  next
    case (Some p)
    then have c: "counts (bg_pictures ?b) (p # ?ps)" using ok by (simp add: List.map_filter_simps)
    from counts_unbump [OF this] obtain m where m: "unbump p (bg_pictures ?b) = Some m" "counts m ?ps" by blast
    then have "release body ?b = Some (?b1\<lparr>bg_pictures := m\<rparr>)" using Some sub by (simp add: release_def Let_def)
    moreover have "card (set ?ps) \<le> card (set (p # ?ps))" by (intro card_mono) auto
    then have "media_ok (q\<lparr>mq_items := rest, mq_budget := ?b1\<lparr>bg_pictures := m\<rparr>\<rparr>)"
      unfolding media_ok_def Let_def using ok m(2) Some by (simp add: List.map_filter_simps)
    ultimately show thesis by (rule that)
  qed
qed

lemma recv_media:
  assumes "media_ok q" "mq_items q = body # rest"
  shows "\<exists>q1. media_recv q = Some (Some body, q1) \<and> mq_items q1 = rest \<and> media_ok q1"
  by (rule release_ok [OF assms]) (use assms(2) in \<open>auto simp: media_recv_def\<close>)

interpretation client: drained_queue mq_items media_recv media_ok
  by unfold_locales (use recv_media in blast, simp add: media_recv_def)

lemma release_all_ok:
  assumes "media_ok q"
  shows "\<exists>b. release_all (mq_items q) (mq_budget q) = Some b \<and> b = \<lparr>bg_pictures = fmempty, bg_other = 0, bg_bytes = 0, bg_items = 0\<rparr>"
  using assms
proof (induction "mq_items q" arbitrary: q)
  case Nil
  then show ?case unfolding media_ok_def Let_def by (cases "mq_budget q") (simp add: List.map_filter_def flip: Nil.hyps)
next
  case (Cons body rest)
  from release_ok [OF Cons.prems Cons.hyps(2) [symmetric]] obtain b where b: "release body (mq_budget q) = Some b"
    "media_ok (q\<lparr>mq_items := rest, mq_budget := b\<rparr>)" by blast
  from Cons.hyps(1) [of "q\<lparr>mq_items := rest, mq_budget := b\<rparr>"] b show ?case by (simp flip: Cons.hyps(2))
qed

datatype media_op = MediaSend bytes | MediaRecv

text \<open>The bodies accepted and received in a run.\<close>

fun run_media :: "media_op list \<Rightarrow> media_queue \<Rightarrow> (bytes list \<times> bytes list \<times> media_queue) option" where
  "run_media [] q = Some ([], [], q)"
| "run_media (MediaSend body # ops) q =
     (case try_send body q of
        (Sent, q1) \<Rightarrow> map_option (\<lambda>(acc, got, q2). (body # acc, got, q2)) (run_media ops q1)
      | (_, q1) \<Rightarrow> run_media ops q1)"
| "run_media (MediaRecv # ops) q =
     Option.bind (media_recv q) (\<lambda>(body, q1).
       map_option (\<lambda>(acc, got, q2). (acc, case_option [] (\<lambda>x. [x]) body @ got, q2)) (run_media ops q1))"

lemma run_media_ok:
  assumes "media_ok q"
  shows "\<exists>acc got q'. run_media ops q = Some (acc, got, q') \<and> media_ok q' \<and> mq_items q @ acc = got @ mq_items q'"
  using assms
proof (induction ops q rule: run_media.induct)
  case (2 body ops q)
  show ?case
  proof (cases "fst (try_send body q) = Sent")
    case True
    then obtain q1 where q1: "try_send body q = (Sent, q1)" by (metis prod.collapse)
    from send_media_ok [OF "2.prems" q1] have "media_ok q1" "mq_items q1 = mq_items q @ [body]" by simp_all
    with "2.IH"(1) [OF q1 [symmetric]] q1 show ?thesis by fastforce
  next
    case False
    then have "snd (try_send body q) = q" by (auto simp: try_send_def)
    with False obtain r where "try_send body q = (r, q)" "r \<noteq> Sent" by (metis prod.collapse)
    with 2 show ?thesis by (cases r) auto
  qed
next
  case (3 ops q)
  show ?case
  proof (cases "mq_items q")
    case Nil
    then have r: "media_recv q = Some (None, q)" by (simp add: media_recv_def)
    from "3.IH" [OF r] 3 r Nil show ?thesis by fastforce
  next
    case (Cons body rest)
    from recv_media [OF "3.prems" Cons] obtain q1 where q1: "media_recv q = Some (Some body, q1)" "mq_items q1 = rest" "media_ok q1" by blast
    from "3.IH" [OF q1(1)] q1 Cons show ?thesis by fastforce
  qed
qed auto

text \<open>
  C32: The hand-off to a client loses nothing it accepted and leaks nothing. From a fresh queue, whatever is offered and read, no
  account underflows; what was received and what is queued is what was accepted, in order; pictures, other frames,
  bytes and samples queued are exactly accounted and within their limits; and a client that goes away gives all of it back.
\<close>

theorem media_handoff_exact:
  "\<exists>acc got q q'. run_media ops media_source_queue = Some (acc, got, q) \<and> acc = got @ mq_items q \<and> media_ok q \<and>
     drop_receiver q = Some q' \<and> mq_items q' = [] \<and>
     mq_budget q' = \<lparr>bg_pictures = fmempty, bg_other = 0, bg_bytes = 0, bg_items = 0\<rparr> \<and> fst (try_send body q') = SendClosed body"
proof -
  have "media_ok media_source_queue"
    by (simp add: media_ok_def media_source_queue_def channel_with_other_capacity_def media_channel_def channel_with_bytes_def List.map_filter_def Let_def)
  from run_media_ok [OF this, of ops] obtain acc got q where r: "run_media ops media_source_queue = Some (acc, got, q)" "media_ok q"
    "mq_items media_source_queue @ acc = got @ mq_items q" by blast
  moreover have "mq_items media_source_queue = []"
    by (simp add: media_source_queue_def channel_with_other_capacity_def media_channel_def channel_with_bytes_def)
  moreover from release_all_ok [OF r(2)] have "drop_receiver q = Some (q\<lparr>mq_items := [],
      mq_budget := \<lparr>bg_pictures = fmempty, bg_other = 0, bg_bytes = 0, bg_items = 0\<rparr>, mq_closed := True\<rparr>)" by (auto simp: drop_receiver_def)
  ultimately show ?thesis by (auto simp: try_send_def)
qed

section \<open>Round trips of the media frames\<close>

lemma le_bytes_length [simp]: "length (le_bytes n v) = n"
  by (induction n v rule: le_bytes.induct) simp_all

lemma le_round_trip: "v < 256 ^ n \<Longrightarrow> le_val (le_bytes n v) = v"
proof (induction n v rule: le_bytes.induct)
  case (2 n v)
  then have "v div 256 < 256 ^ n" by (simp add: less_mult_imp_div_less mult.commute)
  with 2 show ?case by (simp add: le_val_def)
qed (simp add: le_val_def)

text \<open>The frame a client writes, by the layout both sides document, with its length before it.\<close>

definition client_body :: "media_frame \<Rightarrow> bytes" where
  "client_body f =
     [mf_kind f, mf_stream f] @ le_bytes 8 (unat (mf_duration_us f)) @ le_bytes 2 (length (mf_network f)) @ mf_network f @
       le_bytes 2 (length (mf_peer f)) @ mf_peer f @ mf_data f"

definition client_wire :: "media_frame \<Rightarrow> bytes" where
  "client_wire f = le_bytes 4 (length (client_body f)) @ client_body f"

definition frame_ok :: "media_frame \<Rightarrow> bool" where
  "frame_ok f \<longleftrightarrow> utf8_ok (mf_network f) \<and> utf8_ok (mf_peer f) \<and> length (mf_network f) < 2 ^ 16 \<and> length (mf_peer f) < 2 ^ 16 \<and>
     length (client_body f) \<le> MAX_MEDIA_FRAME_BYTES"

lemma rd_append [simp]: "length a = n \<Longrightarrow> rd n (a @ b) = Some (a, b)"
  by (simp add: rd_def)

lemma rd_str_append: "utf8_ok s \<Longrightarrow> length s < 2 ^ 16 \<Longrightarrow> rd_str (le_bytes 2 (length s) @ s @ b) = Some (s, b)"
  by (simp add: rd_str_def le_round_trip)

lemma decode_client: assumes "frame_ok f" shows "decode_media_frame (client_body f) = Some f"
proof -
  have "unat (mf_duration_us f) < 256 ^ 8" using unsigned_less [of "mf_duration_us f", where ?'a = nat] by simp
  then have d: "of_nat (le_val (le_bytes 8 (unat (mf_duration_us f)))) = mf_duration_us f" by (simp add: le_round_trip)
  have r: "rd (Suc 0) (x # b) = Some ([x], b)" for x b by (simp add: rd_def)
  have s: "utf8_ok (mf_network f)" "utf8_ok (mf_peer f)" "length (mf_network f) < 2 ^ 16" "length (mf_peer f) < 2 ^ 16"
    using assms by (simp_all add: frame_ok_def)
  show ?thesis by (simp add: client_body_def decode_media_frame_def r d rd_str_append [OF s(1,3)] rd_str_append [OF s(2,4), of "mf_data f"])
qed

lemma pipe_read:
  assumes "length h = 4"
  shows "run_media_track_pipe joined (h @ rest) =
    (if MAX_MEDIA_FRAME_BYTES < le_val h \<or> length rest < le_val h then []
     else (case decode_media_frame (take (le_val h) rest) of None \<Rightarrow> [] | Some f \<Rightarrow> if routed_frame joined f then [f] else []) @
       run_media_track_pipe joined (drop (le_val h) rest))"
  using assms by (subst run_media_track_pipe.simps) (simp add: Let_def)

lemma client_length: assumes "frame_ok f" shows "le_val (le_bytes 4 (length (client_body f))) = length (client_body f)"
  using assms by (intro le_round_trip) (simp add: frame_ok_def MAX_MEDIA_FRAME_BYTES_def)

lemma pipe_frame:
  assumes "frame_ok f"
  shows "run_media_track_pipe joined (client_wire f @ b) = (if routed_frame joined f then [f] else []) @ run_media_track_pipe joined b"
proof -
  have "length (client_body f) \<le> MAX_MEDIA_FRAME_BYTES" using assms by (simp add: frame_ok_def)
  then show ?thesis unfolding client_wire_def append_assoc by (subst pipe_read) (simp_all add: client_length [OF assms] decode_client [OF assms])
qed

lemma pipe_torn:
  assumes "frame_ok f" "k < length (client_wire f)" shows "run_media_track_pipe joined (take k (client_wire f)) = []"
proof (cases "k < 4")
  case False
  have "take k (client_wire f) = le_bytes 4 (length (client_body f)) @ take (k - 4) (client_body f)"
    using False by (simp add: client_wire_def)
  moreover have "k - 4 < length (client_body f)" using assms(2) False by (simp add: client_wire_def)
  ultimately show ?thesis by (simp add: pipe_read client_length [OF assms(1)])
qed (simp add: run_media_track_pipe.simps)

lemma get_range_mid: "length a = i \<Longrightarrow> length b = n \<Longrightarrow> get_range i (i + n) (a @ b @ c) = Some b"
  by (simp add: get_range_def)

lemma inbound_picture:
  assumes "length from < 2 ^ 16"
  shows "body_picture (encode_inbound_frame MEDIA_KIND_VIDEO key lane ts from data) = Some (from, lane, unat ts)"
proof -
  have ts: "le_val (le_bytes 4 (unat ts)) = unat ts" using unsigned_less [of ts, where ?'a = nat] by (intro le_round_trip) simp
  have n: "le_val (le_bytes 2 (length from)) = length from" using assms by (intro le_round_trip) simp
  obtain b0 b1 where b: "le_bytes 2 (length from) = [b0, b1]"
    using le_bytes_length [of 2 "length from"] by (auto simp: numeral_2_eq_2 length_Suc_conv simp del: le_bytes_length)
  define head where "head = [MEDIA_KIND_VIDEO, if key then CHR 0x01 else CHR 0x00, lane] @ le_bytes 4 (unat ts) @ [b0, b1]"
  have h: "length head = 9" "head ! 2 = lane" "take 4 (drop 3 head) = le_bytes 4 (unat ts)" "head ! 7 = b0" "head ! 8 = b1"
    by (simp_all add: head_def nth_append)
  have e: "encode_inbound_frame MEDIA_KIND_VIDEO key lane ts from data = head @ from @ data"
    by (simp add: encode_inbound_frame_def head_def b)
  have "hd head = MEDIA_KIND_VIDEO" by (simp add: head_def)
  then obtain r where r: "head = MEDIA_KIND_VIDEO # r" using h(1) by (cases head) auto
  have "get_range 0 9 (head @ from @ data) = Some head" using h(1) by (simp add: get_range_def)
  moreover have "get_range 9 (9 + length from) (head @ from @ data) = Some from" using h(1) by (simp add: get_range_mid)
  ultimately show ?thesis unfolding e body_picture_def using n b ts h by (simp add: Let_def r)
qed

text \<open>
  C33: The media pipe reads what a client writes. A stream of frames laid out as documented gives the tracks exactly the frames of joined
  networks and known kinds, in order, and a frame torn off by a closed connection gives nothing; and the frame the
  daemon writes for a video sample is counted under its own peer, lane and timestamp.
\<close>

theorem media_pipe_round_trip:
  assumes "\<forall>f \<in> set fs. frame_ok f" "frame_ok torn" "k < length (client_wire torn)" "length from < 2 ^ 16"
  shows "run_media_track_pipe joined (concat (map client_wire fs) @ take k (client_wire torn)) = filter (routed_frame joined) fs \<and>
     body_picture (encode_inbound_frame MEDIA_KIND_VIDEO key lane ts from data) = Some (from, lane, unat ts)"
proof
  show "run_media_track_pipe joined (concat (map client_wire fs) @ take k (client_wire torn)) = filter (routed_frame joined) fs"
    using assms(1) by (induction fs) (simp_all add: pipe_torn [OF assms(2,3)] pipe_frame)
qed (rule inbound_picture [OF assms(4)])

theorem media_pipe_round_trip_witness:
  "run_media_track_pipe (\<lambda>n. n = ''home'')
     (concat (map client_wire
        [\<lparr>mf_kind = CHR 0x00, mf_stream = CHR 0x03, mf_duration_us = 33333, mf_network = ''home'', mf_peer = ''p'', mf_data = ''xyz''\<rparr>,
         \<lparr>mf_kind = CHR 0x00, mf_stream = CHR 0x03, mf_duration_us = 1, mf_network = ''away'', mf_peer = ''p'', mf_data = []\<rparr>]) @
      take 5 (client_wire \<lparr>mf_kind = CHR 0x01, mf_stream = CHR 0x00, mf_duration_us = 2, mf_network = ''home'', mf_peer = ''p'', mf_data = []\<rparr>)) =
   [\<lparr>mf_kind = CHR 0x00, mf_stream = CHR 0x03, mf_duration_us = 33333, mf_network = ''home'', mf_peer = ''p'', mf_data = ''xyz''\<rparr>] \<and>
   body_picture (encode_inbound_frame MEDIA_KIND_VIDEO True (CHR 0x02) 9000 ''p'' ''xyz'') = Some (''p'', CHR 0x02, unat (9000 :: u32))"
proof -
  have u: "utf8_ok ''home''" "utf8_ok ''away''" "utf8_ok ''p''" by code_simp+
  let ?a = "\<lparr>mf_kind = CHR 0x00, mf_stream = CHR 0x03, mf_duration_us = 33333, mf_network = ''home'', mf_peer = ''p'', mf_data = ''xyz''\<rparr>"
  let ?b = "\<lparr>mf_kind = CHR 0x00, mf_stream = CHR 0x03, mf_duration_us = 1, mf_network = ''away'', mf_peer = ''p'', mf_data = []\<rparr>"
  let ?c = "\<lparr>mf_kind = CHR 0x01, mf_stream = CHR 0x00, mf_duration_us = 2, mf_network = ''home'', mf_peer = ''p'', mf_data = []\<rparr>"
  have ok: "\<forall>f \<in> set [?a, ?b]. frame_ok f" "frame_ok ?c"
    by (simp_all add: frame_ok_def u client_body_def MAX_MEDIA_FRAME_BYTES_def del: utf8_ok.simps)
  have k: "5 < length (client_wire ?c)" by (simp add: client_wire_def client_body_def)
  have p: "length ''p'' < 2 ^ 16" by simp
  have "filter (routed_frame (\<lambda>n. n = ''home'')) [?a, ?b] = [?a]" by (simp add: routed_frame_def MEDIA_KIND_VIDEO_def)
  with media_pipe_round_trip [OF ok k p, where joined = "\<lambda>n. n = ''home''" and key = True and lane = "CHR 0x02" and ts = 9000 and data = "''xyz''"]
  show ?thesis by (simp only: simp_thms)
qed

end
