(* ===== verification/Relay_Server.thy ===== *)
theory Relay_Server
  imports Routing Complex_Main
begin

text \<open>
  The self-hosted signaling relay, \<open>server.rs\<close> of \<open>myownmesh-signaling\<close>, with the events of \<open>nostr/event.rs\<close> it stores and
  forwards. One lock guards \<open>HubInner\<close>, so each of its methods is a function on the record \<open>hub\<close>.

  The record \<open>nostr_lib\<close> stands for serde's text format, SHA-256, the hex crate and the Schnorr library. A frame is the
  JSON value whose text is sent; a connection's \<open>ce_out\<close> is what was queued for its socket. Instants are milliseconds; the
  floating-point bucket is taken over the rationals; connection numbers and counts are naturals, since a process does not open
  \<open>2 ^ 32\<close> connections. Maps are iterated in key order. The sockets and the forwarded client address are left out.
\<close>

section \<open>Events\<close>

record nostr_lib =
  nl_parse :: "string \<Rightarrow> json option"
  nl_render :: "json \<Rightarrow> string"
  nl_sha256 :: "bytes \<Rightarrow> bytes"
  nl_hex :: "bytes \<Rightarrow> string"
  nl_unhex :: "string \<Rightarrow> bytes option"
  nl_xonly :: "bytes \<Rightarrow> bool"
  nl_signature :: "bytes \<Rightarrow> bool"
  nl_schnorr :: "bytes \<Rightarrow> bytes \<Rightarrow> bytes \<Rightarrow> bool"
  nl_sign :: "bytes \<Rightarrow> bytes \<Rightarrow> bytes"

record nostr_event =
  ne_id :: string
  ne_pubkey :: string
  ne_created_at :: u64
  ne_kind :: "16 word"
  ne_tags :: "string list list"
  ne_content :: string
  ne_sig :: string

record nostr_identity =
  ni_keypair :: bytes
  ni_pubkey_hex :: string

definition SIGNALING_EVENT_KIND :: "16 word" where "SIGNALING_EVENT_KIND = 1077"
definition SIGNALING_EPHEMERAL_KIND :: "16 word" where "SIGNALING_EPHEMERAL_KIND = 21077"

fun as_array :: "json \<Rightarrow> json list option" where
  "as_array (JArr vs) = Some vs"
| "as_array _ = None"

definition tags_json :: "string list list \<Rightarrow> json" where
  "tags_json tags = JArr (map (\<lambda>t. JArr (map JStr t)) tags)"

definition id_payload :: "string \<Rightarrow> u64 \<Rightarrow> 16 word \<Rightarrow> string list list \<Rightarrow> string \<Rightarrow> json" where
  "id_payload pubkey created_at kind tags content =
     JArr [JUInt 0, JStr pubkey, JUInt created_at, JUInt (ucast kind), tags_json tags, JStr content]"

definition compute_event_id :: "nostr_lib \<Rightarrow> json \<Rightarrow> bytes" where
  "compute_event_id l payload = nl_sha256 l (nl_render l payload)"

definition make_event :: "nostr_lib \<Rightarrow> nostr_identity \<Rightarrow> 16 word \<Rightarrow> string list list \<Rightarrow> string \<Rightarrow> u64 \<Rightarrow> nostr_event" where
  "make_event l identity kind tags content created_at =
     (let pubkey = ni_pubkey_hex identity;
          id_bytes = compute_event_id l (id_payload pubkey created_at kind tags content)
      in \<lparr>ne_id = nl_hex l id_bytes, ne_pubkey = pubkey, ne_created_at = created_at, ne_kind = kind, ne_tags = tags,
          ne_content = content, ne_sig = nl_hex l (nl_sign l (ni_keypair identity) id_bytes)\<rparr>)"

definition verify_event :: "nostr_lib \<Rightarrow> nostr_event \<Rightarrow> bool" where
  "verify_event l ev =
     (let id_bytes = compute_event_id l (id_payload (ne_pubkey ev) (ne_created_at ev) (ne_kind ev) (ne_tags ev) (ne_content ev)) in
      if nl_hex l id_bytes \<noteq> ne_id ev then False
      else case nl_unhex l (ne_pubkey ev) of
             None \<Rightarrow> False
           | Some key \<Rightarrow>
               if \<not> nl_xonly l key then False
               else case nl_unhex l (ne_sig ev) of
                      None \<Rightarrow> False
                    | Some sig \<Rightarrow> if \<not> nl_signature l sig then False else nl_schnorr l sig id_bytes key)"

text \<open>
  The derived reader and writer of an event: an object with the seven fields, others ignored, or the seven values as an
  array; written as an object, whose keys serde keeps sorted.
\<close>

fun strings_of :: "json list \<Rightarrow> string list option" where
  "strings_of [] = Some []"
| "strings_of (v # vs) = Option.bind (as_str v) (\<lambda>s. map_option ((#) s) (strings_of vs))"

fun tags_of :: "json list \<Rightarrow> string list list option" where
  "tags_of [] = Some []"
| "tags_of (v # vs) = Option.bind (Option.bind (as_array v) strings_of) (\<lambda>t. map_option ((#) t) (tags_of vs))"

definition event_of_fields :: "json list \<Rightarrow> nostr_event option" where
  "event_of_fields vs =
     (case vs of
        [i, pub, ca, k, ts, c, sg] \<Rightarrow>
          (case (as_str i, as_str pub, as_u64 ca, as_u64 k, Option.bind (as_array ts) tags_of, as_str c, as_str sg) of
             (Some i, Some pub, Some ca, Some k, Some ts, Some c, Some sg) \<Rightarrow>
               if k \<le> 0xFFFF
               then Some \<lparr>ne_id = i, ne_pubkey = pub, ne_created_at = ca, ne_kind = ucast k, ne_tags = ts, ne_content = c, ne_sig = sg\<rparr>
               else None
           | _ \<Rightarrow> None)
      | _ \<Rightarrow> None)"

fun event_of_json :: "json \<Rightarrow> nostr_event option" where
  "event_of_json (JArr vs) = event_of_fields vs"
| "event_of_json (JObj kvs) =
     (case those (map (map_of kvs) [''id'', ''pubkey'', ''created_at'', ''kind'', ''tags'', ''content'', ''sig'']) of
        None \<Rightarrow> None | Some vs \<Rightarrow> event_of_fields vs)"
| "event_of_json _ = None"

definition event_json :: "nostr_event \<Rightarrow> json" where
  "event_json ev =
     JObj [(''content'', JStr (ne_content ev)), (''created_at'', JUInt (ne_created_at ev)), (''id'', JStr (ne_id ev)),
           (''kind'', JUInt (ucast (ne_kind ev))), (''pubkey'', JStr (ne_pubkey ev)), (''sig'', JStr (ne_sig ev)),
           (''tags'', tags_json (ne_tags ev))]"

section \<open>Filters\<close>

definition str_list_contains :: "json \<Rightarrow> string \<Rightarrow> bool" where
  "str_list_contains v needle =
     (case as_array v of None \<Rightarrow> False | Some vs \<Rightarrow> list_ex (\<lambda>x. as_str x = Some needle) vs)"

definition constraint_holds :: "string \<Rightarrow> json \<Rightarrow> nostr_event \<Rightarrow> bool" where
  "constraint_holds key v ev =
     (if key = ''ids'' then str_list_contains v (ne_id ev)
      else if key = ''authors'' then str_list_contains v (ne_pubkey ev)
      else if key = ''kinds'' then
        (case as_array v of None \<Rightarrow> False | Some ks \<Rightarrow> list_ex (\<lambda>k. as_u64 k = Some (ucast (ne_kind ev))) ks)
      else if key = ''since'' then (case as_u64 v of None \<Rightarrow> True | Some s \<Rightarrow> \<not> ne_created_at ev < s)
      else if key = ''until'' then (case as_u64 v of None \<Rightarrow> True | Some u \<Rightarrow> \<not> u < ne_created_at ev)
      else if key = ''limit'' then True
      else if length key = 2 \<and> hd key = CHR ''#'' then
        list_ex (\<lambda>t. 2 \<le> length t \<and> t ! 0 = tl key \<and> str_list_contains v (t ! 1)) (ne_tags ev)
      else True)"

definition filter_matches :: "json \<Rightarrow> nostr_event \<Rightarrow> bool" where
  "filter_matches f ev =
     (case as_object f of None \<Rightarrow> False | Some obj \<Rightarrow> list_all (\<lambda>(key, v). constraint_holds key v ev) obj)"

definition matches_any :: "json list \<Rightarrow> nostr_event \<Rightarrow> bool" where
  "matches_any filters ev \<longleftrightarrow> filters = [] \<or> list_ex (\<lambda>f. filter_matches f ev) filters"

definition is_stored_kind :: "16 word \<Rightarrow> bool" where
  "is_stored_kind kind \<longleftrightarrow> \<not> (20000 \<le> kind \<and> kind \<le> 29999)"

definition presence_of :: "nostr_lib \<Rightarrow> nostr_event \<Rightarrow> (string \<times> string) option" where
  "presence_of l ev =
     (if ne_kind ev \<noteq> SIGNALING_EVENT_KIND then None
      else case find (\<lambda>t. 2 \<le> length t \<and> t ! 0 = ''r'') (ne_tags ev) of
             None \<Rightarrow> None
           | Some t \<Rightarrow>
               case nl_parse l (ne_content ev) of
                 None \<Rightarrow> None
               | Some content \<Rightarrow>
                   let field = (\<lambda>k. case as_object content of None \<Rightarrow> None | Some kvs \<Rightarrow> map_of kvs k) in
                   if Option.bind (field ''kind'') as_str \<noteq> Some ''announce'' then None
                   else map_option (\<lambda>from. (t ! 1, from)) (Option.bind (field ''from'') as_str))"

section \<open>The hub\<close>

record limits =
  lm_max_event_rate :: u32
  lm_max_req_rate :: u32
  lm_max_subscriptions :: u32
  lm_max_filters_per_req :: u32
  lm_max_message_bytes :: u32
  lm_max_connections_per_ip :: u32

definition default_limits :: limits where
  "default_limits = \<lparr>lm_max_event_rate = 50, lm_max_req_rate = 20, lm_max_subscriptions = 64, lm_max_filters_per_req = 16,
     lm_max_message_bytes = 65536, lm_max_connections_per_ip = 64\<rparr>"

record token_bucket =
  tb_tokens :: rat
  tb_capacity :: rat
  tb_refill_per_sec :: rat
  tb_last :: u64

record conn_entry =
  ce_out :: "json list"
  ce_subs :: "(string, json list) fmap"
  ce_ip :: string
  ce_present :: "(string \<times> string) list"
  ce_event_bucket :: token_bucket
  ce_req_bucket :: token_bucket
  ce_strikes :: nat

record stored_event =
  se_received_at :: u64
  se_event :: nostr_event

record presence =
  pr_conn_id :: nat
  pr_announce :: nostr_event

record hub =
  hb_next_id :: nat
  hb_conns :: "(nat, conn_entry) fmap"
  hb_stored :: "stored_event list"
  hb_presence :: "(string, (string, presence) fmap) fmap"
  hb_ip_counts :: "(string, nat) fmap"
  hb_limits :: limits
  hb_identity :: nostr_identity
  hb_connections_total :: nat
  hb_events_relayed :: u64

definition new_hub :: "limits \<Rightarrow> nostr_identity \<Rightarrow> hub" where
  "new_hub limits identity =
     \<lparr>hb_next_id = 1, hb_conns = fmempty, hb_stored = [], hb_presence = fmempty, hb_ip_counts = fmempty, hb_limits = limits,
      hb_identity = identity, hb_connections_total = 0, hb_events_relayed = 0\<rparr>"

definition MAX_STORED_EVENTS :: nat where "MAX_STORED_EVENTS = 8192"
definition STORED_RETENTION_MS :: u64 where "STORED_RETENTION_MS = 900000"
definition MAX_REPLAY_PER_REQ :: nat where "MAX_REPLAY_PER_REQ = 500"
definition STRIKE_LIMIT :: nat where "STRIKE_LIMIT = 50"

definition new_bucket :: "u32 \<Rightarrow> u64 \<Rightarrow> token_bucket" where
  "new_bucket rate now =
     (let capacity = of_nat (max (unat rate) 1)
      in \<lparr>tb_tokens = capacity, tb_capacity = capacity, tb_refill_per_sec = of_nat (unat rate), tb_last = now\<rparr>)"

definition allow :: "u64 \<Rightarrow> token_bucket \<Rightarrow> bool \<times> token_bucket" where
  "allow now b =
     (if tb_refill_per_sec b \<le> 0 then (True, b)
      else
        let dt = of_nat (unat (if tb_last b \<le> now then now - tb_last b else 0)) / 1000;
            tokens = min (tb_tokens b + dt * tb_refill_per_sec b) (tb_capacity b)
        in if 1 \<le> tokens then (True, b\<lparr>tb_last := now, tb_tokens := tokens - 1\<rparr>)
           else (False, b\<lparr>tb_last := now, tb_tokens := tokens\<rparr>))"

definition update_conn :: "nat \<Rightarrow> (conn_entry \<Rightarrow> conn_entry) \<Rightarrow> hub \<Rightarrow> hub" where
  "update_conn i f h =
     (case fmlookup (hb_conns h) i of None \<Rightarrow> h | Some c \<Rightarrow> h\<lparr>hb_conns := fmupd i (f c) (hb_conns h)\<rparr>)"

definition send_to :: "nat \<Rightarrow> json \<Rightarrow> hub \<Rightarrow> hub" where
  "send_to i frame h = update_conn i (\<lambda>c. c\<lparr>ce_out := ce_out c @ [frame]\<rparr>) h"

definition register :: "string \<Rightarrow> u64 \<Rightarrow> hub \<Rightarrow> nat option \<times> hub" where
  "register ip now h =
     (let n = (case fmlookup (hb_ip_counts h) ip of None \<Rightarrow> 0 | Some n \<Rightarrow> n); lm = hb_limits h in
      if 0 < lm_max_connections_per_ip lm \<and> unat (lm_max_connections_per_ip lm) \<le> n then (None, h)
      else
        let i = hb_next_id h;
            c = \<lparr>ce_out = [], ce_subs = fmempty, ce_ip = ip, ce_present = [], ce_event_bucket = new_bucket (lm_max_event_rate lm) now,
                 ce_req_bucket = new_bucket (lm_max_req_rate lm) now, ce_strikes = 0\<rparr>
        in (Some i, h\<lparr>hb_ip_counts := fmupd ip (n + 1) (hb_ip_counts h), hb_next_id := i + 1,
                      hb_conns := fmupd i c (hb_conns h), hb_connections_total := hb_connections_total h + 1\<rparr>))"

definition event_frame :: "string \<Rightarrow> json \<Rightarrow> json" where
  "event_frame subid v = JArr [JStr ''EVENT'', JStr subid, v]"

definition sub_frames :: "json \<Rightarrow> nostr_event \<Rightarrow> conn_entry \<Rightarrow> json list" where
  "sub_frames v ev c =
     map (\<lambda>(subid, _). event_frame subid v) (filter (\<lambda>(_, filters). matches_any filters ev) (sorted_list_of_fmap (ce_subs c)))"

definition fanout :: "json \<Rightarrow> nostr_event \<Rightarrow> hub \<Rightarrow> hub" where
  "fanout v ev h = h\<lparr>hb_conns := fmmap (\<lambda>c. c\<lparr>ce_out := ce_out c @ sub_frames v ev c\<rparr>) (hb_conns h)\<rparr>"

definition build_leave_event :: "nostr_lib \<Rightarrow> nostr_identity \<Rightarrow> string \<Rightarrow> string \<Rightarrow> u64 \<Rightarrow> nostr_event" where
  "build_leave_event l identity room device secs =
     make_event l identity SIGNALING_EPHEMERAL_KIND [[''r'', room], [''p'', room]]
       (nl_render l (JObj [(''from'', JStr device), (''kind'', JStr ''leave''), (''peer_id'', JStr device)])) secs"

text \<open>Who owns a device in a room, and the room's members less one, the room gone with its last.\<close>

definition presence_at :: "hub \<Rightarrow> string \<Rightarrow> string \<Rightarrow> presence option" where
  "presence_at h room device = Option.bind (fmlookup (hb_presence h) room) (\<lambda>m. fmlookup m device)"

definition remove_presence :: "string \<Rightarrow> string \<Rightarrow> (string, (string, presence) fmap) fmap \<Rightarrow> (string, (string, presence) fmap) fmap" where
  "remove_presence room device ps =
     (case fmlookup ps room of
        None \<Rightarrow> ps
      | Some m \<Rightarrow> if fmdrop device m = fmempty then fmdrop room ps else fmupd room (fmdrop device m) ps)"

definition depart :: "nostr_lib \<Rightarrow> u64 \<Rightarrow> nat \<Rightarrow> string \<times> string \<Rightarrow> hub \<Rightarrow> hub" where
  "depart l secs i rd h =
     (case rd of (room, device) \<Rightarrow>
        if (case presence_at h room device of None \<Rightarrow> False | Some p \<Rightarrow> pr_conn_id p = i)
        then
          let leave = build_leave_event l (hb_identity h) room device secs
          in fanout (event_json leave) leave
               (h\<lparr>hb_presence := remove_presence room device (hb_presence h),
                  hb_stored := filter (\<lambda>s. presence_of l (se_event s) \<noteq> Some (room, device)) (hb_stored h)\<rparr>)
        else h)"

definition release_ip :: "string \<Rightarrow> (string, nat) fmap \<Rightarrow> (string, nat) fmap" where
  "release_ip ip counts =
     (case fmlookup counts ip of None \<Rightarrow> counts | Some n \<Rightarrow> if n - 1 = 0 then fmdrop ip counts else fmupd ip (n - 1) counts)"

definition unregister :: "nostr_lib \<Rightarrow> u64 \<Rightarrow> nat \<Rightarrow> hub \<Rightarrow> hub" where
  "unregister l secs i h =
     (case fmlookup (hb_conns h) i of
        None \<Rightarrow> h
      | Some c \<Rightarrow>
          fold (depart l secs i) (ce_present c)
            (h\<lparr>hb_conns := fmdrop i (hb_conns h), hb_ip_counts := release_ip (ce_ip c) (hb_ip_counts h)\<rparr>))"

definition take_token :: "nat \<Rightarrow> bool \<Rightarrow> u64 \<Rightarrow> hub \<Rightarrow> bool \<times> hub" where
  "take_token i is_req now h =
     (case fmlookup (hb_conns h) i of
        None \<Rightarrow> (False, h)
      | Some c \<Rightarrow>
          let (ok, b) = allow now (if is_req then ce_req_bucket c else ce_event_bucket c)
          in (ok, update_conn i (\<lambda>c. if is_req then c\<lparr>ce_req_bucket := b\<rparr> else c\<lparr>ce_event_bucket := b\<rparr>) h))"

definition strike :: "nat \<Rightarrow> hub \<Rightarrow> bool \<times> hub" where
  "strike i h =
     (case fmlookup (hb_conns h) i of
        None \<Rightarrow> (True, h)
      | Some c \<Rightarrow>
          let h1 = update_conn i (\<lambda>c. c\<lparr>ce_strikes := ce_strikes c + 1\<rparr>) h
          in if STRIKE_LIMIT < ce_strikes c + 1
             then (False, send_to i (JArr [JStr ''NOTICE'', JStr (''rate limit exceeded '' @ [CHR 0xE2, CHR 0x80, CHR 0x94] @ '' closing'')]) h1)
             else (True, h1))"

text \<open>Events whose id was not seen before, and everyone present.\<close>

fun fresh_events :: "string set \<Rightarrow> nostr_event list \<Rightarrow> nostr_event list" where
  "fresh_events seen [] = []"
| "fresh_events seen (ev # evs) =
     (if ne_id ev \<in> seen then fresh_events seen evs else ev # fresh_events (insert (ne_id ev) seen) evs)"

definition live_announces :: "hub \<Rightarrow> nostr_event list" where
  "live_announces h =
     concat (map (\<lambda>(_, m). map (\<lambda>(_, p). pr_announce p) (sorted_list_of_fmap m)) (sorted_list_of_fmap (hb_presence h)))"

definition replay_events :: "json list \<Rightarrow> hub \<Rightarrow> nostr_event list" where
  "replay_events filters h =
     (let replay = fresh_events {} (filter (matches_any filters) (map se_event (hb_stored h) @ live_announces h))
      in drop (length replay - MAX_REPLAY_PER_REQ) replay)"

definition handle_req :: "nat \<Rightarrow> json list \<Rightarrow> hub \<Rightarrow> hub" where
  "handle_req i arr h =
     (case Option.bind (if 1 < length arr then Some (arr ! 1) else None) as_str of
        None \<Rightarrow> h
      | Some subid \<Rightarrow>
          let lm = hb_limits h; all = drop 2 arr;
              filters = (if 0 < lm_max_filters_per_req lm then take (unat (lm_max_filters_per_req lm)) all else all)
          in case fmlookup (hb_conns h) i of
               None \<Rightarrow> h
             | Some c \<Rightarrow>
                 if 0 < lm_max_subscriptions lm \<and> fmlookup (ce_subs c) subid = None \<and>
                    unat (lm_max_subscriptions lm) \<le> fcard (fmdom (ce_subs c))
                 then send_to i (JArr [JStr ''CLOSED'', JStr subid, JStr ''rate-limited: too many subscriptions'']) h
                 else
                   update_conn i (\<lambda>c. c\<lparr>ce_subs := fmupd subid filters (ce_subs c),
                     ce_out := ce_out c @ map (\<lambda>ev. event_frame subid (event_json ev)) (replay_events filters h) @
                       [JArr [JStr ''EOSE'', JStr subid]]\<rparr>) h)"

definition prune :: "u64 \<Rightarrow> stored_event list \<Rightarrow> stored_event list" where
  "prune now stored =
     (let kept = dropWhile (\<lambda>s. STORED_RETENTION_MS < (if se_received_at s \<le> now then now - se_received_at s else 0)) stored
      in drop (length kept - MAX_STORED_EVENTS) kept)"

definition record_presence :: "nat \<Rightarrow> string \<Rightarrow> string \<Rightarrow> nostr_event \<Rightarrow> hub \<Rightarrow> hub" where
  "record_presence i room device ev h =
     (let members = (case fmlookup (hb_presence h) room of None \<Rightarrow> fmempty | Some m \<Rightarrow> m)
      in update_conn i (\<lambda>c. if (room, device) \<in> set (ce_present c) then c else c\<lparr>ce_present := ce_present c @ [(room, device)]\<rparr>)
           (h\<lparr>hb_presence := fmupd room (fmupd device \<lparr>pr_conn_id = i, pr_announce = ev\<rparr> members) (hb_presence h)\<rparr>))"

definition admit_event :: "nostr_lib \<Rightarrow> nat \<Rightarrow> u64 \<Rightarrow> json \<Rightarrow> nostr_event \<Rightarrow> hub \<Rightarrow> hub" where
  "admit_event l i now v ev h =
     (let h1 = h\<lparr>hb_events_relayed := saturating_add_u64 (hb_events_relayed h) 1\<rparr>;
          h2 = (case presence_of l ev of None \<Rightarrow> h1 | Some (room, device) \<Rightarrow> record_presence i room device ev h1);
          h3 = (if is_stored_kind (ne_kind ev)
                then h2\<lparr>hb_stored := prune now (hb_stored h2 @ [\<lparr>se_received_at = now, se_event = ev\<rparr>])\<rparr> else h2)
      in send_to i (JArr [JStr ''OK'', JStr (ne_id ev), JBool True, JStr []]) (fanout v ev h3))"

definition handle_event :: "nostr_lib \<Rightarrow> nat \<Rightarrow> u64 \<Rightarrow> json list \<Rightarrow> hub \<Rightarrow> hub" where
  "handle_event l i now arr h =
     (if length arr \<le> 1 then h
      else case event_of_json (arr ! 1) of
             None \<Rightarrow> h
           | Some ev \<Rightarrow>
               if \<not> verify_event l ev
               then send_to i (JArr [JStr ''OK'', JStr (ne_id ev), JBool False, JStr ''invalid: bad signature'']) h
               else admit_event l i now (arr ! 1) ev h)"

definition handle_close :: "nat \<Rightarrow> json list \<Rightarrow> hub \<Rightarrow> hub" where
  "handle_close i arr h =
     (case Option.bind (if 1 < length arr then Some (arr ! 1) else None) as_str of
        None \<Rightarrow> h
      | Some subid \<Rightarrow> update_conn i (\<lambda>c. c\<lparr>ce_subs := fmdrop subid (ce_subs c)\<rparr>) h)"

definition on_client_message :: "nostr_lib \<Rightarrow> u64 \<Rightarrow> nat \<Rightarrow> string \<Rightarrow> hub \<Rightarrow> bool \<times> hub" where
  "on_client_message l now i txt h =
     (if 0 < lm_max_message_bytes (hb_limits h) \<and> lm_max_message_bytes (hb_limits h) < of_nat (length txt) then strike i h
      else case Option.bind (nl_parse l txt) as_array of
             None \<Rightarrow> (True, h)
           | Some arr \<Rightarrow>
               case (case arr of [] \<Rightarrow> None | v # _ \<Rightarrow> as_str v) of
                 None \<Rightarrow> (True, h)
               | Some verb \<Rightarrow>
                   if verb = ''REQ'' then
                     (let (ok, h1) = take_token i True now h in if \<not> ok then strike i h1 else (True, handle_req i arr h1))
                   else if verb = ''EVENT'' then
                     (let (ok, h1) = take_token i False now h in if \<not> ok then strike i h1 else (True, handle_event l i now arr h1))
                   else if verb = ''CLOSE'' then (True, handle_close i arr h)
                   else (True, h))"

text \<open>One text frame of a connection's loop, which ends and unregisters when the hub says so.\<close>

definition conn_frame :: "nostr_lib \<Rightarrow> u64 \<Rightarrow> u64 \<Rightarrow> nat \<Rightarrow> string \<Rightarrow> hub \<Rightarrow> hub" where
  "conn_frame l now secs i txt h =
     (let (keep, h1) = on_client_message l now i txt h in if keep then h1 else unregister l secs i h1)"

definition snapshot :: "hub \<Rightarrow> nat \<times> nat \<times> nat \<times> u64" where
  "snapshot h = (fcard (fmdom (hb_conns h)), hb_connections_total h, fcard (fmdom (hb_presence h)), hb_events_relayed h)"

section \<open>The relay as a step relation\<close>

inductive relay_step :: "nostr_lib \<Rightarrow> hub \<Rightarrow> hub \<Rightarrow> bool" for l where
  connect: "relay_step l h (snd (register ip now h))"
| frame: "relay_step l h (conn_frame l now secs i txt h)"
| close: "relay_step l h (unregister l secs i h)"

definition relay_reaches :: "nostr_lib \<Rightarrow> limits \<Rightarrow> nostr_identity \<Rightarrow> hub \<Rightarrow> bool" where
  "relay_reaches l lm identity h \<longleftrightarrow> (relay_step l)\<^sup>*\<^sup>* (new_hub lm identity) h"

text \<open>
  What a property of the hub must survive to hold of the relay: the methods, with a frame split into its effects. A
  connection is \<^emph>\<open>touched\<close> when only its buckets, its strikes and its queue change, the queue by notices.
\<close>

definition touched :: "conn_entry \<Rightarrow> conn_entry \<Rightarrow> bool" where
  "touched c c' \<longleftrightarrow> ce_ip c' = ce_ip c \<and> ce_present c' = ce_present c \<and> ce_subs c' = ce_subs c \<and>
     (\<exists>fs. ce_out c' = ce_out c @ fs \<and> (\<forall>f \<in> set fs. \<forall>subid v. f \<noteq> event_frame subid v))"

locale hub_invariant =
  fixes l :: nostr_lib and P :: "hub \<Rightarrow> bool"
  assumes register: "P h \<Longrightarrow> P (snd (register ip now h))"
    and touch: "P h \<Longrightarrow> fmlookup (hb_conns h) i = Some c \<Longrightarrow> touched c c' \<Longrightarrow> P (h\<lparr>hb_conns := fmupd i c' (hb_conns h)\<rparr>)"
    and req: "P h \<Longrightarrow> P (handle_req i arr h)"
    and unsub: "P h \<Longrightarrow> P (handle_close i arr h)"
    and event: "P h \<Longrightarrow> fmlookup (hb_conns h) i = Some c \<Longrightarrow> event_of_json v = Some ev \<Longrightarrow> verify_event l ev \<Longrightarrow> P (admit_event l i now v ev h)"
    and unregister: "P h \<Longrightarrow> P (unregister l secs i h)"
begin

lemma touch_conn:
  assumes "P h" "\<And>c. touched c (f c)" shows "P (update_conn i f h)"
  using assms touch by (simp add: update_conn_def split: option.split)

lemma send_notice:
  assumes "P h" "\<And>subid v. frame \<noteq> event_frame subid v" shows "P (send_to i frame h)"
  unfolding send_to_def by (rule touch_conn [OF assms(1)]) (simp add: touched_def assms(2))

lemma take_token_keeps: assumes "P h" shows "P (snd (take_token i is_req now h))"
proof -
  have "P (update_conn i (\<lambda>c. if is_req then c\<lparr>ce_req_bucket := b\<rparr> else c\<lparr>ce_event_bucket := b\<rparr>) h)" for b
    by (rule touch_conn [OF assms]) (simp add: touched_def)
  with assms show ?thesis by (simp add: take_token_def case_prod_beta split: option.split)
qed

lemma strike_keeps: assumes "P h" shows "P (snd (strike i h))"
proof -
  have h1: "P (update_conn i (\<lambda>c. c\<lparr>ce_strikes := ce_strikes c + 1\<rparr>) h)" by (rule touch_conn [OF assms]) (simp add: touched_def)
  have "P (send_to i (JArr [JStr ''NOTICE'', v]) (update_conn i (\<lambda>c. c\<lparr>ce_strikes := ce_strikes c + 1\<rparr>) h))" for v
    by (rule send_notice [OF h1]) (simp add: event_frame_def)
  with h1 assms show ?thesis by (simp add: strike_def Let_def split: option.split)
qed

lemma token_conn: "take_token i is_req now h = (True, h1) \<Longrightarrow> \<exists>c. fmlookup (hb_conns h1) i = Some c"
  by (auto simp: take_token_def update_conn_def split: option.splits prod.splits)

lemma event_keeps:
  assumes "P h" "fmlookup (hb_conns h) i = Some c" shows "P (handle_event l i now arr h)"
proof -
  have "P (send_to i (JArr [JStr ''OK'', a, b, d]) h)" for a b d by (rule send_notice [OF assms(1)]) (simp add: event_frame_def)
  with assms event [OF assms] show ?thesis by (simp add: handle_event_def split: option.split)
qed

lemma message_keeps: assumes "P h" shows "P (snd (on_client_message l now i txt h))"
proof -
  have req: "P (snd (let (ok, h1) = take_token i True now h in if \<not> ok then strike i h1 else (True, handle_req i arr h1)))" for arr
    using take_token_keeps [OF assms, of i True now] by (auto simp: case_prod_beta strike_keeps req)
  have ev: "P (snd (let (ok, h1) = take_token i False now h in if \<not> ok then strike i h1 else (True, handle_event l i now arr h1)))" for arr
  proof (cases "take_token i False now h")
    case (Pair ok h1)
    moreover from Pair have "P h1" using take_token_keeps [OF assms, of i False now] by simp
    ultimately show ?thesis using token_conn [of i False now h h1] by (cases ok) (auto intro: strike_keeps event_keeps)
  qed
  show ?thesis using assms strike_keeps [OF assms] req ev unsub [OF assms]
    by (simp add: on_client_message_def split: option.split)
qed

lemma step_keeps: "relay_step l h h' \<Longrightarrow> P h \<Longrightarrow> P h'"
proof (induction rule: relay_step.induct)
  case (frame h now secs i t)
  then show ?case using message_keeps [of h now i t] unregister by (simp add: conn_frame_def case_prod_beta)
qed (simp_all add: register unregister)

lemma reaches_keeps: "relay_reaches l lm identity h \<Longrightarrow> P (new_hub lm identity) \<Longrightarrow> P h"
  unfolding relay_reaches_def by (induction rule: rtranclp_induct) (auto intro: step_keeps)

end

section \<open>Parts the methods leave alone\<close>

definition view :: "(conn_entry \<Rightarrow> 'a) \<Rightarrow> hub \<Rightarrow> (nat, 'a) fmap" where
  "view g h = fmmap g (hb_conns h)"

lemma view_upd:
  assumes "fmlookup (hb_conns h) i = Some c" "g c' = g c"
  shows "view g (h\<lparr>hb_conns := fmupd i c' (hb_conns h)\<rparr>) = view g h"
  using assms by (intro fmap_ext) (auto simp: view_def)

lemma view_update_conn [simp]: "(\<And>c. g (f c) = g c) \<Longrightarrow> view g (update_conn i f h) = view g h"
  by (simp add: update_conn_def view_upd split: option.split)

lemma view_fanout [simp]: "(\<And>c out. g (c\<lparr>ce_out := out\<rparr>) = g c) \<Longrightarrow> view g (fanout v ev h) = view g h"
  by (intro fmap_ext) (auto simp: view_def fanout_def option.map_comp comp_def)

lemma hub_parts [simp]:
  "hb_next_id (update_conn i f h) = hb_next_id h" "hb_stored (update_conn i f h) = hb_stored h"
  "hb_presence (update_conn i f h) = hb_presence h" "hb_ip_counts (update_conn i f h) = hb_ip_counts h"
  "hb_limits (update_conn i f h) = hb_limits h" "hb_identity (update_conn i f h) = hb_identity h"
  "hb_next_id (fanout v ev h) = hb_next_id h" "hb_stored (fanout v ev h) = hb_stored h"
  "hb_presence (fanout v ev h) = hb_presence h" "hb_ip_counts (fanout v ev h) = hb_ip_counts h"
  "hb_limits (fanout v ev h) = hb_limits h" "hb_identity (fanout v ev h) = hb_identity h"
  "hb_next_id (send_to i f' h) = hb_next_id h" "hb_stored (send_to i f' h) = hb_stored h"
  "hb_presence (send_to i f' h) = hb_presence h" "hb_ip_counts (send_to i f' h) = hb_ip_counts h"
  "hb_limits (send_to i f' h) = hb_limits h" "hb_identity (send_to i f' h) = hb_identity h"
  by (simp_all add: update_conn_def fanout_def send_to_def split: option.split)

lemma view_frame [simp]:
  "view g (h\<lparr>hb_stored := s\<rparr>) = view g h" "view g (h\<lparr>hb_presence := p\<rparr>) = view g h"
  "view g (h\<lparr>hb_events_relayed := n\<rparr>) = view g h" "view g (h\<lparr>hb_presence := p, hb_stored := s\<rparr>) = view g h"
  by (simp_all add: view_def)

lemma send_view [simp]: "(\<And>c out. g (c\<lparr>ce_out := out\<rparr>) = g c) \<Longrightarrow> view g (send_to i frame h) = view g h"
  by (simp add: send_to_def)

lemma depart_keeps [simp]:
  "hb_next_id (depart l secs i rd h) = hb_next_id h" "hb_ip_counts (depart l secs i rd h) = hb_ip_counts h"
  "hb_limits (depart l secs i rd h) = hb_limits h" "hb_identity (depart l secs i rd h) = hb_identity h"
  "(\<And>c out. g (c\<lparr>ce_out := out\<rparr>) = g c) \<Longrightarrow> view g (depart l secs i rd h) = view g h"
  by (simp_all add: depart_def Let_def split: prod.split)

lemma departs_keep [simp]:
  "hb_next_id (fold (depart l secs i) rds h) = hb_next_id h" "hb_ip_counts (fold (depart l secs i) rds h) = hb_ip_counts h"
  "hb_limits (fold (depart l secs i) rds h) = hb_limits h" "hb_identity (fold (depart l secs i) rds h) = hb_identity h"
  "(\<And>c out. g (c\<lparr>ce_out := out\<rparr>) = g c) \<Longrightarrow> view g (fold (depart l secs i) rds h) = view g h"
  by (induction rds arbitrary: h) simp_all

lemma unregister_view:
  assumes "fmlookup (hb_conns h) i = Some c" "\<And>c out. g (c\<lparr>ce_out := out\<rparr>) = g c"
  shows "view g (unregister l secs i h) = fmdrop i (view g h)"
proof -
  let ?h1 = "h\<lparr>hb_conns := fmdrop i (hb_conns h), hb_ip_counts := release_ip (ce_ip c) (hb_ip_counts h)\<rparr>"
  have "view g (unregister l secs i h) = view g ?h1" using assms by (simp add: unregister_def)
  then show ?thesis by (simp add: view_def fmdrop_fmmap)
qed

lemma req_keeps [simp]:
  "hb_next_id (handle_req i arr h) = hb_next_id h" "hb_ip_counts (handle_req i arr h) = hb_ip_counts h"
  "hb_limits (handle_req i arr h) = hb_limits h" "hb_identity (handle_req i arr h) = hb_identity h"
  "hb_stored (handle_req i arr h) = hb_stored h" "hb_presence (handle_req i arr h) = hb_presence h"
  "(\<And>c subs out. g (c\<lparr>ce_subs := subs, ce_out := out\<rparr>) = g c) \<Longrightarrow> (\<And>c out. g (c\<lparr>ce_out := out\<rparr>) = g c) \<Longrightarrow>
     view g (handle_req i arr h) = view g h"
  by (simp_all add: handle_req_def Let_def split: option.split)

lemma admit_keeps [simp]:
  "hb_next_id (admit_event l i now v ev h) = hb_next_id h" "hb_ip_counts (admit_event l i now v ev h) = hb_ip_counts h"
  "hb_limits (admit_event l i now v ev h) = hb_limits h" "hb_identity (admit_event l i now v ev h) = hb_identity h"
  "(\<And>c out. g (c\<lparr>ce_out := out\<rparr>) = g c) \<Longrightarrow> (\<And>c present. g (c\<lparr>ce_present := present\<rparr>) = g c) \<Longrightarrow>
     view g (admit_event l i now v ev h) = view g h"
  by (simp_all add: admit_event_def record_presence_def Let_def split: option.split prod.split)

section \<open>Admission\<close>

text \<open>Connection numbers are fresh, and the count kept for an address is the number of its open connections.\<close>

definition ip_count :: "(string, nat) fmap \<Rightarrow> string \<Rightarrow> nat" where
  "ip_count counts ip = (case fmlookup counts ip of None \<Rightarrow> 0 | Some n \<Rightarrow> n)"

definition counted :: "nat \<Rightarrow> u32 \<Rightarrow> (string, nat) fmap \<Rightarrow> (nat, string) fmap \<Rightarrow> bool" where
  "counted next mx counts ips \<longleftrightarrow> (\<forall>i ip. fmlookup ips i = Some ip \<longrightarrow> i < next) \<and>
     (\<forall>ip. ip_count counts ip = card {i. fmlookup ips i = Some ip} \<and> fmlookup counts ip \<noteq> Some 0 \<and>
        (0 < mx \<longrightarrow> card {i. fmlookup ips i = Some ip} \<le> unat mx))"

definition admission_ok :: "hub \<Rightarrow> bool" where
  "admission_ok h \<longleftrightarrow> counted (hb_next_id h) (lm_max_connections_per_ip (hb_limits h)) (hb_ip_counts h) (view ce_ip h)"

lemma finite_ips [simp]: "finite {i. fmlookup m i = Some ip}"
  by (rule finite_subset [of _ "fset (fmdom m)"]) (auto intro: fmdomI)

lemma fmmap_fmupd: "fmmap g (fmupd i c m) = fmupd i (g c) (fmmap g m)"
  by (rule fmap_ext) simp

lemma counted_iff:
  "counted n mx counts ips \<longleftrightarrow> (\<forall>i ip. fmlookup ips i = Some ip \<longrightarrow> i < n) \<and>
     (\<forall>ip. ip_count counts ip = card {i. fmlookup ips i = Some ip}) \<and> (\<forall>ip. fmlookup counts ip \<noteq> Some 0) \<and>
     (0 < mx \<longrightarrow> (\<forall>ip. ip_count counts ip \<le> unat mx))"
  unfolding counted_def by (metis (no_types, lifting))

lemma ip_count_upd [simp]: "ip_count (fmupd a n counts) ip = (if ip = a then n else ip_count counts ip)"
  by (simp add: ip_count_def)

lemma counted_add:
  assumes "counted n mx counts ips" "0 < mx \<Longrightarrow> ip_count counts ip < unat mx"
  shows "counted (n + 1) mx (fmupd ip (ip_count counts ip + 1) counts) (fmupd n ip ips)"
proof -
  let ?at = "\<lambda>m a. {i. fmlookup m i = Some a}"
  note c = assms(1) [unfolded counted_iff]
  have n: "fmlookup ips n = None" using c by (cases "fmlookup ips n") auto
  then have "?at (fmupd n ip ips) a = (if a = ip then insert n (?at ips ip) else ?at ips a)" for a by auto
  then have "card (?at (fmupd n ip ips) a) = (if a = ip then Suc (card (?at ips ip)) else card (?at ips a))" for a
    using n by simp
  moreover have "i < n + 1" if "fmlookup (fmupd n ip ips) i = Some a" for i a
    using that c by (cases "i = n") (auto simp: less_Suc_eq)
  ultimately show ?thesis unfolding counted_iff using c assms(2) by (auto simp: Suc_le_eq)
qed

lemma counted_drop:
  assumes "counted n mx counts ips" "fmlookup ips i = Some ip"
  shows "counted n mx (release_ip ip counts) (fmdrop i ips)"
proof -
  let ?at = "\<lambda>m a. {j. fmlookup m j = Some a}"
  note c = assms(1) [unfolded counted_iff]
  have "?at (fmdrop i ips) a = (if a = ip then ?at ips ip - {i} else ?at ips a)" for a using assms(2) by auto
  then have card: "card (?at (fmdrop i ips) a) = (if a = ip then card (?at ips ip) - 1 else card (?at ips a))" for a
    using assms(2) by simp
  have "?at ips ip \<noteq> {}" using assms(2) by auto
  then have "ip_count counts ip \<noteq> 0" using c by simp
  then obtain m where m: "fmlookup counts ip = Some m" "0 < m" "ip_count counts ip = m"
    by (auto simp: ip_count_def split: option.splits)
  then have rel: "ip_count (release_ip ip counts) a = (if a = ip then m - 1 else ip_count counts a)"
    and nz: "fmlookup (release_ip ip counts) a \<noteq> Some 0" for a
    using c by (auto simp: release_ip_def ip_count_def)
  have "ip_count (release_ip ip counts) a \<le> ip_count counts a" for a using m by (simp add: rel)
  then have "0 < mx \<longrightarrow> (\<forall>a. ip_count (release_ip ip counts) a \<le> unat mx)" using c le_trans by blast
  moreover have "ip_count (release_ip ip counts) a = card (?at (fmdrop i ips) a)" for a
  proof -
    have "ip_count counts b = card (?at ips b)" for b using c by blast
    then show ?thesis using m(3) unfolding rel card by simp
  qed
  moreover have "\<forall>j a. fmlookup (fmdrop i ips) j = Some a \<longrightarrow> j < n" using c by simp
  ultimately show ?thesis unfolding counted_iff using nz by blast
qed

lemma register_admission:
  assumes "admission_ok h" shows "admission_ok (snd (register ip now h))"
proof (cases "fst (register ip now h)")
  case None
  with assms show ?thesis by (simp add: register_def Let_def split: if_splits)
next
  case (Some i)
  let ?mx = "lm_max_connections_per_ip (hb_limits h)" and ?h' = "snd (register ip now h)"
  from Some have "0 < ?mx \<Longrightarrow> ip_count (hb_ip_counts h) ip < unat ?mx"
    by (auto simp: register_def Let_def ip_count_def split: if_splits)
  from counted_add [OF assms [unfolded admission_ok_def] this]
  have "counted (hb_next_id h + 1) ?mx (fmupd ip (ip_count (hb_ip_counts h) ip + 1) (hb_ip_counts h)) (fmupd (hb_next_id h) ip (view ce_ip h))" .
  moreover have "view ce_ip ?h' = fmupd (hb_next_id h) ip (view ce_ip h)" "hb_next_id ?h' = hb_next_id h + 1"
    "hb_ip_counts ?h' = fmupd ip (ip_count (hb_ip_counts h) ip + 1) (hb_ip_counts h)" "hb_limits ?h' = hb_limits h"
    using Some by (auto simp: register_def Let_def view_def ip_count_def fmmap_fmupd split: if_splits)
  ultimately show ?thesis by (simp only: admission_ok_def)
qed

lemma unregister_admission:
  assumes "admission_ok h" shows "admission_ok (unregister l secs i h)"
proof (cases "fmlookup (hb_conns h) i")
  case None
  with assms show ?thesis by (simp add: unregister_def)
next
  case (Some c)
  let ?h1 = "h\<lparr>hb_conns := fmdrop i (hb_conns h), hb_ip_counts := release_ip (ce_ip c) (hb_ip_counts h)\<rparr>"
  have "fmlookup (view ce_ip h) i = Some (ce_ip c)" using Some by (simp add: view_def)
  from counted_drop [OF assms [unfolded admission_ok_def] this]
  have "admission_ok ?h1" by (simp add: admission_ok_def view_def fmdrop_fmmap)
  then show ?thesis using Some by (simp add: unregister_def admission_ok_def)
qed

interpretation admission: hub_invariant l admission_ok for l
  by unfold_locales
    (rule register_admission unregister_admission, assumption |
     simp add: admission_ok_def view_upd touched_def handle_close_def split: option.split)+

section \<open>Bounds\<close>

definition subs_bounded :: "limits \<Rightarrow> (string, json list) fmap \<Rightarrow> bool" where
  "subs_bounded lm subs \<longleftrightarrow> (0 < lm_max_subscriptions lm \<longrightarrow> fcard (fmdom subs) \<le> unat (lm_max_subscriptions lm)) \<and>
     (0 < lm_max_filters_per_req lm \<longrightarrow> (\<forall>subid fs. fmlookup subs subid = Some fs \<longrightarrow> length fs \<le> unat (lm_max_filters_per_req lm)))"

definition bounded_hub :: "hub \<Rightarrow> bool" where
  "bounded_hub h \<longleftrightarrow> length (hb_stored h) \<le> MAX_STORED_EVENTS \<and>
     (\<forall>i subs. fmlookup (view ce_subs h) i = Some subs \<longrightarrow> subs_bounded (hb_limits h) subs)"

lemma subs_empty [simp]: "subs_bounded lm fmempty"
  by (simp add: subs_bounded_def fcard.rep_eq)

lemma subs_drop: "subs_bounded lm subs \<Longrightarrow> subs_bounded lm (fmdrop subid subs)"
  unfolding subs_bounded_def by (auto simp: fcard.rep_eq intro: order_trans [OF card_Diff1_le])

lemma subs_put:
  assumes "subs_bounded lm subs" "0 < lm_max_filters_per_req lm \<Longrightarrow> length fs \<le> unat (lm_max_filters_per_req lm)"
    and "\<not> (0 < lm_max_subscriptions lm \<and> fmlookup subs subid = None \<and> unat (lm_max_subscriptions lm) \<le> fcard (fmdom subs))"
  shows "subs_bounded lm (fmupd subid fs subs)"
  using assms by (auto simp: subs_bounded_def fcard_finsert_if fmlookup_dom_iff not_le Suc_le_eq)

lemma view_subs_put:
  "fmlookup (view g (update_conn i f h)) j =
     (if j = i then map_option (\<lambda>c. g (f c)) (fmlookup (hb_conns h) i) else fmlookup (view g h) j)"
  by (simp add: view_def update_conn_def split: option.split)

lemma bounded_update:
  assumes "bounded_hub h" "\<And>c. fmlookup (hb_conns h) i = Some c \<Longrightarrow> subs_bounded (hb_limits h) (ce_subs (f c))"
  shows "bounded_hub (update_conn i f h)"
  using assms by (auto simp: bounded_hub_def view_subs_put split: if_splits)

lemma bounded_conn: "bounded_hub h \<Longrightarrow> fmlookup (hb_conns h) i = Some c \<Longrightarrow> subs_bounded (hb_limits h) (ce_subs c)"
  by (auto simp: bounded_hub_def view_def)

lemma req_bounded: assumes "bounded_hub h" shows "bounded_hub (handle_req i arr h)"
  using assms bounded_conn [OF assms, of i]
  by (auto simp: handle_req_def send_to_def Let_def simp del: fun_upd_apply intro!: bounded_update subs_put split: option.split)

lemma prune_bounded: "length (prune now s) \<le> MAX_STORED_EVENTS"
  by (simp add: prune_def Let_def)

lemma departs_stored:
  "length (hb_stored (fold (depart l secs i) rds h)) \<le> length (hb_stored h)"
proof (induction rds arbitrary: h)
  case (Cons rd rds)
  have "length (hb_stored (depart l secs i rd h)) \<le> length (hb_stored h)"
    by (simp add: depart_def Let_def split: prod.split)
  with Cons.IH show ?case by (simp add: order_trans [OF Cons.IH])
qed simp

lemma unregister_bounded: assumes "bounded_hub h" shows "bounded_hub (unregister l secs i h)"
proof (cases "fmlookup (hb_conns h) i")
  case (Some c)
  let ?h1 = "h\<lparr>hb_conns := fmdrop i (hb_conns h), hb_ip_counts := release_ip (ce_ip c) (hb_ip_counts h)\<rparr>"
  have "bounded_hub ?h1" using assms by (auto simp: bounded_hub_def view_def)
  then show ?thesis using Some order_trans [OF departs_stored [of l secs i "ce_present c" ?h1]]
    by (simp add: bounded_hub_def unregister_def)
qed (simp add: unregister_def assms)

lemma admit_bounded: assumes "bounded_hub h" shows "bounded_hub (admit_event l i now v ev h)"
  using assms prune_bounded
  by (simp add: bounded_hub_def) (simp add: admit_event_def record_presence_def Let_def split: option.split prod.split)

lemma register_bounded: "bounded_hub h \<Longrightarrow> bounded_hub (snd (register ip now h))"
  by (auto simp: bounded_hub_def register_def Let_def view_def)

lemma close_bounded: assumes "bounded_hub h" shows "bounded_hub (handle_close i arr h)"
  using assms bounded_conn [OF assms] by (auto simp: handle_close_def intro!: bounded_update subs_drop split: option.split)

interpretation bounds: hub_invariant l bounded_hub for l
  by unfold_locales
    (rule register_bounded req_bounded admit_bounded close_bounded unregister_bounded, assumption |
     simp add: bounded_hub_def touched_def view_upd)+

section \<open>Presence\<close>

text \<open>Everyone listed announced it on a connection that is open, which remembers it; no room is empty.\<close>

definition presence_ok :: "nostr_lib \<Rightarrow> hub \<Rightarrow> bool" where
  "presence_ok l h \<longleftrightarrow> (\<forall>room. fmlookup (hb_presence h) room \<noteq> Some fmempty) \<and>
     (\<forall>room device p. presence_at h room device = Some p \<longrightarrow> presence_of l (pr_announce p) = Some (room, device) \<and>
        (\<exists>present. fmlookup (view ce_present h) (pr_conn_id p) = Some present \<and> (room, device) \<in> set present))"

lemma presence_at_cong: "hb_presence h' = hb_presence h \<Longrightarrow> presence_at h' = presence_at h"
  by (simp add: presence_at_def fun_eq_iff)

lemma presence_keep:
  assumes "presence_ok l h" "hb_presence h' = hb_presence h" "view ce_present h' = view ce_present h"
  shows "presence_ok l h'"
  using assms presence_at_cong [OF assms(2)] by (simp add: presence_ok_def)

lemma remove_presence_lookup:
  "Option.bind (fmlookup (remove_presence room device ps) r) (\<lambda>m. fmlookup m d) =
     (if r = room \<and> d = device then None else Option.bind (fmlookup ps r) (\<lambda>m. fmlookup m d))"
proof (cases "fmlookup ps room")
  case (Some m)
  have "fmlookup m d = None" if "fmdrop device m = fmempty" "d \<noteq> device"
    using that by (metis fmempty_lookup fmlookup_drop)
  with Some show ?thesis by (cases "r = room") (auto simp: remove_presence_def)
qed (auto simp: remove_presence_def)

lemma remove_presence_nonempty:
  "\<forall>r. fmlookup ps r \<noteq> Some fmempty \<Longrightarrow> fmlookup (remove_presence room device ps) r \<noteq> Some fmempty"
  by (auto simp: remove_presence_def split: option.split)

text \<open>A departing connection takes what it owns off the list, and nothing else.\<close>

definition owns :: "hub \<Rightarrow> nat \<Rightarrow> string \<times> string \<Rightarrow> bool" where
  "owns h i rd \<longleftrightarrow> (\<exists>p. presence_at h (fst rd) (snd rd) = Some p \<and> pr_conn_id p = i)"

lemma depart_owned:
  "depart l secs i rd h =
     (if owns h i rd
      then let leave = build_leave_event l (hb_identity h) (fst rd) (snd rd) secs
           in fanout (event_json leave) leave
                (h\<lparr>hb_presence := remove_presence (fst rd) (snd rd) (hb_presence h),
                   hb_stored := filter (\<lambda>s. presence_of l (se_event s) \<noteq> Some rd) (hb_stored h)\<rparr>)
      else h)"
  by (cases rd) (auto simp: depart_def owns_def split: option.split)

lemma depart_presence:
  "presence_at (depart l secs i rd h) room device = (if owns h i rd \<and> rd = (room, device) then None else presence_at h room device)"
  by (cases rd) (auto simp: depart_owned presence_at_def Let_def remove_presence_lookup)

lemma departs_presence:
  "presence_at (fold (depart l secs i) rds h) room device =
     (if (room, device) \<in> set rds \<and> owns h i (room, device) then None else presence_at h room device)"
proof (induction rds arbitrary: h)
  case (Cons rd rds)
  have "owns (depart l secs i rd h) i (room, device) \<longleftrightarrow> owns h i (room, device) \<and> rd \<noteq> (room, device)"
    by (auto simp: owns_def depart_presence)
  then show ?case by (auto simp: Cons depart_presence)
qed simp

lemma departs_nonempty:
  "\<forall>r. fmlookup (hb_presence h) r \<noteq> Some fmempty \<Longrightarrow> fmlookup (hb_presence (fold (depart l secs i) rds h)) r \<noteq> Some fmempty"
proof (induction rds arbitrary: h)
  case (Cons rd rds)
  have "\<forall>r. fmlookup (hb_presence (depart l secs i rd h)) r \<noteq> Some fmempty"
    using Cons.prems remove_presence_nonempty [OF Cons.prems] by (simp add: depart_owned Let_def)
  from Cons.IH [OF this] show ?case by simp
qed simp

lemma owned_present:
  assumes "presence_ok l h" "fmlookup (hb_conns h) i = Some c" "owns h i rd"
  shows "rd \<in> set (ce_present c)"
proof -
  obtain room device where rd: "rd = (room, device)" by (cases rd)
  with assms(3) obtain p where "presence_at h room device = Some p" "pr_conn_id p = i" by (auto simp: owns_def)
  with assms(1) obtain present where "fmlookup (view ce_present h) i = Some present" "(room, device) \<in> set present"
    unfolding presence_ok_def by blast
  with assms(2) show ?thesis by (simp add: view_def rd)
qed

lemma unregister_presence:
  assumes "presence_ok l h" "fmlookup (hb_conns h) i = Some c"
  shows "presence_at (unregister l secs i h) room device =
     (if owns h i (room, device) then None else presence_at h room device)"
proof -
  let ?h1 = "h\<lparr>hb_conns := fmdrop i (hb_conns h), hb_ip_counts := release_ip (ce_ip c) (hb_ip_counts h)\<rparr>"
  have "(room, device) \<in> set (ce_present c)" if "owns h i (room, device)" using owned_present [OF assms that] .
  moreover have at: "presence_at ?h1 = presence_at h" by (rule presence_at_cong) simp
  then have "owns ?h1 i rd \<longleftrightarrow> owns h i rd" for rd by (simp add: owns_def)
  moreover have "unregister l secs i h = fold (depart l secs i) (ce_present c) ?h1" using assms(2) by (simp add: unregister_def)
  ultimately show ?thesis by (simp add: departs_presence at)
qed

lemma unregister_presence_ok: assumes "presence_ok l h" shows "presence_ok l (unregister l secs i h)"
proof (cases "fmlookup (hb_conns h) i")
  case (Some c)
  let ?h1 = "h\<lparr>hb_conns := fmdrop i (hb_conns h), hb_ip_counts := release_ip (ce_ip c) (hb_ip_counts h)\<rparr>"
  have v: "view ce_present (unregister l secs i h) = fmdrop i (view ce_present h)" using Some by (simp add: unregister_view)
  have "fmlookup (hb_presence (unregister l secs i h)) r \<noteq> Some fmempty" for r
    using assms Some departs_nonempty [of ?h1 l secs i] by (simp add: unregister_def presence_ok_def)
  moreover have "presence_at h room device = Some p \<and> pr_conn_id p \<noteq> i"
    if "presence_at (unregister l secs i h) room device = Some p" for room device p
    using that by (auto simp: unregister_presence [OF assms Some] owns_def split: if_splits)
  ultimately show ?thesis using assms unfolding presence_ok_def v by (metis fmlookup_drop)
qed (simp add: unregister_def assms)

lemma record_presence_at:
  "presence_at (record_presence i r d ev h) room device =
     (if room = r \<and> device = d then Some \<lparr>pr_conn_id = i, pr_announce = ev\<rparr> else presence_at h room device)"
  by (simp add: record_presence_def presence_at_def Let_def split: option.split)

lemma record_presence_ok:
  assumes "presence_ok l h" "presence_of l ev = Some (room, device)" "fmlookup (hb_conns h) i = Some c"
  shows "presence_ok l (record_presence i room device ev h)"
proof -
  let ?h' = "record_presence i room device ev h"
  have v: "fmlookup (view ce_present ?h') j = (if j = i then Some (if (room, device) \<in> set (ce_present c) then ce_present c
      else ce_present c @ [(room, device)]) else fmlookup (view ce_present h) j)" for j
    using assms(3) by (simp add: record_presence_def Let_def view_subs_put)
  have old: "\<exists>present. fmlookup (view ce_present ?h') j = Some present \<and> rd \<in> set present"
    if "fmlookup (view ce_present h) j = Some prs" "rd \<in> set prs" for j prs rd
    using that assms(3) unfolding v by (auto simp: view_def)
  have "\<exists>present. fmlookup (view ce_present ?h') i = Some present \<and> (room, device) \<in> set present" unfolding v by simp
  moreover have "fmlookup (hb_presence ?h') r \<noteq> Some fmempty" for r
    using assms(1) by (auto simp: record_presence_def Let_def presence_ok_def split: option.split if_splits)
  moreover have "presence_of l (pr_announce p) = Some (r, d) \<and> (\<exists>present. fmlookup (view ce_present ?h') (pr_conn_id p) = Some present \<and> (r, d) \<in> set present)"
    if "presence_at h r d = Some p" for r d p
    using assms(1) that old unfolding presence_ok_def by metis
  ultimately show ?thesis using assms(2) unfolding presence_ok_def record_presence_at by (auto split: if_splits)
qed

lemma admit_presence_ok:
  assumes "presence_ok l h" "fmlookup (hb_conns h) i = Some c" shows "presence_ok l (admit_event l i now v ev h)"
proof -
  let ?h1 = "h\<lparr>hb_events_relayed := saturating_add_u64 (hb_events_relayed h) 1\<rparr>"
  let ?h2 = "case presence_of l ev of None \<Rightarrow> ?h1 | Some (room, device) \<Rightarrow> record_presence i room device ev ?h1"
  have h1: "presence_ok l ?h1" by (rule presence_keep [OF assms(1)]) simp_all
  then have "presence_ok l ?h2" using assms(2)
    by (cases "presence_of l ev") (auto intro: record_presence_ok)
  then show ?thesis by (rule presence_keep) (simp_all add: admit_event_def Let_def)
qed

lemma register_presence_ok:
  assumes "presence_ok l h" "admission_ok h" shows "presence_ok l (snd (register ip now h))"
proof -
  have "hb_next_id h \<noteq> i" if "fmlookup (view ce_present h) i = Some present" for i present
    using that assms(2) by (auto simp: admission_ok_def counted_def view_def)
  then have "fmlookup (view ce_present (snd (register ip now h))) i = Some present"
    if "fmlookup (view ce_present h) i = Some present" for i present
    using that by (auto simp: register_def Let_def view_def)
  moreover have p: "hb_presence (snd (register ip now h)) = hb_presence h" by (simp add: register_def Let_def)
  ultimately show ?thesis using assms(1) unfolding presence_ok_def p presence_at_cong [OF p] by meson
qed

definition listing_ok :: "nostr_lib \<Rightarrow> hub \<Rightarrow> bool" where
  "listing_ok l h \<longleftrightarrow> presence_ok l h \<and> admission_ok h"

interpretation listing: hub_invariant l "listing_ok l" for l
proof
  fix h i c c' arr
  assume h: "listing_ok l h"
  show "listing_ok l (h\<lparr>hb_conns := fmupd i c' (hb_conns h)\<rparr>)" if "fmlookup (hb_conns h) i = Some c" "touched c c'"
    using h that admission.touch [of h i c c'] unfolding listing_ok_def
    by (auto intro: presence_keep simp: view_upd touched_def)
  show "listing_ok l (handle_req i arr h)" "listing_ok l (handle_close i arr h)"
    using h admission.req admission.unsub unfolding listing_ok_def
    by (auto intro!: presence_keep [of l h] simp: handle_close_def split: option.split)
qed (auto simp: listing_ok_def intro: register_presence_ok admit_presence_ok unregister_presence_ok
    admission.register admission.event admission.unregister)

section \<open>Authenticity\<close>

text \<open>What the hex and Schnorr libraries promise of the relay's own key.\<close>

definition nostr_documented :: "nostr_lib \<Rightarrow> nostr_identity \<Rightarrow> bool" where
  "nostr_documented l identity \<longleftrightarrow> (\<forall>b. nl_unhex l (nl_hex l b) = Some b) \<and>
     (\<exists>key. nl_unhex l (ni_pubkey_hex identity) = Some key \<and> nl_xonly l key \<and>
        (\<forall>d. nl_signature l (nl_sign l (ni_keypair identity) d) \<and> nl_schnorr l (nl_sign l (ni_keypair identity) d) d key))"

lemma make_event_verifies: "nostr_documented l identity \<Longrightarrow> verify_event l (make_event l identity kind tags content t)"
  by (auto simp: nostr_documented_def make_event_def verify_event_def Let_def)

lemma tags_of_json: "Option.bind (as_array (tags_json tags)) tags_of = Some tags"
proof -
  have "strings_of (map JStr t) = Some t" for t by (induction t) simp_all
  then have "tags_of (map (\<lambda>t. JArr (map JStr t)) tags) = Some tags" by (induction tags) simp_all
  then show ?thesis by (simp add: tags_json_def)
qed

lemma event_round_trip: "event_of_json (event_json ev) = Some ev"
proof -
  have "(ucast (ne_kind ev) :: u64) \<le> 0xFFFF"
    using uint_lt2p [of "ne_kind ev"] by (simp add: word_le_def uint_up_ucast is_up)
  moreover have "ucast (ucast (ne_kind ev) :: u64) = ne_kind ev" by (intro ucast_up_ucast_id) (simp add: is_up)
  ultimately show ?thesis by (simp add: event_json_def event_of_fields_def tags_of_json)
qed

definition frames_authentic :: "nostr_lib \<Rightarrow> json list \<Rightarrow> bool" where
  "frames_authentic l fs \<longleftrightarrow> (\<forall>subid v. event_frame subid v \<in> set fs \<longrightarrow> (\<exists>ev. event_of_json v = Some ev \<and> verify_event l ev))"

definition authentic :: "nostr_lib \<Rightarrow> hub \<Rightarrow> bool" where
  "authentic l h \<longleftrightarrow> (\<forall>s \<in> set (hb_stored h). verify_event l (se_event s) \<and> is_stored_kind (ne_kind (se_event s))) \<and>
     (\<forall>room device p. presence_at h room device = Some p \<longrightarrow> verify_event l (pr_announce p)) \<and>
     (\<forall>i c. fmlookup (hb_conns h) i = Some c \<longrightarrow> frames_authentic l (ce_out c))"

definition relay_authentic :: "nostr_lib \<Rightarrow> hub \<Rightarrow> bool" where
  "relay_authentic l h \<longleftrightarrow> (nostr_documented l (hb_identity h) \<longrightarrow> authentic l h)"

lemma frames_simps [simp]:
  "frames_authentic l []" "frames_authentic l (fs @ gs) \<longleftrightarrow> frames_authentic l fs \<and> frames_authentic l gs"
  by (auto simp: frames_authentic_def)

lemma sub_frames_authentic: "event_of_json v = Some ev \<Longrightarrow> verify_event l ev \<Longrightarrow> frames_authentic l (sub_frames v ev c)"
  by (auto simp: frames_authentic_def sub_frames_def event_frame_def)

lemma authentic_conns:
  assumes "authentic l h" "hb_stored h' = hb_stored h" "hb_presence h' = hb_presence h"
    and "\<And>i c. fmlookup (hb_conns h') i = Some c \<Longrightarrow> frames_authentic l (ce_out c)"
  shows "authentic l h'"
  using assms presence_at_cong [OF assms(3)] by (simp add: authentic_def)

lemma authentic_fanout:
  assumes "authentic l h" "event_of_json v = Some ev" "verify_event l ev" shows "authentic l (fanout v ev h)"
proof (rule authentic_conns [OF assms(1)])
  fix i c'
  assume "fmlookup (hb_conns (fanout v ev h)) i = Some c'"
  then obtain c where c: "fmlookup (hb_conns h) i = Some c" "c' = c\<lparr>ce_out := ce_out c @ sub_frames v ev c\<rparr>"
    by (auto simp: fanout_def)
  moreover from c(1) assms(1) have "frames_authentic l (ce_out c)" by (simp add: authentic_def)
  ultimately show "frames_authentic l (ce_out c')" using sub_frames_authentic [OF assms(2,3)] by simp
qed simp_all

lemma authentic_update:
  assumes "authentic l h" "\<And>c. fmlookup (hb_conns h) i = Some c \<Longrightarrow> \<exists>fs. ce_out (f c) = ce_out c @ fs \<and> frames_authentic l fs"
  shows "authentic l (update_conn i f h)"
proof (rule authentic_conns [OF assms(1)])
  fix j c'
  assume "fmlookup (hb_conns (update_conn i f h)) j = Some c'"
  then consider "fmlookup (hb_conns h) j = Some c'" | c where "fmlookup (hb_conns h) i = Some c" "c' = f c"
    by (cases "fmlookup (hb_conns h) i"; cases "j = i") (simp_all add: update_conn_def)
  then show "frames_authentic l (ce_out c')"
  proof cases
    case 2
    with assms(1) have "frames_authentic l (ce_out c)" by (simp add: authentic_def)
    moreover from 2 assms(2) obtain fs where "ce_out c' = ce_out c @ fs" "frames_authentic l fs" by blast
    ultimately show ?thesis by simp
  qed (use assms(1) in \<open>unfold authentic_def, blast\<close>)
qed simp_all

lemma fresh_subset: "set (fresh_events seen evs) \<subseteq> set evs"
  by (induction seen evs rule: fresh_events.induct) auto

lemma live_announces_iff: "ev \<in> set (live_announces h) \<longleftrightarrow> (\<exists>room device p. presence_at h room device = Some p \<and> pr_announce p = ev)"
proof -
  have "presence_at h room device = Some p \<longleftrightarrow> (\<exists>m. fmlookup (hb_presence h) room = Some m \<and> fmlookup m device = Some p)" for room device p
    by (cases "fmlookup (hb_presence h) room") (auto simp: presence_at_def)
  then show ?thesis unfolding live_announces_def set_concat set_map by (force simp del: in_sorted_list_of_fmap simp: in_sorted_list_of_fmap [symmetric])
qed

lemma replay_authentic: assumes "authentic l h" "ev \<in> set (replay_events filters h)" shows "verify_event l ev"
proof -
  have "ev \<in> set (map se_event (hb_stored h) @ live_announces h)"
    using assms(2) fresh_subset unfolding replay_events_def Let_def by (fastforce dest: in_set_dropD)
  with assms(1) show ?thesis by (auto simp: authentic_def live_announces_iff)
qed

lemma not_event_frame: "\<forall>f \<in> set fs. \<forall>subid v. f \<noteq> event_frame subid v \<Longrightarrow> frames_authentic l fs"
  by (auto simp: frames_authentic_def)

lemma req_authentic: assumes "authentic l h" shows "authentic l (handle_req i arr h)"
proof -
  have "frames_authentic l (map (\<lambda>ev. event_frame subid (event_json ev)) (replay_events filters h))" for subid filters
    using replay_authentic [OF assms] by (auto simp: frames_authentic_def event_frame_def event_round_trip)
  moreover have "frames_authentic l [JArr (JStr k # vs)]" if "k \<noteq> ''EVENT''" for k vs
    using that by (simp add: frames_authentic_def event_frame_def)
  ultimately show ?thesis using assms
    by (auto simp: handle_req_def send_to_def Let_def intro!: authentic_update split: option.split)
qed

lemma prune_subset: "set (prune now s) \<subseteq> set s"
  unfolding prune_def Let_def by (meson set_drop_subset set_dropWhileD subsetI subset_iff)

lemma admit_authentic:
  assumes "authentic l h" "event_of_json v = Some ev" "verify_event l ev" shows "authentic l (admit_event l i now v ev h)"
proof -
  let ?h1 = "h\<lparr>hb_events_relayed := saturating_add_u64 (hb_events_relayed h) 1\<rparr>"
  let ?h2 = "case presence_of l ev of None \<Rightarrow> ?h1 | Some (room, device) \<Rightarrow> record_presence i room device ev ?h1"
  let ?h3 = "if is_stored_kind (ne_kind ev)
    then ?h2\<lparr>hb_stored := prune now (hb_stored ?h2 @ [\<lparr>se_received_at = now, se_event = ev\<rparr>])\<rparr> else ?h2"
  have h1: "authentic l ?h1" by (rule authentic_conns [OF assms(1)]) (use assms(1) in \<open>auto simp: authentic_def\<close>)
  have "authentic l (record_presence i room device ev ?h1)" for room device
  proof -
    let ?g = "record_presence i room device ev ?h1"
    have "\<exists>c0. fmlookup (hb_conns ?h1) j = Some c0 \<and> ce_out c = ce_out c0" if "fmlookup (hb_conns ?g) j = Some c" for j c
      using that by (auto simp: record_presence_def update_conn_def Let_def split: option.splits if_splits)
    moreover have "hb_stored ?g = hb_stored ?h1" by (simp add: record_presence_def Let_def)
    ultimately show ?thesis using h1 assms(3) unfolding authentic_def record_presence_at by (metis option.inject presence.select_convs(2))
  qed
  with h1 have h2: "authentic l ?h2" by (simp split: option.split prod.split)
  have "authentic l ?h3"
  proof (cases "is_stored_kind (ne_kind ev)")
    case True
    let ?new = "hb_stored ?h2 @ [\<lparr>se_received_at = now, se_event = ev\<rparr>]"
    have "verify_event l (se_event s) \<and> is_stored_kind (ne_kind (se_event s))" if "s \<in> set (prune now ?new)" for s
      using that True h2 assms(3) prune_subset [of now ?new] unfolding authentic_def by auto
    moreover have "presence_at (?h2\<lparr>hb_stored := x\<rparr>) = presence_at ?h2" for x by (rule presence_at_cong) simp
    ultimately show ?thesis using True h2 unfolding authentic_def by simp
  qed (simp add: h2)
  from authentic_fanout [OF this assms(2,3)] show ?thesis
    unfolding admit_event_def Let_def send_to_def
    by (intro authentic_update) (auto simp: frames_authentic_def event_frame_def)
qed

lemma depart_authentic:
  assumes "authentic l h" "nostr_documented l (hb_identity h)" shows "authentic l (depart l secs i rd h)"
proof -
  let ?h1 = "h\<lparr>hb_presence := remove_presence (fst rd) (snd rd) (hb_presence h),
     hb_stored := filter (\<lambda>s. presence_of l (se_event s) \<noteq> Some rd) (hb_stored h)\<rparr>"
  have at: "presence_at h room device = Some p" if "presence_at ?h1 room device = Some p" for room device p
    using that by (auto simp: presence_at_def remove_presence_lookup split: if_splits)
  have "authentic l ?h1" using assms(1) unfolding authentic_def by (auto dest: at)
  from authentic_fanout [OF this event_round_trip] assms show ?thesis
    by (simp add: depart_owned Let_def build_leave_event_def make_event_verifies)
qed

lemma unregister_authentic:
  assumes "authentic l h" "nostr_documented l (hb_identity h)" shows "authentic l (unregister l secs i h)"
proof -
  have "authentic l (fold (depart l secs i) rds g)" if "authentic l g" "nostr_documented l (hb_identity g)" for rds g
    using that by (induction rds arbitrary: g) (simp_all add: depart_authentic)
  moreover have "authentic l (h\<lparr>hb_conns := fmdrop i (hb_conns h), hb_ip_counts := n\<rparr>)" for n
    by (rule authentic_conns [OF assms(1)]) (use assms(1) in \<open>auto simp: authentic_def split: if_splits\<close>)
  ultimately show ?thesis using assms by (simp add: unregister_def split: option.split)
qed

lemma unregister_identity [simp]: "hb_identity (unregister l secs i h) = hb_identity h"
  by (simp add: unregister_def split: option.split)

interpretation authenticity: hub_invariant l "relay_authentic l" for l
proof
  fix h i c c' arr ip now secs
  assume h: "relay_authentic l h"
  show "relay_authentic l (snd (register ip now h))"
    using h by (auto simp: relay_authentic_def register_def Let_def intro!: authentic_conns [of l h])
      (auto simp: authentic_def split: if_splits)
  show "relay_authentic l (h\<lparr>hb_conns := fmupd i c' (hb_conns h)\<rparr>)" if "fmlookup (hb_conns h) i = Some c" "touched c c'"
    using h that authentic_update [of l h i "\<lambda>_. c'"] not_event_frame
    by (auto simp: relay_authentic_def touched_def update_conn_def)
  show "relay_authentic l (handle_close i arr h)"
    using h by (auto simp: relay_authentic_def handle_close_def intro!: authentic_update split: option.split)
qed (simp_all add: relay_authentic_def req_authentic admit_authentic unregister_authentic)

section \<open>What holds of a running relay\<close>

interpretation settings: hub_invariant l "\<lambda>h. hb_limits h = lm \<and> hb_identity h = identity" for l lm identity
  by unfold_locales (auto simp: register_def unregister_def handle_close_def Let_def split: option.split)

definition distinct_present :: "hub \<Rightarrow> bool" where
  "distinct_present h \<longleftrightarrow> (\<forall>i present. fmlookup (view ce_present h) i = Some present \<longrightarrow> distinct present)"

lemma admit_distinct: assumes "distinct_present h" shows "distinct_present (admit_event l i now v ev h)"
proof -
  let ?h1 = "h\<lparr>hb_events_relayed := saturating_add_u64 (hb_events_relayed h) 1\<rparr>"
  let ?h2 = "case presence_of l ev of None \<Rightarrow> ?h1 | Some (room, device) \<Rightarrow> record_presence i room device ev ?h1"
  have "distinct_present (record_presence i room device ev g)" if "distinct_present g" for room device g
  proof -
    have "distinct (if (room, device) \<in> set xs then xs else xs @ [(room, device)])" if "distinct xs" for xs using that by simp
    moreover have "distinct (ce_present c)" if "fmlookup (hb_conns g) j = Some c" for j c
      using that \<open>distinct_present g\<close> by (simp add: distinct_present_def view_def) metis
    ultimately show ?thesis using that
      by (auto simp: distinct_present_def record_presence_def Let_def view_subs_put split: if_splits)
  qed
  moreover have "distinct_present ?h1" using assms by (simp add: distinct_present_def)
  ultimately have "distinct_present ?h2" by (simp split: option.split prod.split)
  then show ?thesis by (simp add: distinct_present_def admit_event_def Let_def)
qed

interpretation distinctness: hub_invariant l distinct_present for l
proof
  fix h ip now secs i
  assume h: "distinct_present h"
  show "distinct_present (snd (register ip now h))"
    using h by (auto simp: distinct_present_def register_def Let_def view_def split: if_splits)
  show "distinct_present (unregister l secs i h)"
    using h by (auto simp: distinct_present_def unregister_def split: option.split) (auto simp: view_def split: if_splits)
  show "distinct_present (admit_event l i now v ev h)" for v ev using h by (rule admit_distinct)
qed (simp_all add: distinct_present_def view_upd touched_def handle_close_def split: option.split)

lemmas relay_invariants =
  admission.reaches_keeps bounds.reaches_keeps listing.reaches_keeps authenticity.reaches_keeps settings.reaches_keeps distinctness.reaches_keeps

lemma new_hub_ok:
  "admission_ok (new_hub lm identity)" "bounded_hub (new_hub lm identity)" "listing_ok l (new_hub lm identity)"
  "relay_authentic l (new_hub lm identity)" "distinct_present (new_hub lm identity)"
  by (simp_all add: new_hub_def admission_ok_def counted_def ip_count_def bounded_hub_def listing_ok_def presence_ok_def
      presence_at_def relay_authentic_def authentic_def distinct_present_def view_def)

text \<open>The frames that tell a connection of a device's departure, and the queues after a departure.\<close>

definition leave_frames :: "nostr_lib \<Rightarrow> nostr_identity \<Rightarrow> u64 \<Rightarrow> conn_entry \<Rightarrow> string \<times> string \<Rightarrow> json list" where
  "leave_frames l identity secs c rd =
     (let leave = build_leave_event l identity (fst rd) (snd rd) secs in sub_frames (event_json leave) leave c)"

lemma sub_frames_out [simp]: "sub_frames v ev (c\<lparr>ce_out := out\<rparr>) = sub_frames v ev c"
  by (simp add: sub_frames_def)

lemma departs_conns:
  assumes "distinct rds" "fmlookup (hb_conns h) j = Some c"
  shows "fmlookup (hb_conns (fold (depart l secs i) rds h)) j =
     Some (c\<lparr>ce_out := ce_out c @ concat (map (leave_frames l (hb_identity h) secs c) (filter (owns h i) rds))\<rparr>)"
  using assms
proof (induction rds arbitrary: h c)
  case (Cons rd rds)
  let ?h1 = "depart l secs i rd h"
  have o: "owns ?h1 i rd' \<longleftrightarrow> owns h i rd'" if "rd' \<in> set rds" for rd'
    using that Cons.prems(1) by (cases rd') (auto simp: owns_def depart_presence)
  then have f: "filter (owns ?h1 i) rds = filter (owns h i) rds" by (intro filter_cong) simp_all
  have c1: "fmlookup (hb_conns ?h1) j = Some (c\<lparr>ce_out := ce_out c @ (if owns h i rd then leave_frames l (hb_identity h) secs c rd else [])\<rparr>)"
    using Cons.prems(2) by (simp add: depart_owned Let_def fanout_def leave_frames_def)
  have "leave_frames l n secs (c\<lparr>ce_out := out\<rparr>) = leave_frames l n secs c" for n out
    by (simp add: leave_frames_def fun_eq_iff)
  with Cons.IH [OF _ c1] Cons.prems(1) f show ?case by simp
qed simp

lemma departs_stored_eq:
  "hb_stored (fold (depart l secs i) rds h) =
     filter (\<lambda>s. \<not> (\<exists>rd \<in> set rds. owns h i rd \<and> presence_of l (se_event s) = Some rd)) (hb_stored h)"
proof (induction rds arbitrary: h)
  case (Cons rd rds)
  have "owns (depart l secs i rd h) i rd' \<longleftrightarrow> owns h i rd' \<and> (rd' \<noteq> rd)" for rd'
    by (cases rd') (auto simp: owns_def depart_presence)
  then show ?case by (auto simp: Cons) (auto simp: depart_owned Let_def intro!: filter_cong)
qed simp

text \<open>
  C26: The relay keeps its limits. Whatever connects, closes and sends, the number kept for an address is exactly its
  open connections, at most the configured ones; no connection holds more subscriptions, and no subscription more
  filters, than allowed; and the store holds at most 8192 events. A limit of zero is none.
\<close>

theorem relay_limits_hold:
  assumes "relay_reaches l lm identity h"
  shows "hb_limits h = lm \<and> admission_ok h \<and> bounded_hub h"
  using relay_invariants(5) [OF assms, of lm identity] relay_invariants(1) [OF assms new_hub_ok(1)] relay_invariants(2) [OF assms new_hub_ok(2)]
  by (simp add: new_hub_def)

text \<open>
  C24: The relay spreads only what was signed. If the libraries verify what they sign, everything stored, every
  announcement kept, and every event put on any connection's queue, the relay's own departures included, carries the
  signature of the key it names over its own content; and no negotiation is ever stored.
\<close>

theorem relay_forwards_authentic:
  assumes "relay_reaches l lm identity h" "nostr_documented l identity" shows "authentic l h"
  using relay_invariants(4) [OF assms(1) new_hub_ok(4)] relay_invariants(5) [OF assms(1), of lm identity] assms(2)
  by (simp add: relay_authentic_def new_hub_def)

text \<open>
  C25: Departures are announced, once and only for the owner. When a connection of a running relay ends, exactly the devices it
  was the last to announce leave the list of who is present and the replayable store, everyone else stays; and every other
  connection's queue grows by exactly one departure per such device for each of its subscriptions that match.
\<close>

theorem relay_departure:
  assumes "relay_reaches l lm identity h" "fmlookup (hb_conns h) i = Some c"
  shows "(\<forall>room device. presence_at (unregister l secs i h) room device =
            (if owns h i (room, device) then None else presence_at h room device)) \<and>
     hb_stored (unregister l secs i h) =
       filter (\<lambda>s. \<not> (\<exists>rd. owns h i rd \<and> presence_of l (se_event s) = Some rd)) (hb_stored h) \<and>
     fmlookup (hb_conns (unregister l secs i h)) i = None \<and>
     (\<forall>j c'. j \<noteq> i \<longrightarrow> fmlookup (hb_conns h) j = Some c' \<longrightarrow>
        fmlookup (hb_conns (unregister l secs i h)) j =
          Some (c'\<lparr>ce_out := ce_out c' @ concat (map (leave_frames l identity secs c') (filter (owns h i) (ce_present c)))\<rparr>))"
proof -
  let ?h1 = "h\<lparr>hb_conns := fmdrop i (hb_conns h), hb_ip_counts := release_ip (ce_ip c) (hb_ip_counts h)\<rparr>"
  have u: "unregister l secs i h = fold (depart l secs i) (ce_present c) ?h1" using assms(2) by (simp add: unregister_def)
  have ok: "presence_ok l h" using relay_invariants(3) [OF assms(1) new_hub_ok(3)] by (simp add: listing_ok_def)
  have d: "distinct (ce_present c)"
    using relay_invariants(6) [OF assms(1) new_hub_ok(5)] assms(2) by (simp add: distinct_present_def view_def) metis
  have i: "hb_identity h = identity" using relay_invariants(5) [OF assms(1), of lm identity] by (simp add: new_hub_def)
  have "presence_at ?h1 = presence_at h" by (rule presence_at_cong) simp
  then have o: "owns ?h1 = owns h" by (simp add: owns_def fun_eq_iff)
  have "rd \<in> set (ce_present c)" if "owns h i rd" for rd
    using owned_present [OF ok assms(2) that] .
  then have "hb_stored (unregister l secs i h) =
       filter (\<lambda>s. \<not> (\<exists>rd. owns h i rd \<and> presence_of l (se_event s) = Some rd)) (hb_stored h)"
    unfolding u departs_stored_eq o by (auto intro!: filter_cong)
  moreover have "fmlookup (view (\<lambda>_. ()) (unregister l secs i h)) i = None" by (simp add: unregister_view [OF assms(2)])
  then have "fmlookup (hb_conns (unregister l secs i h)) i = None" by (simp add: view_def)
  moreover have "fmlookup (hb_conns (unregister l secs i h)) j =
          Some (c'\<lparr>ce_out := ce_out c' @ concat (map (leave_frames l identity secs c') (filter (owns h i) (ce_present c)))\<rparr>)"
    if "j \<noteq> i" "fmlookup (hb_conns h) j = Some c'" for j c'
    using departs_conns [OF d, of ?h1 j c' l secs i] that unfolding u o by (simp add: i)
  ultimately show ?thesis using unregister_presence [OF ok assms(2)] by blast
qed

lemma fresh_ids:
  "distinct (map ne_id (fresh_events seen evs)) \<and> ne_id ` set (fresh_events seen evs) = ne_id ` set evs - seen"
  by (induction seen evs rule: fresh_events.induct) auto

lemma fresh_length: "length (fresh_events seen evs) \<le> length evs"
  by (induction seen evs rule: fresh_events.induct) auto

text \<open>
  C27: A newcomer learns who is there. A subscription within the limits of its connection is kept and answered by at most 500 events,
  no two of the same id, each of which its filters match, and then the end mark; and while no more than 500 events are held,
  everyone present whose announcement matches is among them.
\<close>

theorem relay_discovery:
  assumes "relay_reaches l lm identity h" "fmlookup (hb_conns h) i = Some c"
    and "lm_max_subscriptions lm = 0 \<or> fmlookup (ce_subs c) subid \<noteq> None \<or> fcard (fmdom (ce_subs c)) < unat (lm_max_subscriptions lm)"
    and filters: "filters = (if 0 < lm_max_filters_per_req lm then take (unat (lm_max_filters_per_req lm)) fs else fs)"
  shows "\<exists>r. fmlookup (hb_conns (handle_req i (JStr ''REQ'' # JStr subid # fs) h)) i =
       Some (c\<lparr>ce_subs := fmupd subid filters (ce_subs c),
         ce_out := ce_out c @ map (\<lambda>ev. event_frame subid (event_json ev)) r @ [JArr [JStr ''EOSE'', JStr subid]]\<rparr>) \<and>
     length r \<le> 500 \<and> distinct (map ne_id r) \<and> (\<forall>ev \<in> set r. matches_any filters ev) \<and>
     (length (hb_stored h) + length (live_announces h) \<le> 500 \<longrightarrow>
        (\<forall>room device p. presence_at h room device = Some p \<and> matches_any filters (pr_announce p) \<longrightarrow>
           ne_id (pr_announce p) \<in> ne_id ` set r))"
proof (intro exI conjI allI impI)
  let ?all = "filter (matches_any filters) (map se_event (hb_stored h) @ live_announces h)" and ?r = "replay_events filters h"
  have r: "?r = drop (length (fresh_events {} ?all) - 500) (fresh_events {} ?all)"
    by (simp only: replay_events_def Let_def MAX_REPLAY_PER_REQ_def)
  have "hb_limits h = lm" using relay_invariants(5) [OF assms(1), of lm identity] by (simp add: new_hub_def)
  then show "fmlookup (hb_conns (handle_req i (JStr ''REQ'' # JStr subid # fs) h)) i =
       Some (c\<lparr>ce_subs := fmupd subid filters (ce_subs c),
         ce_out := ce_out c @ map (\<lambda>ev. event_frame subid (event_json ev)) ?r @ [JArr [JStr ''EOSE'', JStr subid]]\<rparr>)"
    using assms(2,3) by (auto simp: handle_req_def Let_def update_conn_def filters)
  show "length ?r \<le> 500" unfolding r by simp
  show "distinct (map ne_id ?r)" unfolding r drop_map [symmetric] using fresh_ids [of "{}" ?all] by (simp del: filter_append)
  show "\<forall>ev \<in> set ?r. matches_any filters ev"
    unfolding r using fresh_subset [of "{}" ?all] by (auto dest!: in_set_dropD simp del: filter_append)
  fix room device p
  assume few: "length (hb_stored h) + length (live_announces h) \<le> 500"
    and p: "presence_at h room device = Some p \<and> matches_any filters (pr_announce p)"
  have "length (fresh_events {} ?all) \<le> 500"
    using fresh_length [of "{}" ?all] length_filter_le [of "matches_any filters" "map se_event (hb_stored h) @ live_announces h"] few
    by (simp del: filter_append)
  then have "?r = fresh_events {} ?all" unfolding r by simp
  moreover have "pr_announce p \<in> set (live_announces h)" unfolding live_announces_iff using p by blast
  then have "pr_announce p \<in> set ?all" using p by simp
  ultimately show "ne_id (pr_announce p) \<in> ne_id ` set ?r" using fresh_ids [of "{}" ?all] by (auto simp del: filter_append)
qed

text \<open>
  C39: A device can be made to look gone by anyone who can reach the relay. A connection that announces, under a key of its
  own, a device another connection is present as, and then closes, removes that device from the list, although its own
  connection is still open: the signature binds the event to its key, and nothing binds the device to the key.
\<close>

theorem relay_presence_stolen:
  assumes "relay_reaches l lm identity h" "fmlookup (hb_conns h) i = Some c" "fmlookup (hb_conns h) j = Some cj" "i \<noteq> j"
    and "presence_at h room device = Some p" "pr_conn_id p = j"
    and "presence_of l ev = Some (room, device)" "verify_event l ev" "event_of_json v = Some ev"
  shows "presence_at (unregister l secs i (handle_event l i now [JStr ''EVENT'', v] h)) room device = None \<and>
     fmlookup (hb_conns (unregister l secs i (handle_event l i now [JStr ''EVENT'', v] h))) j \<noteq> None"
proof -
  let ?h1 = "admit_event l i now v ev h"
  have e: "handle_event l i now [JStr ''EVENT'', v] h = ?h1" using assms(8,9) by (simp add: handle_event_def)
  have ok: "presence_ok l h" using relay_invariants(3) [OF assms(1) new_hub_ok(3)] by (simp add: listing_ok_def)
  then have ok1: "presence_ok l ?h1" using assms(2) by (rule admit_presence_ok)
  have "view (\<lambda>_. ()) ?h1 = view (\<lambda>_. ()) h" by simp
  then have k: "fmlookup (view (\<lambda>_. ()) ?h1) k = fmlookup (view (\<lambda>_. ()) h) k" for k by simp
  obtain c1 where c1: "fmlookup (hb_conns ?h1) i = Some c1" using k [of i] assms(2) by (auto simp: view_def)
  have "presence_at ?h1 room device = Some \<lparr>pr_conn_id = i, pr_announce = ev\<rparr>"
  proof -
    let ?h0 = "h\<lparr>hb_events_relayed := saturating_add_u64 (hb_events_relayed h) 1\<rparr>"
    have "hb_presence ?h1 = hb_presence (record_presence i room device ev ?h0)" using assms(7) by (simp add: admit_event_def Let_def)
    from presence_at_cong [OF this] show ?thesis by (simp add: record_presence_at)
  qed
  then have "owns ?h1 i (room, device)" by (simp add: owns_def)
  with unregister_presence [OF ok1 c1] have "presence_at (unregister l secs i ?h1) room device = None" by simp
  moreover have "fmlookup (view (\<lambda>_. ()) (unregister l secs i ?h1)) j = fmlookup (view (\<lambda>_. ()) h) j"
    using k [of j] assms(4) by (simp add: unregister_view [OF c1])
  then have "fmlookup (view (\<lambda>_. ()) (unregister l secs i ?h1)) j = Some ()" using assms(3) by (simp add: view_def)
  then have "fmlookup (hb_conns (unregister l secs i ?h1)) j \<noteq> None" by (auto simp: view_def)
  ultimately show ?thesis unfolding e by blast
qed

section \<open>A small relay\<close>

text \<open>
  Two devices: the first announces alice under its own key, the second subscribes to the room and may announce
  alice as well. The libraries are instances that keep their promises.
\<close>

definition sample_announce :: "string \<Rightarrow> nostr_event" where
  "sample_announce key =
     \<lparr>ne_id = ''e'', ne_pubkey = key, ne_created_at = 7, ne_kind = 1077, ne_tags = [[''r'', ''room'']], ne_content = ''A'', ne_sig = ''s''\<rparr>"

definition sample_nostr :: nostr_lib where
  "sample_nostr =
     \<lparr>nl_parse = (\<lambda>t. if t = ''A'' then Some (JObj [(''kind'', JStr ''announce''), (''from'', JStr ''alice'')])
                      else if t = ''E1'' then Some (JArr [JStr ''EVENT'', event_json (sample_announce ''k1'')])
                      else if t = ''Q'' then Some (JArr [JStr ''REQ'', JStr ''sub'', JObj [(''#r'', JArr [JStr ''room''])]])
                      else None),
      nl_render = (\<lambda>_. ''x''), nl_sha256 = (\<lambda>_. ''e''), nl_hex = (\<lambda>b. b), nl_unhex = Some, nl_xonly = (\<lambda>_. True),
      nl_signature = (\<lambda>_. True), nl_schnorr = (\<lambda>_ _ _. True), nl_sign = (\<lambda>_ _. ''s'')\<rparr>"

definition sample_relay_key :: nostr_identity where
  "sample_relay_key = \<lparr>ni_keypair = ''r'', ni_pubkey_hex = ''pub''\<rparr>"

definition sample_hub :: hub where
  "sample_hub =
     conn_frame sample_nostr 5 0 2 ''Q''
       (conn_frame sample_nostr 5 0 1 ''E1''
         (snd (register ''ip2'' 0 (snd (register ''ip1'' 0 (new_hub default_limits sample_relay_key))))))"

lemma sample_hub_reached: "relay_reaches sample_nostr default_limits sample_relay_key sample_hub"
  unfolding relay_reaches_def sample_hub_def
  by (meson converse_rtranclp_into_rtranclp relay_step.connect relay_step.frame rtranclp.rtrancl_refl)

lemma sample_nostr_documented: "nostr_documented sample_nostr sample_relay_key"
  by (simp add: nostr_documented_def sample_nostr_def)

lemma sample_hub_value:
  "map_option ce_present (fmlookup (hb_conns sample_hub) 1) = Some [(''room'', ''alice'')]"
  "map_option ce_subs (fmlookup (hb_conns sample_hub) 2) = Some (fmupd ''sub'' [JObj [(''#r'', JArr [JStr ''room''])]] fmempty)"
  "presence_at sample_hub ''room'' ''alice'' = Some \<lparr>pr_conn_id = 1, pr_announce = sample_announce ''k1''\<rparr>"
  by code_simp+

theorem relay_limits_hold_witness: "hb_limits sample_hub = default_limits \<and> admission_ok sample_hub \<and> bounded_hub sample_hub"
  using relay_limits_hold [OF sample_hub_reached] .

theorem relay_forwards_authentic_witness: "authentic sample_nostr sample_hub"
  using relay_forwards_authentic [OF sample_hub_reached sample_nostr_documented] .

lemma sample_conns:
  obtains c1 c2 where "fmlookup (hb_conns sample_hub) 1 = Some c1" "fmlookup (hb_conns sample_hub) 2 = Some c2"
    "ce_present c1 = [(''room'', ''alice'')]" "ce_subs c2 = fmupd ''sub'' [JObj [(''#r'', JArr [JStr ''room''])]] fmempty"
  using sample_hub_value(1,2) by blast

lemma sample_owner: "owns sample_hub 1 (''room'', ''alice'')"
  by (simp add: owns_def sample_hub_value(3))

theorem relay_departure_witness:
  "presence_at (unregister sample_nostr 9 1 sample_hub) ''room'' ''alice'' = None \<and>
   (\<exists>c2 c2'. fmlookup (hb_conns sample_hub) 2 = Some c2 \<and> fmlookup (hb_conns (unregister sample_nostr 9 1 sample_hub)) 2 = Some c2' \<and>
      ce_out c2' = ce_out c2 @ leave_frames sample_nostr sample_relay_key 9 c2 (''room'', ''alice''))"
proof -
  obtain c1 c2 where c: "fmlookup (hb_conns sample_hub) 1 = Some c1" "fmlookup (hb_conns sample_hub) 2 = Some c2"
    "ce_present c1 = [(''room'', ''alice'')]" by (rule sample_conns)
  note d = relay_departure [OF sample_hub_reached c(1), of 9]
  from d have "presence_at (unregister sample_nostr 9 1 sample_hub) ''room'' ''alice'' = None" using sample_owner by simp
  moreover from d c(2) have "fmlookup (hb_conns (unregister sample_nostr 9 1 sample_hub)) 2 = Some (c2\<lparr>ce_out := ce_out c2 @
      concat (map (leave_frames sample_nostr sample_relay_key 9 c2) (filter (owns sample_hub 1) (ce_present c1)))\<rparr>)" by simp
  ultimately show ?thesis using c sample_owner by simp
qed

theorem relay_discovery_witness:
  "\<exists>c r. fmlookup (hb_conns (handle_req 2 [JStr ''REQ'', JStr ''sub2'', JObj []] sample_hub)) 2 = Some c \<and>
     length r \<le> 500 \<and> ne_id (sample_announce ''k1'') \<in> ne_id ` set r \<and>
     set (map (\<lambda>ev. event_frame ''sub2'' (event_json ev)) r) \<subseteq> set (ce_out c)"
proof -
  obtain c2 where c: "fmlookup (hb_conns sample_hub) 2 = Some c2" "ce_subs c2 = fmupd ''sub'' [JObj [(''#r'', JArr [JStr ''room''])]] fmempty"
    by (rule sample_conns)
  have "length (hb_stored sample_hub) + length (live_announces sample_hub) = 2" by code_simp
  then have few: "length (hb_stored sample_hub) + length (live_announces sample_hub) \<le> 500" by simp
  have "fcard (fmdom (ce_subs c2)) < unat (lm_max_subscriptions default_limits)"
    using c(2) by (simp add: default_limits_def fcard.rep_eq)
  then obtain r where "fmlookup (hb_conns (handle_req 2 [JStr ''REQ'', JStr ''sub2'', JObj []] sample_hub)) 2 =
       Some (c2\<lparr>ce_subs := fmupd ''sub2'' [JObj []] (ce_subs c2),
         ce_out := ce_out c2 @ map (\<lambda>ev. event_frame ''sub2'' (event_json ev)) r @ [JArr [JStr ''EOSE'', JStr ''sub2'']]\<rparr>)"
    "length r \<le> 500" "presence_at sample_hub ''room'' ''alice'' = Some p \<Longrightarrow> matches_any [JObj []] (pr_announce p) \<Longrightarrow>
       ne_id (pr_announce p) \<in> ne_id ` set r" for p
    using relay_discovery [OF sample_hub_reached c(1), of "''sub2''" "[JObj []]" "[JObj []]"] few
    by (auto simp: default_limits_def)
  moreover have "matches_any [JObj []] (sample_announce ''k1'')" by (simp add: matches_any_def filter_matches_def)
  ultimately show ?thesis using sample_hub_value(3) by (intro exI conjI) auto
qed

theorem relay_presence_stolen_witness:
  "presence_at (unregister sample_nostr 9 2 (handle_event sample_nostr 2 6 [JStr ''EVENT'', event_json (sample_announce ''k2'')] sample_hub))
     ''room'' ''alice'' = None \<and>
   fmlookup (hb_conns (unregister sample_nostr 9 2 (handle_event sample_nostr 2 6 [JStr ''EVENT'', event_json (sample_announce ''k2'')] sample_hub)))
     1 \<noteq> None"
proof -
  obtain c1 c2 where c: "fmlookup (hb_conns sample_hub) 1 = Some c1" "fmlookup (hb_conns sample_hub) 2 = Some c2" by (rule sample_conns)
  have "presence_of sample_nostr (sample_announce ''k2'') = Some (''room'', ''alice'')" "verify_event sample_nostr (sample_announce ''k2'')"
    by code_simp+
  then show ?thesis
    using relay_presence_stolen [OF sample_hub_reached c(2,1) _ sample_hub_value(3), of "sample_announce ''k2''" "event_json (sample_announce ''k2'')" 9 6]
    by (simp add: event_round_trip)
qed

end
