(* ===== verification/Bridge.thy ===== *)
theory Bridge
  imports Connect
begin

text \<open>
  Between the engine and its signaling drivers: \<open>engine/signaling_bridge.rs\<close>, the message type of \<open>lib.rs\<close> and the in-process
  broker \<open>local.rs\<close> of \<open>myownmesh-signaling\<close>.

  A pump task is a function on what it receives, in order, as long as both of its ends are open. The hasher of the delivery
  gate, whose algorithm the standard library leaves open, is the argument \<open>hash\<close>. The Nostr and mDNS drivers take and deliver
  messages of the same shape, \<open>driver_outbound\<close> and \<open>driver_inbound\<close>.
\<close>

section \<open>Messages\<close>

datatype signaling_message =
    MsgAnnounce string "string list"
  | MsgOffer string string string
  | MsgAnswer string string string
  | MsgCandidate string string "string option" "16 word option" "string option"
  | MsgLeave string

fun message_peer_id :: "signaling_message \<Rightarrow> string" where
  "message_peer_id (MsgAnnounce p caps) = p"
| "message_peer_id (MsgOffer p offer_id sdp) = p"
| "message_peer_id (MsgAnswer p offer_id sdp) = p"
| "message_peer_id (MsgCandidate p candidate mid index ufrag) = p"
| "message_peer_id (MsgLeave p) = p"

datatype driver_outbound = OutAnnounce | OutLeave | OutDirected string signaling_message

datatype driver_inbound =
  InAnnounced string | InLeft string | InDiscoveryLost string | InMessage string signaling_message

datatype local_outbound = LocalAnnounce string | LocalDirected string signaling_message | LocalLeave string

datatype local_inbound = LocalAnnounced string | LocalMessage string signaling_message | LocalLeft string

section \<open>Outbound pumps\<close>

fun outbound_msg :: "string \<Rightarrow> signaling_outbound \<Rightarrow> driver_outbound" where
  "outbound_msg me Announce = OutAnnounce"
| "outbound_msg me Leave = OutLeave"
| "outbound_msg me (SendOffer to offer_id sdp) = OutDirected to (MsgOffer me offer_id sdp)"
| "outbound_msg me (SendAnswer to offer_id sdp) = OutDirected to (MsgAnswer me offer_id sdp)"
| "outbound_msg me (SendCandidate to c) =
     OutDirected to (MsgCandidate me (ic_candidate c) (ic_sdp_mid c) (ic_sdp_mline_index c) (ic_username_fragment c))"

fun local_msg :: "string \<Rightarrow> signaling_outbound \<Rightarrow> local_outbound" where
  "local_msg me Announce = LocalAnnounce me"
| "local_msg me Leave = LocalLeave me"
| "local_msg me (SendOffer to offer_id sdp) = LocalDirected to (MsgOffer me offer_id sdp)"
| "local_msg me (SendAnswer to offer_id sdp) = LocalDirected to (MsgAnswer me offer_id sdp)"
| "local_msg me (SendCandidate to c) =
     LocalDirected to (MsgCandidate me (ic_candidate c) (ic_sdp_mid c) (ic_sdp_mline_index c) (ic_username_fragment c))"

definition is_presence :: "signaling_outbound \<Rightarrow> bool" where
  "is_presence m \<longleftrightarrow> m = Announce \<or> m = Leave"

definition local_pump :: "bool \<Rightarrow> string \<Rightarrow> signaling_outbound list \<Rightarrow> local_outbound list" where
  "local_pump listen_only me outs =
     (if listen_only then [] else [LocalAnnounce me]) @ map (local_msg me) (filter (\<lambda>m. \<not> (listen_only \<and> is_presence m)) outs)"

definition nostr_pump :: "bool \<Rightarrow> string \<Rightarrow> signaling_outbound list \<Rightarrow> driver_outbound list" where
  "nostr_pump listen_only me outs = map (outbound_msg me) (filter (\<lambda>m. \<not> (listen_only \<and> is_presence m)) outs)"

definition mdns_pump :: "string \<Rightarrow> signaling_outbound list \<Rightarrow> driver_outbound list" where
  "mdns_pump me outs = map (outbound_msg me) outs"

definition EVICTED_PROBE_INTERVAL_MS :: u64 where "EVICTED_PROBE_INTERVAL_MS = 600000"

text \<open>What the fan-out lets through, each emission with whether the engine is stood down and the time.\<close>

fun fanout_pump :: "bool \<Rightarrow> u64 option \<Rightarrow> (signaling_outbound \<times> bool \<times> u64) list \<Rightarrow> signaling_outbound list" where
  "fanout_pump listen_only last_probe [] = []"
| "fanout_pump listen_only last_probe ((m, evicted, now) # ms) =
     (if listen_only \<and> is_presence m then fanout_pump listen_only last_probe ms
      else if m = Announce \<and> evicted then
        (if (case last_probe of None \<Rightarrow> True | Some at \<Rightarrow> EVICTED_PROBE_INTERVAL_MS \<le> duration_since now at)
         then m # fanout_pump listen_only (Some now) ms
         else fanout_pump listen_only last_probe ms)
      else m # fanout_pump listen_only last_probe ms)"

section \<open>Choice of drivers\<close>

text \<open>The fields of a network's configuration that choose its drivers, and which drivers run.\<close>

record signaling_config =
  sc_strategy :: string
  sc_mdns :: bool
  sc_listen_only :: bool

record signaling_drivers =
  sd_nostr :: bool
  sd_mdns :: bool
  sd_fanout :: bool

text \<open>The last argument says whether the mDNS driver starts.\<close>

definition attach_signaling :: "signaling_config \<Rightarrow> bool \<Rightarrow> signaling_drivers" where
  "attach_signaling cfg mdns_starts =
     (let mdns_on = (sc_mdns cfg \<and> \<not> sc_listen_only cfg);
          want_nostr = (sc_strategy cfg = [] \<or> sc_strategy cfg = ''nostr'')
      in case (want_nostr, mdns_on) of
           (True, True) \<Rightarrow> \<lparr>sd_nostr = True, sd_mdns = mdns_starts, sd_fanout = True\<rparr>
         | (True, False) \<Rightarrow> \<lparr>sd_nostr = True, sd_mdns = False, sd_fanout = False\<rparr>
         | (False, True) \<Rightarrow> \<lparr>sd_nostr = False, sd_mdns = mdns_starts, sd_fanout = False\<rparr>
         | (False, False) \<Rightarrow> \<lparr>sd_nostr = False, sd_mdns = False, sd_fanout = True\<rparr>)"

definition describe :: "signaling_drivers \<Rightarrow> string" where
  "describe d =
     (case (sd_nostr d, sd_mdns d) of
        (True, True) \<Rightarrow> ''nostr+mdns'' | (True, False) \<Rightarrow> ''nostr'' | (False, True) \<Rightarrow> ''mdns'' | (False, False) \<Rightarrow> ''none'')"

text \<open>What reaches the two drivers of an attached network: through the fan-out if there is one, directly otherwise.\<close>

definition driver_input :: "signaling_config \<Rightarrow> bool \<Rightarrow> (signaling_outbound \<times> bool \<times> u64) list \<Rightarrow> signaling_outbound list" where
  "driver_input cfg mdns_starts ms =
     (if sd_fanout (attach_signaling cfg mdns_starts) then fanout_pump (sc_listen_only cfg) None ms else map fst ms)"

definition nostr_sees :: "signaling_config \<Rightarrow> bool \<Rightarrow> string \<Rightarrow> (signaling_outbound \<times> bool \<times> u64) list \<Rightarrow> driver_outbound list" where
  "nostr_sees cfg mdns_starts me ms =
     (if sd_nostr (attach_signaling cfg mdns_starts) then nostr_pump (sc_listen_only cfg) me (driver_input cfg mdns_starts ms) else [])"

definition mdns_sees :: "signaling_config \<Rightarrow> bool \<Rightarrow> string \<Rightarrow> (signaling_outbound \<times> bool \<times> u64) list \<Rightarrow> driver_outbound list" where
  "mdns_sees cfg mdns_starts me ms =
     (if sd_mdns (attach_signaling cfg mdns_starts) then mdns_pump me (driver_input cfg mdns_starts ms) else [])"

section \<open>Inbound pumps\<close>

definition canonical_wire_device_id :: "crypto \<Rightarrow> string \<Rightarrow> string option" where
  "canonical_wire_device_id c d =
     (case normalize_device_id c d of Inr canonical \<Rightarrow> if canonical = d then Some canonical else None | Inl _ \<Rightarrow> None)"

fun translate_body :: "string \<Rightarrow> signaling_message \<Rightarrow> signaling_inbound" where
  "translate_body d (MsgAnnounce p caps) = PeerAnnounced d"
| "translate_body d (MsgLeave p) = PeerLeft d"
| "translate_body d (MsgOffer p offer_id sdp) = SigOffer d offer_id sdp"
| "translate_body d (MsgAnswer p offer_id sdp) = SigAnswer d offer_id sdp"
| "translate_body d (MsgCandidate p candidate mid index ufrag) =
     SigCandidate d \<lparr>ic_candidate = candidate, ic_sdp_mid = mid, ic_sdp_mline_index = index, ic_username_fragment = ufrag\<rparr>"

definition translate_message :: "crypto \<Rightarrow> string \<Rightarrow> signaling_message \<Rightarrow> signaling_inbound option" where
  "translate_message c from msg =
     (if message_peer_id msg \<noteq> from then None
      else map_option (\<lambda>d. translate_body d msg) (canonical_wire_device_id c from))"

fun translate_inbound :: "crypto \<Rightarrow> driver_inbound \<Rightarrow> signaling_inbound option" where
  "translate_inbound c (InAnnounced d) = map_option PeerAnnounced (canonical_wire_device_id c d)"
| "translate_inbound c (InLeft d) = map_option PeerLeft (canonical_wire_device_id c d)"
| "translate_inbound c (InDiscoveryLost d) = map_option DiscoveryLost (canonical_wire_device_id c d)"
| "translate_inbound c (InMessage from msg) = translate_message c from msg"

fun translate_local :: "crypto \<Rightarrow> local_inbound \<Rightarrow> signaling_inbound option" where
  "translate_local c (LocalAnnounced d) = map_option PeerAnnounced (canonical_wire_device_id c d)"
| "translate_local c (LocalLeft d) = map_option PeerLeft (canonical_wire_device_id c d)"
| "translate_local c (LocalMessage from msg) = translate_message c from msg"

section \<open>The delivery gate\<close>

definition GATE_SEEN_CAPACITY :: nat where "GATE_SEEN_CAPACITY = 2048"

text \<open>What is hashed of a message: its kind and its fields. Presence is never deduplicated.\<close>

datatype gate_content =
  HashOffer string string string | HashAnswer string string string | HashCandidate string ice_candidate

fun dedup_content :: "signaling_inbound \<Rightarrow> gate_content option" where
  "dedup_content (SigOffer d offer_id sdp) = Some (HashOffer d offer_id sdp)"
| "dedup_content (SigAnswer d offer_id sdp) = Some (HashAnswer d offer_id sdp)"
| "dedup_content (SigCandidate d c) = Some (HashCandidate d c)"
| "dedup_content _ = None"

definition dedup_key :: "(gate_content \<Rightarrow> u64) \<Rightarrow> signaling_inbound \<Rightarrow> u64 option" where
  "dedup_key hash m = map_option hash (dedup_content m)"

record gate =
  ga_seen :: "u64 list"
  ga_out :: "signaling_inbound list"

definition new_gate :: gate where "new_gate = \<lparr>ga_seen = [], ga_out = []\<rparr>"

definition deliver :: "(gate_content \<Rightarrow> u64) \<Rightarrow> signaling_inbound \<Rightarrow> gate \<Rightarrow> gate" where
  "deliver hash m g =
     (case dedup_key hash m of
        None \<Rightarrow> g\<lparr>ga_out := ga_out g @ [m]\<rparr>
      | Some key \<Rightarrow>
          if key \<in> set (ga_seen g) then g
          else let seen = (if GATE_SEEN_CAPACITY \<le> length (ga_seen g) then tl (ga_seen g) else ga_seen g)
               in g\<lparr>ga_seen := seen @ [key], ga_out := ga_out g @ [m]\<rparr>)"

definition inbound_pump :: "crypto \<Rightarrow> (gate_content \<Rightarrow> u64) \<Rightarrow> driver_inbound \<Rightarrow> gate \<Rightarrow> gate" where
  "inbound_pump c hash inb g = (case translate_inbound c inb of None \<Rightarrow> g | Some m \<Rightarrow> deliver hash m g)"

section \<open>The in-process broker\<close>

record peer_handle =
  ph_device_id :: string
  ph_inbound :: "local_inbound list"
  ph_announce :: bool

type_synonym broker = "(string, peer_handle list) fmap"

definition room_peers :: "broker \<Rightarrow> string \<Rightarrow> peer_handle list" where
  "room_peers b room = (case fmlookup b room of None \<Rightarrow> [] | Some ps \<Rightarrow> ps)"

definition enqueue_local :: "local_inbound \<Rightarrow> peer_handle \<Rightarrow> peer_handle" where
  "enqueue_local m p = p\<lparr>ph_inbound := ph_inbound p @ [m]\<rparr>"

definition join_with :: "string \<Rightarrow> string \<Rightarrow> bool \<Rightarrow> broker \<Rightarrow> broker" where
  "join_with room device_id announce b =
     (let peers = room_peers b room;
          told = (if announce then map (enqueue_local (LocalAnnounced device_id)) peers else peers);
          backfill = map (\<lambda>p. LocalAnnounced (ph_device_id p)) (filter ph_announce peers)
      in fmupd room (told @ [\<lparr>ph_device_id = device_id, ph_inbound = backfill, ph_announce = announce\<rparr>]) b)"

fun route_to :: "string \<Rightarrow> local_outbound \<Rightarrow> peer_handle \<Rightarrow> peer_handle" where
  "route_to from (LocalAnnounce d) p = (if ph_device_id p = from then p else enqueue_local (LocalAnnounced from) p)"
| "route_to from (LocalLeave d) p = (if ph_device_id p = from then p else enqueue_local (LocalLeft from) p)"
| "route_to from (LocalDirected to msg) p =
     (if ph_device_id p = from then p else if ph_device_id p \<noteq> to then p else enqueue_local (LocalMessage from msg) p)"

definition route_outbound :: "string \<Rightarrow> string \<Rightarrow> local_outbound \<Rightarrow> broker \<Rightarrow> broker" where
  "route_outbound room from out b =
     (case fmlookup b room of None \<Rightarrow> b | Some peers \<Rightarrow> fmupd room (map (route_to from out) peers) b)"

definition leave_room :: "string \<Rightarrow> string \<Rightarrow> bool \<Rightarrow> broker \<Rightarrow> broker" where
  "leave_room room device_id announce b =
     (case fmlookup b room of
        None \<Rightarrow> b
      | Some peers \<Rightarrow>
          let rest = filter (\<lambda>p. ph_device_id p \<noteq> device_id) peers;
              told = (if announce then map (enqueue_local (LocalLeft device_id)) rest else rest)
          in if told = [] then fmdrop room b else fmupd room told b)"

section \<open>Senders\<close>

fun inbound_device :: "signaling_inbound \<Rightarrow> string" where
  "inbound_device (DiscoveryLost d) = d"
| "inbound_device (PeerAnnounced d) = d"
| "inbound_device (SigOffer d offer_id sdp) = d"
| "inbound_device (SigAnswer d offer_id sdp) = d"
| "inbound_device (SigCandidate d c) = d"
| "inbound_device (PeerLeft d) = d"

fun sender_of :: "driver_inbound \<Rightarrow> string" where
  "sender_of (InAnnounced d) = d"
| "sender_of (InLeft d) = d"
| "sender_of (InDiscoveryLost d) = d"
| "sender_of (InMessage from msg) = from"

lemma canonical_wire_SomeD: "canonical_wire_device_id c d = Some d' \<Longrightarrow> d' = d \<and> normalize_device_id c d = Inr d"
  by (auto simp: canonical_wire_device_id_def split: sum.splits if_splits)

lemma body_device [simp]: "inbound_device (translate_body d msg) = d"
  by (cases msg) simp_all

lemma translate_bound:
  assumes "translate_inbound c inb = Some m"
  shows "inbound_device m = sender_of inb \<and> normalize_device_id c (sender_of inb) = Inr (sender_of inb) \<and>
     (\<forall>from msg. inb = InMessage from msg \<longrightarrow> message_peer_id msg = from)"
  using assms by (cases inb) (auto simp: translate_message_def dest!: canonical_wire_SomeD split: if_splits)

lemma deliver_out: "set (ga_out (deliver hash m g)) \<subseteq> insert m (set (ga_out g))"
  by (auto simp: deliver_def Let_def split: option.split)

lemma pump_out:
  "m \<in> set (ga_out (fold (inbound_pump c hash) ins g)) \<Longrightarrow> m \<in> set (ga_out g) \<or> (\<exists>inb \<in> set ins. translate_inbound c inb = Some m)"
proof (induction ins arbitrary: g)
  case (Cons inb ins)
  have "m \<in> set (ga_out (inbound_pump c hash inb g)) \<Longrightarrow> m \<in> set (ga_out g) \<or> translate_inbound c inb = Some m"
    using deliver_out [of hash _ g] by (auto simp: inbound_pump_def split: option.splits)
  with Cons.IH [of "inbound_pump c hash inb g"] Cons.prems show ?case by auto
qed simp

text \<open>
  Signaling cannot speak for another device. Whatever the drivers deliver, every message the engine is handed is under the
  sender of the envelope it came in, that sender is a device id in its one wire spelling, and the payload claims
  the same sender.
\<close>

theorem signaling_sender_bound:
  assumes "m \<in> set (ga_out (fold (inbound_pump c hash) ins new_gate))"
  shows "\<exists>inb \<in> set ins. inbound_device m = sender_of inb \<and> normalize_device_id c (sender_of inb) = Inr (sender_of inb) \<and>
     (\<forall>from msg. inb = InMessage from msg \<longrightarrow> message_peer_id msg = from)"
proof -
  from pump_out [OF assms] obtain inb where "inb \<in> set ins" "translate_inbound c inb = Some m" by (auto simp: new_gate_def)
  then show ?thesis using translate_bound by blast
qed

section \<open>Deduplication\<close>

text \<open>The reference: presence passes, of every negotiation message the first copy.\<close>

fun first_copies :: "gate_content set \<Rightarrow> signaling_inbound list \<Rightarrow> signaling_inbound list" where
  "first_copies seen [] = []"
| "first_copies seen (m # ms) =
     (case dedup_content m of
        None \<Rightarrow> m # first_copies seen ms
      | Some k \<Rightarrow> if k \<in> seen then first_copies seen ms else m # first_copies (insert k seen) ms)"

definition contents :: "signaling_inbound list \<Rightarrow> gate_content set" where
  "contents ms = {k. \<exists>m \<in> set ms. dedup_content m = Some k}"

lemma contents_simps [simp]:
  "contents [] = {}" "contents (m # ms) = set_option (dedup_content m) \<union> contents ms"
  by (auto simp: contents_def elem_set)

lemma finite_contents [simp]: "finite (contents ms)"
  by (induction ms) simp_all

lemma gate_refines:
  assumes "ga_seen g = map hash ks" "distinct ks" "inj_on hash (set ks \<union> contents ms)"
    and "card (set ks \<union> contents ms) \<le> GATE_SEEN_CAPACITY"
  shows "ga_out (fold (deliver hash) ms g) = ga_out g @ first_copies (set ks) ms"
  using assms
proof (induction ms arbitrary: g ks)
  case (Cons m ms)
  show ?case
  proof (cases "dedup_content m")
    case None
    with Cons.prems Cons.IH [of "g\<lparr>ga_out := ga_out g @ [m]\<rparr>" ks] show ?thesis by (simp add: deliver_def dedup_key_def)
  next
    case (Some k)
    have seen: "hash k \<in> set (ga_seen g) \<longleftrightarrow> k \<in> set ks"
      using Cons.prems(1,3) Some by (auto simp: inj_on_def)
    show ?thesis
    proof (cases "k \<in> set ks")
      case True
      with Some seen have "deliver hash m g = g" by (simp add: deliver_def dedup_key_def)
      moreover have "set ks \<union> contents (m # ms) = set ks \<union> contents ms" using True Some by auto
      ultimately show ?thesis using Cons True Some by simp
    next
      case False
      have eq: "set (ks @ [k]) \<union> contents ms = set ks \<union> contents (m # ms)" using Some by auto
      have "set ks \<subset> set ks \<union> contents (m # ms)" using False Some by auto
      then have "card (set ks) < card (set ks \<union> contents (m # ms))" by (intro psubset_card_mono) simp_all
      then have "length ks < GATE_SEEN_CAPACITY" using Cons.prems(2,4) by (simp add: distinct_card)
      then have "deliver hash m g = g\<lparr>ga_seen := map hash (ks @ [k]), ga_out := ga_out g @ [m]\<rparr>"
        using Some seen False Cons.prems(1) by (simp add: deliver_def dedup_key_def)
      moreover have "ga_out (fold (deliver hash) ms (g\<lparr>ga_seen := map hash (ks @ [k]), ga_out := ga_out g @ [m]\<rparr>)) =
          (ga_out g @ [m]) @ first_copies (set (ks @ [k])) ms"
        using Cons.prems(2-4) False eq by (subst Cons.IH [of _ "ks @ [k]"]) (simp_all add: eq)
      ultimately show ?thesis using Some False by simp
    qed
  qed
qed simp

text \<open>
  C18: One emission that reaches a peer over two transports is applied once. While no more than 2048 different negotiation messages
  (an offer's and an answer's id being part of the message) have come and no two of them have the same 64-bit hash, the engine is handed exactly every presence message and the first copy of every
  negotiation message, in order, however the transports interleave and repeat them.
\<close>

theorem gate_delivers_once:
  assumes "inj_on hash (contents ms)" "card (contents ms) \<le> GATE_SEEN_CAPACITY"
  shows "ga_out (fold (deliver hash) ms new_gate) = first_copies {} ms"
  using gate_refines [of new_gate hash "[]" ms] assms by (simp add: new_gate_def)

theorem gate_delivers_once_witness:
  "ga_out (fold (deliver (\<lambda>k. case k of HashOffer _ _ _ \<Rightarrow> 1 | _ \<Rightarrow> 2))
     [PeerAnnounced ''b'', SigOffer ''b'' ''o'' ''s'', PeerAnnounced ''b'', SigOffer ''b'' ''o'' ''s'', SigAnswer ''b'' ''o'' ''s''] new_gate) =
   [PeerAnnounced ''b'', SigOffer ''b'' ''o'' ''s'', PeerAnnounced ''b'', SigAnswer ''b'' ''o'' ''s'']"
  by (subst gate_delivers_once) (simp_all add: inj_on_def GATE_SEEN_CAPACITY_def)

section \<open>From engine to engine\<close>

fun received :: "string \<Rightarrow> signaling_outbound \<Rightarrow> signaling_inbound" where
  "received me Announce = PeerAnnounced me"
| "received me Leave = PeerLeft me"
| "received me (SendOffer to offer_id sdp) = SigOffer me offer_id sdp"
| "received me (SendAnswer to offer_id sdp) = SigAnswer me offer_id sdp"
| "received me (SendCandidate to c) = SigCandidate me c"

fun addressee :: "signaling_outbound \<Rightarrow> string option" where
  "addressee Announce = None"
| "addressee Leave = None"
| "addressee (SendOffer to offer_id sdp) = Some to"
| "addressee (SendAnswer to offer_id sdp) = Some to"
| "addressee (SendCandidate to c) = Some to"

lemma directed_received:
  assumes "canonical_wire_device_id c me = Some me" "outbound_msg me out = OutDirected to msg"
  shows "addressee out = Some to \<and> translate_message c me msg = Some (received me out)"
  using assms by (cases out) (auto simp: translate_message_def)

lemma routed:
  assumes "canonical_wire_device_id c me = Some me" "ph_device_id p \<noteq> me"
  shows "ph_device_id (route_to me (local_msg me out) p) = ph_device_id p \<and>
     ph_announce (route_to me (local_msg me out) p) = ph_announce p \<and>
     map (translate_local c) (ph_inbound (route_to me (local_msg me out) p)) =
       map (translate_local c) (ph_inbound p) @ (if addressee out \<in> {None, Some (ph_device_id p)} then [Some (received me out)] else [])"
  using assms by (cases out) (auto simp: enqueue_local_def translate_message_def)

text \<open>
  What one engine emits another receives. Routed through the broker, an emission of a device under its canonical id adds to
  the queue of every other member of the room, if it is broadcast, or of the member it is addressed to, exactly one
  message, which that member's bridge turns into the same message under the sender's id; nobody else gets anything. Over a
  network driver the directed message reads the same.
\<close>

theorem signaling_round_trip:
  assumes "canonical_wire_device_id c me = Some me" "k < length (room_peers b room)" "ph_device_id (room_peers b room ! k) \<noteq> me"
  shows "map (translate_local c) (ph_inbound (room_peers (route_outbound room me (local_msg me out) b) room ! k)) =
       map (translate_local c) (ph_inbound (room_peers b room ! k)) @
         (if addressee out \<in> {None, Some (ph_device_id (room_peers b room ! k))} then [Some (received me out)] else []) \<and>
     (\<forall>to msg. outbound_msg me out = OutDirected to msg \<longrightarrow>
        addressee out = Some to \<and> translate_inbound c (InMessage me msg) = Some (received me out))"
proof -
  obtain peers where peers: "fmlookup b room = Some peers" using assms(2) by (cases "fmlookup b room") (auto simp: room_peers_def)
  then have at: "room_peers (route_outbound room me (local_msg me out) b) room ! k = route_to me (local_msg me out) (room_peers b room ! k)"
    using assms(2) by (simp add: room_peers_def route_outbound_def)
  have "translate_inbound c (InMessage me msg) = translate_message c me msg" for msg by simp
  then show ?thesis unfolding at using routed [OF assms(1,3), of out] directed_received [OF assms(1), of out] by metis
qed

section \<open>Listening only\<close>

text \<open>What the other members of a room were told of a device.\<close>

definition told :: "string \<Rightarrow> broker \<Rightarrow> string \<Rightarrow> (string \<times> local_inbound list) list" where
  "told me b room =
     map (\<lambda>p. (ph_device_id p, filter (\<lambda>m. m = LocalAnnounced me \<or> m = LocalLeft me) (ph_inbound p)))
       (filter (\<lambda>p. ph_device_id p \<noteq> me) (room_peers b room))"

lemma told_route:
  assumes "\<not> is_presence out" shows "told me (route_outbound room me (local_msg me out) b) room = told me b room"
proof (cases "fmlookup b room")
  case (Some peers)
  have r: "ph_device_id (route_to me (local_msg me out) p) = ph_device_id p"
    "filter (\<lambda>m. m = LocalAnnounced me \<or> m = LocalLeft me) (ph_inbound (route_to me (local_msg me out) p)) =
       filter (\<lambda>m. m = LocalAnnounced me \<or> m = LocalLeft me) (ph_inbound p)" for p
    using assms by (cases out; simp add: is_presence_def enqueue_local_def)+
  show ?thesis using Some by (simp add: told_def room_peers_def route_outbound_def filter_map comp_def r)
qed (simp add: route_outbound_def)

lemma told_routes:
  "\<forall>out \<in> set outs. \<not> is_presence out \<Longrightarrow>
     told me (fold (route_outbound room me) (map (local_msg me) outs) b) room = told me b room"
  by (induction outs arbitrary: b) (simp_all add: told_route)

lemma not_presence_msg: "\<not> is_presence m \<Longrightarrow> outbound_msg me m \<noteq> OutAnnounce \<and> outbound_msg me m \<noteq> OutLeave"
  by (cases m) (simp_all add: is_presence_def)

text \<open>
  C19: A listen-only member never announces itself. Whatever its engine emits, no announcement and no departure reaches a driver and the
  local discovery is not attached; in an in-process room, joining, sending and leaving add no presence message about it to anybody's
  inbox, and a member who joins later is not told of it either. (A directed offer, answer or candidate it chooses to send does
  pass, and tells its addressee who sent it.)
\<close>

theorem listen_only_invisible:
  assumes "sc_listen_only cfg"
  shows "OutAnnounce \<notin> set (nostr_sees cfg starts me ms) \<and> OutLeave \<notin> set (nostr_sees cfg starts me ms) \<and>
     mdns_sees cfg starts me ms = [] \<and>
     told me (leave_room room me False (fold (route_outbound room me) (local_pump True me outs) (join_with room me False b))) room =
       told me b room \<and>
     ((\<forall>p \<in> set (room_peers b room). ph_device_id p \<noteq> me) \<longrightarrow>
        LocalAnnounced me \<notin> set (ph_inbound (last (room_peers (join_with room d announce (join_with room me False b)) room))))"
proof (intro conjI impI)
  have "\<not> is_presence m" if "m \<in> set (filter (\<lambda>m. \<not> (True \<and> is_presence m)) xs)" for m xs using that by simp
  then have "m \<noteq> OutAnnounce \<and> m \<noteq> OutLeave" if "m \<in> set (nostr_sees cfg starts me ms)" for m
    using that assms not_presence_msg by (auto simp: nostr_sees_def nostr_pump_def split: if_splits)
  then show "OutAnnounce \<notin> set (nostr_sees cfg starts me ms)" "OutLeave \<notin> set (nostr_sees cfg starts me ms)" by blast+
  show "mdns_sees cfg starts me ms = []" using assms by (simp add: mdns_sees_def attach_signaling_def split: bool.split)
  have leave: "told me (leave_room room me False g) room = told me g room" for g
    by (auto simp: told_def leave_room_def room_peers_def Let_def split: option.split)
  have "told me (join_with room me False b) room = told me b room" by (simp add: told_def join_with_def room_peers_def Let_def)
  then show "told me (leave_room room me False (fold (route_outbound room me) (local_pump True me outs) (join_with room me False b))) room =
      told me b room"
    unfolding leave local_pump_def by (simp add: told_routes)
  assume "\<forall>p \<in> set (room_peers b room). ph_device_id p \<noteq> me"
  then show "LocalAnnounced me \<notin> set (ph_inbound (last (room_peers (join_with room d announce (join_with room me False b)) room)))"
    by (auto simp: join_with_def room_peers_def Let_def)
qed

section \<open>Standing down\<close>

text \<open>
  A stood-down engine goes on advertising itself over a single driver. With both drivers the fan-out lets only a
  probe every ten minutes through; with local discovery off or not wanted there is no fan-out, and every announcement of an
  evicted device reaches the relays at once.
\<close>

theorem evicted_announces_single_driver:
  assumes "sc_strategy cfg = ''nostr''" "\<not> sc_listen_only cfg"
  shows "if sc_mdns cfg
     then nostr_sees cfg starts me [(Announce, True, t), (Announce, True, t)] = [OutAnnounce]
     else \<forall>ms. nostr_sees cfg starts me ms = map (\<lambda>(m, _). outbound_msg me m) ms"
  using assms by (simp add: nostr_sees_def nostr_pump_def driver_input_def attach_signaling_def EVICTED_PROBE_INTERVAL_MS_def
      duration_since_def comp_def case_prod_unfold)

section \<open>Instances\<close>

lemma sample_canonical: "canonical_wire_device_id sample_crypto ''a'' = Some ''a''"
  by code_simp

theorem signaling_sender_bound_witness:
  "\<exists>inb \<in> set [InMessage ''a'' (MsgOffer ''b'' ''o'' ''s''), InMessage ''a'' (MsgOffer ''a'' ''o'' ''s'')].
     inbound_device (SigOffer ''a'' ''o'' ''s'') = sender_of inb \<and> normalize_device_id sample_crypto (sender_of inb) = Inr (sender_of inb) \<and>
     (\<forall>from msg. inb = InMessage from msg \<longrightarrow> message_peer_id msg = from)"
proof (rule signaling_sender_bound [of _ sample_crypto "\<lambda>_. 0"])
  show "SigOffer ''a'' ''o'' ''s'' \<in> set (ga_out (fold (inbound_pump sample_crypto (\<lambda>_. 0))
      [InMessage ''a'' (MsgOffer ''b'' ''o'' ''s''), InMessage ''a'' (MsgOffer ''a'' ''o'' ''s'')] new_gate))"
    by (simp add: inbound_pump_def translate_message_def sample_canonical deliver_def dedup_key_def new_gate_def)
qed

definition sample_room :: broker where
  "sample_room = join_with ''r'' ''b'' True (join_with ''r'' ''a'' True fmempty)"

lemma sample_room_peers:
  "room_peers sample_room ''r'' =
     [\<lparr>ph_device_id = ''a'', ph_inbound = [LocalAnnounced ''b''], ph_announce = True\<rparr>,
      \<lparr>ph_device_id = ''b'', ph_inbound = [LocalAnnounced ''a''], ph_announce = True\<rparr>]"
  by (simp add: sample_room_def join_with_def room_peers_def enqueue_local_def)

theorem signaling_round_trip_witness:
  "map (translate_local sample_crypto)
     (ph_inbound (room_peers (route_outbound ''r'' ''a'' (local_msg ''a'' (SendOffer ''b'' ''o'' ''s'')) sample_room) ''r'' ! 1)) =
   [Some (PeerAnnounced ''a''), Some (SigOffer ''a'' ''o'' ''s'')]"
  using signaling_round_trip [OF sample_canonical, of 1 sample_room "''r''" "SendOffer ''b'' ''o'' ''s''"]
  by (simp add: sample_room_peers sample_canonical)

theorem listen_only_invisible_witness:
  "OutAnnounce \<notin> set (nostr_sees \<lparr>sc_strategy = [], sc_mdns = True, sc_listen_only = True\<rparr> True ''w'' [(Announce, False, 0)]) \<and>
   told ''w'' (leave_room ''r'' ''w'' False (fold (route_outbound ''r'' ''w'') (local_pump True ''w'' [Announce, SendOffer ''a'' ''o'' ''s'', Leave])
     (join_with ''r'' ''w'' False sample_room))) ''r'' = [(''a'', []), (''b'', [])]"
proof -
  have "told ''w'' sample_room ''r'' = [(''a'', []), (''b'', [])]" by (simp add: told_def sample_room_peers)
  with listen_only_invisible [of "\<lparr>sc_strategy = [], sc_mdns = True, sc_listen_only = True\<rparr>" True "''w''" "[(Announce, False, 0)]"
      "''r''" "[Announce, SendOffer ''a'' ''o'' ''s'', Leave]" sample_room "[]" True] show ?thesis by simp
qed

theorem evicted_announces_single_driver_witness:
  "nostr_sees \<lparr>sc_strategy = ''nostr'', sc_mdns = False, sc_listen_only = False\<rparr> True ''w'' [(Announce, True, 0), (Announce, True, 1)] =
     [OutAnnounce, OutAnnounce] \<and>
   nostr_sees \<lparr>sc_strategy = ''nostr'', sc_mdns = True, sc_listen_only = False\<rparr> True ''w'' [(Announce, True, 0), (Announce, True, 0)] =
     [OutAnnounce]"
  using evicted_announces_single_driver [of "\<lparr>sc_strategy = ''nostr'', sc_mdns = False, sc_listen_only = False\<rparr>" True "''w''" 0]
    evicted_announces_single_driver [of "\<lparr>sc_strategy = ''nostr'', sc_mdns = True, sc_listen_only = False\<rparr>" True "''w''" 0] by simp

end
