(* ===== verification/Nostr_Driver.thy ===== *)
theory Nostr_Driver
  imports Media Relay_Server Bridge
begin

text \<open>
  The relay driver of signaling, \<open>nostr/driver.rs\<close> of \<open>myownmesh-signaling\<close>, with the choice of relays (\<open>shuffle.rs\<close>, \<open>denylist.rs\<close>,
  \<open>defaults.rs\<close>, \<open>handle.rs\<close>) and the schedule of \<open>upstream.rs\<close>.

  The tasks of a driver share \<open>DriverShared\<close> under locks and run one turn at a time: \<open>drive\<close> takes the event that
  happens next. The argument \<open>tree\<close> stands for serde reading a text into a type: the value of the text with the fields of
  its objects in their order, repeated ones kept; \<open>nl_parse\<close> reads a text as a value. A written frame is
  the value whose text is sent, an inbound one the text. Logging is left out.
\<close>

section \<open>Rooms and relays\<close>

definition derive_room_handle :: "nostr_lib \<Rightarrow> string \<Rightarrow> string \<Rightarrow> string" where
  "derive_room_handle l app_id network_id = nl_hex l (nl_sha256 l (app_id @ '':'' @ network_id))"

definition score :: "nostr_lib \<Rightarrow> string \<Rightarrow> string \<Rightarrow> string" where
  "score l app_id url = nl_hex l (nl_sha256 l (app_id @ '':'' @ url))"

definition select_top_n :: "nostr_lib \<Rightarrow> string \<Rightarrow> string list \<Rightarrow> nat \<Rightarrow> string list" where
  "select_top_n l app_id pool redundancy =
     (if pool = [] \<or> redundancy = 0 then [] else map snd (take redundancy (sort (map (\<lambda>u. (score l app_id u, u)) pool))))"

definition DEFAULT_DENYLIST :: "string list" where "DEFAULT_DENYLIST = [''relay.damus.io'', ''chorus.pjv.me'']"
definition DEFAULT_RELAY_URLS :: "string list" where "DEFAULT_RELAY_URLS = [''wss://myownmesh.com'']"
definition FALLBACK_RELAY_URLS :: "string list" where
  "FALLBACK_RELAY_URLS =
     [''wss://nos.lol'', ''wss://relay.nostr.band'', ''wss://nostr.mom'', ''wss://relay.snort.social'', ''wss://relay.primal.net'',
      ''wss://nostr-pub.wellorder.net'', ''wss://relay.nostr.bg'', ''wss://nostr.wine'', ''wss://offchain.pub'']"

definition extract_host :: "string \<Rightarrow> string" where
  "extract_host url =
     (let after_scheme = (case strip_prefix ''wss://'' url of
            Some r \<Rightarrow> r | None \<Rightarrow> (case strip_prefix ''ws://'' url of Some r \<Rightarrow> r | None \<Rightarrow> url))
      in takeWhile (\<lambda>c. c \<noteq> CHR '':'') (takeWhile (\<lambda>c. c \<noteq> CHR ''/'') after_scheme))"

definition is_denied :: "string \<Rightarrow> string list \<Rightarrow> bool" where
  "is_denied url extra = list_ex (\<lambda>h. to_lower h = to_lower (extract_host url)) (DEFAULT_DENYLIST @ extra)"

record nostr_driver_config =
  nc_app_id :: string
  nc_network_id :: string
  nc_device_id :: string
  nc_servers :: "string list"
  nc_denylist :: "string list"
  nc_redundancy :: nat
  nc_public_fallback :: bool
  nc_announce :: bool

definition selected_relays :: "nostr_lib \<Rightarrow> nostr_driver_config \<Rightarrow> string list" where
  "selected_relays l cfg =
     (let pool = (if nc_servers cfg = [] then DEFAULT_RELAY_URLS else nc_servers cfg)
      in select_top_n l (nc_app_id cfg) (filter (\<lambda>u. \<not> is_denied u (nc_denylist cfg)) pool) (nc_redundancy cfg))"

definition fallback_relays :: "nostr_lib \<Rightarrow> nostr_driver_config \<Rightarrow> string list" where
  "fallback_relays l cfg =
     (if nc_public_fallback cfg
      then filter (\<lambda>u. \<not> is_denied u (nc_denylist cfg) \<and> u \<notin> set (selected_relays l cfg)) FALLBACK_RELAY_URLS else [])"

section \<open>Envelopes\<close>

record signaling_envelope =
  en_from :: string
  en_to :: "string option"
  en_msg :: signaling_message

definition opt_json :: "string option \<Rightarrow> json" where
  "opt_json v = (case v of None \<Rightarrow> JNull | Some s \<Rightarrow> JStr s)"

fun message_fields :: "signaling_message \<Rightarrow> (string \<times> json) list" where
  "message_fields (MsgAnnounce p caps) = [(''kind'', JStr ''announce''), (''peer_id'', JStr p), (''caps'', JArr (map JStr caps))]"
| "message_fields (MsgOffer p offer_id sdp) =
     [(''kind'', JStr ''offer''), (''peer_id'', JStr p), (''offer_id'', JStr offer_id), (''sdp'', JStr sdp)]"
| "message_fields (MsgAnswer p offer_id sdp) =
     [(''kind'', JStr ''answer''), (''peer_id'', JStr p), (''offer_id'', JStr offer_id), (''sdp'', JStr sdp)]"
| "message_fields (MsgCandidate p candidate mid index ufrag) =
     [(''kind'', JStr ''candidate''), (''peer_id'', JStr p), (''candidate'', JStr candidate), (''sdp_mid'', opt_json mid),
      (''sdp_mline_index'', (case index of None \<Rightarrow> JNull | Some n \<Rightarrow> JUInt (ucast n))), (''username_fragment'', opt_json ufrag)]"
| "message_fields (MsgLeave p) = [(''kind'', JStr ''leave''), (''peer_id'', JStr p)]"

definition sig_envelope_json :: "signaling_envelope \<Rightarrow> json" where
  "sig_envelope_json env = JObj ([(''from'', JStr (en_from env)), (''to'', opt_json (en_to env))] @ message_fields (en_msg env))"

text \<open>
  The derived readers. A field given twice is an error, an absent one is its default or an error, an unknown one is ignored;
  the tag of a variant may be its name or its number.
\<close>

definition one_field :: "string \<Rightarrow> (string \<times> json) list \<Rightarrow> json option option" where
  "one_field k kvs =
     (case filter (\<lambda>(k', _). k' = k) kvs of [] \<Rightarrow> Some None | [(_, v)] \<Rightarrow> Some (Some v) | _ \<Rightarrow> None)"

definition need_field :: "(json \<Rightarrow> 'a option) \<Rightarrow> string \<Rightarrow> (string \<times> json) list \<Rightarrow> 'a option" where
  "need_field conv k kvs = Option.bind (one_field k kvs) (\<lambda>v. Option.bind v conv)"

definition field_or :: "'a \<Rightarrow> (json \<Rightarrow> 'a option) \<Rightarrow> string \<Rightarrow> (string \<times> json) list \<Rightarrow> 'a option" where
  "field_or d conv k kvs = Option.bind (one_field k kvs) (\<lambda>v. case v of None \<Rightarrow> Some d | Some v \<Rightarrow> conv v)"

definition as_opt :: "(json \<Rightarrow> 'a option) \<Rightarrow> json \<Rightarrow> 'a option option" where
  "as_opt conv v = (if v = JNull then Some None else map_option Some (conv v))"

definition as_u16 :: "json \<Rightarrow> 16 word option" where
  "as_u16 v = Option.bind (as_u64 v) (\<lambda>n. if n \<le> 0xFFFF then Some (ucast n) else None)"

definition MESSAGE_KINDS :: "string list" where
  "MESSAGE_KINDS = [''announce'', ''offer'', ''answer'', ''candidate'', ''leave'']"

fun kind_index :: "json \<Rightarrow> nat option" where
  "kind_index (JStr s) = position (\<lambda>k. k = s) MESSAGE_KINDS"
| "kind_index (JUInt n) = (if n < 5 then Some (unat n) else None)"
| "kind_index _ = None"

definition message_of_fields :: "(string \<times> json) list \<Rightarrow> signaling_message option" where
  "message_of_fields kvs =
     Option.bind (need_field kind_index ''kind'' kvs) (\<lambda>kind.
     Option.bind (need_field as_str ''peer_id'' kvs) (\<lambda>p.
       if kind = 0 then map_option (MsgAnnounce p) (field_or [] (\<lambda>v. Option.bind (as_array v) strings_of) ''caps'' kvs)
       else if kind = 1 then
         Option.bind (need_field as_str ''offer_id'' kvs) (\<lambda>o_id. map_option (MsgOffer p o_id) (need_field as_str ''sdp'' kvs))
       else if kind = 2 then
         Option.bind (need_field as_str ''offer_id'' kvs) (\<lambda>o_id. map_option (MsgAnswer p o_id) (need_field as_str ''sdp'' kvs))
       else if kind = 3 then
         Option.bind (need_field as_str ''candidate'' kvs) (\<lambda>c.
         Option.bind (field_or None (as_opt as_str) ''sdp_mid'' kvs) (\<lambda>mid.
         Option.bind (field_or None (as_opt as_u16) ''sdp_mline_index'' kvs) (\<lambda>index.
         map_option (MsgCandidate p c mid index) (field_or None (as_opt as_str) ''username_fragment'' kvs))))
       else Some (MsgLeave p)))"

definition envelope_of_json :: "json \<Rightarrow> signaling_envelope option" where
  "envelope_of_json v =
     Option.bind (as_object v) (\<lambda>kvs.
     Option.bind (need_field as_str ''from'' kvs) (\<lambda>from.
     Option.bind (field_or None (as_opt as_str) ''to'' kvs) (\<lambda>to.
     map_option (\<lambda>msg. \<lparr>en_from = from, en_to = to, en_msg = msg\<rparr>) (message_of_fields kvs))))"

section \<open>The shared state\<close>

definition SIG_CAP_PTAG :: string where "SIG_CAP_PTAG = ''ptag''"
definition SEEN_EVENT_CAPACITY :: nat where "SEEN_EVENT_CAPACITY = 2048"
definition PRESENCE_REPLAY_WINDOW_SECS :: u64 where "PRESENCE_REPLAY_WINDOW_SECS = 120"
definition OUTBOUND_REPLAY_CAP :: nat where "OUTBOUND_REPLAY_CAP = 256"
definition OUTBOUND_REPLAY_TTL_MS :: u64 where "OUTBOUND_REPLAY_TTL_MS = 10000"

record driver_shared =
  ds_identity :: nostr_identity
  ds_room_handle :: string
  ds_device_id :: string
  ds_relay_connected :: u64
  ds_seen_event_ids :: "string list"
  ds_outbound_replay :: "(u64 \<times> nostr_event) list"
  ds_room_caps :: "(string, bool) fmap"
  ds_compat_directed :: bool
  ds_announce :: bool
  ds_inbound :: "driver_inbound list"

definition recompute_compat :: "driver_shared \<Rightarrow> driver_shared" where
  "recompute_compat sh =
     sh\<lparr>ds_compat_directed := ds_room_caps sh = fmempty \<or> list_ex (\<lambda>(_, ptag). \<not> ptag) (sorted_list_of_fmap (ds_room_caps sh))\<rparr>"

definition desired_filters :: "driver_shared \<Rightarrow> u64 \<Rightarrow> bool \<Rightarrow> json list" where
  "desired_filters sh now_secs legacy =
     (let since = (if PRESENCE_REPLAY_WINDOW_SECS \<le> now_secs then now_secs - PRESENCE_REPLAY_WINDOW_SECS else 0);
          room = (''#r'', JArr [JStr (ds_room_handle sh)])
      in [JObj [room, (''kinds'', JArr [JUInt (ucast SIGNALING_EVENT_KIND)]), (''since'', JUInt since)],
          JObj [(''#p'', JArr [JStr (ds_device_id sh), JStr (ds_room_handle sh)]), room,
                (''kinds'', JArr [JUInt (ucast SIGNALING_EPHEMERAL_KIND)])]] @
         (if legacy then [JObj [room, (''kinds'', JArr [JUInt (ucast SIGNALING_EPHEMERAL_KIND)])]] else []))"

definition SUB_ID :: string where "SUB_ID = ''mom-sig-1''"

definition build_req :: "driver_shared \<Rightarrow> u64 \<Rightarrow> bool \<Rightarrow> json" where
  "build_req sh now_secs legacy = JArr ([JStr ''REQ'', JStr SUB_ID] @ desired_filters sh now_secs legacy)"

section \<open>Inbound\<close>

fun is_broadcast :: "signaling_message \<Rightarrow> bool" where
  "is_broadcast (MsgAnnounce _ _) = True"
| "is_broadcast (MsgLeave _) = True"
| "is_broadcast _ = False"

definition push_inbound :: "driver_inbound \<Rightarrow> driver_shared \<Rightarrow> driver_shared" where
  "push_inbound m sh = sh\<lparr>ds_inbound := ds_inbound sh @ [m]\<rparr>"

definition take_envelope :: "16 word \<Rightarrow> signaling_envelope \<Rightarrow> driver_shared \<Rightarrow> driver_shared" where
  "take_envelope kind env sh =
     (let msg = en_msg env; to_all = is_broadcast msg in
      if message_peer_id msg \<noteq> en_from env then sh
      else if (to_all \<and> en_to env \<noteq> None) \<or> (\<not> to_all \<and> en_to env \<noteq> Some (ds_device_id sh)) then sh
      else case msg of
             MsgAnnounce p caps \<Rightarrow>
               if kind \<noteq> SIGNALING_EVENT_KIND then sh
               else if p = ds_device_id sh then sh
               else push_inbound (InAnnounced p)
                      (recompute_compat (sh\<lparr>ds_room_caps := fmupd p (SIG_CAP_PTAG \<in> set caps) (ds_room_caps sh)\<rparr>))
           | MsgLeave p \<Rightarrow>
               if kind \<noteq> SIGNALING_EPHEMERAL_KIND then sh
               else if p = ds_device_id sh then sh
               else push_inbound (InLeft p) (recompute_compat (sh\<lparr>ds_room_caps := fmdrop p (ds_room_caps sh)\<rparr>))
           | _ \<Rightarrow>
               if kind \<noteq> SIGNALING_EPHEMERAL_KIND then sh
               else push_inbound (InMessage (en_from env) msg) sh)"

definition remember_event :: "string \<Rightarrow> driver_shared \<Rightarrow> driver_shared" where
  "remember_event i sh =
     (let seen = ds_seen_event_ids sh
      in sh\<lparr>ds_seen_event_ids := (if SEEN_EVENT_CAPACITY \<le> length seen then tl seen else seen) @ [i]\<rparr>)"

definition in_room :: "string \<Rightarrow> nostr_event \<Rightarrow> bool" where
  "in_room room ev = list_ex (\<lambda>t. 2 \<le> length t \<and> t ! 0 = ''r'' \<and> t ! 1 = room) (ne_tags ev)"

definition take_event :: "nostr_lib \<Rightarrow> (string \<Rightarrow> json option) \<Rightarrow> nostr_event \<Rightarrow> driver_shared \<Rightarrow> driver_shared" where
  "take_event l tree ev sh =
     (if \<not> verify_event l ev then sh
      else if \<not> in_room (ds_room_handle sh) ev then sh
      else if ne_pubkey ev = ni_pubkey_hex (ds_identity sh) then sh
      else if ne_id ev \<in> set (ds_seen_event_ids sh) then sh
      else case Option.bind (tree (ne_content ev)) envelope_of_json of
             None \<Rightarrow> remember_event (ne_id ev) sh
           | Some env \<Rightarrow> take_envelope (ne_kind ev) env (remember_event (ne_id ev) sh))"

text \<open>The event of an inbound frame, if it carries one.\<close>

definition frame_event :: "nostr_lib \<Rightarrow> string \<Rightarrow> nostr_event option" where
  "frame_event l frame =
     Option.bind (Option.bind (nl_parse l frame) as_array) (\<lambda>arr.
       if 2 < length arr \<and> as_str (arr ! 0) = Some ''EVENT'' then event_of_json (arr ! 2) else None)"

definition nostr_inbound_frame :: "nostr_lib \<Rightarrow> (string \<Rightarrow> json option) \<Rightarrow> string \<Rightarrow> driver_shared \<Rightarrow> driver_shared" where
  "nostr_inbound_frame l tree frame sh = (case frame_event l frame of None \<Rightarrow> sh | Some ev \<Rightarrow> take_event l tree ev sh)"

section \<open>Outbound\<close>

definition announce_event :: "nostr_lib \<Rightarrow> driver_shared \<Rightarrow> u64 \<Rightarrow> nostr_event" where
  "announce_event l sh secs =
     make_event l (ds_identity sh) SIGNALING_EVENT_KIND [[''r'', ds_room_handle sh]]
       (nl_render l (sig_envelope_json \<lparr>en_from = ds_device_id sh, en_to = None, en_msg = MsgAnnounce (ds_device_id sh) [SIG_CAP_PTAG]\<rparr>)) secs"

text \<open>The event of the outbound pump; its kind is \<open>ne_kind\<close>.\<close>

fun outbound_event :: "nostr_lib \<Rightarrow> driver_shared \<Rightarrow> u64 \<Rightarrow> driver_outbound \<Rightarrow> nostr_event" where
  "outbound_event l sh secs OutAnnounce = announce_event l sh secs"
| "outbound_event l sh secs OutLeave =
     make_event l (ds_identity sh) SIGNALING_EPHEMERAL_KIND [[''r'', ds_room_handle sh], [''p'', ds_room_handle sh]]
       (nl_render l (sig_envelope_json \<lparr>en_from = ds_device_id sh, en_to = None, en_msg = MsgLeave (ds_device_id sh)\<rparr>)) secs"
| "outbound_event l sh secs (OutDirected to msg) =
     make_event l (ds_identity sh) SIGNALING_EPHEMERAL_KIND [[''r'', ds_room_handle sh], [''p'', to]]
       (nl_render l (sig_envelope_json \<lparr>en_from = ds_device_id sh, en_to = Some to, en_msg = msg\<rparr>)) secs"

definition publish_frame :: "nostr_event \<Rightarrow> json" where
  "publish_frame ev = JArr [JStr ''EVENT'', event_json ev]"

definition push_outbound_replay :: "u64 \<Rightarrow> nostr_event \<Rightarrow> (u64 \<times> nostr_event) list \<Rightarrow> (u64 \<times> nostr_event) list" where
  "push_outbound_replay now ev buf = (let b = buf @ [(now, ev)] in drop (length b - OUTBOUND_REPLAY_CAP) b)"

definition drain_fresh_outbound :: "u64 \<Rightarrow> (u64 \<times> nostr_event) list \<Rightarrow> nostr_event list" where
  "drain_fresh_outbound now buf = map snd (filter (\<lambda>(t, _). duration_since now t \<le> OUTBOUND_REPLAY_TTL_MS) buf)"

section \<open>Timers\<close>

definition ANNOUNCE_BACKOFF_MS :: "u64 list" where "ANNOUNCE_BACKOFF_MS = [30000]"
definition ANNOUNCE_STEADY_MS :: u64 where "ANNOUNCE_STEADY_MS = 120000"
definition RELAY_STABLE_SESSION_MS :: u64 where "RELAY_STABLE_SESSION_MS = 10000"
definition FALLBACK_ACTIVATION_GRACE_MS :: u64 where "FALLBACK_ACTIVATION_GRACE_MS = 20000"

definition jittered_ms :: "nostr_lib \<Rightarrow> u64 \<Rightarrow> string \<Rightarrow> u64 \<Rightarrow> u64" where
  "jittered_ms l base_ms seed salt =
     (if base_ms = 0 then 0
      else
        let raw = of_nat (le_val (take 8 (nl_sha256 l (seed @ le_bytes 8 (unat salt))))); span = base_ms * 30 div 100
        in if span = 0 then base_ms else base_ms - base_ms * 15 div 100 + raw mod (span + 1))"

text \<open>The wait after the announce of that number.\<close>

definition announce_wait :: "nostr_lib \<Rightarrow> string \<Rightarrow> nat \<Rightarrow> u64" where
  "announce_wait l device_id n =
     (let base_ms = (if n < length ANNOUNCE_BACKOFF_MS then ANNOUNCE_BACKOFF_MS ! n else ANNOUNCE_STEADY_MS)
      in if base_ms = ANNOUNCE_STEADY_MS then jittered_ms l base_ms device_id (of_nat n) else base_ms)"

record relay_retry_state =
  rr_backoff_attempt :: u32
  rr_failed_attempts :: u32
  rr_ever_admitted :: bool

definition new_retry :: relay_retry_state where
  "new_retry = \<lparr>rr_backoff_attempt = 0, rr_failed_attempts = 0, rr_ever_admitted = False\<rparr>"

definition note_failure :: "relay_retry_state \<Rightarrow> relay_retry_state" where
  "note_failure r = r\<lparr>rr_failed_attempts := saturating_inc_u32 (rr_failed_attempts r)\<rparr>"

definition note_admitted :: "relay_retry_state \<Rightarrow> relay_retry_state" where
  "note_admitted r = r\<lparr>rr_ever_admitted := True\<rparr>"

definition note_stable :: "relay_retry_state \<Rightarrow> relay_retry_state" where
  "note_stable r = r\<lparr>rr_failed_attempts := 0, rr_backoff_attempt := 0\<rparr>"

definition reset_forced_reconnect :: "relay_retry_state \<Rightarrow> relay_retry_state" where
  "reset_forced_reconnect r = r\<lparr>rr_backoff_attempt := 0\<rparr>"

definition next_wait_ms :: "nostr_lib \<Rightarrow> string \<Rightarrow> relay_retry_state \<Rightarrow> u64 \<times> relay_retry_state" where
  "next_wait_ms l seed r =
     (let attempt = min (rr_backoff_attempt r + 1) 6; base_ms = min (2 ^ unat attempt) 60 * 1000
      in (jittered_ms l base_ms seed (ucast attempt), r\<lparr>rr_backoff_attempt := attempt\<rparr>))"

datatype fallback_action_kind = Activate | StandDown | Hold

definition fallback_action :: "nat \<Rightarrow> bool \<Rightarrow> u64 \<Rightarrow> fallback_action_kind" where
  "fallback_action primary_live fallback_active down_for_ms =
     (if 0 < primary_live then (if fallback_active then StandDown else Hold)
      else if \<not> fallback_active \<and> FALLBACK_ACTIVATION_GRACE_MS \<le> down_for_ms then Activate
      else Hold)"

section \<open>Relay tasks\<close>

text \<open>A session holds its end of the publish bus, with how many events the bus dropped from it, and what it wrote.\<close>

record relay_session =
  rs_compat :: bool
  rs_queue :: "nostr_event list"
  rs_lagged :: nat
  rs_admitted_at :: "u64 option"
  rs_stable :: bool
  rs_written :: "json list"

datatype session_outcome = Cancelled | SocketClosed | SessionError string | SessionRejected string | ForcedReconnect

datatype task_phase = Dialing | Connected relay_session | Waiting u64 | TaskOver

record relay_task =
  rt_url :: string
  rt_primary :: bool
  rt_cancel :: bool
  rt_retry :: relay_retry_state
  rt_phase :: task_phase

record nostr_driver =
  nd_shared :: driver_shared
  nd_tasks :: "relay_task list"
  nd_primary_live :: nat
  nd_fallback_urls :: "string list"
  nd_active :: "nat list"
  nd_down_since :: "u64 option"
  nd_stopped :: bool

definition new_task :: "bool \<Rightarrow> string \<Rightarrow> relay_task" where
  "new_task primary url = \<lparr>rt_url = url, rt_primary = primary, rt_cancel = False, rt_retry = new_retry, rt_phase = Dialing\<rparr>"

definition start_driver :: "nostr_lib \<Rightarrow> nostr_driver_config \<Rightarrow> nostr_identity \<Rightarrow> nostr_driver" where
  "start_driver l cfg identity =
     \<lparr>nd_shared = \<lparr>ds_identity = identity, ds_room_handle = derive_room_handle l (nc_app_id cfg) (nc_network_id cfg),
        ds_device_id = nc_device_id cfg, ds_relay_connected = 0, ds_seen_event_ids = [], ds_outbound_replay = [], ds_room_caps = fmempty,
        ds_compat_directed = True, ds_announce = nc_announce cfg, ds_inbound = []\<rparr>,
      nd_tasks = map (new_task True) (selected_relays l cfg), nd_primary_live = 0, nd_fallback_urls = fallback_relays l cfg,
      nd_active = [], nd_down_since = None, nd_stopped = False\<rparr>"

definition bus_capacity :: nat where "bus_capacity = 64"

definition bus_push :: "nostr_event \<Rightarrow> relay_session \<Rightarrow> relay_session" where
  "bus_push ev s =
     (if bus_capacity \<le> length (rs_queue s) then s\<lparr>rs_queue := tl (rs_queue s) @ [ev], rs_lagged := rs_lagged s + 1\<rparr>
      else s\<lparr>rs_queue := rs_queue s @ [ev]\<rparr>)"

fun in_session :: "(relay_session \<Rightarrow> relay_session) \<Rightarrow> task_phase \<Rightarrow> task_phase" where
  "in_session f (Connected s) = Connected (f s)"
| "in_session f p = p"

definition publish :: "nostr_event \<Rightarrow> relay_task list \<Rightarrow> relay_task list" where
  "publish ev tasks = map (\<lambda>t. t\<lparr>rt_phase := in_session (bus_push ev) (rt_phase t)\<rparr>) tasks"

fun is_connected :: "task_phase \<Rightarrow> bool" where
  "is_connected (Connected _) = True"
| "is_connected _ = False"

definition receiver_count :: "relay_task list \<Rightarrow> nat" where
  "receiver_count tasks = length (filter (\<lambda>t. is_connected (rt_phase t)) tasks)"

definition set_task :: "nat \<Rightarrow> relay_task \<Rightarrow> nostr_driver \<Rightarrow> nostr_driver" where
  "set_task i t d = d\<lparr>nd_tasks := (nd_tasks d)[i := t]\<rparr>"

text \<open>What \<open>run_relay\<close> does when a session, or the attempt to dial, is over.\<close>

definition retry_seed :: "driver_shared \<Rightarrow> string \<Rightarrow> string" where
  "retry_seed sh url = ds_device_id sh @ '':'' @ ds_room_handle sh @ '':'' @ url"

definition back_off :: "nostr_lib \<Rightarrow> driver_shared \<Rightarrow> relay_task \<Rightarrow> relay_task" where
  "back_off l sh t =
     (if rt_cancel t then t\<lparr>rt_phase := TaskOver\<rparr>
      else let (w, r) = next_wait_ms l (retry_seed sh (rt_url t)) (rt_retry t) in t\<lparr>rt_retry := r, rt_phase := Waiting w\<rparr>)"

fun session_over :: "nostr_lib \<Rightarrow> driver_shared \<Rightarrow> session_outcome \<Rightarrow> bool \<Rightarrow> relay_task \<Rightarrow> relay_task" where
  "session_over l sh ForcedReconnect lasted t = t\<lparr>rt_retry := reset_forced_reconnect (rt_retry t), rt_phase := Dialing\<rparr>"
| "session_over l sh Cancelled lasted t = t\<lparr>rt_phase := TaskOver\<rparr>"
| "session_over l sh (SessionRejected reason) lasted t = back_off l sh (t\<lparr>rt_retry := note_failure (rt_retry t)\<rparr>)"
| "session_over l sh (SessionError reason) lasted t = back_off l sh (if lasted then t else t\<lparr>rt_retry := note_failure (rt_retry t)\<rparr>)"
| "session_over l sh SocketClosed lasted t = back_off l sh (if lasted then t else t\<lparr>rt_retry := note_failure (rt_retry t)\<rparr>)"

definition new_session :: "driver_shared \<Rightarrow> u64 \<Rightarrow> relay_session" where
  "new_session sh secs =
     \<lparr>rs_compat = ds_compat_directed sh, rs_queue = [], rs_lagged = 0, rs_admitted_at = None, rs_stable = False,
      rs_written = [build_req sh secs (ds_compat_directed sh)]\<rparr>"

definition opened_tasks :: "u64 \<Rightarrow> u64 \<Rightarrow> nat \<Rightarrow> nostr_driver \<Rightarrow> relay_task list" where
  "opened_tasks now secs i d =
     fold publish (drain_fresh_outbound now (ds_outbound_replay (nd_shared d)))
       ((nd_tasks d)[i := (nd_tasks d ! i)\<lparr>rt_phase := Connected (new_session (nd_shared d) secs)\<rparr>])"

text \<open>
  A session that opens: it asks for its room, joins the bus, replays onto the bus what was buffered while no session was
  there, and announces itself on its own socket. \<open>wrote\<close> gives the error of each write, if it has one.
\<close>

definition open_session :: "nostr_lib \<Rightarrow> u64 \<Rightarrow> u64 \<Rightarrow> string option \<times> string option \<Rightarrow> nat \<Rightarrow> nostr_driver \<Rightarrow> nostr_driver" where
  "open_session l now secs wrote i d =
     (let sh = nd_shared d; t = nd_tasks d ! i in
      case fst wrote of
        Some e \<Rightarrow> set_task i (session_over l sh (SessionError (''send REQ: '' @ e)) False t) d
      | None \<Rightarrow>
          let tasks = opened_tasks now secs i d;
              d1 = d\<lparr>nd_tasks := tasks, nd_shared := sh\<lparr>ds_outbound_replay := []\<rparr>\<rparr>
          in if \<not> ds_announce sh then d1
             else case snd wrote of
                    Some e \<Rightarrow> set_task i (session_over l sh (SessionError (''send open-announce: '' @ e)) False (tasks ! i)) d1
                  | None \<Rightarrow>
                      set_task i ((tasks ! i)\<lparr>rt_phase := in_session (\<lambda>s. s\<lparr>rs_written := rs_written s @ [publish_frame (announce_event l sh secs)]\<rparr>)
                        (rt_phase (tasks ! i))\<rparr>) d1)"

datatype relay_control = Eose | ControlRejected string | ControlOther

definition str_contains :: "string \<Rightarrow> string \<Rightarrow> bool" where
  "str_contains hay needle = list_ex (prefix needle) (suffixes hay)"

definition relay_control_frame :: "nostr_lib \<Rightarrow> string \<Rightarrow> relay_control" where
  "relay_control_frame l frame =
     (case Option.bind (nl_parse l frame) as_array of
        None \<Rightarrow> ControlOther
      | Some arr \<Rightarrow>
          let tag = (case arr of [] \<Rightarrow> None | v # _ \<Rightarrow> as_str v) in
          if tag = Some ''EOSE'' then Eose
          else if tag = Some ''NOTICE'' then
            (let body = (case Option.bind (if 1 < length arr then Some (arr ! 1) else None) as_str of None \<Rightarrow> [] | Some b \<Rightarrow> b)
             in if str_contains (to_lower body) ''too many connections'' then ControlRejected body else ControlOther)
          else ControlOther)"

text \<open>
  What wakes the loop of a session: the socket, the bus, a forced reconnect, a change of the subscription shape, the idle timer.
  \<open>FromBus\<close> and \<open>ShapeChanged\<close> carry the error of their write.
\<close>

datatype session_input =
    ReadEnd | ReadText string | ReadBinary bytes | ReadClose | ReadOther | ReadError string
  | FromBus "string option" | Forced | ShapeChanged "string option" | IdleWake

text \<open>A turn goes on with the session or ends it; \<open>st_live\<close> is the counter of primary sessions.\<close>

record session_state =
  st_shared :: driver_shared
  st_live :: nat
  st_retry :: relay_retry_state
  st_session :: relay_session

definition settle_stable :: "u64 \<Rightarrow> session_state \<Rightarrow> session_state" where
  "settle_stable now x =
     (let s = st_session x in
      if \<not> rs_stable s \<and> (case rs_admitted_at s of None \<Rightarrow> False | Some t \<Rightarrow> RELAY_STABLE_SESSION_MS \<le> duration_since now t)
      then x\<lparr>st_session := s\<lparr>rs_stable := True\<rparr>, st_retry := note_stable (st_retry x)\<rparr> else x)"

definition admit_session :: "u64 \<Rightarrow> bool \<Rightarrow> session_state \<Rightarrow> session_state" where
  "admit_session now primary x =
     (let sh = st_shared x
      in x\<lparr>st_session := (st_session x)\<lparr>rs_admitted_at := Some now\<rparr>, st_retry := note_admitted (st_retry x),
           st_shared := sh\<lparr>ds_relay_connected := ds_relay_connected sh + 1\<rparr>, st_live := (if primary then st_live x + 1 else st_live x)\<rparr>)"

definition read_frame ::
  "nostr_lib \<Rightarrow> (string \<Rightarrow> json option) \<Rightarrow> u64 \<Rightarrow> bool \<Rightarrow> string \<Rightarrow> session_state \<Rightarrow> session_outcome option \<times> session_state" where
  "read_frame l tree now primary frame x =
     (case relay_control_frame l frame of
        ControlRejected reason \<Rightarrow> (Some (SessionRejected reason), x)
      | c \<Rightarrow>
          let x1 = (if c = Eose \<and> rs_admitted_at (st_session x) = None then admit_session now primary x else x)
          in (None, x1\<lparr>st_shared := nostr_inbound_frame l tree frame (st_shared x1)\<rparr>))"

definition write_session :: "json \<Rightarrow> session_state \<Rightarrow> session_state" where
  "write_session frame x = x\<lparr>st_session := (st_session x)\<lparr>rs_written := rs_written (st_session x) @ [frame]\<rparr>\<rparr>"

fun session_select ::
  "nostr_lib \<Rightarrow> (string \<Rightarrow> json option) \<Rightarrow> u64 \<Rightarrow> u64 \<Rightarrow> bool \<Rightarrow> session_input \<Rightarrow> session_state \<Rightarrow> session_outcome option \<times> session_state" where
  "session_select l tree now secs primary ReadEnd x = (Some SocketClosed, x)"
| "session_select l tree now secs primary (ReadText t) x = read_frame l tree now primary t x"
| "session_select l tree now secs primary (ReadBinary b) x = (if utf8_ok b then read_frame l tree now primary b x else (None, x))"
| "session_select l tree now secs primary ReadClose x = (Some SocketClosed, x)"
| "session_select l tree now secs primary ReadOther x = (None, x)"
| "session_select l tree now secs primary (ReadError e) x = (Some (SessionError (''ws read: '' @ e)), x)"
| "session_select l tree now secs primary (FromBus wrote) x =
     (let s = st_session x in
      if 0 < rs_lagged s then (None, x\<lparr>st_session := s\<lparr>rs_lagged := 0\<rparr>\<rparr>)
      else case rs_queue s of
             [] \<Rightarrow> (None, x)
           | ev # rest \<Rightarrow>
               let x1 = x\<lparr>st_session := s\<lparr>rs_queue := rest\<rparr>\<rparr>
               in case wrote of
                    Some e \<Rightarrow> (Some (SessionError (''send publish: '' @ e)), x1)
                  | None \<Rightarrow> (None, write_session (publish_frame ev) x1))"
| "session_select l tree now secs primary Forced x = (Some ForcedReconnect, x)"
| "session_select l tree now secs primary (ShapeChanged wrote) x =
     (let legacy = ds_compat_directed (st_shared x) in
      if legacy = rs_compat (st_session x) then (None, x)
      else
        let x1 = x\<lparr>st_session := (st_session x)\<lparr>rs_compat := legacy\<rparr>\<rparr>
        in case wrote of
             Some e \<Rightarrow> (Some (SessionError (''send REQ: '' @ e)), x1)
           | None \<Rightarrow> (None, write_session (build_req (st_shared x) secs legacy) x1))"
| "session_select l tree now secs primary IdleWake x = (None, x)"

text \<open>One turn of the loop, and its end, which takes an admitted session out of the count.\<close>

definition session_turn ::
  "nostr_lib \<Rightarrow> (string \<Rightarrow> json option) \<Rightarrow> u64 \<Rightarrow> u64 \<Rightarrow> session_input \<Rightarrow> nat \<Rightarrow> relay_session \<Rightarrow> nostr_driver \<Rightarrow> nostr_driver" where
  "session_turn l tree now secs inp i s d =
     (let t = nd_tasks d ! i;
          x0 = settle_stable now \<lparr>st_shared = nd_shared d, st_live = nd_primary_live d, st_retry = rt_retry t, st_session = s\<rparr>;
          (out, x) = (if rt_cancel t then (Some Cancelled, x0) else session_select l tree now secs (rt_primary t) inp x0);
          t1 = t\<lparr>rt_retry := st_retry x\<rparr>; s1 = st_session x;
          d1 = d\<lparr>nd_shared := st_shared x, nd_primary_live := st_live x\<rparr>
      in case out of
           None \<Rightarrow> set_task i (t1\<lparr>rt_phase := Connected s1\<rparr>) d1
         | Some e \<Rightarrow>
             set_task i (session_over l (nd_shared d1) e (rs_stable s1) t1)
               (if rt_primary t \<and> rs_admitted_at s1 \<noteq> None then d1\<lparr>nd_primary_live := nd_primary_live d1 - 1\<rparr> else d1))"

section \<open>The driver\<close>

definition pump_outbound :: "nostr_lib \<Rightarrow> u64 \<Rightarrow> u64 \<Rightarrow> driver_outbound \<Rightarrow> nostr_driver \<Rightarrow> nostr_driver" where
  "pump_outbound l now secs out d =
     (let sh = nd_shared d; ev = outbound_event l sh secs out in
      if nd_stopped d then d
      else if receiver_count (nd_tasks d) = 0 then
        (if ne_kind ev = SIGNALING_EPHEMERAL_KIND
         then d\<lparr>nd_shared := sh\<lparr>ds_outbound_replay := push_outbound_replay now ev (ds_outbound_replay sh)\<rparr>\<rparr> else d)
      else d\<lparr>nd_tasks := publish ev (nd_tasks d)\<rparr>)"

definition announce_tick :: "nostr_lib \<Rightarrow> u64 \<Rightarrow> nostr_driver \<Rightarrow> nostr_driver" where
  "announce_tick l secs d =
     (if ds_announce (nd_shared d) \<and> \<not> nd_stopped d then d\<lparr>nd_tasks := publish (announce_event l (nd_shared d) secs) (nd_tasks d)\<rparr> else d)"

definition cancel_tasks :: "nat list \<Rightarrow> relay_task list \<Rightarrow> relay_task list" where
  "cancel_tasks is tasks = fold (\<lambda>i ts. ts[i := (ts ! i)\<lparr>rt_cancel := True\<rparr>]) is tasks"

definition fallback_poll :: "u64 \<Rightarrow> nostr_driver \<Rightarrow> nostr_driver" where
  "fallback_poll now d =
     (let down_since = (if nd_primary_live d = 0 then Some (case nd_down_since d of None \<Rightarrow> now | Some t \<Rightarrow> t) else None);
          down_for_ms = (case down_since of None \<Rightarrow> 0 | Some t \<Rightarrow> duration_since now t);
          d1 = d\<lparr>nd_down_since := down_since\<rparr>; n = length (nd_tasks d)
      in if nd_stopped d then d\<lparr>nd_tasks := cancel_tasks (nd_active d) (nd_tasks d)\<rparr>
         else case fallback_action (nd_primary_live d) (nd_active d \<noteq> []) down_for_ms of
           Activate \<Rightarrow>
             d1\<lparr>nd_tasks := nd_tasks d @ map (new_task False) (nd_fallback_urls d),
                nd_active := [n..<n + length (nd_fallback_urls d)]\<rparr>
         | StandDown \<Rightarrow> d1\<lparr>nd_tasks := cancel_tasks (nd_active d) (nd_tasks d), nd_active := []\<rparr>
         | Hold \<Rightarrow> d1)"

text \<open>What may happen next. \<open>Dialed\<close> carries the error of the dial, then those of the first writes.\<close>

datatype driver_event =
    Dialed nat u64 u64 "string option" "string option \<times> string option"
  | Turn nat u64 u64 session_input
  | WaitOver nat bool
  | Pumped u64 u64 driver_outbound
  | AnnounceTick u64
  | FallbackPoll u64
  | StopDriver

definition dialed :: "nostr_lib \<Rightarrow> nat \<Rightarrow> u64 \<Rightarrow> u64 \<Rightarrow> string option \<Rightarrow> string option \<times> string option \<Rightarrow> nostr_driver \<Rightarrow> nostr_driver" where
  "dialed l i now secs err wrote d =
     (let t = nd_tasks d ! i in
      if rt_phase t \<noteq> Dialing then d
      else if rt_cancel t then set_task i (t\<lparr>rt_phase := TaskOver\<rparr>) d
      else case err of
             Some e \<Rightarrow> set_task i (back_off l (nd_shared d) (t\<lparr>rt_retry := note_failure (rt_retry t)\<rparr>)) d
           | None \<Rightarrow> open_session l now secs wrote i d)"

definition wait_over :: "nat \<Rightarrow> bool \<Rightarrow> nostr_driver \<Rightarrow> nostr_driver" where
  "wait_over i forced d =
     (let t = nd_tasks d ! i in
      case rt_phase t of
        Waiting _ \<Rightarrow> set_task i (t\<lparr>rt_phase := Dialing, rt_retry := (if forced then reset_forced_reconnect (rt_retry t) else rt_retry t)\<rparr>) d
      | _ \<Rightarrow> d)"

fun drive :: "nostr_lib \<Rightarrow> (string \<Rightarrow> json option) \<Rightarrow> driver_event \<Rightarrow> nostr_driver \<Rightarrow> nostr_driver" where
  "drive l tree (Dialed i now secs err wrote) d = (if i < length (nd_tasks d) then dialed l i now secs err wrote d else d)"
| "drive l tree (Turn i now secs inp) d =
     (if i < length (nd_tasks d)
      then (case rt_phase (nd_tasks d ! i) of Connected s \<Rightarrow> session_turn l tree now secs inp i s d | _ \<Rightarrow> d) else d)"
| "drive l tree (WaitOver i forced) d = (if i < length (nd_tasks d) then wait_over i forced d else d)"
| "drive l tree (Pumped now secs out) d = pump_outbound l now secs out d"
| "drive l tree (AnnounceTick secs) d = announce_tick l secs d"
| "drive l tree (FallbackPoll now) d = (if nd_fallback_urls d = [] then d else fallback_poll now d)"
| "drive l tree StopDriver d =
     d\<lparr>nd_stopped := True, nd_tasks := map (\<lambda>t. if rt_primary t then t\<lparr>rt_cancel := True\<rparr> else t) (nd_tasks d)\<rparr>"

section \<open>Envelopes read back\<close>

lemma as_u16_ucast: "as_u16 (JUInt (ucast (n :: 16 word))) = Some n"
proof -
  have "(ucast n :: u64) \<le> 0xFFFF" using uint_lt2p [of n] by (simp add: word_le_def uint_up_ucast is_up)
  moreover have "ucast (ucast n :: u64) = n" by (intro ucast_up_ucast_id) (simp add: is_up)
  ultimately show ?thesis by (simp add: as_u16_def)
qed

lemma as_opt_json: "as_opt as_str (opt_json v) = Some v"
  by (cases v) (simp_all add: as_opt_def opt_json_def)

lemma strings_of_map [simp]: "strings_of (map JStr t) = Some t"
  by (induction t) simp_all

lemmas reader_defs = need_field_def field_or_def one_field_def as_opt_json as_u16_ucast MESSAGE_KINDS_def

lemma envelope_round_trip: "envelope_of_json (sig_envelope_json env) = Some env"
proof (cases "en_msg env")
  case (MsgCandidate p cand mid index ufrag)
  have "as_opt as_u16 (case index of None \<Rightarrow> JNull | Some n \<Rightarrow> JUInt (ucast n)) = Some index"
    by (cases index) (simp_all add: as_opt_def as_u16_ucast)
  with MsgCandidate show ?thesis by (cases env) (simp add: envelope_of_json_def sig_envelope_json_def message_of_fields_def reader_defs)
qed (cases env; simp add: envelope_of_json_def sig_envelope_json_def message_of_fields_def reader_defs)+

text \<open>The relay's own word that a device left reads the same as the device's.\<close>

lemma relay_leave_read:
  "envelope_of_json (JObj [(''from'', JStr d), (''kind'', JStr ''leave''), (''peer_id'', JStr d)]) =
     Some \<lparr>en_from = d, en_to = None, en_msg = MsgLeave d\<rparr>"
  by (simp add: envelope_of_json_def message_of_fields_def reader_defs)

section \<open>From one engine to another\<close>

text \<open>The envelope of an outbound event and what the driver of another device makes of it.\<close>

fun outbound_envelope :: "string \<Rightarrow> driver_outbound \<Rightarrow> signaling_envelope" where
  "outbound_envelope me OutAnnounce = \<lparr>en_from = me, en_to = None, en_msg = MsgAnnounce me [SIG_CAP_PTAG]\<rparr>"
| "outbound_envelope me OutLeave = \<lparr>en_from = me, en_to = None, en_msg = MsgLeave me\<rparr>"
| "outbound_envelope me (OutDirected to msg) = \<lparr>en_from = me, en_to = Some to, en_msg = msg\<rparr>"

fun heard :: "string \<Rightarrow> driver_outbound \<Rightarrow> driver_inbound" where
  "heard me OutAnnounce = InAnnounced me"
| "heard me OutLeave = InLeft me"
| "heard me (OutDirected to msg) = InMessage me msg"

lemma outbound_event_parts:
  "ne_content (outbound_event l sh secs out) = nl_render l (sig_envelope_json (outbound_envelope (ds_device_id sh) out))"
  "ne_pubkey (outbound_event l sh secs out) = ni_pubkey_hex (ds_identity sh)"
  "in_room (ds_room_handle sh) (outbound_event l sh secs out)"
  "nostr_documented l (ds_identity sh) \<Longrightarrow> verify_event l (outbound_event l sh secs out)"
  by (cases out; simp add: announce_event_def make_event_verifies; simp add: make_event_def Let_def in_room_def)+

lemma outbound_event_kind:
  "ne_kind (outbound_event l sh secs out) = (if out = OutAnnounce then SIGNALING_EVENT_KIND else SIGNALING_EPHEMERAL_KIND)"
  by (cases out) (simp_all add: announce_event_def make_event_def Let_def)

lemma heard_translates:
  "canonical_wire_device_id c me = Some me \<Longrightarrow> translate_inbound c (heard me (outbound_msg me m)) = Some (received me m)"
  by (cases m) (simp_all add: translate_message_def)

lemma envelope_taken:
  assumes "me \<noteq> ds_device_id b"
  shows "ds_inbound (take_envelope (if outbound_msg me m = OutAnnounce then SIGNALING_EVENT_KIND else SIGNALING_EPHEMERAL_KIND)
       (outbound_envelope me (outbound_msg me m)) b) =
     ds_inbound b @ (if addressee m \<in> {None, Some (ds_device_id b)} then [heard me (outbound_msg me m)] else [])"
  using assms by (cases m) (auto simp: take_envelope_def push_inbound_def recompute_compat_def Let_def)

lemma remember_parts [simp]:
  "ds_inbound (remember_event i sh) = ds_inbound sh" "ds_device_id (remember_event i sh) = ds_device_id sh"
  "ds_room_handle (remember_event i sh) = ds_room_handle sh" "ds_identity (remember_event i sh) = ds_identity sh"
  "ds_room_caps (remember_event i sh) = ds_room_caps sh" "ds_compat_directed (remember_event i sh) = ds_compat_directed sh"
  "ds_outbound_replay (remember_event i sh) = ds_outbound_replay sh" "ds_announce (remember_event i sh) = ds_announce sh"
  "ds_relay_connected (remember_event i sh) = ds_relay_connected sh"
  by (simp_all add: remember_event_def Let_def)

lemma take_envelope_parts [simp]:
  "ds_device_id (take_envelope k env sh) = ds_device_id sh" "ds_room_handle (take_envelope k env sh) = ds_room_handle sh"
  "ds_identity (take_envelope k env sh) = ds_identity sh" "ds_seen_event_ids (take_envelope k env sh) = ds_seen_event_ids sh"
  "ds_outbound_replay (take_envelope k env sh) = ds_outbound_replay sh" "ds_announce (take_envelope k env sh) = ds_announce sh"
  "ds_relay_connected (take_envelope k env sh) = ds_relay_connected sh"
  by (simp_all add: take_envelope_def push_inbound_def recompute_compat_def Let_def split: signaling_message.split)

lemma take_event_parts [simp]:
  "ds_device_id (take_event l tree ev sh) = ds_device_id sh" "ds_room_handle (take_event l tree ev sh) = ds_room_handle sh"
  "ds_identity (take_event l tree ev sh) = ds_identity sh" "ds_outbound_replay (take_event l tree ev sh) = ds_outbound_replay sh"
  "ds_announce (take_event l tree ev sh) = ds_announce sh" "ds_relay_connected (take_event l tree ev sh) = ds_relay_connected sh"
  by (simp_all add: take_event_def split: option.split)

lemma remembered: "i \<in> set (ds_seen_event_ids (remember_event i sh))"
  by (simp add: remember_event_def Let_def)

definition accepts :: "nostr_lib \<Rightarrow> driver_shared \<Rightarrow> nostr_event \<Rightarrow> bool" where
  "accepts l sh ev \<longleftrightarrow> verify_event l ev \<and> in_room (ds_room_handle sh) ev \<and> ne_pubkey ev \<noteq> ni_pubkey_hex (ds_identity sh) \<and>
     ne_id ev \<notin> set (ds_seen_event_ids sh)"

lemma take_event_eq:
  "take_event l tree ev sh =
     (if accepts l sh ev
      then (case Option.bind (tree (ne_content ev)) envelope_of_json of
              None \<Rightarrow> remember_event (ne_id ev) sh | Some env \<Rightarrow> take_envelope (ne_kind ev) env (remember_event (ne_id ev) sh))
      else sh)"
  by (simp add: take_event_def accepts_def)

lemma take_event_seen:
  "ds_seen_event_ids (take_event l tree ev sh) =
     (if accepts l sh ev then ds_seen_event_ids (remember_event (ne_id ev) sh) else ds_seen_event_ids sh)"
  by (simp add: take_event_eq split: option.split)

lemma event_twice: "take_event l tree ev (take_event l tree ev sh) = take_event l tree ev sh"
proof (cases "accepts l sh ev")
  case True
  then have "\<not> accepts l (take_event l tree ev sh) ev" using remembered [of "ne_id ev" sh] by (simp add: accepts_def [of l "take_event l tree ev sh"] take_event_seen)
  then show ?thesis by (simp add: take_event_eq [of l tree ev "take_event l tree ev sh"])
qed (simp add: take_event_eq)

lemma outbound_taken:
  assumes "nostr_documented l (ds_identity a)" "ni_pubkey_hex (ds_identity a) \<noteq> ni_pubkey_hex (ds_identity b)"
    and "me = ds_device_id a" "me \<noteq> ds_device_id b" "ds_room_handle a = ds_room_handle b"
    and "ev = outbound_event l a secs (outbound_msg me m)" "ne_id ev \<notin> set (ds_seen_event_ids b)"
    and "tree (ne_content ev) = Some (sig_envelope_json (outbound_envelope me (outbound_msg me m)))"
  shows "ds_inbound (take_event l tree ev b) =
     ds_inbound b @ (if addressee m \<in> {None, Some (ds_device_id b)} then [heard me (outbound_msg me m)] else [])"
proof -
  have "verify_event l ev" "in_room (ds_room_handle b) ev" "ne_pubkey ev = ni_pubkey_hex (ds_identity a)"
    using assms(1,5,6) outbound_event_parts(2-4) by metis+
  then have "take_event l tree ev b = take_envelope (ne_kind ev) (outbound_envelope me (outbound_msg me m)) (remember_event (ne_id ev) b)"
    using assms(2,7,8) by (simp add: take_event_eq accepts_def envelope_round_trip)
  with envelope_taken [of me "remember_event (ne_id ev) b" m] assms(4,6) show ?thesis by (simp add: outbound_event_kind)
qed

lemma singleton_fmap [simp]: "sorted_list_of_fmap (fmupd k v fmempty) = [(k, v)]"
  by (simp add: sorted_list_of_fmap_def sorted_list_of_fset.rep_eq)

lemma since_ok: "unat (subscribed :: u64) \<le> unat secs + 120 \<Longrightarrow> PRESENCE_REPLAY_WINDOW_SECS \<le> subscribed \<Longrightarrow> \<not> secs < subscribed - PRESENCE_REPLAY_WINDOW_SECS"
  by (simp add: PRESENCE_REPLAY_WINDOW_SECS_def word_less_nat_alt word_le_nat_alt unat_sub)

lemma filters_match:
  assumes "ds_room_handle a = ds_room_handle b" "unat subscribed \<le> unat secs + 120"
    and "\<forall>to. addressee m = Some to \<longrightarrow> to \<noteq> ds_room_handle b"
  shows "matches_any (desired_filters b subscribed legacy) (outbound_event l a secs (outbound_msg me m)) \<longleftrightarrow>
     legacy \<or> addressee m \<in> {None, Some (ds_device_id b)}"
  using assms since_ok [OF assms(2)]
  by (cases m) (auto simp: matches_any_def desired_filters_def Let_def filter_matches_def constraint_holds_def announce_event_def
      make_event_def str_list_contains_def SIGNALING_EVENT_KIND_def SIGNALING_EPHEMERAL_KIND_def)

lemma update_other [simp]: "j \<noteq> i \<Longrightarrow> fmlookup (hb_conns (update_conn i f h)) j = fmlookup (hb_conns h) j"
  by (simp add: update_conn_def split: option.split)

lemma admit_other:
  assumes "j \<noteq> i" "fmlookup (hb_conns h) j = Some c"
  shows "fmlookup (hb_conns (admit_event l i now v ev h)) j = Some (c\<lparr>ce_out := ce_out c @ sub_frames v ev c\<rparr>)"
  using assms by (simp add: admit_event_def Let_def send_to_def fanout_def record_presence_def split: option.split prod.split)

lemma frame_admitted:
  assumes "nl_parse l txt = Some (publish_frame ev)" "fst (take_token i False now h)" "verify_event l ev"
    and "lm_max_message_bytes (hb_limits h) = 0 \<or> of_nat (length txt) \<le> lm_max_message_bytes (hb_limits h)"
  shows "conn_frame l now t i txt h = admit_event l i now (event_json ev) ev (snd (take_token i False now h))"
proof -
  obtain h1 where h1: "take_token i False now h = (True, h1)" using assms(2) by (metis prod.collapse)
  have n: "\<not> (0 < lm_max_message_bytes (hb_limits h) \<and> lm_max_message_bytes (hb_limits h) < of_nat (length txt))"
    using assms(4) by auto
  show ?thesis unfolding conn_frame_def on_client_message_def if_not_P [OF n]
    using assms(1,3) by (simp add: publish_frame_def h1 handle_event_def event_round_trip)
qed

lemma token_other: "j \<noteq> i \<Longrightarrow> fmlookup (hb_conns (snd (take_token i is_req now h))) j = fmlookup (hb_conns h) j"
  by (simp add: take_token_def case_prod_beta split: option.split)

lemma frame_event_frame:
  "nl_parse l txt = Some (event_frame subid (event_json ev)) \<Longrightarrow> nostr_inbound_frame l tree txt b = take_event l tree ev b"
  by (simp add: nostr_inbound_frame_def frame_event_def event_frame_def event_round_trip)

text \<open>
  C20: Signaling over a relay. What an engine emits, published by its driver and forwarded by the relay, arrives in the queue of every
  connection subscribed to the room by another device's driver: presence always, negotiation at its addressee, and at bystanders only
  while their subscription is the wide one. From that frame the other driver and its bridge hand their engine the same message under the
  sender's id if it is for that device, and nothing otherwise; another copy of the frame, from whichever relay, changes nothing.
\<close>

theorem signaling_over_relay:
  assumes "nostr_documented l (ds_identity a)" "ni_pubkey_hex (ds_identity a) \<noteq> ni_pubkey_hex (ds_identity b)"
    and "me = ds_device_id a" "me \<noteq> ds_device_id b" "canonical_wire_device_id c me = Some me"
    and "ds_room_handle a = ds_room_handle b" "\<forall>to. addressee m = Some to \<longrightarrow> to \<noteq> ds_room_handle b"
    and "ev = outbound_event l a secs (outbound_msg me m)" "ne_id ev \<notin> set (ds_seen_event_ids b)" "unat subscribed \<le> unat secs + 120"
    and "j \<noteq> i" "fmlookup (hb_conns h) j = Some cb" "ce_subs cb = fmupd SUB_ID (desired_filters b subscribed legacy) fmempty"
    and "fst (take_token i False now h)"
    and "lm_max_message_bytes (hb_limits h) = 0 \<or> of_nat (length (nl_render l (publish_frame ev))) \<le> lm_max_message_bytes (hb_limits h)"
    and "nl_parse l (nl_render l (publish_frame ev)) = Some (publish_frame ev)"
    and "nl_parse l (nl_render l (event_frame SUB_ID (event_json ev))) = Some (event_frame SUB_ID (event_json ev))"
    and "tree (ne_content ev) = Some (sig_envelope_json (outbound_envelope me (outbound_msg me m)))"
  shows "\<exists>cb' b'. fmlookup (hb_conns (conn_frame l now t i (nl_render l (publish_frame ev)) h)) j = Some cb' \<and>
     ce_out cb' = ce_out cb @
       (if legacy \<or> addressee m \<in> {None, Some (ds_device_id b)} then [event_frame SUB_ID (event_json ev)] else []) \<and>
     nostr_inbound_frame l tree (nl_render l (event_frame SUB_ID (event_json ev))) b = b' \<and>
     map (translate_inbound c) (ds_inbound b') =
       map (translate_inbound c) (ds_inbound b) @ (if addressee m \<in> {None, Some (ds_device_id b)} then [Some (received me m)] else []) \<and>
     nostr_inbound_frame l tree (nl_render l (event_frame SUB_ID (event_json ev))) b' = b'"
proof -
  let ?h1 = "snd (take_token i False now h)" and ?b = "take_event l tree ev b"
  have v: "verify_event l ev" using assms(1,8) outbound_event_parts(4) by blast
  have hub: "fmlookup (hb_conns (conn_frame l now t i (nl_render l (publish_frame ev)) h)) j =
      Some (cb\<lparr>ce_out := ce_out cb @ sub_frames (event_json ev) ev cb\<rparr>)"
    unfolding frame_admitted [OF assms(16,14) v assms(15)] by (rule admit_other) (use assms(11,12) in \<open>simp_all add: token_other\<close>)
  have sub: "sub_frames (event_json ev) ev cb =
      (if legacy \<or> addressee m \<in> {None, Some (ds_device_id b)} then [event_frame SUB_ID (event_json ev)] else [])"
    using filters_match [OF assms(6,10,7), of legacy l me] by (simp add: sub_frames_def assms(8,13))
  have "map (translate_inbound c) (ds_inbound ?b) =
      map (translate_inbound c) (ds_inbound b) @ (if addressee m \<in> {None, Some (ds_device_id b)} then [Some (received me m)] else [])"
    using outbound_taken [where tree = tree, OF assms(1,2,3,4,6,8,9,18)] heard_translates [OF assms(5), of m] by simp
  moreover note frame_event_frame [OF assms(17), of tree] event_twice [of l tree ev b]
  ultimately show ?thesis using hub sub by (intro exI [of _ "cb\<lparr>ce_out := ce_out cb @ sub_frames (event_json ev) ev cb\<rparr>"] exI [of _ ?b]) simp
qed

section \<open>What a driver hands to its engine\<close>

text \<open>What a property of the shared state must survive to be kept by everything the driver does.\<close>

locale shared_invariant =
  fixes l :: nostr_lib and tree :: "string \<Rightarrow> json option" and P :: "driver_shared \<Rightarrow> bool"
  assumes taken: "P sh \<Longrightarrow> P (take_event l tree ev sh)"
    and connected: "P sh \<Longrightarrow> P (sh\<lparr>ds_relay_connected := n\<rparr>)"
    and buffered: "P sh \<Longrightarrow> length buf \<le> OUTBOUND_REPLAY_CAP \<Longrightarrow> P (sh\<lparr>ds_outbound_replay := buf\<rparr>)"
begin

lemma frame_keeps: "P sh \<Longrightarrow> P (nostr_inbound_frame l tree frame sh)"
  by (simp add: nostr_inbound_frame_def taken split: option.split)

lemma read_keeps: "P (st_shared x) \<Longrightarrow> P (st_shared (snd (read_frame l tree now primary frame x)))"
  by (simp add: read_frame_def admit_session_def Let_def frame_keeps connected split: relay_control.split)

lemma select_keeps: "P (st_shared x) \<Longrightarrow> P (st_shared (snd (session_select l tree now secs primary inp x)))"
  by (cases inp) (simp_all add: read_keeps Let_def write_session_def split: list.split option.split)

lemma turn_keeps: assumes "P (nd_shared d)" shows "P (nd_shared (session_turn l tree now secs inp i s d))"
proof -
  have "P (st_shared (settle_stable now \<lparr>st_shared = nd_shared d, st_live = n, st_retry = r, st_session = s\<rparr>))" for n r
    using assms by (simp add: settle_stable_def Let_def)
  then show ?thesis using select_keeps
    by (simp add: session_turn_def Let_def set_task_def case_prod_beta split: option.split)
qed

lemma open_keeps: "P (nd_shared d) \<Longrightarrow> P (nd_shared (open_session l now secs wrote i d))"
  by (simp add: open_session_def Let_def set_task_def buffered split: option.split)

lemma drive_keeps: "P (nd_shared d) \<Longrightarrow> P (nd_shared (drive l tree e d))"
proof (cases e)
  case (Pumped now secs out)
  then show "P (nd_shared d) \<Longrightarrow> ?thesis" by (simp add: pump_outbound_def push_outbound_replay_def Let_def buffered)
qed (simp_all add: dialed_def wait_over_def announce_tick_def fallback_poll_def set_task_def Let_def turn_keeps open_keeps
    split: option.split task_phase.split fallback_action_kind.split)

lemma run_keeps: "P (nd_shared d) \<Longrightarrow> P (nd_shared (fold (drive l tree) es d))"
  by (induction es arbitrary: d) (simp_all add: drive_keeps)

end

definition caps_ok :: "driver_shared \<Rightarrow> bool" where
  "caps_ok sh \<longleftrightarrow> (ds_compat_directed sh \<longleftrightarrow> ds_room_caps sh = fmempty \<or> (\<exists>p. fmlookup (ds_room_caps sh) p = Some False))"

definition shared_ok :: "driver_shared \<Rightarrow> bool" where
  "shared_ok sh \<longleftrightarrow> distinct (ds_seen_event_ids sh) \<and> length (ds_seen_event_ids sh) \<le> SEEN_EVENT_CAPACITY \<and>
     length (ds_outbound_replay sh) \<le> OUTBOUND_REPLAY_CAP \<and> caps_ok sh"

text \<open>Where a delivered message comes from: a signed event of the room by another key, of the kind and with the recipient its message asks for.\<close>

fun deliverable :: "string \<Rightarrow> 16 word \<Rightarrow> signaling_envelope \<Rightarrow> driver_inbound \<Rightarrow> bool" where
  "deliverable me kind env (InAnnounced p) \<longleftrightarrow>
     kind = SIGNALING_EVENT_KIND \<and> en_to env = None \<and> p \<noteq> me \<and> (\<exists>caps. en_msg env = MsgAnnounce p caps)"
| "deliverable me kind env (InLeft p) \<longleftrightarrow> kind = SIGNALING_EPHEMERAL_KIND \<and> en_to env = None \<and> p \<noteq> me \<and> en_msg env = MsgLeave p"
| "deliverable me kind env (InMessage from msg) \<longleftrightarrow>
     kind = SIGNALING_EPHEMERAL_KIND \<and> en_to env = Some me \<and> en_from env = from \<and> en_msg env = msg \<and> \<not> is_broadcast msg"
| "deliverable me kind env (InDiscoveryLost p) \<longleftrightarrow> False"

definition delivery_sound :: "nostr_lib \<Rightarrow> (string \<Rightarrow> json option) \<Rightarrow> driver_shared \<Rightarrow> driver_inbound \<Rightarrow> bool" where
  "delivery_sound l tree sh m \<longleftrightarrow>
     (\<exists>ev env. verify_event l ev \<and> in_room (ds_room_handle sh) ev \<and> ne_pubkey ev \<noteq> ni_pubkey_hex (ds_identity sh) \<and>
        Option.bind (tree (ne_content ev)) envelope_of_json = Some env \<and> message_peer_id (en_msg env) = en_from env \<and>
        deliverable (ds_device_id sh) (ne_kind ev) env m)"

definition all_sound :: "nostr_lib \<Rightarrow> (string \<Rightarrow> json option) \<Rightarrow> nostr_identity \<Rightarrow> string \<Rightarrow> string \<Rightarrow> driver_shared \<Rightarrow> bool" where
  "all_sound l tree identity room me sh \<longleftrightarrow> ds_identity sh = identity \<and> ds_room_handle sh = room \<and> ds_device_id sh = me \<and>
     (\<forall>m \<in> set (ds_inbound sh). delivery_sound l tree sh m)"

lemma list_ex_fmap: "list_ex (\<lambda>(_, v). \<not> v) (sorted_list_of_fmap m) \<longleftrightarrow> (\<exists>k. fmlookup m k = Some False)"
proof
  assume "\<exists>k. fmlookup m k = Some False"
  then obtain k where "fmlookup m k = Some False" "k |\<in>| fmdom m" by (auto intro: fmdomI)
  then have "(k, False) \<in> set (sorted_list_of_fmap m)" by (force simp: sorted_list_of_fmap_def sorted_list_of_fset.rep_eq)
  then show "list_ex (\<lambda>(_, v). \<not> v) (sorted_list_of_fmap m)" by (force simp: list_ex_iff)
qed (fastforce simp: list_ex_iff sorted_list_of_fmap_def fmlookup_dom_iff)

lemma recompute_ok [simp]: "caps_ok (recompute_compat sh)"
  by (simp add: caps_ok_def recompute_compat_def list_ex_fmap)

lemma caps_keep: "caps_ok sh \<Longrightarrow> ds_compat_directed sh' = ds_compat_directed sh \<Longrightarrow> ds_room_caps sh' = ds_room_caps sh \<Longrightarrow> caps_ok sh'"
  by (simp add: caps_ok_def)

lemma envelope_caps: "caps_ok sh \<Longrightarrow> caps_ok (take_envelope k env sh)"
proof -
  have "caps_ok (push_inbound m (recompute_compat sh'))" "caps_ok sh \<Longrightarrow> caps_ok (push_inbound m sh)" for m sh'
    by (auto simp: push_inbound_def intro: caps_keep [OF recompute_ok] caps_keep)
  then show "caps_ok sh \<Longrightarrow> ?thesis" by (simp add: take_envelope_def Let_def split: signaling_message.split)
qed

lemma set_tl: "x \<in> set (tl xs) \<Longrightarrow> x \<in> set xs"
  by (cases xs) simp_all

lemma event_ok: assumes "shared_ok sh" shows "shared_ok (take_event l tree ev sh)"
proof -
  have "caps_ok (remember_event i sh)" for i using assms by (auto simp: shared_ok_def intro: caps_keep)
  then have "caps_ok (take_event l tree ev sh)" using assms by (simp add: take_event_eq shared_ok_def envelope_caps split: option.split)
  moreover have "distinct (ds_seen_event_ids (take_event l tree ev sh)) \<and> length (ds_seen_event_ids (take_event l tree ev sh)) \<le> SEEN_EVENT_CAPACITY"
    using assms by (auto simp: take_event_seen accepts_def remember_event_def Let_def shared_ok_def distinct_tl SEEN_EVENT_CAPACITY_def dest: set_tl)
  ultimately show ?thesis using assms by (simp add: shared_ok_def)
qed

lemma sound_keep:
  "delivery_sound l tree sh m \<Longrightarrow> ds_room_handle sh' = ds_room_handle sh \<Longrightarrow> ds_identity sh' = ds_identity sh \<Longrightarrow> ds_device_id sh' = ds_device_id sh \<Longrightarrow>
     delivery_sound l tree sh' m"
  by (simp add: delivery_sound_def)

lemma envelope_inbound:
  "m \<in> set (ds_inbound (take_envelope k env sh)) \<Longrightarrow> m \<in> set (ds_inbound sh) \<or> message_peer_id (en_msg env) = en_from env \<and>
     deliverable (ds_device_id sh) k env m"
  by (cases "en_msg env") (auto simp: take_envelope_def Let_def push_inbound_def recompute_compat_def split: if_splits)

lemma event_sound:
  assumes "all_sound l tree identity room me sh" shows "all_sound l tree identity room me (take_event l tree ev sh)"
proof -
  have "delivery_sound l tree sh m" if m: "m \<in> set (ds_inbound (take_event l tree ev sh))" for m
  proof (cases "m \<in> set (ds_inbound sh)")
    case False
    then obtain env where "accepts l sh ev" "Option.bind (tree (ne_content ev)) envelope_of_json = Some env"
      "m \<in> set (ds_inbound (take_envelope (ne_kind ev) env (remember_event (ne_id ev) sh)))"
      using m by (auto simp: take_event_eq split: if_splits option.splits)
    with envelope_inbound [OF this(3)] False show ?thesis unfolding delivery_sound_def accepts_def by auto
  qed (use assms in \<open>simp add: all_sound_def\<close>)
  then have "delivery_sound l tree (take_event l tree ev sh) m" if "m \<in> set (ds_inbound (take_event l tree ev sh))" for m
    using that by (blast intro: sound_keep take_event_parts)
  with assms show ?thesis by (simp add: all_sound_def)
qed

interpretation shared_bounds: shared_invariant l tree shared_ok for l tree
  by unfold_locales (use event_ok in blast, auto simp: shared_ok_def intro: caps_keep)

interpretation shared_sound: shared_invariant l tree "all_sound l tree identity room me" for l tree identity room me
  by unfold_locales (use event_sound in blast, auto simp: all_sound_def intro: sound_keep)

lemma start_shared:
  "shared_ok (nd_shared (start_driver l cfg identity))"
  "all_sound l tree identity (derive_room_handle l (nc_app_id cfg) (nc_network_id cfg)) (nc_device_id cfg) (nd_shared (start_driver l cfg identity))"
  by (simp_all add: start_driver_def shared_ok_def caps_ok_def all_sound_def)

text \<open>
  C21: A relay cannot put words into a peer's mouth. Whatever relays send and whatever happens, every message a driver hands to its engine
  comes from an event of its own room, signed by another key, whose envelope and payload name the same sender: presence from the stored
  kind, departures and negotiation only live, negotiation only when addressed to this device, and never this device itself.
\<close>

theorem driver_inbound_authentic:
  assumes "m \<in> set (ds_inbound (nd_shared (fold (drive l tree) es (start_driver l cfg identity))))"
  shows "\<exists>ev env. verify_event l ev \<and> in_room (derive_room_handle l (nc_app_id cfg) (nc_network_id cfg)) ev \<and> ne_pubkey ev \<noteq> ni_pubkey_hex identity \<and>
     Option.bind (tree (ne_content ev)) envelope_of_json = Some env \<and> message_peer_id (en_msg env) = en_from env \<and>
     deliverable (nc_device_id cfg) (ne_kind ev) env m"
proof -
  note s = shared_sound.run_keeps [OF start_shared(2) [of l tree identity cfg], of es]
  with assms have "delivery_sound l tree (nd_shared (fold (drive l tree) es (start_driver l cfg identity))) m" by (simp add: all_sound_def)
  with s show ?thesis unfolding delivery_sound_def all_sound_def by simp
qed

section \<open>Samples\<close>

text \<open>Alice offers to Bob: the event, and libraries that know its frames.\<close>

definition sample_offer_event :: nostr_event where
  "sample_offer_event = \<lparr>ne_id = ''e'', ne_pubkey = ''ka'', ne_created_at = 100, ne_kind = SIGNALING_EPHEMERAL_KIND,
     ne_tags = [[''r'', ''e''], [''p'', ''b'']], ne_content = ''C'', ne_sig = ''s''\<rparr>"

definition sample_lib :: nostr_lib where
  "sample_lib =
     \<lparr>nl_parse = (\<lambda>t. if t = ''P'' then Some (publish_frame sample_offer_event)
                      else if t = ''F'' then Some (event_frame SUB_ID (event_json sample_offer_event)) else None),
      nl_render = (\<lambda>v. if v = publish_frame sample_offer_event then ''P''
                       else if v = event_frame SUB_ID (event_json sample_offer_event) then ''F'' else ''C''),
      nl_sha256 = (\<lambda>_. ''e''), nl_hex = (\<lambda>b. b), nl_unhex = Some, nl_xonly = (\<lambda>_. True),
      nl_signature = (\<lambda>_. True), nl_schnorr = (\<lambda>_ _ _. True), nl_sign = (\<lambda>_ _. ''s'')\<rparr>"

definition sample_tree :: "string \<Rightarrow> json option" where
  "sample_tree t = (if t = ''C'' then Some (sig_envelope_json (outbound_envelope ''a'' (OutDirected ''b'' (MsgOffer ''a'' ''o'' ''sdp'')))) else None)"

definition sample_cfg :: "string \<Rightarrow> nostr_driver_config" where
  "sample_cfg device = \<lparr>nc_app_id = ''app'', nc_network_id = ''home'', nc_device_id = device, nc_servers = [''wss://relay''], nc_denylist = [],
     nc_redundancy = 1, nc_public_fallback = True, nc_announce = True\<rparr>"

definition driver_key :: "string \<Rightarrow> nostr_identity" where
  "driver_key k = \<lparr>ni_keypair = k, ni_pubkey_hex = k\<rparr>"

definition sample_alice :: nostr_driver where "sample_alice = start_driver sample_lib (sample_cfg ''a'') (driver_key ''ka'')"
definition sample_bob :: nostr_driver where "sample_bob = start_driver sample_lib (sample_cfg ''b'') (driver_key ''kb'')"

definition sample_relay :: hub where
  "sample_relay =
     handle_req 2 ([JStr ''REQ'', JStr SUB_ID] @ desired_filters (nd_shared sample_bob) 50 False)
       (snd (register ''ip2'' 0 (snd (register ''ip1'' 0 (new_hub default_limits (driver_key ''r''))))))"

lemma sample_relay_value:
  "map_option ce_subs (fmlookup (hb_conns sample_relay) 2) = Some (fmupd SUB_ID (desired_filters (nd_shared sample_bob) 50 False) fmempty)"
  "fst (take_token 1 False 5 sample_relay)" "hb_limits sample_relay = default_limits"
  by code_simp+

lemma sample_offer: "outbound_event sample_lib (nd_shared sample_alice) 100 (outbound_msg ''a'' (SendOffer ''b'' ''o'' ''sdp'')) = sample_offer_event"
  by code_simp

lemma sample_texts:
  "nl_parse sample_lib (nl_render sample_lib (publish_frame sample_offer_event)) = Some (publish_frame sample_offer_event)"
  "nl_render sample_lib (publish_frame sample_offer_event) = ''P''"
  "nl_parse sample_lib (nl_render sample_lib (event_frame SUB_ID (event_json sample_offer_event))) = Some (event_frame SUB_ID (event_json sample_offer_event))"
  by (simp_all add: sample_lib_def publish_frame_def event_frame_def)

lemma sample_drivers [simp]:
  "ds_identity (nd_shared sample_alice) = driver_key ''ka''" "ds_identity (nd_shared sample_bob) = driver_key ''kb''"
  "ds_device_id (nd_shared sample_alice) = ''a''" "ds_device_id (nd_shared sample_bob) = ''b''"
  "ds_room_handle (nd_shared sample_alice) = ''e''" "ds_room_handle (nd_shared sample_bob) = ''e''"
  "ds_seen_event_ids (nd_shared sample_bob) = []" "ds_inbound (nd_shared sample_bob) = []"
  by (simp_all add: sample_alice_def sample_bob_def start_driver_def sample_cfg_def derive_room_handle_def sample_lib_def)

lemma sample_lib_documented: "nostr_documented sample_lib (driver_key k)"
  by (simp add: nostr_documented_def sample_lib_def)

theorem signaling_over_relay_witness:
  "\<exists>c' b'. fmlookup (hb_conns (conn_frame sample_lib 5 0 1 ''P'' sample_relay)) 2 = Some c' \<and>
     event_frame SUB_ID (event_json sample_offer_event) \<in> set (ce_out c') \<and>
     nostr_inbound_frame sample_lib sample_tree (nl_render sample_lib (event_frame SUB_ID (event_json sample_offer_event))) (nd_shared sample_bob) = b' \<and>
     map (translate_inbound sample_crypto) (ds_inbound b') = [Some (SigOffer ''a'' ''o'' ''sdp'')]"
proof -
  obtain cb where cb: "fmlookup (hb_conns sample_relay) 2 = Some cb" "ce_subs cb = fmupd SUB_ID (desired_filters (nd_shared sample_bob) 50 False) fmempty"
    using sample_relay_value(1) by blast
  let ?m = "SendOffer ''b'' ''o'' ''sdp''"
  have keys: "nostr_documented sample_lib (ds_identity (nd_shared sample_alice))"
    "ni_pubkey_hex (ds_identity (nd_shared sample_alice)) \<noteq> ni_pubkey_hex (ds_identity (nd_shared sample_bob))"
    by (simp add: sample_lib_documented, simp add: driver_key_def)
  have ids: "''a'' = ds_device_id (nd_shared sample_alice)" "''a'' \<noteq> ds_device_id (nd_shared sample_bob)"
    "ds_room_handle (nd_shared sample_alice) = ds_room_handle (nd_shared sample_bob)"
    "\<forall>to. addressee ?m = Some to \<longrightarrow> to \<noteq> ds_room_handle (nd_shared sample_bob)"
    "ne_id sample_offer_event \<notin> set (ds_seen_event_ids (nd_shared sample_bob))" "unat (50 :: u64) \<le> unat (100 :: u64) + 120" "(2 :: nat) \<noteq> 1" by simp_all
  have tree: "sample_tree (ne_content sample_offer_event) = Some (sig_envelope_json (outbound_envelope ''a'' (outbound_msg ''a'' ?m)))"
    by (simp add: sample_tree_def sample_offer_event_def)
  have size: "lm_max_message_bytes (hb_limits sample_relay) = 0 \<or>
      of_nat (length (nl_render sample_lib (publish_frame sample_offer_event))) \<le> lm_max_message_bytes (hb_limits sample_relay)"
    by (simp add: sample_relay_value(3) sample_texts(2) default_limits_def)
  from signaling_over_relay [where tree = sample_tree and t = 0, OF keys ids(1,2) sample_canonical ids(3,4) sample_offer [symmetric] ids(5-7) cb sample_relay_value(2) size sample_texts(1,3) tree]
  show ?thesis unfolding sample_texts(2) by auto
qed

definition sample_reception :: "driver_event list" where
  "sample_reception = [Dialed 0 0 0 None (None, None), Turn 0 1 0 (ReadText ''F'')]"

theorem driver_inbound_authentic_witness:
  "\<exists>ev env. verify_event sample_lib ev \<and> in_room (derive_room_handle sample_lib ''app'' ''home'') ev \<and>
     Option.bind (sample_tree (ne_content ev)) envelope_of_json = Some env \<and>
     deliverable ''b'' (ne_kind ev) env (InMessage ''a'' (MsgOffer ''a'' ''o'' ''sdp''))"
proof -
  have "ds_inbound (nd_shared (fold (drive sample_lib sample_tree) sample_reception (start_driver sample_lib (sample_cfg ''b'') (driver_key ''kb'')))) =
      [InMessage ''a'' (MsgOffer ''a'' ''o'' ''sdp'')]" by code_simp
  then have "InMessage ''a'' (MsgOffer ''a'' ''o'' ''sdp'') \<in>
      set (ds_inbound (nd_shared (fold (drive sample_lib sample_tree) sample_reception (start_driver sample_lib (sample_cfg ''b'') (driver_key ''kb'')))))" by simp
  from driver_inbound_authentic [OF this] show ?thesis by (fastforce simp: sample_cfg_def)
qed

end
