(* ===== verification/Nostr_Pacing.thy ===== *)
theory Nostr_Pacing
  imports Nostr_Driver
begin

text \<open>
  What the relay tasks of a driver (theory \<open>Nostr_Driver\<close>) do over time: when they use public relays, what they keep while no relay is
  connected, and how often they dial and announce.
\<close>

section \<open>The public relays\<close>

definition admitted :: "relay_session \<Rightarrow> nat" where
  "admitted s = (if rs_admitted_at s = None then 0 else 1)"

definition live_task :: "relay_task \<Rightarrow> nat" where
  "live_task t = (case rt_phase t of Connected s \<Rightarrow> if rt_primary t then admitted s else 0 | _ \<Rightarrow> 0)"

text \<open>Admitted sessions with primary relays, and the bookkeeping of the driver.\<close>

definition live_sessions :: "relay_task list \<Rightarrow> nat" where
  "live_sessions tasks = sum_list (map live_task tasks)"

definition queue_bounded :: "relay_task \<Rightarrow> bool" where
  "queue_bounded t \<longleftrightarrow> (case rt_phase t of Connected s \<Rightarrow> length (rs_queue s) \<le> bus_capacity | _ \<Rightarrow> True)"

definition tasks_ok :: "nostr_driver \<Rightarrow> bool" where
  "tasks_ok d \<longleftrightarrow> nd_primary_live d = live_sessions (nd_tasks d) \<and> (\<forall>t \<in> set (nd_tasks d). queue_bounded t) \<and>
     (\<forall>i < length (nd_tasks d). rt_primary (nd_tasks d ! i) \<or> rt_cancel (nd_tasks d ! i) \<or> i \<in> set (nd_active d))"

lemma bus_push_parts [simp]: "admitted (bus_push ev s) = admitted s" "length (rs_queue s) \<le> bus_capacity \<Longrightarrow> length (rs_queue (bus_push ev s)) \<le> bus_capacity"
  by (auto simp: bus_push_def admitted_def bus_capacity_def)

lemma live_publish [simp]: "live_sessions (publish ev tasks) = live_sessions tasks"
proof -
  have "live_task (t\<lparr>rt_phase := in_session (bus_push ev) (rt_phase t)\<rparr>) = live_task t" for t
    by (cases "rt_phase t") (simp_all add: live_task_def)
  then show ?thesis by (simp add: live_sessions_def publish_def comp_def)
qed

lemma publish_tasks [simp]:
  "length (publish ev tasks) = length tasks" "i < length tasks \<Longrightarrow> rt_primary (publish ev tasks ! i) = rt_primary (tasks ! i)"
  "i < length tasks \<Longrightarrow> rt_cancel (publish ev tasks ! i) = rt_cancel (tasks ! i)"
  by (simp_all add: publish_def)

lemma publish_bounded: "\<forall>t \<in> set tasks. queue_bounded t \<Longrightarrow> \<forall>t \<in> set (publish ev tasks). queue_bounded t"
  by (auto simp: publish_def queue_bounded_def split: task_phase.split elim!: in_session.elims)

definition like :: "relay_task list \<Rightarrow> relay_task list \<Rightarrow> bool" where
  "like ts ts' \<longleftrightarrow> length ts' = length ts \<and> live_sessions ts' = live_sessions ts \<and>
     (\<forall>i < length ts. rt_primary (ts' ! i) = rt_primary (ts ! i) \<and> (rt_cancel (ts ! i) \<longrightarrow> rt_cancel (ts' ! i))) \<and>
     ((\<forall>t \<in> set ts. queue_bounded t) \<longrightarrow> (\<forall>t \<in> set ts'. queue_bounded t))"

lemma like_refl [simp]: "like ts ts"
  by (simp add: like_def)

lemma like_trans: "like ts ts' \<Longrightarrow> like ts' ts'' \<Longrightarrow> like ts ts''"
  by (simp add: like_def)

lemma like_publish: "like ts (publish ev ts)"
  using publish_bounded by (auto simp: like_def)

lemma like_publishes: "like ts (fold publish evs ts)"
  by (induction evs arbitrary: ts) (auto intro: like_trans [OF like_publish])

lemma live_update:
  assumes "i < length ts" shows "live_sessions (ts[i := t]) + live_task (ts ! i) = live_sessions ts + live_task t"
proof -
  have "live_task (ts ! i) \<le> live_sessions ts" unfolding live_sessions_def using assms by (intro member_le_sum_list) auto
  then show ?thesis using assms by (simp add: live_sessions_def map_update sum_list_update)
qed

lemma like_update:
  assumes "i < length ts" "live_task t = live_task (ts ! i)" "rt_primary t = rt_primary (ts ! i)" "rt_cancel (ts ! i) \<longrightarrow> rt_cancel t"
    and "queue_bounded (ts ! i) \<longrightarrow> queue_bounded t"
  shows "like ts (ts[i := t])"
  using assms live_update [OF assms(1), of t] nth_mem [OF assms(1)] by (auto simp: like_def nth_list_update dest!: set_update_subset_insert [THEN subsetD])

lemma like_ok:
  "tasks_ok d \<Longrightarrow> like (nd_tasks d) (nd_tasks d') \<Longrightarrow> nd_primary_live d' = nd_primary_live d \<Longrightarrow> nd_active d' = nd_active d \<Longrightarrow> tasks_ok d'"
  by (auto simp: tasks_ok_def like_def)

lemma session_over_parts [simp]:
  "rt_primary (session_over l sh out lasted t) = rt_primary t" "rt_cancel (session_over l sh out lasted t) = rt_cancel t"
  "live_task (session_over l sh out lasted t) = 0" "queue_bounded (session_over l sh out lasted t)"
  by (cases out; simp add: back_off_def live_task_def queue_bounded_def case_prod_beta Let_def)+

lemma back_off_parts [simp]:
  "rt_primary (back_off l sh t) = rt_primary t" "rt_cancel (back_off l sh t) = rt_cancel t"
  "live_task (back_off l sh t) = 0" "queue_bounded (back_off l sh t)"
  by (simp_all add: back_off_def live_task_def queue_bounded_def case_prod_beta Let_def)

lemma open_like:
  assumes "i < length (nd_tasks d)" "rt_phase (nd_tasks d ! i) = Dialing"
  shows "like (nd_tasks d) (nd_tasks (open_session l now secs wrote i d))"
proof -
  let ?t = "nd_tasks d ! i"
  have idle: "live_task ?t = 0" using assms(2) by (simp add: live_task_def)
  have over: "like ts (ts[i := session_over l sh out lasted (ts ! i)])" if "i < length ts" "live_task (ts ! i) = 0" for ts sh out lasted
    by (rule like_update) (use that in simp_all)
  define ts where "ts = opened_tasks now secs i d"
  have "like (nd_tasks d) ((nd_tasks d)[i := ?t\<lparr>rt_phase := Connected (new_session (nd_shared d) secs)\<rparr>])"
    by (rule like_update) (use assms(1) idle in \<open>simp_all add: live_task_def admitted_def queue_bounded_def new_session_def\<close>)
  then have opened: "like (nd_tasks d) ts" unfolding ts_def opened_tasks_def by (rule like_trans) (rule like_publishes)
  have "live_task (fold publish evs us ! i) = live_task (us ! i)" if "i < length us" for evs us
    using that
  proof (induction evs arbitrary: us)
    case (Cons ev evs)
    have "live_task (publish ev us ! i) = live_task (us ! i)" using Cons.prems
      by (cases "rt_phase (us ! i)") (simp_all add: publish_def live_task_def)
    with Cons show ?case by simp
  qed simp
  then have still: "live_task (ts ! i) = 0" using assms(1) by (simp add: ts_def opened_tasks_def live_task_def admitted_def new_session_def)
  have len: "i < length ts" using opened assms(1) by (simp add: like_def)
  have "like ts (ts[i := (ts ! i)\<lparr>rt_phase := in_session (\<lambda>s. s\<lparr>rs_written := w s\<rparr>) (rt_phase (ts ! i))\<rparr>])" for w
    by (rule like_update) (use len in \<open>cases "rt_phase (ts ! i)"; simp add: live_task_def admitted_def queue_bounded_def\<close>)+
  with opened have "like (nd_tasks d) (ts[i := (ts ! i)\<lparr>rt_phase := in_session (\<lambda>s. s\<lparr>rs_written := w s\<rparr>) (rt_phase (ts ! i))\<rparr>])" for w
    by (rule like_trans)
  moreover note like_trans [OF opened over [OF len still]] over [OF assms(1) idle]
  ultimately show ?thesis using opened
    by (simp add: open_session_def Let_def set_task_def ts_def [symmetric] del: session_over.simps split: option.split)
qed

text \<open>A session and the counter move together.\<close>

definition counted_live :: "bool \<Rightarrow> session_state \<Rightarrow> session_state \<Rightarrow> bool" where
  "counted_live primary x x' \<longleftrightarrow> st_live x' + (if primary then admitted (st_session x) else 0) = st_live x + (if primary then admitted (st_session x') else 0) \<and>
     length (rs_queue (st_session x')) \<le> length (rs_queue (st_session x))"

lemma counted_same:
  "st_live x' = st_live x \<Longrightarrow> rs_admitted_at (st_session x') = rs_admitted_at (st_session x) \<Longrightarrow>
     length (rs_queue (st_session x')) \<le> length (rs_queue (st_session x)) \<Longrightarrow> counted_live primary x x'"
  by (simp add: counted_live_def admitted_def)

lemma settle_counted: "counted_live primary x (settle_stable now x)"
  by (simp add: counted_live_def settle_stable_def Let_def admitted_def)

lemma select_counted: "counted_live primary x (snd (session_select l tree now secs primary inp x))"
proof -
  have "counted_live primary x (snd (read_frame l tree now primary t x))" for t
    by (auto simp: counted_live_def read_frame_def admit_session_def Let_def admitted_def split: relay_control.split)
  then show ?thesis
    by (cases inp) (auto simp: Let_def write_session_def intro!: counted_same split: list.split option.split)
qed

lemma counted_trans: "counted_live p x x' \<Longrightarrow> counted_live p x' x'' \<Longrightarrow> counted_live p x x''"
  by (auto simp: counted_live_def)

text \<open>A turn replaces one task.\<close>

definition turn_result ::
  "nostr_lib \<Rightarrow> (string \<Rightarrow> json option) \<Rightarrow> u64 \<Rightarrow> u64 \<Rightarrow> session_input \<Rightarrow> nat \<Rightarrow> relay_session \<Rightarrow> nostr_driver \<Rightarrow> session_outcome option \<times> session_state" where
  "turn_result l tree now secs inp i s d =
     (let t = nd_tasks d ! i;
          x = settle_stable now \<lparr>st_shared = nd_shared d, st_live = nd_primary_live d, st_retry = rt_retry t, st_session = s\<rparr>
      in if rt_cancel t then (Some Cancelled, x) else session_select l tree now secs (rt_primary t) inp x)"

lemma turn_parts:
  assumes "turn_result l tree now secs inp i s d = (out, x)" "t1 = (nd_tasks d ! i)\<lparr>rt_retry := st_retry x\<rparr>"
  shows "nd_tasks (session_turn l tree now secs inp i s d) =
       (nd_tasks d)[i := case out of None \<Rightarrow> t1\<lparr>rt_phase := Connected (st_session x)\<rparr>
         | Some e \<Rightarrow> session_over l (st_shared x) e (rs_stable (st_session x)) t1]"
    "nd_active (session_turn l tree now secs inp i s d) = nd_active d" "nd_down_since (session_turn l tree now secs inp i s d) = nd_down_since d"
    "nd_primary_live (session_turn l tree now secs inp i s d) =
       (case out of None \<Rightarrow> st_live x | Some e \<Rightarrow> st_live x - (if rt_primary (nd_tasks d ! i) then admitted (st_session x) else 0))"
  using assms(1) unfolding turn_result_def Let_def assms(2)
  by (simp_all add: session_turn_def Let_def set_task_def admitted_def split: option.split)

lemma turn_ok:
  assumes "tasks_ok d" "i < length (nd_tasks d)" "rt_phase (nd_tasks d ! i) = Connected s"
  shows "tasks_ok (session_turn l tree now secs inp i s d)"
proof -
  let ?t = "nd_tasks d ! i"
  define x0 where "x0 = \<lparr>st_shared = nd_shared d, st_live = nd_primary_live d, st_retry = rt_retry ?t, st_session = s\<rparr>"
  obtain out x where r_eq: "turn_result l tree now secs inp i s d = (out, x)" by (cases "turn_result l tree now secs inp i s d")
  have "counted_live (rt_primary ?t) x0 (snd (turn_result l tree now secs inp i s d))"
    using settle_counted counted_trans [OF settle_counted select_counted] by (simp add: turn_result_def Let_def x0_def)
  then have x: "counted_live (rt_primary ?t) x0 x" by (simp add: r_eq)
  have q: "length (rs_queue s) \<le> bus_capacity" using assms nth_mem [OF assms(2)] unfolding tasks_ok_def queue_bounded_def by fastforce
  then have q1: "length (rs_queue (st_session x)) \<le> bus_capacity" using x by (simp add: counted_live_def x0_def)
  have lt: "live_task ?t = (if rt_primary ?t then admitted s else 0)" using assms(3) by (simp add: live_task_def)
  let ?t1 = "?t\<lparr>rt_retry := st_retry x\<rparr>"
  let ?u = "case out of None \<Rightarrow> ?t1\<lparr>rt_phase := Connected (st_session x)\<rparr> | Some e \<Rightarrow> session_over l (st_shared x) e (rs_stable (st_session x)) ?t1"
  let ?d = "session_turn l tree now secs inp i s d"
  note parts = turn_parts [OF r_eq refl]
  have "nd_primary_live ?d = live_sessions (nd_tasks ?d)"
    using live_update [OF assms(2), of ?u] x lt assms(1) unfolding parts
    by (auto simp: tasks_ok_def counted_live_def x0_def live_task_def [of "?t1\<lparr>rt_phase := Connected (st_session x)\<rparr>"] split: option.splits if_splits)
  moreover have "queue_bounded ?u" using q1 by (cases out) (simp_all add: queue_bounded_def [of "?t1\<lparr>rt_phase := Connected (st_session x)\<rparr>"])
  moreover have "rt_primary ?u = rt_primary ?t" "rt_cancel ?u = rt_cancel ?t" by (simp_all split: option.split)
  ultimately show ?thesis using assms(1,2) unfolding tasks_ok_def parts(1,2)
    by (auto simp: nth_list_update dest!: set_update_subset_insert [THEN subsetD])
qed

lemma live_fields [simp]: "live_task (t\<lparr>rt_cancel := c\<rparr>) = live_task t" "live_task (t\<lparr>rt_retry := r\<rparr>) = live_task t"
  "queue_bounded (t\<lparr>rt_cancel := c\<rparr>) = queue_bounded t" "queue_bounded (t\<lparr>rt_retry := r\<rparr>) = queue_bounded t"
  by (cases "rt_phase t"; simp add: live_task_def queue_bounded_def)+

lemma like_cancel: "like ts (ts[i := (ts ! i)\<lparr>rt_cancel := True\<rparr>])"
  by (cases "i < length ts") (simp_all add: like_update list_update_beyond)

lemma cancel_like: "like ts (cancel_tasks is ts)"
  unfolding cancel_tasks_def by (induction "is" arbitrary: ts) (auto intro: like_trans [OF like_cancel])

lemma cancel_cancels: "i \<in> set is \<Longrightarrow> i < length ts \<Longrightarrow> rt_cancel (cancel_tasks is ts ! i)"
proof (induction "is" arbitrary: ts)
  case (Cons j js)
  have step: "cancel_tasks (j # js) ts = cancel_tasks js (ts[j := (ts ! j)\<lparr>rt_cancel := True\<rparr>])" by (simp add: cancel_tasks_def)
  show ?case
  proof (cases "i = j")
    case True
    then show ?thesis using cancel_like [of "ts[j := (ts ! j)\<lparr>rt_cancel := True\<rparr>]" js] Cons.prems(2) unfolding step like_def by auto
  qed (use Cons step in auto)
qed simp

lemma stop_like: "like ts (map (\<lambda>t. if rt_primary t then t\<lparr>rt_cancel := True\<rparr> else t) ts)"
proof -
  have "live_task (if rt_primary t then t\<lparr>rt_cancel := True\<rparr> else t) = live_task t" for t by simp
  then have "live_sessions (map (\<lambda>t. if rt_primary t then t\<lparr>rt_cancel := True\<rparr> else t) ts) = live_sessions ts"
    by (simp add: live_sessions_def comp_def)
  then show ?thesis by (auto simp: like_def)
qed

lemma poll_ok: assumes "tasks_ok d" shows "tasks_ok (fallback_poll now d)"
proof -
  have new: "live_task (new_task False u) = 0" "queue_bounded (new_task False u)" for u
    by (simp_all add: live_task_def new_task_def queue_bounded_def)
  have act: "tasks_ok (d\<lparr>nd_down_since := t, nd_tasks := nd_tasks d @ map (new_task False) us,
      nd_active := [length (nd_tasks d)..<length (nd_tasks d) + length us]\<rparr>)" if "nd_active d = []" for us t
    using assms that new by (auto simp: tasks_ok_def live_sessions_def nth_append comp_def)
  have cancel: "tasks_ok (d\<lparr>nd_down_since := t, nd_tasks := cancel_tasks (nd_active d) (nd_tasks d), nd_active := []\<rparr>)" for t
    using assms cancel_like [of "nd_tasks d" "nd_active d"] cancel_cancels [of _ "nd_active d" "nd_tasks d"]
    unfolding tasks_ok_def like_def by auto
  have same: "tasks_ok (d\<lparr>nd_down_since := t\<rparr>)" "tasks_ok (d\<lparr>nd_tasks := cancel_tasks (nd_active d) (nd_tasks d)\<rparr>)" for t
    using like_ok [OF assms] cancel_like by simp_all
  show ?thesis using act cancel same
    by (auto simp: fallback_poll_def Let_def fallback_action_def split: fallback_action_kind.splits if_splits)
qed

lemma drive_ok: assumes "tasks_ok d" shows "tasks_ok (drive l tree e d)"
proof (cases e)
  case (Dialed i now secs err wrote)
  have set: "like (nd_tasks d) ((nd_tasks d)[i := t])" if "i < length (nd_tasks d)" "rt_phase (nd_tasks d ! i) = Dialing"
    "live_task t = 0" "queue_bounded t" "rt_primary t = rt_primary (nd_tasks d ! i)" "rt_cancel t = rt_cancel (nd_tasks d ! i)" for t
    by (rule like_update) (use that in \<open>simp_all add: live_task_def [of "nd_tasks d ! i"]\<close>)
  have "like (nd_tasks d) (nd_tasks (dialed l i now secs err wrote d))" if "i < length (nd_tasks d)"
    using that open_like [OF that] set
    by (simp add: dialed_def Let_def set_task_def live_task_def [of "_\<lparr>rt_phase := TaskOver\<rparr>"] queue_bounded_def [of "_\<lparr>rt_phase := TaskOver\<rparr>"] split: option.split)
  then show ?thesis using Dialed assms like_ok [OF assms, of "dialed l i now secs err wrote d"]
    by (simp add: dialed_def open_session_def Let_def set_task_def split: option.splits)
next
  case (WaitOver i forced)
  have "like (nd_tasks d) ((nd_tasks d)[i := t])" if "i < length (nd_tasks d)" "rt_phase (nd_tasks d ! i) = Waiting w"
    "live_task t = 0" "queue_bounded t" "rt_primary t = rt_primary (nd_tasks d ! i)" "rt_cancel t = rt_cancel (nd_tasks d ! i)" for t w
    by (rule like_update) (use that in \<open>simp_all add: live_task_def [of "nd_tasks d ! i"]\<close>)
  then have "like (nd_tasks d) (nd_tasks (wait_over i forced d))" if "i < length (nd_tasks d)"
    using that by (auto simp: wait_over_def Let_def set_task_def live_task_def queue_bounded_def split: task_phase.split)
  with WaitOver assms show ?thesis using like_ok [OF assms, of "wait_over i forced d"]
    by (simp add: wait_over_def Let_def set_task_def split: task_phase.splits)
next
  case (Pumped now secs out)
  with assms show ?thesis using like_ok [OF assms] like_publish by (simp add: pump_outbound_def Let_def)
next
  case (AnnounceTick secs)
  with assms show ?thesis using like_ok [OF assms] like_publish by (simp add: announce_tick_def)
qed (use assms poll_ok turn_ok like_ok [OF assms] stop_like in \<open>simp_all split: task_phase.split\<close>)

lemma start_ok: "tasks_ok (start_driver l cfg identity)"
  by (auto simp: tasks_ok_def start_driver_def live_sessions_def comp_def live_task_def new_task_def queue_bounded_def)

lemma run_ok: "tasks_ok d \<Longrightarrow> tasks_ok (fold (drive l tree) es d)"
  by (induction es arbitrary: d) (simp_all add: drive_ok)

text \<open>The samples the supervisor took in a run: the time and how many primary sessions were live.\<close>

definition samples :: "driver_event \<Rightarrow> nostr_driver \<Rightarrow> (u64 \<times> nat) list" where
  "samples e d = (case e of FallbackPoll now \<Rightarrow> if nd_stopped d \<or> nd_fallback_urls d = [] then [] else [(now, live_sessions (nd_tasks d))] | _ \<Rightarrow> [])"

fun run_samples :: "nostr_lib \<Rightarrow> (string \<Rightarrow> json option) \<Rightarrow> driver_event list \<Rightarrow> nostr_driver \<Rightarrow> (u64 \<times> nat) list" where
  "run_samples l tree [] d = []"
| "run_samples l tree (e # es) d = samples e d @ run_samples l tree es (drive l tree e d)"

definition down_from :: "(u64 \<times> nat) list \<Rightarrow> u64 \<Rightarrow> (u64 \<times> nat) list \<Rightarrow> bool" where
  "down_from ps t rs \<longleftrightarrow> (\<exists>qs. ps = qs @ (t, 0) # rs) \<and> (\<forall>x \<in> set rs. snd x = 0)"

definition outage :: "(u64 \<times> nat) list \<Rightarrow> nostr_driver \<Rightarrow> bool" where
  "outage ps d \<longleftrightarrow> (\<forall>t. nd_down_since d = Some t \<longrightarrow> (\<exists>rs. down_from ps t rs)) \<and>
     (nd_active d \<noteq> [] \<longrightarrow>
        (\<exists>t rs t1. nd_down_since d = Some t \<and> down_from ps t rs \<and> t1 \<in> fst ` set rs \<and> FALLBACK_ACTIVATION_GRACE_MS \<le> duration_since t1 t))"

lemma dial_leaves:
  "nd_active (dialed l i now secs err wrote d) = nd_active d" "nd_down_since (dialed l i now secs err wrote d) = nd_down_since d"
  "nd_active (wait_over i forced d) = nd_active d" "nd_down_since (wait_over i forced d) = nd_down_since d"
  by (simp_all add: dialed_def open_session_def wait_over_def Let_def set_task_def split: option.split task_phase.split)

lemma other_events:
  "samples e d = [] \<Longrightarrow> nd_active (drive l tree e d) = nd_active d \<and> nd_down_since (drive l tree e d) = nd_down_since d"
  by (cases e) (auto simp: samples_def turn_parts(2,3) [OF surjective_pairing refl] dial_leaves pump_outbound_def announce_tick_def fallback_poll_def Let_def
      split: task_phase.split if_splits)

lemma down_snoc: "down_from ps t rs \<Longrightarrow> down_from (ps @ [(now, 0)]) t (rs @ [(now, 0)])"
  by (auto simp: down_from_def)

lemma poll_outage:
  assumes "outage ps d" "tasks_ok d" "\<not> nd_stopped d" "nd_fallback_urls d \<noteq> []"
  shows "outage (ps @ [(now, live_sessions (nd_tasks d))]) (fallback_poll now d)"
proof (cases "live_sessions (nd_tasks d) = 0")
  case False
  then have "nd_down_since (fallback_poll now d) = None" "nd_active (fallback_poll now d) = []"
    using assms(1-3) by (auto simp: fallback_poll_def Let_def fallback_action_def tasks_ok_def outage_def split: fallback_action_kind.split)
  then show ?thesis by (simp add: outage_def)
next
  case True
  define t where "t = (case nd_down_since d of None \<Rightarrow> now | Some t \<Rightarrow> t)"
  have since: "nd_down_since (fallback_poll now d) = Some t"
    using True assms(2,3) by (simp add: fallback_poll_def Let_def tasks_ok_def t_def split: fallback_action_kind.split)
  have down: "\<exists>rs. down_from (ps @ [(now, 0)]) t rs \<and> (t \<noteq> now \<longrightarrow> now \<in> fst ` set rs)"
  proof (cases "nd_down_since d")
    case None
    then show ?thesis by (intro exI [of _ "[]"]) (simp add: t_def down_from_def)
  next
    case (Some t0)
    with assms(1) obtain rs where "down_from ps t0 rs" by (auto simp: outage_def)
    then have "down_from (ps @ [(now, 0)]) t (rs @ [(now, 0)])" using Some down_snoc by (simp add: t_def)
    then show ?thesis by (intro exI [of _ "rs @ [(now, 0)]"]) simp
  qed
  show ?thesis
  proof (cases "nd_active d = []")
    case new: True
    have grace: "FALLBACK_ACTIVATION_GRACE_MS \<le> duration_since now t" if "nd_active (fallback_poll now d) \<noteq> []"
      using that new True assms(2,3)
      by (auto simp: fallback_poll_def Let_def fallback_action_def tasks_ok_def t_def split: fallback_action_kind.splits if_splits)
    then have "t \<noteq> now" if "nd_active (fallback_poll now d) \<noteq> []"
      using that by (auto simp: duration_since_def FALLBACK_ACTIVATION_GRACE_MS_def)
    with grace since down True show ?thesis unfolding outage_def by auto
  next
    case False
    with assms(1) obtain t0 rs t1 where o: "nd_down_since d = Some t0" "down_from ps t0 rs" "t1 \<in> fst ` set rs"
      "FALLBACK_ACTIVATION_GRACE_MS \<le> duration_since t1 t0" by (auto simp: outage_def)
    then have "t = t0" by (simp add: t_def)
    with o down_snoc [OF o(2), of now] have "\<exists>rs t1. down_from (ps @ [(now, 0)]) t rs \<and> t1 \<in> fst ` set rs \<and> FALLBACK_ACTIVATION_GRACE_MS \<le> duration_since t1 t"
      by (intro exI [of _ "rs @ [(now, 0)]"] exI [of _ t1]) auto
    with since True show ?thesis unfolding outage_def by auto
  qed
qed

lemma drive_outage:
  assumes "outage ps d" "tasks_ok d" shows "outage (ps @ samples e d) (drive l tree e d)"
proof (cases "samples e d = []")
  case True
  with other_events [OF True, of l tree] assms(1) show ?thesis by (simp add: outage_def)
next
  case False
  then obtain now where "e = FallbackPoll now" "\<not> nd_stopped d" "nd_fallback_urls d \<noteq> []"
    by (auto simp: samples_def split: driver_event.splits if_splits)
  with poll_outage [OF assms, of now] show ?thesis by (simp add: samples_def)
qed

lemma run_outage: "outage ps d \<Longrightarrow> tasks_ok d \<Longrightarrow> outage (ps @ run_samples l tree es d) (fold (drive l tree) es d)"
proof (induction es arbitrary: ps d)
  case (Cons e es)
  from Cons.IH [OF drive_outage [OF Cons.prems, of e l tree] drive_ok [OF Cons.prems(2)]] show ?case by simp
qed simp

text \<open>
  C22: Presence leaks to public relays only in an outage. In any run of a driver, a task for a relay outside the configured ones
  that has not been told to stop exists only if the supervisor has been seeing no admitted session with a configured relay at every
  sample since some time \<open>t\<close>, one of them at least twenty seconds after \<open>t\<close>. The count it goes by is the number of admitted primary sessions.
\<close>

theorem fallback_only_in_outage:
  assumes "d = fold (drive l tree) es (start_driver l cfg identity)" "i < length (nd_tasks d)"
    and "\<not> rt_primary (nd_tasks d ! i)" "\<not> rt_cancel (nd_tasks d ! i)"
  shows "nd_primary_live d = live_sessions (nd_tasks d) \<and>
     (\<exists>qs t rs t1. run_samples l tree es (start_driver l cfg identity) = qs @ (t, 0) # rs \<and> (\<forall>x \<in> set rs. snd x = 0) \<and>
        t1 \<in> fst ` set rs \<and> 20000 \<le> duration_since t1 t)"
proof -
  have ok: "tasks_ok d" unfolding assms(1) by (rule run_ok [OF start_ok])
  then have "nd_active d \<noteq> []" using assms(2-4) by (auto simp: tasks_ok_def)
  moreover have "outage ([] @ run_samples l tree es (start_driver l cfg identity)) d" unfolding assms(1)
    by (rule run_outage [OF _ start_ok]) (simp add: outage_def start_driver_def)
  ultimately obtain t rs t1 where "down_from (run_samples l tree es (start_driver l cfg identity)) t rs" "t1 \<in> fst ` set rs"
    "FALLBACK_ACTIVATION_GRACE_MS \<le> duration_since t1 t" by (auto simp: outage_def)
  with ok show ?thesis unfolding down_from_def FALLBACK_ACTIVATION_GRACE_MS_def tasks_ok_def by blast
qed

section \<open>Negotiation while no relay is connected\<close>

lemma drop_last_snoc: "drop (length (drop (length xs - k) xs @ [x]) - k) (drop (length xs - k) xs @ [x]) = drop (length (xs @ [x]) - k) (xs @ [x])"
  by (cases "k \<le> length xs") (auto simp: drop_Suc tl_drop Suc_diff_le)

lemma outbound_event_buffer [simp]: "outbound_event l (sh\<lparr>ds_outbound_replay := b\<rparr>) secs out = outbound_event l sh secs out"
  by (cases out) (simp_all add: announce_event_def)

text \<open>Emissions with the times at which the pump takes them.\<close>

definition emitted :: "nostr_lib \<Rightarrow> driver_shared \<Rightarrow> (u64 \<times> u64 \<times> driver_outbound) list \<Rightarrow> (u64 \<times> nostr_event) list" where
  "emitted l sh outs = map (\<lambda>(now, secs, out). (now, outbound_event l sh secs out)) outs"

lemma pumps_buffer:
  assumes "receiver_count (nd_tasks d) = 0" "\<not> nd_stopped d" "ds_outbound_replay (nd_shared d) = []" "\<forall>(_, _, out) \<in> set outs. out \<noteq> OutAnnounce"
  shows "fold (\<lambda>(now, secs, out). pump_outbound l now secs out) outs d =
     d\<lparr>nd_shared := (nd_shared d)\<lparr>ds_outbound_replay := drop (length outs - OUTBOUND_REPLAY_CAP) (emitted l (nd_shared d) outs)\<rparr>\<rparr>"
  using assms(4)
proof (induction outs rule: rev_induct)
  case Nil
  show ?case using assms(3) by (simp add: emitted_def)
next
  case (snoc x outs)
  obtain now secs out where x: "x = (now, secs, out)" by (cases x)
  let ?es = "emitted l (nd_shared d) outs" and ?ev = "outbound_event l (nd_shared d) secs out"
  have k: "ne_kind ?ev = SIGNALING_EPHEMERAL_KIND" using snoc.prems x by (simp add: outbound_event_kind)
  have len: "length ?es = length outs" by (simp add: emitted_def)
  have "push_outbound_replay now ?ev (drop (length outs - OUTBOUND_REPLAY_CAP) ?es) = drop (length (outs @ [x]) - OUTBOUND_REPLAY_CAP) (?es @ [(now, ?ev)])"
    unfolding push_outbound_replay_def Let_def using drop_last_snoc [of ?es OUTBOUND_REPLAY_CAP "(now, ?ev)"] len by simp
  then show ?case using snoc x k assms(1,2) by (simp add: pump_outbound_def Let_def emitted_def)
qed

lemma bus_pushes:
  assumes "length (rs_queue s) \<le> bus_capacity"
  shows "rs_queue (fold bus_push evs s) = drop (length (rs_queue s @ evs) - bus_capacity) (rs_queue s @ evs) \<and>
     rs_lagged (fold bus_push evs s) = rs_lagged s + (length (rs_queue s @ evs) - bus_capacity)"
proof (induction evs rule: rev_induct)
  case (snoc ev evs)
  let ?xs = "rs_queue s @ evs" and ?s = "fold bus_push evs s"
  have q: "rs_queue ?s = drop (length ?xs - bus_capacity) ?xs" "length (rs_queue ?s) = min (length ?xs) bus_capacity" using snoc by auto
  have c: "0 < bus_capacity" by (simp add: bus_capacity_def)
  have "rs_queue (bus_push ev ?s) = drop (length (rs_queue ?s @ [ev]) - bus_capacity) (rs_queue ?s @ [ev])"
    using q(2) c by (cases "rs_queue ?s") (auto simp: bus_push_def)
  also have "\<dots> = drop (length (?xs @ [ev]) - bus_capacity) (?xs @ [ev])" unfolding q(1) by (rule drop_last_snoc)
  finally have "rs_queue (bus_push ev ?s) = drop (length (?xs @ [ev]) - bus_capacity) (?xs @ [ev])" .
  moreover have "rs_lagged (bus_push ev ?s) = rs_lagged ?s + (if bus_capacity \<le> length ?xs then 1 else 0)"
    unfolding bus_push_def q(2) by auto
  ultimately show ?case using snoc by (simp add: Suc_diff_le)
qed (use assms in simp)

lemma publishes_at:
  "i < length ts \<Longrightarrow> rt_phase (ts ! i) = Connected s \<Longrightarrow> rt_phase (fold publish evs ts ! i) = Connected (fold bus_push evs s)"
  by (induction evs arbitrary: ts s) (simp_all add: publish_def)

lemma opened_session:
  assumes "i < length (nd_tasks d)"
  shows "\<exists>s. rt_phase (nd_tasks (open_session l now secs (None, None) i d) ! i) = Connected s \<and>
     rs_queue s = (let evs = drain_fresh_outbound now (ds_outbound_replay (nd_shared d)) in drop (length evs - bus_capacity) evs) \<and>
     rs_lagged s = length (drain_fresh_outbound now (ds_outbound_replay (nd_shared d))) - bus_capacity \<and>
     ds_outbound_replay (nd_shared (open_session l now secs (None, None) i d)) = []"
proof -
  let ?evs = "drain_fresh_outbound now (ds_outbound_replay (nd_shared d))" and ?s = "new_session (nd_shared d) secs"
  define ts where "ts = opened_tasks now secs i d"
  have at: "rt_phase (ts ! i) = Connected (fold bus_push ?evs ?s)" unfolding ts_def opened_tasks_def
    by (rule publishes_at) (use assms in simp_all)
  have len: "i < length ts" using like_publishes assms by (simp add: ts_def opened_tasks_def like_def)
  have "rs_queue (fold bus_push ?evs ?s) = drop (length ?evs - bus_capacity) ?evs" "rs_lagged (fold bus_push ?evs ?s) = length ?evs - bus_capacity"
    using bus_pushes [of ?s ?evs] by (simp_all add: new_session_def)
  with at len show ?thesis by (simp add: open_session_def Let_def set_task_def ts_def [symmetric])
qed

text \<open>
  C23: What survives an outage of the relays. Of the negotiation emitted while no relay is connected the newest 256 messages are kept, and
  the next session to open gets, in order, exactly those of them that are then at most ten seconds old; older ones are dropped.
  It gets them over a bus of 64 places it cannot read from meanwhile: of more than 64 such messages the oldest are lost, and
  counted as such.
\<close>

theorem replay_after_outage:
  assumes "receiver_count (nd_tasks d) = 0" "\<not> nd_stopped d" "ds_outbound_replay (nd_shared d) = []"
    and "i < length (nd_tasks d)" "rt_phase (nd_tasks d ! i) = Dialing" "\<not> rt_cancel (nd_tasks d ! i)"
    and "\<forall>(t, _, out) \<in> set outs. out \<noteq> OutAnnounce"
    and "evs = map snd (filter (\<lambda>(t, _). duration_since now t \<le> 10000) (drop (length outs - 256) (emitted l (nd_shared d) outs)))"
  shows "\<exists>s d'. drive l tree (Dialed i now secs None (None, None)) (fold (\<lambda>(now, secs, out). pump_outbound l now secs out) outs d) = d' \<and>
     rt_phase (nd_tasks d' ! i) = Connected s \<and> rs_queue s = drop (length evs - 64) evs \<and> rs_lagged s = length evs - 64 \<and>
     ds_outbound_replay (nd_shared d') = []"
proof -
  let ?buf = "drop (length outs - OUTBOUND_REPLAY_CAP) (emitted l (nd_shared d) outs)"
  let ?d = "d\<lparr>nd_shared := (nd_shared d)\<lparr>ds_outbound_replay := ?buf\<rparr>\<rparr>"
  have "fold (\<lambda>(now, secs, out). pump_outbound l now secs out) outs d = ?d"
    by (rule pumps_buffer [OF assms(1-3)]) (use assms(7) in auto)
  then have "drive l tree (Dialed i now secs None (None, None)) (fold (\<lambda>(now, secs, out). pump_outbound l now secs out) outs d) =
      open_session l now secs (None, None) i ?d" using assms(4-6) by (simp add: dialed_def)
  moreover have "drain_fresh_outbound now ?buf = evs"
    by (simp add: drain_fresh_outbound_def assms(8) OUTBOUND_REPLAY_CAP_def OUTBOUND_REPLAY_TTL_MS_def)
  ultimately show ?thesis using opened_session [of i ?d l now secs] assms(4) by (simp add: bus_capacity_def Let_def)
qed

section \<open>Pacing\<close>

lemma jittered_bounds:
  assumes "unat base \<le> 1000000"
  shows "unat base - unat base * 15 div 100 \<le> unat (jittered_ms l base seed salt) \<and>
     unat (jittered_ms l base seed salt) \<le> unat base - unat base * 15 div 100 + unat base * 30 div 100"
proof -
  let ?b = "unat base"
  have m: "unat (base * 15) = ?b * 15" "unat (base * 30) = ?b * 30" using assms by (simp_all add: unat_word_ariths)
  then have d: "unat (base * 15 div 100) = ?b * 15 div 100" "unat (base * 30 div 100) = ?b * 30 div 100" by (simp_all add: unat_div)
  have s: "unat (base - base * 15 div 100) = ?b - ?b * 15 div 100" by (subst unat_sub) (simp_all add: word_le_nat_alt d)
  have r: "unat (raw mod (base * 30 div 100 + 1)) \<le> ?b * 30 div 100" for raw :: u64
  proof -
    have "unat (base * 30 div 100 + 1) = ?b * 30 div 100 + 1" using assms by (simp add: unat_word_ariths d)
    then show ?thesis by (simp add: unat_mod less_Suc_eq_le [symmetric])
  qed
  define raw where "raw = (of_nat (le_val (take 8 (nl_sha256 l (seed @ le_bytes 8 (unat salt))))) :: u64)"
  have sum: "unat (base - base * 15 div 100 + raw mod (base * 30 div 100 + 1)) = (?b - ?b * 15 div 100) + unat (raw mod (base * 30 div 100 + 1))"
    using assms r [of raw] by (simp add: unat_word_ariths(1) s)
  show ?thesis
  proof (cases "base = 0 \<or> base * 30 div 100 = 0")
    case True
    then have "jittered_ms l base seed salt = base" "?b * 30 div 100 = 0" using d(2) by (auto simp: jittered_ms_def Let_def)
    then show ?thesis by simp
  next
    case False
    then have "jittered_ms l base seed salt = base - base * 15 div 100 + raw mod (base * 30 div 100 + 1)" by (simp add: jittered_ms_def Let_def raw_def)
    then show ?thesis using sum r [of raw] by (simp only: add_left_mono le_add1 simp_thms)
  qed
qed

definition paced :: "relay_task \<Rightarrow> bool" where
  "paced t \<longleftrightarrow> rr_backoff_attempt (rt_retry t) \<le> 6 \<and> (\<forall>w. rt_phase t = Waiting w \<longrightarrow> 1700 \<le> w \<and> w \<le> 69000)"

lemma attempts: "(r :: u32) \<le> 6 \<Longrightarrow> r \<in> {0, 1, 2, 3, 4, 5, 6}"
proof -
  assume "r \<le> 6"
  then have "unat r \<in> {0, 1, 2, 3, 4, 5, 6}" by (auto simp: word_le_nat_alt)
  then show ?thesis by (auto simp: word_unat_eq_iff)
qed

text \<open>The waits a task goes through: 2, 4, 8, 16, 32 and 60 seconds, each within fifteen percent.\<close>

lemma next_wait_bounds:
  assumes "rr_backoff_attempt r \<le> 6" "next_wait_ms l seed r = (w, r')"
  shows "rr_backoff_attempt r' = min (rr_backoff_attempt r + 1) 6 \<and>
     (\<exists>base. base = min (2 ^ unat (rr_backoff_attempt r')) 60 * 1000 \<and> base - base * 15 div 100 \<le> unat w \<and> unat w \<le> base - base * 15 div 100 + base * 30 div 100) \<and>
     1700 \<le> w \<and> w \<le> 69000"
proof -
  define a where "a = min (rr_backoff_attempt r + 1) 6"
  have a: "a \<in> {1, 2, 3, 4, 5, 6}" using attempts [OF assms(1)] by (auto simp: a_def)
  have r': "rr_backoff_attempt r' = a" and w: "w = jittered_ms l (min (2 ^ unat a) 60 * 1000) seed (ucast a)"
    using assms(2) by (auto simp: next_wait_ms_def Let_def a_def)
  have base: "unat (min (2 ^ unat a) 60 * 1000 :: u64) = min (2 ^ unat a) 60 * 1000" using a by auto
  then have "unat (min (2 ^ unat a) 60 * 1000 :: u64) \<le> 1000000" by simp
  from jittered_bounds [OF this, of l seed "ucast a"] base r'
  have b: "\<exists>base. base = min (2 ^ unat (rr_backoff_attempt r')) 60 * 1000 \<and> base - base * 15 div 100 \<le> unat w \<and> unat w \<le> base - base * 15 div 100 + base * 30 div 100"
    unfolding w by simp
  moreover have "1700 \<le> w \<and> w \<le> 69000" using b a unfolding r' by (auto simp: word_le_nat_alt)
  ultimately show ?thesis using r' by (simp add: a_def)
qed

lemma back_off_paced: assumes "rr_backoff_attempt (rt_retry t) \<le> 6" shows "paced (back_off l sh t)"
proof (cases "next_wait_ms l (retry_seed sh (rt_url t)) (rt_retry t)")
  case (Pair w r)
  from next_wait_bounds [OF assms Pair] have "rr_backoff_attempt r \<le> 6" "1700 \<le> w" "w \<le> 69000" by simp_all
  with Pair assms show ?thesis by (simp add: back_off_def paced_def)
qed

lemma over_paced: "rr_backoff_attempt (rt_retry t) \<le> 6 \<Longrightarrow> paced (session_over l sh out lasted t)"
proof (cases out)
  case ForcedReconnect
  then show ?thesis by (simp add: paced_def reset_forced_reconnect_def)
qed (auto simp: note_failure_def intro: back_off_paced simp: paced_def [of "_\<lparr>rt_phase := TaskOver\<rparr>"])

lemma select_retry:
  assumes "rr_backoff_attempt (st_retry x) \<le> 6"
  shows "rr_backoff_attempt (st_retry (settle_stable now x)) \<le> 6"
    "rr_backoff_attempt (st_retry (snd (session_select l tree now secs primary inp x))) \<le> 6"
proof -
  have "rr_backoff_attempt (st_retry (snd (read_frame l tree now primary t x))) \<le> 6" for t
    using assms by (simp add: read_frame_def admit_session_def note_admitted_def Let_def split: relay_control.split)
  then show "rr_backoff_attempt (st_retry (snd (session_select l tree now secs primary inp x))) \<le> 6"
    using assms by (cases inp) (simp_all add: Let_def write_session_def split: list.split option.split)
qed (use assms in \<open>simp add: settle_stable_def note_stable_def Let_def\<close>)

lemma paced_update: "\<forall>t \<in> set ts. paced t \<Longrightarrow> paced t' \<Longrightarrow> \<forall>t \<in> set (ts[i := t']). paced t"
  by (auto dest!: set_update_subset_insert [THEN subsetD])

lemma publish_paced: "\<forall>t \<in> set ts. paced t \<Longrightarrow> \<forall>t \<in> set (publish ev ts). paced t"
  by (auto simp: publish_def paced_def elim!: in_session.elims)

lemma publishes_paced: "\<forall>t \<in> set ts. paced t \<Longrightarrow> \<forall>t \<in> set (fold publish evs ts). paced t"
proof (induction evs arbitrary: ts)
  case (Cons ev evs)
  from Cons.IH [OF publish_paced [OF Cons.prems]] show ?case by simp
qed simp

lemma turn_paced:
  assumes "\<forall>t \<in> set (nd_tasks d). paced t" "i < length (nd_tasks d)"
  shows "\<forall>t \<in> set (nd_tasks (session_turn l tree now secs inp i s d)). paced t"
proof -
  have r: "rr_backoff_attempt (rt_retry (nd_tasks d ! i)) \<le> 6" using assms by (simp add: paced_def)
  obtain out x where r_eq: "turn_result l tree now secs inp i s d = (out, x)" by (cases "turn_result l tree now secs inp i s d")
  have "rr_backoff_attempt (st_retry (snd (turn_result l tree now secs inp i s d))) \<le> 6"
    using select_retry(2) select_retry(1) [of "\<lparr>st_shared = nd_shared d, st_live = nd_primary_live d, st_retry = rt_retry (nd_tasks d ! i), st_session = s\<rparr>" now] r
    by (simp add: turn_result_def Let_def)
  then have x: "rr_backoff_attempt (st_retry x) \<le> 6" by (simp add: r_eq)
  then show ?thesis unfolding turn_parts(1) [OF r_eq refl]
    by (intro paced_update [OF assms(1)]) (cases out, simp add: paced_def, simp add: over_paced del: session_over.simps)
qed

lemma open_paced:
  assumes "\<forall>t \<in> set (nd_tasks d). paced t" "i < length (nd_tasks d)"
  shows "\<forall>t \<in> set (nd_tasks (open_session l now secs wrote i d)). paced t"
proof -
  have r: "rr_backoff_attempt (rt_retry (nd_tasks d ! i)) \<le> 6" using assms by (simp add: paced_def)
  define ts where "ts = opened_tasks now secs i d"
  have "\<forall>t \<in> set ((nd_tasks d)[i := (nd_tasks d ! i)\<lparr>rt_phase := Connected s\<rparr>]). paced t" for s using assms(1) r by (intro paced_update) (simp_all add: paced_def)
  then have ts: "\<forall>t \<in> set ts. paced t" unfolding ts_def opened_tasks_def using publishes_paced by blast
  moreover have "i < length ts" using like_publishes assms(2) by (simp add: ts_def opened_tasks_def like_def)
  ultimately have at: "paced (ts ! i)" using nth_mem by blast
  then have rs: "rr_backoff_attempt (rt_retry (ts ! i)) \<le> 6" by (simp add: paced_def)
  have "paced ((ts ! i)\<lparr>rt_phase := in_session f (rt_phase (ts ! i))\<rparr>)" for f
    using at by (cases "rt_phase (ts ! i)") (simp_all add: paced_def)
  note updates = paced_update [OF ts this] paced_update [OF ts over_paced [OF rs]] paced_update [OF assms(1) over_paced [OF r]]
  show ?thesis using ts updates unfolding open_session_def Let_def ts_def [symmetric]
    by (simp add: set_task_def del: session_over.simps split: option.split)
qed

lemma cancel_paced: "\<forall>t \<in> set ts. paced t \<Longrightarrow> \<forall>t \<in> set (cancel_tasks is ts). paced t"
  unfolding cancel_tasks_def
proof (induction "is" arbitrary: ts)
  case (Cons i js)
  have "\<forall>t \<in> set (ts[i := (ts ! i)\<lparr>rt_cancel := True\<rparr>]). paced t"
  proof (cases "i < length ts")
    case True
    then have "paced (ts ! i)" using Cons.prems by simp
    then have "paced ((ts ! i)\<lparr>rt_cancel := True\<rparr>)" by (simp add: paced_def)
    then show ?thesis by (rule paced_update [OF Cons.prems])
  qed (use Cons.prems in \<open>simp add: list_update_beyond\<close>)
  from Cons.IH [OF this] show ?case by simp
qed simp

lemma drive_paced: assumes "\<forall>t \<in> set (nd_tasks d). paced t" shows "\<forall>t \<in> set (nd_tasks (drive l tree e d)). paced t"
proof (cases e)
  case (Dialed i now secs err wrote)
  have "rr_backoff_attempt (note_failure (rt_retry (nd_tasks d ! i))) \<le> 6" if "i < length (nd_tasks d)"
    using assms that by (simp add: paced_def note_failure_def)
  then have "paced (back_off l (nd_shared d) ((nd_tasks d ! i)\<lparr>rt_retry := note_failure (rt_retry (nd_tasks d ! i))\<rparr>))" if "i < length (nd_tasks d)"
    using that by (intro back_off_paced) simp
  moreover have "paced ((nd_tasks d ! i)\<lparr>rt_phase := TaskOver\<rparr>)" if "i < length (nd_tasks d)" using assms that by (simp add: paced_def)
  ultimately have "\<forall>t \<in> set ((nd_tasks d)[i := back_off l (nd_shared d) ((nd_tasks d ! i)\<lparr>rt_retry := note_failure (rt_retry (nd_tasks d ! i))\<rparr>)]). paced t"
    "\<forall>t \<in> set ((nd_tasks d)[i := (nd_tasks d ! i)\<lparr>rt_phase := TaskOver\<rparr>]). paced t" if "i < length (nd_tasks d)"
    using that paced_update [OF assms] by blast+
  with Dialed assms open_paced [OF assms] show ?thesis by (simp add: dialed_def Let_def set_task_def split: option.split)
next
  case (WaitOver i forced)
  have "paced ((nd_tasks d ! i)\<lparr>rt_phase := Dialing, rt_retry := (if forced then reset_forced_reconnect (rt_retry (nd_tasks d ! i)) else rt_retry (nd_tasks d ! i))\<rparr>)"
    (is "paced ?t") if "i < length (nd_tasks d)" using assms that by (simp add: paced_def reset_forced_reconnect_def)
  from paced_update [OF assms this] WaitOver assms show ?thesis by (auto simp: wait_over_def Let_def set_task_def split: task_phase.split if_splits)
next
  case (Pumped now secs out)
  with assms publish_paced [OF assms] show ?thesis by (simp add: pump_outbound_def Let_def)
next
  case (AnnounceTick secs)
  with assms publish_paced [OF assms] show ?thesis by (simp add: announce_tick_def)
next
  case (FallbackPoll now)
  have "paced (new_task False u)" for u by (simp add: paced_def new_task_def new_retry_def)
  with FallbackPoll assms cancel_paced [OF assms] show ?thesis by (auto simp: fallback_poll_def Let_def split: fallback_action_kind.split)
qed (use assms turn_paced [OF assms] in \<open>auto simp: paced_def split: task_phase.split\<close>)

lemma run_paced: "\<forall>t \<in> set (nd_tasks d). paced t \<Longrightarrow> \<forall>t \<in> set (nd_tasks (fold (drive l tree) es d)). paced t"
proof (induction es arbitrary: d)
  case (Cons e es)
  from Cons.IH [OF drive_paced [OF Cons.prems]] show ?case by simp
qed simp

text \<open>
  A driver never hammers a relay. In any run a task that waits before it dials again waits between 1.7 and 69 seconds; presence is
  announced again after 30 seconds and from then on every 102 to 138 seconds. (A session that is forced to reconnect dials at once.)
\<close>

theorem driver_pacing:
  assumes "t \<in> set (nd_tasks (fold (drive l tree) es (start_driver l cfg identity)))" "rt_phase t = Waiting w"
  shows "1700 \<le> w \<and> w \<le> 69000 \<and> announce_wait l (nc_device_id cfg) 0 = 30000 \<and>
     (let gap = announce_wait l (nc_device_id cfg) (Suc n) in 102000 \<le> gap \<and> gap \<le> 138000)"
proof -
  have "\<forall>t \<in> set (nd_tasks (start_driver l cfg identity)). paced t" by (auto simp: start_driver_def paced_def new_task_def new_retry_def)
  from run_paced [OF this, of l tree es] assms have "1700 \<le> w \<and> w \<le> 69000" by (simp add: paced_def)
  moreover have "announce_wait l (nc_device_id cfg) 0 = 30000" by (simp add: announce_wait_def ANNOUNCE_BACKOFF_MS_def ANNOUNCE_STEADY_MS_def)
  moreover have "announce_wait l (nc_device_id cfg) (Suc n) = jittered_ms l 120000 (nc_device_id cfg) (of_nat (Suc n))"
    by (simp add: announce_wait_def ANNOUNCE_BACKOFF_MS_def ANNOUNCE_STEADY_MS_def)
  moreover have "102000 \<le> jittered_ms l 120000 seed salt \<and> jittered_ms l 120000 seed salt \<le> 138000" for seed salt
    using jittered_bounds [of 120000 l seed salt] by (simp add: word_le_nat_alt)
  ultimately show ?thesis by (simp add: Let_def)
qed

section \<open>Witnesses\<close>

theorem fallback_only_in_outage_witness:
  "\<exists>qs t rs t1. run_samples sample_lib sample_tree [FallbackPoll 0, FallbackPoll 25000] sample_bob = qs @ (t, 0) # rs \<and>
     t1 \<in> fst ` set rs \<and> 20000 \<le> duration_since t1 t"
proof -
  let ?d = "fold (drive sample_lib sample_tree) [FallbackPoll 0, FallbackPoll 25000] (start_driver sample_lib (sample_cfg ''b'') (driver_key ''kb''))"
  have "1 < length (nd_tasks ?d)" "\<not> rt_primary (nd_tasks ?d ! 1)" "\<not> rt_cancel (nd_tasks ?d ! 1)" by code_simp+
  from fallback_only_in_outage [OF refl this] show ?thesis unfolding sample_bob_def by blast
qed

text \<open>Of two offers emitted in an outage the one that is more than ten seconds old when a session opens is not replayed.\<close>

theorem replay_after_outage_witness:
  "\<exists>s d'. drive sample_lib sample_tree (Dialed 0 12000 17 None (None, None))
       (pump_outbound sample_lib 9000 12 (OutDirected ''b'' (MsgOffer ''a'' ''p'' ''sdp''))
         (pump_outbound sample_lib 100 3 (OutDirected ''b'' (MsgOffer ''a'' ''o'' ''sdp'')) sample_alice)) = d' \<and>
     rt_phase (nd_tasks d' ! 0) = Connected s \<and> map ne_kind (rs_queue s) = [SIGNALING_EPHEMERAL_KIND] \<and> rs_lagged s = 0"
proof -
  let ?outs = "[(100, 3, OutDirected ''b'' (MsgOffer ''a'' ''o'' ''sdp'')), (9000, 12, OutDirected ''b'' (MsgOffer ''a'' ''p'' ''sdp''))]
    :: (u64 \<times> u64 \<times> driver_outbound) list"
  have d: "receiver_count (nd_tasks sample_alice) = 0" "\<not> nd_stopped sample_alice" "ds_outbound_replay (nd_shared sample_alice) = []"
    "0 < length (nd_tasks sample_alice)" "rt_phase (nd_tasks sample_alice ! 0) = Dialing" "\<not> rt_cancel (nd_tasks sample_alice ! 0)" by code_simp+
  have "\<forall>(t, _, out) \<in> set ?outs. out \<noteq> OutAnnounce" by simp
  from replay_after_outage [OF d this refl, of sample_lib sample_tree 12000 17] show ?thesis
    by (auto simp: emitted_def outbound_event_kind duration_since_def simp del: outbound_event.simps)
qed

theorem driver_pacing_witness:
  "\<exists>w. rt_phase (nd_tasks (fold (drive sample_lib sample_tree) [Dialed 0 0 0 (Some ''refused'') (None, None)] sample_bob) ! 0) = Waiting w \<and> 1700 \<le> w \<and> w \<le> 69000"
proof -
  let ?d = "fold (drive sample_lib sample_tree) [Dialed 0 0 0 (Some ''refused'') (None, None)] (start_driver sample_lib (sample_cfg ''b'') (driver_key ''kb''))"
  have "(case rt_phase (nd_tasks ?d ! 0) of Waiting w \<Rightarrow> True | _ \<Rightarrow> False)" "0 < length (nd_tasks ?d)" by code_simp+
  then obtain w where "rt_phase (nd_tasks ?d ! 0) = Waiting w" "nd_tasks ?d ! 0 \<in> set (nd_tasks ?d)" by (auto split: task_phase.splits)
  with driver_pacing [OF this(2,1)] show ?thesis unfolding sample_bob_def by blast
qed

end
