(* ===== verification/Spec2Isabelle.thy ===== *)
theory Spec2Isabelle
  imports Link_Safety Nostr_Pacing
begin

text \<open>
  MyOwnMesh is a daemon that keeps a named network of devices connected. Each device has an Ed25519
  identity; devices of one network find each other by signaling, open an encrypted data channel,
  authenticate each other, and exchange application frames. Who belongs to the network, and who may say
  so, is kept in signed logs every device replays for itself. This development models the per-network
  engine, the code under \<open>src/crates/myownmesh-core/src/\<close>, the signaling it uses (\<open>src/crates/myownmesh-signaling/src/\<close>) and the
  way of media to the daemon's clients.

  \<^bold>\<open>How the code is modelled.\<close> One driver task owns the state of a network (\<open>NetworkState\<close>,
  \<open>engine/state.rs\<close>) and runs one event at a time, so a handler is a function on the record \<open>engine\<close>
  of theory \<open>Engine\<close>. What the code asks of the outside comes from the record \<open>env\<close>: clocks, whether the
  n-th send or file write succeeds, whether closing a session finishes, the custody gate, and what the WebRTC stack
  answers (record \<open>transport\<close>). A handler reads the clock once; after each await on that stack the process-wide
  pressure count is read anew (\<open>resumed\<close>). The crates the code
  calls for base32, SHA-256 and Ed25519 are the record \<open>crypto\<close>, serde's readers and writers are
  function arguments (\<open>decode\<close>, \<open>key\<close>); what a theorem needs of them is a hypothesis (\<open>b32_documented\<close>,
  \<open>inj_on key\<close>, \<open>own_signatures\<close>) and a witness meets it with a concrete instance, \<open>sample_crypto\<close>. Random
  values are arguments. What a handler does outwards (frames, events, spawned tasks, replies, files) is
  appended to \<open>es_fx\<close>. A task the code spawns is recorded there and its body is a definition of its own,
  which a later step runs. Errors are \<open>Inl\<close> values of \<open>error\<close> (\<open>error.rs\<close>).

  \<^bold>\<open>Theories and sources.\<close>
  \<^item> \<open>Prelude\<close>, \<open>Mesh_Error\<close>: shared vocabulary, the standard-library functions used, the error type.
  \<^item> \<open>Identity\<close> (\<open>identity.rs\<close>, \<open>signing.rs\<close>, \<open>verification.rs\<close>): every accepted spelling of a device id has
    one canonical form, and signatures verify alike under all of them.
  \<^item> \<open>Topology\<close> (\<open>topology/\<close>): the four selectors. The locales \<open>shape\<close> and \<open>connected_shape\<close> state the
    trait's contract: symmetric edges, hops that exist, edges that connect all members.
  \<^item> \<open>Network_State\<close>, \<open>Member_Log\<close> (\<open>network_state.rs\<close>): the signed governance log with its quorum rules and
    replay, the member log with its last-writer-wins verdict (locale \<open>lww_register\<close>), merge and migration.
  \<^item> \<open>Roster\<close> (\<open>roster.rs\<close>): the cache of authorized peers (locale \<open>authorization_store\<close>) and its gossip roots.
  \<^item> \<open>Projection\<close>, \<open>Membership\<close>, \<open>Governance\<close>, \<open>Gov_Safety\<close> (\<open>engine/governance.rs\<close>): roles re-derived from the
    logs and mirrored into the roster, eviction, proposals and ratification, adoption of a peer's logs.
  \<^item> \<open>Engine\<close>, \<open>Ladder\<close>, \<open>Handshake\<close>, \<open>Heartbeat\<close>, \<open>Reliable\<close>, \<open>Routing\<close> (the files of \<open>engine/\<close> of those names,
    \<open>phase.rs\<close>, \<open>services/relay.rs\<close>): authentication and bilateral approval, keepalive and clock skew,
    acknowledged delivery, routed frames, shelving of links.
  \<^item> \<open>Recovery\<close> (\<open>engine/state.rs\<close>, \<open>engine/scheduler.rs\<close>): the pacing of reconnects, of the socket-pressure
    circuit the networks of a process share, and of announces.
  \<^item> \<open>Dispatch\<close> (\<open>engine/mod.rs\<close>, \<open>rpc.rs\<close>): the gate and dispatch of inbound frames, RPC.
  \<^item> \<open>Sdp\<close>, \<open>Connect\<close> (\<open>engine/mod.rs\<close>, the readers of \<open>transport/webrtc.rs\<close>, \<open>ice.rs\<close>, \<open>diag.rs\<close>): session descriptions and
    candidates, offers and answers, restarts, stale sessions, the handlers of signaling messages.
  \<^item> \<open>Watch\<close> (\<open>engine/ice_watchdog.rs\<close>, \<open>network_watch.rs\<close>, \<open>wake.rs\<close>, \<open>tick.rs\<close>, \<open>ladder.rs\<close>, \<open>mod.rs\<close>): transport events, the
    watchdogs, network changes, waking up, connection shaping, the periodic passes.
  \<^item> \<open>Commands\<close> (\<open>engine/mod.rs\<close>, \<open>engine/state.rs\<close>): commands and shutdown.
  \<^item> \<open>Links\<close>: the locales \<open>restart_invariant\<close>, \<open>link_invariant\<close>, \<open>watch_invariant\<close>, what a property must survive to be kept
    by restarting, by opening and closing, and by watching links; interpreted for the signed state and for admission
    in \<open>Driver\<close>, for the views of a peer and for the offline flag in \<open>Link_Safety\<close>.
  \<^item> \<open>Driver\<close> (\<open>run_driver\<close> of \<open>engine/mod.rs\<close>): the driver as the step relation \<open>engine_step\<close> over all of it.
  \<^item> \<open>Link_Safety\<close>: who offers, which answers and candidates count, what tears a link down, what never hangs.
  \<^item> \<open>Video\<close> (\<open>transport/webrtc.rs\<close>): the reassembly of video units from lossy, reordered packets.
  \<^item> \<open>Media\<close> (\<open>engine/video_fanout.rs\<close>, the video dispatch of \<open>engine/state.rs\<close> and \<open>mod.rs\<close>, \<open>ipc/media_queue.rs\<close> and \<open>control.rs\<close> of \<open>myownmesh\<close>): received video on its way to the
    clients: subscriber queues that evict, the budgeted hand-off (locale \<open>drained_queue\<close>, both), the frames of the media pipes.
  \<^item> \<open>Bridge\<close> (\<open>engine/signaling_bridge.rs\<close>, \<open>local.rs\<close> and \<open>lib.rs\<close> of \<open>myownmesh-signaling\<close>): the pumps between the engine and its
    signaling drivers, the delivery gate, the in-process broker.
  \<^item> \<open>Relay_Server\<close> (\<open>server.rs\<close> and \<open>nostr/event.rs\<close> of \<open>myownmesh-signaling\<close>): the signaling relay as the step relation \<open>relay_step\<close>;
    the locale \<open>hub_invariant\<close>, interpreted for admission, bounds, presence and authenticity.
  \<^item> \<open>Nostr_Driver\<close>, \<open>Nostr_Pacing\<close> (\<open>nostr/\<close> and \<open>upstream.rs\<close> of \<open>myownmesh-signaling\<close>): the driver that talks to relays, its tasks one
    event at a time (\<open>drive\<close>), with the locale \<open>shared_invariant\<close>, interpreted for its bounds and for what it delivers; signaling from engine
    to engine over a relay, the use of public relays, the replay after an outage, the pacing.

  \<^bold>\<open>What is shown.\<close> This theory has the properties of all reachable states: the engine acts only on what the
  signed logs say, every owner of a network closed from genesis is delegated by a chain of signatures from
  the founder, and a link carries application frames only after both sides authenticated and approved.
  The component theories prove what these rest on and the behaviour of each part: quorum and replay,
  convergence of the logs and of the roster, exactly-once and in-order reliable delivery over a lossy
  link, at-most-once handling and trust of routed frames, bounds and termination of the pacing machines,
  the liveness of the keepalive and connect sweeps, offers without glare, dialing that stops under socket pressure, the offline
  hold, RPC results, whole video units on their way to the clients, signaling over relays, round trips. Theorems that end in an error describe defects
  the code has.

  \<^bold>\<open>Bounds.\<close> Counters and clocks keep their width: \<open>u64\<close>, \<open>u32\<close>, \<open>u8\<close> and \<open>i64\<close> are words, with saturation and
  wrap-around as the code has them; \<open>usize\<close> lengths are naturals. Every definition is total: loops are structural or
  folds over finite lists, and no fuel is used. Where an order is left open by the code (iteration of a hash map)
  the model takes key order.

  \<^bold>\<open>Not modelled.\<close> The WebRTC sessions themselves (\<open>transport/webrtc.rs\<close> over a third-party stack), the sending side of media
  lanes with their renegotiation and its ticker, the selected candidate pair and the connectivity snapshots; the sockets under signaling and the
  LAN discovery over multicast; the daemon's control socket, CLI and service files; the updater; reading and writing files and
  their formats; logging, traces and traffic counters. These are I/O, platform glue and text tables around the logic modelled here.
\<close>

section \<open>The engine as a whole\<close>

text \<open>
  C1: The engine never acts on a state its logs do not justify. Whatever frames, commands, ticks and tasks the
  driver runs, in whatever order, from a state whose signed log replays to the kind, topology, splits and
  governing roles it acts on and whose live links are authenticated and approved on both sides, both
  stay true, and network and identity stay the same.
\<close>

theorem reachable_states_sound:
  assumes "engine_reaches c st0 st" "gov_sound c (es_network_id st0) (es_gov st0)" "admission_inv st0"
    and "own_signatures c (es_identity st0)"
  shows "gov_sound c (es_network_id st0) (es_gov st) \<and> admission_inv st \<and>
     es_network_id st = es_network_id st0 \<and> es_identity st = es_identity st0"
  using reaches_sound [OF assms(1,2,4)] reaches_adm [OF assms(1,3)] by (auto simp: same_self_def)

lemma sample_own: "own_signatures sample_crypto (es_identity (sample_engine ps))"
proof -
  have s: "sign_with sample_crypto (replicate 32 (CHR ''A'')) m = ''aa''" for m
  proof -
    have "sign_with sample_crypto (replicate 32 (CHR ''A'')) m = sign_with sample_crypto (replicate 32 (CHR ''A'')) []"
      by (simp add: sign_with_def sample_crypto_def)
    also have "\<dots> = ''aa''" by code_simp
    finally show ?thesis .
  qed
  have "ed_verify sample_crypto = (\<lambda>k m g. hd g = hd k)" by (simp add: sample_crypto_def)
  then have v: "verify sample_crypto ''a'' m ''aa'' = verify sample_crypto ''a'' [] ''aa''" for m
    unfolding verify_def by (simp only:)
  let ?me = "from_signing_key sample_crypto (replicate 32 (CHR ''A'')) ''alice''"
  have "verify sample_crypto ''a'' [] ''aa'' = Inr True" and i: "id_public_id ?me = ''a''" by code_simp+
  then have "verify sample_crypto ''a'' m ''aa'' = Inr True" for m using v by metis
  moreover have "es_identity (sample_engine ps) = ?me" "id_signing_key ?me = replicate 32 (CHR ''A'')"
    by (simp_all add: sample_engine_def from_signing_key_def)
  ultimately show ?thesis unfolding own_signatures_def by (simp only: i s simp_thms)
qed

lemma sample_start:
  "gov_sound sample_crypto (es_network_id (sample_engine [])) (es_gov (sample_engine []))" "admission_inv (sample_engine [])"
  using sample_sound(1) by (simp_all add: admission_inv_def peer_of_def sample_engine_def)

text \<open>A run of three steps: a peer announces itself and is offered a link, the channel opens, a frame arrives.\<close>

definition sample_run :: engine where
  "sample_run =
     (let hs = (''n'', ''c'', JNull, None);
          event = (\<lambda>ev. handle_transport_event sample_env (\<lambda>_. Some Approve) hs ''b'' 2 ev)
      in event (Message []) (event DataChannelOpen (handle_signaling_inbound sample_env (PeerAnnounced ''b'') (sample_engine []))))"

lemma event_step:
  "engine_step sample_crypto st (handle_transport_event sample_env decode h d epoch ev st)"
  by (rule engine_step.command [of sample_env, where cmd = "TransportEvent d epoch ev" and rnd = 0 and fresh = "[]"]) simp_all

lemma sample_run_reached: "engine_reaches sample_crypto (sample_engine []) sample_run"
proof -
  let ?s1 = "handle_signaling_inbound sample_env (PeerAnnounced ''b'') (sample_engine [])"
  have "engine_step sample_crypto (sample_engine []) ?s1" by (rule engine_step.signaling) simp
  then show ?thesis unfolding sample_run_def engine_reaches_def Let_def
    by (meson event_step r_into_rtranclp rtranclp.rtrancl_into_rtrancl)
qed

theorem reachable_states_sound_witness:
  "gov_sound sample_crypto ''home'' (es_gov sample_run) \<and> admission_inv sample_run"
  using reachable_states_sound [OF sample_run_reached sample_start sample_own] by simp

text \<open>
  C2: Authority comes from the founder. In every state the engine reaches, if its log closed the network with
  its first entry and never reopened it, every owner the engine acts on is the founder or was made owner by
  a signed grant of an owner of that chain, and every controller likewise by grants of owners or controllers.
\<close>

theorem reachable_owners_delegated:
  assumes "engine_reaches c st0 st" "gov_sound c (es_network_id st0) (es_gov st0)"
    and "own_signatures c (es_identity st0)" "closed_from_genesis (ns_transitions (es_gov st)) founder"
  shows "(in_owners (es_gov st) p \<longrightarrow> delegated c (es_network_id st0) {Owner} (ns_transitions (es_gov st)) founder p) \<and>
     (in_authorities (es_gov st) p \<longrightarrow>
        delegated c (es_network_id st0) {Owner, Controller} (ns_transitions (es_gov st)) founder p)"
proof -
  from reaches_sound [OF assms(1-3)] obtain g where
    g: "log_reaches c (es_network_id st0) (ns_transitions (es_gov st)) g" "governs g = governs (es_gov st)"
    by (auto simp: gov_sound_def replays_def same_self_def)
  have "in_owners (es_gov st) p = in_owners g p" "in_authorities (es_gov st) p = in_authorities g p"
    using g(2) by (simp_all add: governs_simps)
  with chain_of_trust [OF g(1) assms(4)] show ?thesis by (auto simp: chain_inv_def in_owners_def)
qed

lemma sample_run_gov: "es_gov sample_run = sample_state"
proof -
  have "same_gov st (handle_transport_event sample_env (\<lambda>_. Some Approve) h ''b'' 2 ev st)" for st h ev
  proof (rule transport_kinds [of sample_env "\<lambda>_. Some Approve" h "''b''" 2 ev st])
    fix frame
    have "same_gov st (handle_inbound_frame sample_env (\<lambda>_. Some Approve) ''b'' frame st)"
      by (auto simp: handle_inbound_frame_def handle_frame_def Let_def split: option.split
          intro!: same_gov_trans [OF _ same_gov_handshake(2)])
    then show "handle_transport_event sample_env (\<lambda>_. Some Approve) h ''b'' 2 ev st
        \<in> {st, handle_inbound_frame sample_env (\<lambda>_. Some Approve) ''b'' frame st} \<Longrightarrow> ?thesis" by auto
  qed
  from same_gov_trans [OF same_gov_trans [OF gov_links.kept_signaling this] this] have "same_gov (sample_engine []) sample_run"
    unfolding sample_run_def Let_def by (simp del: handle_signaling_inbound.simps)
  then show ?thesis by (simp add: same_gov_def)
qed

theorem reachable_owners_delegated_witness:
  "delegated sample_crypto ''home'' {Owner} sample_log ''a'' ''b''"
proof -
  have t: "ns_transitions (es_gov sample_run) = sample_log" unfolding sample_run_gov by code_simp
  have g: "closed_from_genesis sample_log ''a''"
    by (auto simp: closed_from_genesis_def sample_log_def sample_entry_def)
  have o: "in_owners (es_gov sample_run) ''b''" unfolding sample_run_gov by code_simp
  from reachable_owners_delegated [OF sample_run_reached sample_start(1) sample_own, of "''a''" "''b''"] t g o show ?thesis by simp
qed

text \<open>
  C3: What an application frame may do. In every state the engine reaches, a frame of any kind but the four of
  the handshake that changes anything beyond the counter of rejected frames was sent over a link whose peer
  has proved its identity, to which our approval has been sent, and which has sent its own.
\<close>

theorem reachable_frames_approved:
  assumes "engine_reaches c st0 st" "admission_inv st0" "inbound_admission m = Application"
    and "handle_frame e d m st \<noteq> update_peer d reject_data st"
  shows "\<exists>p. peer_of st d = Some p \<and> pd_authenticated p \<and> pd_local_approve_sent p \<and> pd_remote_approve_seen p"
proof -
  from assms(4) gate_rejects [OF assms(3)] obtain p where p: "peer_of st d = Some p" "is_admitted p" by blast
  with reaches_adm [OF assms(1,2)] show ?thesis by (auto simp: admission_inv_def bilateral_def is_admitted_def)
qed

theorem reachable_frames_approved_witness:
  "\<exists>p. peer_of (sample_engine [(''b'', active_peer)]) ''b'' = Some p \<and> pd_remote_approve_seen p"
proof -
  let ?st = "sample_engine [(''b'', active_peer)]"
  have r: "engine_reaches sample_crypto ?st ?st" by (simp add: engine_reaches_def)
  have p: "peer_of ?st ''b'' = Some active_peer" by (simp add: sample_engine_def peer_of_def sample_peer_def)
  have inv: "admission_inv ?st"
    by (auto simp: admission_inv_def sample_engine_def peer_of_def sample_peer_def bilateral_def active_peer_def split: if_splits)
  let ?m = "Shelve None"
  have "peer_of (handle_frame sample_env ''b'' ?m ?st) ''b'' \<noteq> peer_of (update_peer ''b'' reject_data ?st) ''b''"
    using p by (simp add: handle_frame_def Let_def is_admitted_def active_peer_def default_peer_data_def on_shelve_def touch_data_def reject_data_def)
  then have n: "handle_frame sample_env ''b'' ?m ?st \<noteq> update_peer ''b'' reject_data ?st" by auto
  have a: "inbound_admission ?m = Application" by simp
  from reachable_frames_approved [OF r inv a n] show ?thesis by blast
qed

end
